(* ===== verification/LLT_Prelude.thy ===== *)
theory LLT_Prelude
  imports Complex_Main "HOL-Library.Word" "HOL-Library.Multiset"
begin

text \<open>
  Shared material of the development.  It holds the error values a run of the program can end
  with and the sequencing of fallible steps over them, sized arrays (\<open>std::array\<close> and
  \<open>std::vector\<close> of fixed length) with bounds-checked access, the type of pointers into a memory
  pool, the collections of rewrite rules used by the component theories, and list lemmas that
  several components need.
\<close>

section \<open>Collections of rules\<close>

named_theorems res_simps \<open>sequencing of fallible steps\<close>
named_theorems view_simps \<open>how a field view of a heap changes under a write\<close>
named_theorems queue_simps \<open>effect of queue operations on the abstract queue\<close>

section \<open>How a run can end\<close>

text \<open>
  \<open>AssertFailed\<close> and \<open>Fatal\<close> are \<open>ASSERT\<close> and \<open>FATAL\<close> of \<open>common/macros.h\<close>, which print their
  message and call \<open>exit\<close>.  \<open>OutOfRange\<close> is the exception of a bounds-checked \<open>.at()\<close>, which in a
  \<open>noexcept\<close> function ends the process.  \<open>NullDeref\<close> and \<open>BadIndex\<close> are undefined behaviour of the
  language (a null pointer is followed, an unchecked index leaves its array), as is \<open>SignedOverflow\<close> (the
  result of a signed 32-bit operation does not fit).  \<open>Diverges\<close> is a loop that used up the number of iterations its model allows.
\<close>

datatype error =
    AssertFailed string
  | Fatal string
  | OutOfRange
  | NullDeref
  | BadIndex
  | SignedOverflow
  | Diverges

type_synonym 'a res = "error + 'a"

definition rbind :: "'a res \<Rightarrow> ('a \<Rightarrow> 'b res) \<Rightarrow> 'b res" where
  "rbind m f = (case m of Inl e \<Rightarrow> Inl e | Inr x \<Rightarrow> f x)"

lemma rbind_Inr [simp, res_simps]: "rbind (Inr x) f = f x"
  by (simp add: rbind_def)

lemma rbind_Inl [simp, res_simps]: "rbind (Inl e) f = Inl e"
  by (simp add: rbind_def)

lemma rbind_eq_Inr_iff: "rbind m f = Inr y \<longleftrightarrow> (\<exists>x. m = Inr x \<and> f x = Inr y)"
  by (cases m) auto

lemma rbind_cong [fundef_cong]:
  "m = m' \<Longrightarrow> (\<And>x. m' = Inr x \<Longrightarrow> f x = f' x) \<Longrightarrow> rbind m f = rbind m' f'"
  by (cases m') auto

lemma rbind_assoc: "rbind (rbind m f) g = rbind m (\<lambda>x. rbind (f x) g)"
  by (cases m) auto

definition ASSERT :: "bool \<Rightarrow> string \<Rightarrow> unit res" where
  "ASSERT cond msg = (if cond then Inr () else Inl (AssertFailed msg))"

definition FATAL :: "string \<Rightarrow> 'a res" where
  "FATAL msg = Inl (Fatal msg)"

lemma ASSERT_True [simp, res_simps]: "ASSERT True msg = Inr ()"
  by (simp add: ASSERT_def)

lemma ASSERT_False [simp, res_simps]: "ASSERT False msg = Inl (AssertFailed msg)"
  by (simp add: ASSERT_def)

lemma ASSERT_eq_Inr [simp]: "ASSERT c msg = Inr u \<longleftrightarrow> c"
  by (simp add: ASSERT_def)

text \<open>A loop over a list whose body can fail.\<close>

fun rfold :: "('a \<Rightarrow> 's \<Rightarrow> 's res) \<Rightarrow> 'a list \<Rightarrow> 's \<Rightarrow> 's res" where
  "rfold f [] s = Inr s"
| "rfold f (x # xs) s = rbind (f x s) (rfold f xs)"

lemma rfold_append: "rfold f (xs @ ys) s = rbind (rfold f xs s) (rfold f ys)"
  by (induction xs arbitrary: s) (auto simp: rbind_assoc intro!: rbind_cong)

lemma rfold_map: "rfold f (map g xs) s = rfold (\<lambda>x. f (g x)) xs s"
  by (induction xs arbitrary: s) (auto intro!: rbind_cong)

lemma rfold_total:
  assumes "\<And>x s. x \<in> set xs \<Longrightarrow> f x s = Inr (g x s)"
  shows "rfold f xs s = Inr (fold g xs s)"
  using assms by (induction xs arbitrary: s) auto

section \<open>Pointers and arrays\<close>

text \<open>A pointer to an object of a memory pool is the index of its block; \<open>None\<close> is \<open>nullptr\<close>.\<close>

type_synonym ptr = "nat option"

record 'a arr =
  arr_size :: nat
  arr_get :: "nat \<Rightarrow> 'a"

definition arr_fill :: "nat \<Rightarrow> 'a \<Rightarrow> 'a arr" where
  "arr_fill n v = \<lparr>arr_size = n, arr_get = (\<lambda>_. v)\<rparr>"

definition arr_at :: "'a arr \<Rightarrow> nat \<Rightarrow> 'a res" where
  "arr_at a i = (if i < arr_size a then Inr (arr_get a i) else Inl OutOfRange)"

definition arr_put :: "nat \<Rightarrow> 'a \<Rightarrow> 'a arr \<Rightarrow> 'a arr res" where
  "arr_put i v a =
     (if i < arr_size a then Inr (a\<lparr>arr_get := (arr_get a)(i := v)\<rparr>) else Inl OutOfRange)"

text \<open>The unchecked \<open>operator[]\<close>: leaving the array is undefined behaviour.\<close>

definition arr_index :: "'a arr \<Rightarrow> nat \<Rightarrow> 'a res" where
  "arr_index a i = (if i < arr_size a then Inr (arr_get a i) else Inl BadIndex)"

definition arr_store :: "nat \<Rightarrow> 'a \<Rightarrow> 'a arr \<Rightarrow> 'a arr res" where
  "arr_store i v a =
     (if i < arr_size a then Inr (a\<lparr>arr_get := (arr_get a)(i := v)\<rparr>) else Inl BadIndex)"

lemma arr_at_ok [simp]: "i < arr_size a \<Longrightarrow> arr_at a i = Inr (arr_get a i)"
  by (simp add: arr_at_def)

lemma arr_put_ok [simp]:
  "i < arr_size a \<Longrightarrow> arr_put i v a = Inr (a\<lparr>arr_get := (arr_get a)(i := v)\<rparr>)"
  by (simp add: arr_put_def)

lemma arr_index_ok [simp]: "i < arr_size a \<Longrightarrow> arr_index a i = Inr (arr_get a i)"
  by (simp add: arr_index_def)

lemma arr_store_ok [simp]:
  "i < arr_size a \<Longrightarrow> arr_store i v a = Inr (a\<lparr>arr_get := (arr_get a)(i := v)\<rparr>)"
  by (simp add: arr_store_def)

lemma arr_fill_sel [simp]: "arr_size (arr_fill n v) = n" "arr_get (arr_fill n v) = (\<lambda>_. v)"
  by (simp_all add: arr_fill_def)

section \<open>Lists\<close>

lemma takeWhile_dropWhile_unique:
  assumes "\<forall>x\<in>set xs. P x" and "ys \<noteq> [] \<Longrightarrow> \<not> P (hd ys)"
  shows "takeWhile P (xs @ ys) = xs" and "dropWhile P (xs @ ys) = ys"
  using assms by (auto simp: takeWhile_append dropWhile_append) (cases ys; simp)+

lemma split_list_distinct:
  assumes "distinct (us @ a # vs)"
  shows "a \<notin> set us" and "a \<notin> set vs" and "remove1 a (us @ a # vs) = us @ vs"
  using assms by (auto simp: remove1_append)

lemma distinct_concat_inject:
  assumes "distinct (concat (map f xs))" and "x \<in> set xs" and "y \<in> set xs"
    and "a \<in> set (f x)" and "a \<in> set (f y)"
  shows "f x = f y"
  using assms by (auto simp: distinct_concat_iff)

lemma set_concat_map_snd: "set (concat (map snd L)) = (\<Union>x\<in>set L. set (snd x))"
  by auto

end
