(* ===== verification/Order_Types.thy ===== *)
theory Order_Types
  imports LLT_Prelude
begin

text \<open>
  \<open>common/types.h\<close> and the message structures that the components exchange:
  \<open>exchange/order_server/client_request.h\<close>, \<open>exchange/order_server/client_response.h\<close> and
  \<open>exchange/market_data/market_update.h\<close>.  Identifiers, quantities and priorities are unsigned words
  of the width of the source's types.  A \<open>Price\<close> (\<open>int64_t\<close>) is an integer: the books only compare
  prices and reduce them to an index, and signed overflow is undefined in the source.  The \<open>double\<close>
  members of the configuration are real numbers.
\<close>

section \<open>Identifiers and quantities\<close>

type_synonym OrderId = "64 word"
type_synonym TickerId = "32 word"
type_synonym ClientId = "32 word"
type_synonym Price = int
type_synonym Qty = "32 word"
type_synonym Priority = "64 word"
type_synonym SeqNum = "64 word"
type_synonym Nanos = int

definition OrderId_INVALID :: OrderId where "OrderId_INVALID = - 1"
definition TickerId_INVALID :: TickerId where "TickerId_INVALID = - 1"
definition ClientId_INVALID :: ClientId where "ClientId_INVALID = - 1"
definition Price_INVALID :: Price where "Price_INVALID = 2 ^ 63 - 1"
definition Qty_INVALID :: Qty where "Qty_INVALID = - 1"
definition Priority_INVALID :: Priority where "Priority_INVALID = - 1"

section \<open>Capacities\<close>

text \<open>The capacities are macros a build may override, so they are a parameter of the components.\<close>

record Limits =
  ME_MAX_TICKERS :: nat
  ME_MAX_CLIENT_UPDATES :: nat
  ME_MAX_MARKET_UPDATES :: nat
  ME_MAX_NUM_CLIENTS :: nat
  ME_MAX_ORDER_IDS :: nat
  ME_MAX_PRICE_LEVELS :: nat

definition default_limits :: Limits where
  "default_limits =
     \<lparr>ME_MAX_TICKERS = 8, ME_MAX_CLIENT_UPDATES = 256 * 1024, ME_MAX_MARKET_UPDATES = 256 * 1024,
      ME_MAX_NUM_CLIENTS = 256, ME_MAX_ORDER_IDS = 1024 * 1024, ME_MAX_PRICE_LEVELS = 256\<rparr>"

section \<open>Sides and algorithm types\<close>

datatype Side = Side_INVALID | BUY | SELL | Side_MAX

definition side_rep :: "Side \<Rightarrow> int" where
  "side_rep s = (case s of Side_INVALID \<Rightarrow> 0 | BUY \<Rightarrow> 1 | SELL \<Rightarrow> - 1 | Side_MAX \<Rightarrow> 2)"

text \<open>\<open>static_cast<size_t>(side) + 1\<close> in 64-bit unsigned arithmetic.\<close>

definition sideToIndex :: "Side \<Rightarrow> nat" where
  "sideToIndex side = nat (((side_rep side mod 2 ^ 64) + 1) mod 2 ^ 64)"

definition sideToValue :: "Side \<Rightarrow> int" where
  "sideToValue side = side_rep side"

definition sideToString :: "Side \<Rightarrow> string" where
  "sideToString side =
     (case side of BUY \<Rightarrow> ''BUY'' | SELL \<Rightarrow> ''SELL'' | Side_INVALID \<Rightarrow> ''INVALID'' | Side_MAX \<Rightarrow> ''MAX'')"

lemma sideToIndex_simps [simp]:
  "sideToIndex SELL = 0" "sideToIndex Side_INVALID = 1" "sideToIndex BUY = 2" "sideToIndex Side_MAX = 3"
  by (simp_all add: sideToIndex_def side_rep_def)

lemma sideToIndex_inject: "sideToIndex s = sideToIndex t \<longleftrightarrow> s = t"
  by (cases s; cases t) simp_all

lemma sideToIndex_bound: "sideToIndex s < sideToIndex Side_MAX + 1"
  by (cases s) simp_all

lemma sideToValue_simps [simp]:
  "sideToValue BUY = 1" "sideToValue SELL = - 1" "sideToValue Side_INVALID = 0" "sideToValue Side_MAX = 2"
  by (simp_all add: sideToValue_def side_rep_def)

datatype AlgoType = Algo_INVALID | RANDOM | MAKER | TAKER | Algo_MAX

definition algoTypeToString :: "AlgoType \<Rightarrow> string" where
  "algoTypeToString type =
     (case type of RANDOM \<Rightarrow> ''RANDOM'' | MAKER \<Rightarrow> ''MAKER'' | TAKER \<Rightarrow> ''TAKER''
                 | Algo_INVALID \<Rightarrow> ''INVALID'' | Algo_MAX \<Rightarrow> ''MAX'')"

text \<open>The loop over the enumeration values \<open>INVALID\<close> to \<open>MAX\<close>, in this order.\<close>

definition stringToAlgoType :: "string \<Rightarrow> AlgoType" where
  "stringToAlgoType str =
     (case find (\<lambda>t. algoTypeToString t = str) [Algo_INVALID, RANDOM, MAKER, TAKER, Algo_MAX] of
        Some t \<Rightarrow> t | None \<Rightarrow> Algo_INVALID)"

text \<open>parsing the printed name of an algorithm type gives the type back.\<close>

theorem stringToAlgoType_algoTypeToString: "stringToAlgoType (algoTypeToString t) = t"
  by (cases t) (simp_all add: stringToAlgoType_def algoTypeToString_def)

section \<open>Configuration\<close>

record RiskCfg =
  max_order_size :: Qty
  max_position :: Qty
  max_loss :: real

record TradeEngineCfg =
  clip :: Qty
  threshold :: real
  risk_cfg :: RiskCfg

section \<open>Client requests\<close>

datatype ClientRequestType = Request_INVALID | Request_NEW | Request_CANCEL

record MEClientRequest =
  req_type :: ClientRequestType
  req_client_id :: ClientId
  req_ticker_id :: TickerId
  req_order_id :: OrderId
  req_side :: Side
  req_price :: Price
  req_qty :: Qty

record OMClientRequest =
  omreq_seq_num :: SeqNum
  omreq_request :: MEClientRequest

section \<open>Client responses\<close>

datatype ClientResponseType =
    Response_INVALID | ACCEPTED | CANCELED | FILLED | CANCEL_REJECTED

record MEClientResponse =
  rsp_type :: ClientResponseType
  rsp_client_id :: ClientId
  rsp_ticker_id :: TickerId
  rsp_client_order_id :: OrderId
  rsp_market_order_id :: OrderId
  rsp_side :: Side
  rsp_price :: Price
  rsp_exec_qty :: Qty
  rsp_leaves_qty :: Qty

record OMClientResponse =
  omrsp_seq_num :: SeqNum
  omrsp_response :: MEClientResponse

section \<open>Market updates\<close>

datatype MarketUpdateType =
    Update_INVALID | CLEAR | ADD | MODIFY | CANCEL | TRADE | SNAPSHOT_START | SNAPSHOT_END

record MEMarketUpdate =
  upd_type :: MarketUpdateType
  upd_order_id :: OrderId
  upd_ticker_id :: TickerId
  upd_side :: Side
  upd_price :: Price
  upd_qty :: Qty
  upd_priority :: Priority

text \<open>The default member initialisers.\<close>

definition MEMarketUpdate_default :: MEMarketUpdate where
  "MEMarketUpdate_default =
     \<lparr>upd_type = Update_INVALID, upd_order_id = OrderId_INVALID, upd_ticker_id = TickerId_INVALID,
      upd_side = Side_INVALID, upd_price = Price_INVALID, upd_qty = Qty_INVALID,
      upd_priority = Priority_INVALID\<rparr>"

record MDPMarketUpdate =
  mdp_seq_num :: SeqNum
  mdp_update :: MEMarketUpdate

end
