(* ===== verification/Mem_Pool.thy ===== *)
theory Mem_Pool
  imports LLT_Prelude
begin

text \<open>
  \<open>Common::MemPool\<close> of \<open>common/mem_pool.h\<close> and \<open>OptCommon::OptMemPool\<close> of
  \<open>common/opt_mem_pool.h\<close>: a fixed vector of blocks with a free flag each and a cursor to the next
  free block.  The blocks are the heap of the order books, so this theory also has the reads and
  writes of objects through pointers into a pool.  It shows which allocations succeed, that an
  allocation hands out a block nobody holds and changes no other, and that a pool of \<open>n\<close> blocks
  serves at most \<open>n - 1\<close> objects: allocating the last free block ends the process (and loops for
  ever in the \<open>NDEBUG\<close> build of \<open>OptMemPool\<close>).
\<close>

section \<open>Blocks, pools, access through pointers\<close>

record 'a ObjectBlock =
  object :: 'a
  is_free :: bool

record 'a MemPool =
  pool_size :: nat
  blocks :: "nat \<Rightarrow> 'a ObjectBlock"
  next_free_index :: nat

definition MemPool_new :: "nat \<Rightarrow> 'a \<Rightarrow> 'a MemPool" where
  "MemPool_new num_elems d =
     \<lparr>pool_size = num_elems, blocks = (\<lambda>_. \<lparr>object = d, is_free = True\<rparr>), next_free_index = 0\<rparr>"

definition obj :: "'a MemPool \<Rightarrow> nat \<Rightarrow> 'a" where
  "obj P a = object (blocks P a)"

definition deref :: "'a MemPool \<Rightarrow> ptr \<Rightarrow> 'a res" where
  "deref P p = (case p of None \<Rightarrow> Inl NullDeref | Some a \<Rightarrow> Inr (obj P a))"

definition pool_upd :: "nat \<Rightarrow> ('a \<Rightarrow> 'a) \<Rightarrow> 'a MemPool \<Rightarrow> 'a MemPool" where
  "pool_upd a f P = P\<lparr>blocks := (blocks P)(a := (blocks P a)\<lparr>object := f (obj P a)\<rparr>)\<rparr>"

definition assign :: "ptr \<Rightarrow> ('a \<Rightarrow> 'a) \<Rightarrow> 'a MemPool \<Rightarrow> 'a MemPool res" where
  "assign p f P = (case p of None \<Rightarrow> Inl NullDeref | Some a \<Rightarrow> Inr (pool_upd a f P))"

definition used :: "'a MemPool \<Rightarrow> nat set" where
  "used P = {a. a < pool_size P \<and> \<not> is_free (blocks P a)}"

section \<open>Operations\<close>

text \<open>
  The loop of \<open>updateNextFreeIndex()\<close>.  Its argument counts the iterations left; the cursor visits
  each block once before it returns to where it started, so as many iterations as the pool has
  blocks are enough (lemmas \<open>next_free_loop_found\<close> and \<open>next_free_loop_full\<close>).
\<close>

fun next_free_loop :: "nat \<Rightarrow> 'a MemPool \<Rightarrow> nat \<Rightarrow> nat \<Rightarrow> nat res" where
  "next_free_loop 0 P initial i = (if is_free (blocks P i) then Inr i else Inl Diverges)"
| "next_free_loop (Suc fuel) P initial i =
     (if is_free (blocks P i) then Inr i
      else (let i1 = i + 1; i2 = (if i1 = pool_size P then 0 else i1) in
            if initial = i2 then Inl (AssertFailed ''Memory Pool out of space.'')
            else next_free_loop fuel P initial i2))"

definition updateNextFreeIndex :: "'a MemPool \<Rightarrow> 'a MemPool res" where
  "updateNextFreeIndex P =
     rbind (next_free_loop (pool_size P) P (next_free_index P) (next_free_index P))
       (\<lambda>i. Inr (P\<lparr>next_free_index := i\<rparr>))"

definition allocate :: "'a \<Rightarrow> 'a MemPool \<Rightarrow> (nat \<times> 'a MemPool) res" where
  "allocate x P =
     (let i = next_free_index P in
      rbind (ASSERT (is_free (blocks P i)) ''Expected free ObjectBlock at index'') (\<lambda>_.
      rbind (updateNextFreeIndex (P\<lparr>blocks := (blocks P)(i := \<lparr>object = x, is_free = False\<rparr>)\<rparr>)) (\<lambda>P'.
      Inr (i, P'))))"

definition deallocate :: "ptr \<Rightarrow> 'a MemPool \<Rightarrow> 'a MemPool res" where
  "deallocate elem P =
     (case elem of
        None \<Rightarrow> Inl (AssertFailed ''Element being deallocated does not belong to this Memory pool.'')
      | Some i \<Rightarrow>
          rbind (ASSERT (i < pool_size P) ''Element being deallocated does not belong to this Memory pool.'') (\<lambda>_.
          rbind (ASSERT (\<not> is_free (blocks P i)) ''Expected in-use ObjectBlock at index'') (\<lambda>_.
          Inr (P\<lparr>blocks := (blocks P)(i := (blocks P i)\<lparr>is_free := True\<rparr>)\<rparr>))))"

text \<open>\<open>OptMemPool\<close> compiled with \<open>NDEBUG\<close>: the same loop without the assertion.\<close>

fun opt_next_free_loop :: "nat \<Rightarrow> 'a MemPool \<Rightarrow> nat \<Rightarrow> nat res" where
  "opt_next_free_loop 0 P i = (if is_free (blocks P i) then Inr i else Inl Diverges)"
| "opt_next_free_loop (Suc fuel) P i =
     (if is_free (blocks P i) then Inr i
      else (let i1 = i + 1 in opt_next_free_loop fuel P (if i1 = pool_size P then 0 else i1)))"

definition opt_allocate :: "nat \<Rightarrow> 'a \<Rightarrow> 'a MemPool \<Rightarrow> (nat \<times> 'a MemPool) res" where
  "opt_allocate fuel x P =
     (let i = next_free_index P; P1 = P\<lparr>blocks := (blocks P)(i := \<lparr>object = x, is_free = False\<rparr>)\<rparr> in
      rbind (opt_next_free_loop fuel P1 (next_free_index P1)) (\<lambda>j. Inr (i, P1\<lparr>next_free_index := j\<rparr>)))"

definition opt_deallocate :: "ptr \<Rightarrow> 'a MemPool \<Rightarrow> 'a MemPool res" where
  "opt_deallocate elem P =
     (case elem of
        None \<Rightarrow> Inl BadIndex
      | Some i \<Rightarrow>
          if i < pool_size P
          then Inr (P\<lparr>blocks := (blocks P)(i := (blocks P i)\<lparr>is_free := True\<rparr>)\<rparr>)
          else Inl BadIndex)"

section \<open>Objects under writes\<close>

lemma deref_Some [simp, res_simps]: "deref P (Some a) = Inr (obj P a)"
  by (simp add: deref_def)

lemma deref_None [simp, res_simps]: "deref P None = Inl NullDeref"
  by (simp add: deref_def)

lemma assign_Some [simp, res_simps]: "assign (Some a) f P = Inr (pool_upd a f P)"
  by (simp add: assign_def)

lemma assign_None [simp, res_simps]: "assign None f P = Inl NullDeref"
  by (simp add: assign_def)

lemma obj_pool_upd [simp, view_simps]:
  "obj (pool_upd a f P) = (obj P)(a := f (obj P a))"
  by (auto simp: pool_upd_def obj_def)

lemma pool_upd_frame [simp]:
  "pool_size (pool_upd a f P) = pool_size P"
  "next_free_index (pool_upd a f P) = next_free_index P"
  "is_free (blocks (pool_upd a f P) i) = is_free (blocks P i)"
  "used (pool_upd a f P) = used P"
  by (auto simp: pool_upd_def used_def)

section \<open>Well-formed pools\<close>

definition pool_inv :: "'a MemPool \<Rightarrow> bool" where
  "pool_inv P \<longleftrightarrow> next_free_index P < pool_size P \<and> is_free (blocks P (next_free_index P))"

lemma pool_inv_pool_upd [simp]: "pool_inv (pool_upd a f P) = pool_inv P"
  by (simp add: pool_inv_def)

lemma pool_inv_new: "0 < n \<Longrightarrow> pool_inv (MemPool_new n d)"
  by (simp add: pool_inv_def MemPool_new_def)

lemma used_new [simp]: "used (MemPool_new n d) = {}"
  by (simp add: used_def MemPool_new_def)

lemma pool_size_new [simp]: "pool_size (MemPool_new n d) = n"
  by (simp add: MemPool_new_def)

lemma finite_used [simp]: "finite (used P)"
  by (simp add: used_def)

lemma used_less: "a \<in> used P \<Longrightarrow> a < pool_size P"
  by (simp add: used_def)

text \<open>
  The cursor after \<open>k\<close> advances from \<open>initial\<close>, and what the loop finds from there: the first free
  block on the way round, or the assertion when there is none.
\<close>

definition ring_pos :: "nat \<Rightarrow> nat \<Rightarrow> nat \<Rightarrow> nat" where
  "ring_pos n i k = (i + k) mod n"

lemma ring_pos_Suc:
  assumes "i < n"
  shows "(if ring_pos n i k + 1 = n then 0 else ring_pos n i k + 1) = ring_pos n i (Suc k)"
  using assms by (simp add: ring_pos_def mod_Suc)

lemma next_free_loop_step:
  assumes "initial < pool_size P" and "\<not> is_free (blocks P (ring_pos (pool_size P) initial k))"
  shows "next_free_loop (Suc fuel) P initial (ring_pos (pool_size P) initial k) =
    (if initial = ring_pos (pool_size P) initial (Suc k)
     then Inl (AssertFailed ''Memory Pool out of space.'')
     else next_free_loop fuel P initial (ring_pos (pool_size P) initial (Suc k)))"
  by (simp only: next_free_loop.simps Let_def assms if_False ring_pos_Suc)

lemma ring_pos_return:
  assumes "i < n" and "Suc k < n"
  shows "i \<noteq> ring_pos n i (Suc k)"
proof
  assume "i = ring_pos n i (Suc k)"
  then have "(i + Suc k) mod n = i mod n" using assms(1) by (simp add: ring_pos_def)
  then have "n dvd Suc k"
    using mod_eq_dvd_iff_nat [of i "i + Suc k" n] by simp
  then show False using assms(2) by (auto dest: dvd_imp_le)
qed

lemma next_free_loop_found:
  assumes "initial < pool_size P" and "k \<le> m" and "m < pool_size P"
    and "is_free (blocks P (ring_pos (pool_size P) initial m))"
    and "pool_size P \<le> fuel + k"
  shows "\<exists>j. next_free_loop fuel P initial (ring_pos (pool_size P) initial k) = Inr j \<and>
             j < pool_size P \<and> is_free (blocks P j)"
  using assms
proof (induction "m - k" arbitrary: k fuel)
  case 0
  then have "k = m" by simp
  moreover have "ring_pos (pool_size P) initial m < pool_size P"
    using \<open>initial < pool_size P\<close> by (simp add: ring_pos_def)
  ultimately show ?case using 0 by (cases fuel) auto
next
  case (Suc d)
  let ?i = "ring_pos (pool_size P) initial k"
  have lt: "?i < pool_size P" using Suc.prems(1) by (simp add: ring_pos_def)
  show ?case
  proof (cases "is_free (blocks P ?i)")
    case True
    then show ?thesis using lt by (cases fuel) auto
  next
    case False
    from Suc.hyps(2) Suc.prems(3,5) obtain fuel' where fuel: "fuel = Suc fuel'"
      by (cases fuel) auto
    have "Suc k < pool_size P" using Suc.hyps(2) Suc.prems(3) by simp
    then have "initial \<noteq> ring_pos (pool_size P) initial (Suc k)"
      using Suc.prems(1) by (rule ring_pos_return [rotated])
    moreover have "\<exists>j. next_free_loop fuel' P initial (ring_pos (pool_size P) initial (Suc k)) = Inr j \<and>
        j < pool_size P \<and> is_free (blocks P j)"
      using Suc.hyps(2) Suc.prems fuel by (intro Suc.hyps(1)) auto
    ultimately show ?thesis
      using False fuel by (simp add: next_free_loop_step [OF Suc.prems(1)] del: next_free_loop.simps)
  qed
qed

lemma next_free_loop_full:
  assumes "initial < pool_size P" and "\<forall>a<pool_size P. \<not> is_free (blocks P a)"
    and "k < pool_size P" and "pool_size P \<le> fuel + k"
  shows "next_free_loop fuel P initial (ring_pos (pool_size P) initial k) =
         Inl (AssertFailed ''Memory Pool out of space.'')"
  using assms
proof (induction "pool_size P - k" arbitrary: k fuel)
  case 0
  then show ?case by simp
next
  case (Suc d)
  obtain fuel' where fuel: "fuel = Suc fuel'" using Suc.prems(3,4) by (cases fuel) auto
  have nf: "\<not> is_free (blocks P (ring_pos (pool_size P) initial k))"
    using Suc.prems(1,2) by (simp add: ring_pos_def)
  show ?case
  proof (cases "Suc k = pool_size P")
    case True
    then have "ring_pos (pool_size P) initial (Suc k) = initial"
      using Suc.prems(1) by (simp add: ring_pos_def)
    then show ?thesis using nf fuel by (simp add: next_free_loop_step [OF Suc.prems(1)] del: next_free_loop.simps)
  next
    case False
    then show ?thesis
      using Suc nf fuel by (simp add: next_free_loop_step [OF Suc.prems(1)] del: next_free_loop.simps)
  qed
qed

lemma ring_pos_surj:
  assumes "i < n" and "a < n"
  shows "\<exists>k<n. ring_pos n i k = a"
proof (cases "i \<le> a")
  case True
  then show ?thesis using assms by (intro exI [of _ "a - i"]) (auto simp: ring_pos_def)
next
  case False
  then have "(i + (n - i + a)) mod n = a" using assms by (simp add: mod_add_self1)
  then show ?thesis using assms False by (intro exI [of _ "n - i + a"]) (auto simp: ring_pos_def)
qed

lemma updateNextFreeIndex_found:
  assumes "next_free_index P < pool_size P" and "a < pool_size P" and "is_free (blocks P a)"
  obtains j where "updateNextFreeIndex P = Inr (P\<lparr>next_free_index := j\<rparr>)"
    and "j < pool_size P" and "is_free (blocks P j)"
proof -
  obtain m where m: "m < pool_size P" "ring_pos (pool_size P) (next_free_index P) m = a"
    using ring_pos_surj [OF assms(1,2)] by blast
  have "ring_pos (pool_size P) (next_free_index P) 0 = next_free_index P"
    using assms(1) by (simp add: ring_pos_def)
  then obtain j where "next_free_loop (pool_size P) P (next_free_index P) (next_free_index P) = Inr j"
    "j < pool_size P" "is_free (blocks P j)"
    using next_free_loop_found [OF assms(1) le0 m(1), of "pool_size P"] m(2) assms(3) by auto
  then show ?thesis by (intro that [of j]) (simp_all add: updateNextFreeIndex_def)
qed

lemma updateNextFreeIndex_full:
  assumes "next_free_index P < pool_size P" and "\<forall>a<pool_size P. \<not> is_free (blocks P a)"
  shows "updateNextFreeIndex P = Inl (AssertFailed ''Memory Pool out of space.'')"
proof -
  have "ring_pos (pool_size P) (next_free_index P) 0 = next_free_index P"
    using assms(1) by (simp add: ring_pos_def)
  then show ?thesis
    using next_free_loop_full [OF assms, of 0 "pool_size P"] assms(1)
    by (simp add: updateNextFreeIndex_def)
qed

section \<open>Allocation and release\<close>

lemma allocate_fresh:
  assumes "pool_inv P" and "\<exists>a<pool_size P. a \<noteq> next_free_index P \<and> is_free (blocks P a)"
  obtains P' where "allocate x P = Inr (next_free_index P, P')"
    and "pool_inv P'" and "pool_size P' = pool_size P"
    and "obj P' = (obj P)(next_free_index P := x)"
    and "used P' = insert (next_free_index P) (used P)"
    and "next_free_index P \<notin> used P"
proof -
  let ?i = "next_free_index P"
  let ?P = "P\<lparr>blocks := (blocks P)(?i := \<lparr>object = x, is_free = False\<rparr>)\<rparr>"
  from assms(2) obtain a where a: "a < pool_size P" "a \<noteq> ?i" "is_free (blocks P a)" by blast
  have i: "?i < pool_size P" "is_free (blocks P ?i)" using assms(1) by (auto simp: pool_inv_def)
  obtain j where j: "updateNextFreeIndex ?P = Inr (?P\<lparr>next_free_index := j\<rparr>)"
    "j < pool_size ?P" "is_free (blocks ?P j)"
    using updateNextFreeIndex_found [of ?P a] a i by auto
  show ?thesis
  proof (rule that [of "?P\<lparr>next_free_index := j\<rparr>"])
    show "allocate x P = Inr (?i, ?P\<lparr>next_free_index := j\<rparr>)" using i j by (simp add: allocate_def Let_def)
    show "pool_inv (?P\<lparr>next_free_index := j\<rparr>)" using j by (auto simp: pool_inv_def)
    show "obj (?P\<lparr>next_free_index := j\<rparr>) = (obj P)(?i := x)" by (auto simp: obj_def)
    show "used (?P\<lparr>next_free_index := j\<rparr>) = insert ?i (used P)" using i by (auto simp: used_def)
    show "?i \<notin> used P" using i by (simp add: used_def)
  qed simp
qed

lemma deallocate_used:
  assumes "pool_inv P" and "a \<in> used P"
  obtains P' where "deallocate (Some a) P = Inr P'"
    and "pool_inv P'" and "pool_size P' = pool_size P" and "obj P' = obj P"
    and "used P' = used P - {a}"
proof (rule that [of "P\<lparr>blocks := (blocks P)(a := (blocks P a)\<lparr>is_free := True\<rparr>)\<rparr>"])
  show "deallocate (Some a) P = Inr (P\<lparr>blocks := (blocks P)(a := (blocks P a)\<lparr>is_free := True\<rparr>)\<rparr>)"
    using assms(2) by (simp add: deallocate_def used_def)
  show "used (P\<lparr>blocks := (blocks P)(a := (blocks P a)\<lparr>is_free := True\<rparr>)\<rparr>) = used P - {a}"
    by (auto simp: used_def)
qed (use assms in \<open>auto simp: pool_inv_def obj_def used_def\<close>)

lemma free_other_block:
  assumes "pool_inv P" and "card (used P) + 2 \<le> pool_size P"
  shows "\<exists>a<pool_size P. a \<noteq> next_free_index P \<and> is_free (blocks P a)"
proof (rule ccontr)
  assume "\<not> ?thesis"
  then have "{..<pool_size P} \<subseteq> insert (next_free_index P) (used P)"
    by (auto simp: used_def)
  then have "pool_size P \<le> card (insert (next_free_index P) (used P))"
    using card_mono [of "insert (next_free_index P) (used P)" "{..<pool_size P}"] by simp
  also have "\<dots> \<le> Suc (card (used P))" by (simp add: card_insert_if)
  finally show False using assms(2) by simp
qed

section \<open>The allocator interface of the order books\<close>

locale allocator =
  fixes alloc :: "'a \<Rightarrow> 'p \<Rightarrow> (nat \<times> 'p) res" and dealloc :: "ptr \<Rightarrow> 'p \<Rightarrow> 'p res"
    and contents :: "'p \<Rightarrow> nat \<Rightarrow> 'a" and live :: "'p \<Rightarrow> nat set" and room :: "'p \<Rightarrow> nat"
    and ok :: "'p \<Rightarrow> bool"
  assumes alloc_ok: "ok P \<Longrightarrow> card (live P) + 2 \<le> room P \<Longrightarrow>
      \<exists>a P'. alloc x P = Inr (a, P') \<and> ok P' \<and> room P' = room P \<and> a \<notin> live P \<and>
             live P' = insert a (live P) \<and> contents P' = (contents P)(a := x)"
    and dealloc_ok: "ok P \<Longrightarrow> a \<in> live P \<Longrightarrow>
      \<exists>P'. dealloc (Some a) P = Inr P' \<and> ok P' \<and> room P' = room P \<and> live P' = live P - {a} \<and>
           contents P' = contents P"
    and live_finite: "finite (live P)"
begin

lemma alloc_dealloc:
  assumes "ok P" and "card (live P) + 2 \<le> room P"
  shows "\<exists>a P' P''. alloc x P = Inr (a, P') \<and> dealloc (Some a) P' = Inr P'' \<and> ok P'' \<and>
           live P'' = live P \<and> room P'' = room P \<and> (\<forall>b\<in>live P. contents P'' b = contents P b)"
proof -
  obtain a P' where 1: "alloc x P = Inr (a, P')" "ok P'" "room P' = room P" "a \<notin> live P"
    "live P' = insert a (live P)" "contents P' = (contents P)(a := x)"
    using alloc_ok [OF assms] by blast
  have "a \<in> live P'" using 1 by simp
  from dealloc_ok [OF 1(2) this] obtain P'' where
    "dealloc (Some a) P' = Inr P'' \<and> ok P'' \<and> room P'' = room P' \<and> live P'' = live P' - {a} \<and>
     contents P'' = contents P'" by blast
  with 1 show ?thesis by (intro exI [of _ a] exI [of _ P'] exI [of _ P'']) auto
qed

end

interpretation pool: allocator allocate deallocate obj used pool_size pool_inv
proof
  fix P :: "'a MemPool" and x
  assume "pool_inv P" and "card (used P) + 2 \<le> pool_size P"
  then show "\<exists>a P'. allocate x P = Inr (a, P') \<and> pool_inv P' \<and> pool_size P' = pool_size P \<and> a \<notin> used P \<and>
      used P' = insert a (used P) \<and> obj P' = (obj P)(a := x)"
    by (meson allocate_fresh free_other_block)
next
  fix P :: "'a MemPool" and a
  assume "pool_inv P" and "a \<in> used P"
  then show "\<exists>P'. deallocate (Some a) P = Inr P' \<and> pool_inv P' \<and> pool_size P' = pool_size P \<and>
      used P' = used P - {a} \<and> obj P' = obj P"
    by (meson deallocate_used)
qed simp

text \<open>
  as long as a well-formed pool has at least two free blocks, an allocation succeeds: it returns
  a block that no live object occupies, stores the new object there, changes no other object, and
  leaves a well-formed pool in which exactly that block is additionally in use.
\<close>

theorem allocate_correct:
  assumes "pool_inv P" and "card (used P) + 2 \<le> pool_size P"
  shows "\<exists>a P'. allocate x P = Inr (a, P') \<and> pool_inv P' \<and> pool_size P' = pool_size P \<and> a \<notin> used P \<and>
           used P' = insert a (used P) \<and> obj P' = (obj P)(a := x)"
  using assms by (rule pool.alloc_ok)

theorem allocate_correct_witness:
  "\<exists>a P'. allocate (7::nat) (MemPool_new 2 0) = Inr (a, P') \<and> used P' = {a} \<and> obj P' a = 7"
  using allocate_correct [of "MemPool_new 2 (0::nat)" 7] by (auto simp: pool_inv_new)

lemma allocate_full:
  assumes "pool_inv P" and "\<forall>a<pool_size P. is_free (blocks P a) \<longrightarrow> a = next_free_index P"
  shows "allocate x P = Inl (AssertFailed ''Memory Pool out of space.'')"
proof -
  let ?P = "P\<lparr>blocks := (blocks P)(next_free_index P := \<lparr>object = x, is_free = False\<rparr>)\<rparr>"
  have "updateNextFreeIndex ?P = Inl (AssertFailed ''Memory Pool out of space.'')"
    using assms by (intro updateNextFreeIndex_full) (auto simp: pool_inv_def)
  then show ?thesis using assms(1) by (simp add: allocate_def pool_inv_def Let_def)
qed

text \<open>
  a pool of \<open>n\<close> blocks cannot hold \<open>n\<close> objects.  Allocating its last free block marks the block
  as used and then ends the process, because the search for the next free block finds none.
\<close>

theorem allocate_last_block:
  assumes "pool_inv P" and "\<forall>a<pool_size P. is_free (blocks P a) \<longrightarrow> a = next_free_index P"
  shows "allocate x P = Inl (AssertFailed ''Memory Pool out of space.'')"
  using allocate_full [OF assms] .

theorem allocate_last_block_witness:
  "allocate (7::nat) (MemPool_new 1 0) = Inl (AssertFailed ''Memory Pool out of space.'')"
  using allocate_last_block [of "MemPool_new 1 (0::nat)" 7] by (simp add: pool_inv_def MemPool_new_def)

lemma opt_next_free_loop_full:
  assumes "\<forall>a<pool_size P. \<not> is_free (blocks P a)" and "i < pool_size P"
  shows "opt_next_free_loop fuel P i = Inl Diverges"
  using assms by (induction fuel arbitrary: i) (auto simp: Let_def)

text \<open>
  \<open>OptMemPool::allocate()\<close> in an \<open>NDEBUG\<close> build does not return when it hands out the last free
  block: its search loop runs through any number of iterations.
\<close>

theorem opt_allocate_last_block_diverges:
  assumes "pool_inv P" and "\<forall>a<pool_size P. is_free (blocks P a) \<longrightarrow> a = next_free_index P"
  shows "opt_allocate fuel x P = Inl Diverges"
proof -
  let ?P = "P\<lparr>blocks := (blocks P)(next_free_index P := \<lparr>object = x, is_free = False\<rparr>)\<rparr>"
  have "opt_next_free_loop fuel ?P (next_free_index ?P) = Inl Diverges"
    using assms by (intro opt_next_free_loop_full) (auto simp: pool_inv_def)
  then show ?thesis by (simp add: opt_allocate_def Let_def)
qed

theorem opt_allocate_last_block_diverges_witness:
  "opt_allocate 1000 (7::nat) (MemPool_new 1 0) = Inl Diverges"
  using opt_allocate_last_block_diverges [of "MemPool_new 1 (0::nat)" 1000 7]
  by (simp add: pool_inv_def MemPool_new_def)

end
