(* ===== verification/Circular_List.thy ===== *)
theory Circular_List
  imports LLT_Prelude
begin

text \<open>
  Circular doubly linked lists over two pointer fields.  The order books keep the orders of a price
  level, and the price levels of a side, in such lists; a field of the nodes of a memory pool is seen
  here as a function from block indices to pointers.  The lemmas give the effect of the link updates
  the books perform: insertion before a node, appending at the end, unlinking a node.
\<close>

type_synonym field = "nat \<Rightarrow> ptr"

definition link :: "field \<Rightarrow> field \<Rightarrow> nat \<Rightarrow> nat \<Rightarrow> bool" where
  "link nxt prv a b \<longleftrightarrow> nxt a = Some b \<and> prv b = Some a"

definition cdll :: "field \<Rightarrow> field \<Rightarrow> nat list \<Rightarrow> bool" where
  "cdll nxt prv xs \<longleftrightarrow>
     distinct xs \<and> (xs \<noteq> [] \<longrightarrow> successively (link nxt prv) xs \<and> link nxt prv (last xs) (hd xs))"

lemma cdll_Nil [simp]: "cdll nxt prv []"
  by (simp add: cdll_def)

lemma cdll_distinct: "cdll nxt prv xs \<Longrightarrow> distinct xs"
  by (simp add: cdll_def)

lemma cdll_single [simp]: "cdll nxt prv [a] \<longleftrightarrow> nxt a = Some a \<and> prv a = Some a"
  by (simp add: cdll_def link_def)

lemma successively_link_cong:
  assumes "\<And>a. a \<in> set xs \<Longrightarrow> nxt' a = nxt a" and "\<And>a. a \<in> set xs \<Longrightarrow> prv' a = prv a"
  shows "successively (link nxt' prv') xs = successively (link nxt prv) xs"
  using assms by (intro successively_cong) (auto simp: link_def)

lemma cdll_cong:
  assumes "\<And>a. a \<in> set xs \<Longrightarrow> nxt' a = nxt a" and "\<And>a. a \<in> set xs \<Longrightarrow> prv' a = prv a"
  shows "cdll nxt' prv' xs = cdll nxt prv xs"
proof (cases "xs = []")
  case False
  then have "hd xs \<in> set xs" and "last xs \<in> set xs" by simp_all
  then show ?thesis using successively_link_cong [of xs nxt' nxt prv' prv] assms
    by (simp add: cdll_def link_def)
qed simp

lemma cdll_rotate: "cdll nxt prv (us @ vs) \<Longrightarrow> cdll nxt prv (vs @ us)"
  by (cases "us = []"; cases "vs = []") (auto simp: cdll_def successively_append_iff)

lemma cdll_rotate_iff: "cdll nxt prv (us @ vs) \<longleftrightarrow> cdll nxt prv (vs @ us)"
  using cdll_rotate by blast

text \<open>Reading the neighbours of a node.\<close>

lemma cdll_next:
  assumes "cdll nxt prv (us @ a # vs)"
  shows "nxt a = Some (hd (vs @ us @ [a]))"
proof -
  have "cdll nxt prv ((a # vs) @ us)" using assms by (rule cdll_rotate)
  then show ?thesis by (cases vs; cases us) (auto simp: cdll_def link_def)
qed

lemma cdll_prev:
  assumes "cdll nxt prv (us @ a # vs)"
  shows "prv a = Some (last (a # vs @ us))"
proof -
  have "cdll nxt prv ((a # vs) @ us)" using assms by (rule cdll_rotate)
  then show ?thesis by (auto simp: cdll_def link_def)
qed

lemma cdll_last_next: "cdll nxt prv xs \<Longrightarrow> xs \<noteq> [] \<Longrightarrow> nxt (last xs) = Some (hd xs)"
  by (simp add: cdll_def link_def)

lemma cdll_hd_prev: "cdll nxt prv xs \<Longrightarrow> xs \<noteq> [] \<Longrightarrow> prv (hd xs) = Some (last xs)"
  by (simp add: cdll_def link_def)

lemma cdll_self_iff:
  assumes "cdll nxt prv (us @ a # vs)"
  shows "nxt a = Some a \<longleftrightarrow> us @ vs = []" and "prv a = Some a \<longleftrightarrow> us @ vs = []"
proof -
  have d: "a \<notin> set (vs @ us)" using assms by (auto simp: cdll_def)
  show "nxt a = Some a \<longleftrightarrow> us @ vs = []"
    using cdll_next [OF assms] d by (cases vs; cases us) auto
  show "prv a = Some a \<longleftrightarrow> us @ vs = []"
    using cdll_prev [OF assms] d by (cases "vs @ us" rule: rev_cases) auto
qed

section \<open>Insertion\<close>

lemma successively_link_upd_last:
  "distinct xs \<Longrightarrow> successively (link nxt prv) xs \<Longrightarrow> successively (link (nxt(last xs := u)) prv) xs"
  by (induction xs rule: induct_list012) (auto simp: link_def)

lemma successively_link_upd_hd:
  assumes "distinct xs" and "successively (link nxt prv) xs"
  shows "successively (link nxt (prv(hd xs := v))) xs"
proof (cases xs)
  case (Cons x ys)
  have "successively (link nxt (prv(x := v))) ys = successively (link nxt prv) ys"
    using assms(1) Cons by (intro successively_link_cong) auto
  moreover have "ys \<noteq> [] \<Longrightarrow> hd ys \<noteq> x" using assms(1) Cons by (cases ys) auto
  ultimately show ?thesis using assms(2) Cons by (auto simp: successively_Cons link_def)
qed simp

lemma cdll_snoc:
  assumes "cdll nxt prv xs" and "xs \<noteq> []" and "a \<notin> set xs"
  shows "cdll (nxt(last xs := Some a, a := Some (hd xs))) (prv(a := Some (last xs), hd xs := Some a)) (xs @ [a])"
proof -
  let ?n = "nxt(last xs := Some a, a := Some (hd xs))"
  let ?p = "prv(a := Some (last xs), hd xs := Some a)"
  have ne: "last xs \<noteq> a" "hd xs \<noteq> a" using assms(2,3) by auto
  have d: "distinct xs" using assms(1) by (rule cdll_distinct)
  have "successively (link (nxt(last xs := Some a)) (prv(hd xs := Some a))) xs"
    using assms(1,2) d
    by (intro successively_link_upd_last successively_link_upd_hd) (auto simp: cdll_def)
  moreover have "successively (link ?n ?p) xs =
      successively (link (nxt(last xs := Some a)) (prv(hd xs := Some a))) xs"
    using assms(3) by (intro successively_link_cong) auto
  ultimately show ?thesis using assms(1,2) d assms(3) ne
    by (simp add: cdll_def successively_append_iff link_def)
qed

text \<open>
  Insertion of \<open>a\<close> before \<open>y\<close>, whose predecessor is \<open>z\<close>: the four link updates of the code.
\<close>

lemma cdll_insert:
  assumes "cdll nxt prv (us @ y # vs)" and "a \<notin> set (us @ y # vs)" and "prv y = Some z"
  shows "cdll (nxt(z := Some a, a := Some y)) (prv(a := Some z, y := Some a)) (us @ a # y # vs)"
proof -
  have r: "cdll nxt prv ((y # vs) @ us)" using assms(1) by (rule cdll_rotate)
  have z: "z = last ((y # vs) @ us)" using cdll_prev [OF assms(1)] assms(3) by simp
  have "cdll (nxt(z := Some a, a := Some y)) (prv(a := Some z, y := Some a)) (((y # vs) @ us) @ [a])"
    using cdll_snoc [OF r, of a] assms(2) z by simp
  then have "cdll (nxt(z := Some a, a := Some y)) (prv(a := Some z, y := Some a)) ((y # vs) @ (us @ [a]))"
    by simp
  from cdll_rotate [OF this] show ?thesis by simp
qed

section \<open>Removal\<close>

lemma cdll_butfirst:
  assumes "cdll nxt prv (a # ws)" and "ws \<noteq> []"
  shows "cdll (nxt(last ws := Some (hd ws))) (prv(hd ws := Some (last ws))) ws"
proof -
  have "successively (link (nxt(last ws := Some (hd ws))) (prv(hd ws := Some (last ws)))) ws"
    using assms by (intro successively_link_upd_last successively_link_upd_hd)
      (auto simp: cdll_def successively_Cons)
  then show ?thesis using assms by (auto simp: cdll_def link_def)
qed

lemma cdll_remove:
  assumes "cdll nxt prv (us @ a # vs)" and "us @ vs \<noteq> []"
    and "nxt a = Some after" and "prv a = Some before"
  shows "cdll (nxt(before := Some after)) (prv(after := Some before)) (us @ vs)"
proof -
  let ?ws = "vs @ us"
  have r: "cdll nxt prv (a # ?ws)" using cdll_rotate [OF assms(1)] by simp
  have ws: "?ws \<noteq> []" using assms(2) by auto
  have "after = hd ?ws" using cdll_next [OF assms(1)] assms(3) ws by (simp add: hd_append split: if_splits)
  moreover have "before = last ?ws" using cdll_prev [OF assms(1)] assms(4) ws by auto
  ultimately have "cdll (nxt(before := Some after)) (prv(after := Some before)) ?ws"
    using cdll_butfirst [OF r ws] by simp
  then show ?thesis by (rule cdll_rotate)
qed

lemma cdll_upd_outside [simp]:
  "a \<notin> set xs \<Longrightarrow> cdll (nxt(a := u)) prv xs = cdll nxt prv xs"
  "a \<notin> set xs \<Longrightarrow> cdll nxt (prv(a := u)) xs = cdll nxt prv xs"
  by (auto intro!: cdll_cong)

end
