(* ===== verification/Price_Levels.thy ===== *)
theory Price_Levels
  imports Order_Types Mem_Pool Circular_List
begin

text \<open>
  The linked structure of a limit order book, which \<open>exchange/matcher/me_order_book.h\<close>,
  \<open>exchange/matcher/unordered_map_me_order_book.h\<close> and \<open>trading/strategy/market_order_book.h\<close> share
  up to the names of their node types: price levels in a memory pool, one circular list of levels per
  side from the most to the least aggressive price, one circular FIFO list of orders per level, and a
  table from prices to levels.  Orders are records that the books extend with their own identifiers,
  and a book extends the record of this theory with its table from identifiers to orders, so every
  function here is the code of all three books.
\<close>

section \<open>Nodes\<close>

record order_node =
  ord_side :: Side
  ord_price :: Price
  ord_qty :: Qty
  ord_priority :: Priority
  prev_order :: ptr
  next_order :: ptr

record OrdersAtPrice =
  lvl_side :: Side
  lvl_price :: Price
  first_order :: ptr
  prev_entry :: ptr
  next_entry :: ptr

definition OrdersAtPrice_default :: OrdersAtPrice where
  "OrdersAtPrice_default =
     \<lparr>lvl_side = Side_INVALID, lvl_price = Price_INVALID, first_order = None,
      prev_entry = None, next_entry = None\<rparr>"

text \<open>The two pools and the best levels; the array of levels by price is added to them.\<close>

record 'x book_links =
  orders_at_price_pool :: "OrdersAtPrice MemPool"
  bids_by_price :: ptr
  asks_by_price :: ptr
  order_pool :: "'x order_node_scheme MemPool"

record 'x book_core = "'x book_links" +
  price_orders_at_price :: "ptr arr"

section \<open>Access through pointers\<close>

definition get_level :: "ptr \<Rightarrow> ('x, 'y) book_links_scheme \<Rightarrow> OrdersAtPrice res" where
  "get_level p b = deref (orders_at_price_pool b) p"

definition assign_level ::
  "ptr \<Rightarrow> (OrdersAtPrice \<Rightarrow> OrdersAtPrice) \<Rightarrow> ('x, 'y) book_links_scheme \<Rightarrow> ('x, 'y) book_links_scheme res" where
  "assign_level p f b =
     rbind (assign p f (orders_at_price_pool b)) (\<lambda>P. Inr (b\<lparr>orders_at_price_pool := P\<rparr>))"

definition get_order :: "ptr \<Rightarrow> ('x, 'y) book_links_scheme \<Rightarrow> 'x order_node_scheme res" where
  "get_order p b = deref (order_pool b) p"

definition assign_order ::
  "ptr \<Rightarrow> ('x order_node_scheme \<Rightarrow> 'x order_node_scheme) \<Rightarrow> ('x, 'y) book_links_scheme \<Rightarrow>
   ('x, 'y) book_links_scheme res" where
  "assign_order p f b = rbind (assign p f (order_pool b)) (\<lambda>P. Inr (b\<lparr>order_pool := P\<rparr>))"

text \<open>\<open>(side == Side::BUY ? bids_by_price_ : asks_by_price_)\<close>, read and assigned.\<close>

definition best_orders_by_price :: "Side \<Rightarrow> ('x, 'y) book_links_scheme \<Rightarrow> ptr" where
  "best_orders_by_price side b = (if side = BUY then bids_by_price b else asks_by_price b)"

definition set_best :: "Side \<Rightarrow> ptr \<Rightarrow> ('x, 'y) book_links_scheme \<Rightarrow> ('x, 'y) book_links_scheme" where
  "set_best side p b = (if side = BUY then b\<lparr>bids_by_price := p\<rparr> else b\<lparr>asks_by_price := p\<rparr>)"

section \<open>Price levels\<close>

text \<open>\<open>price % ME_MAX_PRICE_LEVELS\<close>: the price is converted to \<open>size_t\<close> first.\<close>

definition priceToIndex :: "('x, 'y) book_core_scheme \<Rightarrow> Price \<Rightarrow> nat" where
  "priceToIndex b price = nat (price mod 2 ^ 64) mod arr_size (price_orders_at_price b)"

definition getOrdersAtPrice :: "Price \<Rightarrow> ('x, 'y) book_core_scheme \<Rightarrow> ptr res" where
  "getOrdersAtPrice price b = arr_at (price_orders_at_price b) (priceToIndex b price)"

text \<open>The condition under which a level is less aggressive than \<open>target\<close>.\<close>

definition worse :: "Side \<Rightarrow> Price \<Rightarrow> Price \<Rightarrow> bool" where
  "worse side price target_price \<longleftrightarrow>
     side = SELL \<and> price > target_price \<or> side = BUY \<and> price < target_price"

text \<open>
  The \<open>while\<close> loop of \<open>addOrdersAtPrice()\<close>.  The first argument bounds its iterations: every
  iteration but the last moves on to the next level of the side, so the number of blocks of the level
  pool is enough (\<open>find_target_correct\<close>).
\<close>

fun add_after_loop ::
  "nat \<Rightarrow> ('x, 'y) book_links_scheme \<Rightarrow> Side \<Rightarrow> Price \<Rightarrow> ptr \<Rightarrow> bool \<Rightarrow> ptr \<Rightarrow> (bool \<times> ptr) res" where
  "add_after_loop 0 b side price best add_after target =
     (if add_after \<and> target \<noteq> best then Inl Diverges else Inr (add_after, target))"
| "add_after_loop (Suc fuel) b side price best add_after target =
     (if add_after \<and> target \<noteq> best then
        rbind (get_level target b) (\<lambda>t.
          let aa = worse side price (lvl_price t) in
          add_after_loop fuel b side price best aa (if aa then next_entry t else target))
      else Inr (add_after, target))"

definition find_target ::
  "Side \<Rightarrow> Price \<Rightarrow> ptr \<Rightarrow> ('x, 'y) book_links_scheme \<Rightarrow> (bool \<times> ptr) res" where
  "find_target side price best b =
     rbind (get_level best b) (\<lambda>t.
       if worse side price (lvl_price t) then
         (let target = next_entry t in
          rbind (get_level target b) (\<lambda>t'.
            add_after_loop (pool_size (orders_at_price_pool b)) b side price best
              (worse side price (lvl_price t')) target))
       else
         add_after_loop (pool_size (orders_at_price_pool b)) b side price best False best)"

text \<open>The two branches that link the new level after or before \<open>target\<close>.\<close>

definition insert_after ::
  "ptr \<Rightarrow> ptr \<Rightarrow> ptr \<Rightarrow> ('x, 'y) book_links_scheme \<Rightarrow> ('x, 'y) book_links_scheme res" where
  "insert_after best new target0 b =
     rbind (if target0 = best then rbind (get_level best b) (\<lambda>l. Inr (prev_entry l)) else Inr target0) (\<lambda>target.
     rbind (assign_level new (\<lambda>l. l\<lparr>prev_entry := target\<rparr>) b) (\<lambda>b.
     rbind (get_level target b) (\<lambda>t.
     rbind (assign_level (next_entry t) (\<lambda>l. l\<lparr>prev_entry := new\<rparr>) b) (\<lambda>b.
     rbind (get_level target b) (\<lambda>t.
     rbind (assign_level new (\<lambda>l. l\<lparr>next_entry := next_entry t\<rparr>) b) (\<lambda>b.
     assign_level target (\<lambda>l. l\<lparr>next_entry := new\<rparr>) b))))))"

definition insert_before ::
  "Side \<Rightarrow> Price \<Rightarrow> ptr \<Rightarrow> ptr \<Rightarrow> ptr \<Rightarrow> ('x, 'y) book_links_scheme \<Rightarrow> ('x, 'y) book_links_scheme res" where
  "insert_before side price best new target b =
     rbind (get_level target b) (\<lambda>t.
     rbind (assign_level new (\<lambda>l. l\<lparr>prev_entry := prev_entry t\<rparr>) b) (\<lambda>b.
     rbind (assign_level new (\<lambda>l. l\<lparr>next_entry := target\<rparr>) b) (\<lambda>b.
     rbind (get_level target b) (\<lambda>t.
     rbind (assign_level (prev_entry t) (\<lambda>l. l\<lparr>next_entry := new\<rparr>) b) (\<lambda>b.
     rbind (assign_level target (\<lambda>l. l\<lparr>prev_entry := new\<rparr>) b) (\<lambda>b.
     rbind (get_level best b) (\<lambda>bl.
       if side = BUY \<and> price > lvl_price bl \<or> side = SELL \<and> price < lvl_price bl then
         rbind (get_level target b) (\<lambda>t.
         rbind (assign_level target
                  (\<lambda>l. l\<lparr>next_entry := (if next_entry t = best then new else next_entry t)\<rparr>) b) (\<lambda>b.
         Inr (set_best side new b)))
       else Inr b)))))))"

definition addOrdersAtPrice ::
  "ptr \<Rightarrow> ('x, 'y) book_core_scheme \<Rightarrow> ('x, 'y) book_core_scheme res" where
  "addOrdersAtPrice new b =
     rbind (get_level new b) (\<lambda>n.
     rbind (arr_put (priceToIndex b (lvl_price n)) new (price_orders_at_price b)) (\<lambda>tab.
       let b = b\<lparr>price_orders_at_price := tab\<rparr>;
           side = lvl_side n; price = lvl_price n;
           best = best_orders_by_price side b
       in
         if best = None then
           assign_level new (\<lambda>l. l\<lparr>prev_entry := new, next_entry := new\<rparr>) (set_best side new b)
         else
           rbind (find_target side price best b) (\<lambda>(add_after, target).
             if add_after then insert_after best new target b
             else insert_before side price best new target b)))"

definition removeOrdersAtPrice ::
  "Side \<Rightarrow> Price \<Rightarrow> ('x, 'y) book_core_scheme \<Rightarrow> ('x, 'y) book_core_scheme res" where
  "removeOrdersAtPrice side price b =
     (let best = best_orders_by_price side b in
      rbind (getOrdersAtPrice price b) (\<lambda>orders_at_price.
      rbind (get_level orders_at_price b) (\<lambda>l.
      rbind
        (if next_entry l = orders_at_price then Inr (set_best side None b)
         else
           rbind (assign_level (prev_entry l) (\<lambda>x. x\<lparr>next_entry := next_entry l\<rparr>) b) (\<lambda>b.
           rbind (get_level orders_at_price b) (\<lambda>l.
           rbind (assign_level (next_entry l) (\<lambda>x. x\<lparr>prev_entry := prev_entry l\<rparr>) b) (\<lambda>b.
           rbind (get_level orders_at_price b) (\<lambda>l.
             let b = (if orders_at_price = best then set_best side (next_entry l) b else b) in
             assign_level orders_at_price (\<lambda>x. x\<lparr>prev_entry := None, next_entry := None\<rparr>) b)))))
        (\<lambda>b.
      rbind (arr_put (priceToIndex b price) None (price_orders_at_price b)) (\<lambda>tab.
      rbind (deallocate orders_at_price (orders_at_price_pool b)) (\<lambda>P.
      Inr (b\<lparr>price_orders_at_price := tab, orders_at_price_pool := P\<rparr>)))))))"

section \<open>Orders of a level\<close>

text \<open>
  \<open>removeOrder()\<close> and \<open>addOrder()\<close> up to the update of the table from identifiers to orders, which is
  where the three books differ.
\<close>

definition unlinkOrder :: "ptr \<Rightarrow> ('x, 'y) book_core_scheme \<Rightarrow> ('x, 'y) book_core_scheme res" where
  "unlinkOrder order b =
     rbind (get_order order b) (\<lambda>ord.
     rbind (getOrdersAtPrice (ord_price ord) b) (\<lambda>orders_at_price.
       if prev_order ord = order then removeOrdersAtPrice (ord_side ord) (ord_price ord) b
       else
         (let order_before = prev_order ord; order_after = next_order ord in
          rbind (assign_order order_before (\<lambda>x. x\<lparr>next_order := order_after\<rparr>) b) (\<lambda>b.
          rbind (assign_order order_after (\<lambda>x. x\<lparr>prev_order := order_before\<rparr>) b) (\<lambda>b.
          rbind (get_level orders_at_price b) (\<lambda>l.
          rbind (if first_order l = order
                 then assign_level orders_at_price (\<lambda>l. l\<lparr>first_order := order_after\<rparr>) b
                 else Inr b) (\<lambda>b.
          assign_order order (\<lambda>x. x\<lparr>prev_order := None, next_order := None\<rparr>) b)))))))"

definition linkOrder :: "ptr \<Rightarrow> ('x, 'y) book_core_scheme \<Rightarrow> ('x, 'y) book_core_scheme res" where
  "linkOrder order b =
     rbind (get_order order b) (\<lambda>ord.
     rbind (getOrdersAtPrice (ord_price ord) b) (\<lambda>orders_at_price.
       if orders_at_price = None then
         rbind (assign_order order (\<lambda>x. x\<lparr>next_order := order, prev_order := order\<rparr>) b) (\<lambda>b.
         rbind (allocate \<lparr>lvl_side = ord_side ord, lvl_price = ord_price ord, first_order = order,
                          prev_entry = None, next_entry = None\<rparr> (orders_at_price_pool b)) (\<lambda>(new, P).
         addOrdersAtPrice (Some new) (b\<lparr>orders_at_price_pool := P\<rparr>)))
       else
         rbind (get_level orders_at_price b) (\<lambda>l.
         (let first_ord = first_order l in
          rbind (get_order first_ord b) (\<lambda>fo.
          rbind (assign_order (prev_order fo) (\<lambda>x. x\<lparr>next_order := order\<rparr>) b) (\<lambda>b.
          rbind (get_order first_ord b) (\<lambda>fo.
          rbind (assign_order order (\<lambda>x. x\<lparr>prev_order := prev_order fo\<rparr>) b) (\<lambda>b.
          rbind (assign_order order (\<lambda>x. x\<lparr>next_order := first_ord\<rparr>) b) (\<lambda>b.
          assign_order first_ord (\<lambda>x. x\<lparr>prev_order := order\<rparr>) b)))))))))"

end
