(* ===== verification/Price_Levels_Rep.thy ===== *)
theory Price_Levels_Rep
  imports Price_Levels
begin

text \<open>
  What the linked structure of a book stands for, and that the operations of \<open>Price_Levels\<close> maintain
  it.  \<open>rep b L\<close> relates a book to the lists of its two sides: for each side the levels from best to
  worst price, each with the block indices of its orders in FIFO order.  The two main results are
  \<open>link_rep\<close> (an order is appended to the level of its price, and the level is created at its place
  in the price order if it does not exist) and \<open>unlink_rep\<close> (an order is taken out of its level, and
  the level goes when it was the last).
\<close>

section \<open>Field views\<close>

definition nextE :: "OrdersAtPrice MemPool \<Rightarrow> field" where "nextE P a = next_entry (obj P a)"
definition prevE :: "OrdersAtPrice MemPool \<Rightarrow> field" where "prevE P a = prev_entry (obj P a)"
definition nextO :: "'x order_node_scheme MemPool \<Rightarrow> field" where "nextO P a = next_order (obj P a)"
definition prevO :: "'x order_node_scheme MemPool \<Rightarrow> field" where "prevO P a = prev_order (obj P a)"

lemmas view_defs = nextE_def prevE_def nextO_def prevO_def

text \<open>The part of a node that linking does not touch.\<close>

definition strip :: "'x order_node_scheme \<Rightarrow> 'x order_node_scheme" where
  "strip x = x\<lparr>prev_order := None, next_order := None\<rparr>"

lemma strip_fields [simp]:
  "ord_side (strip x) = ord_side x" "ord_price (strip x) = ord_price x"
  "ord_qty (strip x) = ord_qty x" "ord_priority (strip x) = ord_priority x"
  by (simp_all add: strip_def)

lemma strip_upd [simp]:
  "strip (x\<lparr>prev_order := p\<rparr>) = strip x" "strip (x\<lparr>next_order := p\<rparr>) = strip x"
  by (simp_all add: strip_def)

definition lvl_data :: "OrdersAtPrice \<Rightarrow> Side \<times> Price \<times> ptr" where
  "lvl_data l = (lvl_side l, lvl_price l, first_order l)"

lemma access_Some [simp, res_simps]:
  "get_level (Some l) b = Inr (obj (orders_at_price_pool b) l)"
  "assign_level (Some l) f b = Inr (b\<lparr>orders_at_price_pool := pool_upd l f (orders_at_price_pool b)\<rparr>)"
  "get_order (Some a) b = Inr (obj (order_pool b) a)"
  "assign_order (Some a) g b = Inr (b\<lparr>order_pool := pool_upd a g (order_pool b)\<rparr>)"
  by (simp_all add: get_level_def assign_level_def get_order_def assign_order_def)

lemma best_set_best [simp]:
  "side \<in> {BUY, SELL} \<Longrightarrow> s \<in> {BUY, SELL} \<Longrightarrow>
    best_orders_by_price s (set_best side p b) = (if s = side then p else best_orders_by_price s b)"
  by (auto simp: best_orders_by_price_def set_best_def)

lemma set_best_sel [simp]:
  "orders_at_price_pool (set_best s p b) = orders_at_price_pool b"
  "price_orders_at_price (set_best s p b) = price_orders_at_price b"
  "order_pool (set_best s p b) = order_pool b"
  by (simp_all add: set_best_def)

lemma best_upd [simp]:
  "best_orders_by_price s (b\<lparr>orders_at_price_pool := P\<rparr>) = best_orders_by_price s b"
  "best_orders_by_price s (b\<lparr>order_pool := Q\<rparr>) = best_orders_by_price s b"
  "best_orders_by_price s (b\<lparr>price_orders_at_price := t\<rparr>) = best_orders_by_price s b"
  by (simp_all add: best_orders_by_price_def)

lemma priceToIndex_upd [simp]:
  "priceToIndex (b\<lparr>orders_at_price_pool := P\<rparr>) p = priceToIndex b p"
  "priceToIndex (b\<lparr>order_pool := Q\<rparr>) p = priceToIndex b p"
  "priceToIndex (set_best s q b) p = priceToIndex b p"
  by (simp_all add: priceToIndex_def)

lemma priceToIndex_less: "0 < arr_size (price_orders_at_price b) \<Longrightarrow> priceToIndex b p < arr_size (price_orders_at_price b)"
  by (simp add: priceToIndex_def)

section \<open>The price order of a side\<close>

definition opp :: "Side \<Rightarrow> Side" where
  "opp s = (if s = BUY then SELL else BUY)"

lemma opp_simps [simp]: "opp BUY = SELL" "opp SELL = BUY"
  by (simp_all add: opp_def)

lemma worse_irrefl [simp]: "\<not> worse s p p"
  by (auto simp: worse_def)

lemma worse_asym: "worse s p q \<Longrightarrow> \<not> worse s q p"
  by (auto simp: worse_def)

lemma worse_trans: "worse s p q \<Longrightarrow> worse s q r \<Longrightarrow> worse s p r"
  by (auto simp: worse_def)

lemma worse_total: "s \<in> {BUY, SELL} \<Longrightarrow> p \<noteq> q \<Longrightarrow> worse s p q \<or> worse s q p"
  by (auto simp: worse_def)

section \<open>Representation\<close>

type_synonym levels = "(nat \<times> nat list) list"

definition flat :: "levels \<Rightarrow> nat list" where
  "flat xs = concat (map snd xs)"

lemma flat_simps [simp]: "flat [] = []" "flat (x # xs) = snd x @ flat xs" "flat (xs @ ys) = flat xs @ flat ys"
  by (simp_all add: flat_def)

lemma set_flat: "a \<in> set (flat xs) \<longleftrightarrow> (\<exists>x\<in>set xs. a \<in> set (snd x))"
  by (auto simp: flat_def)

definition level_ok :: "OrdersAtPrice MemPool \<Rightarrow> 'x order_node_scheme MemPool \<Rightarrow> Side \<Rightarrow> nat \<times> nat list \<Rightarrow> bool" where
  "level_ok LP OP s x \<longleftrightarrow>
     snd x \<noteq> [] \<and> lvl_side (obj LP (fst x)) = s \<and> first_order (obj LP (fst x)) = Some (hd (snd x)) \<and>
     cdll (nextO OP) (prevO OP) (snd x) \<and>
     (\<forall>a\<in>set (snd x). ord_side (obj OP a) = s \<and> ord_price (obj OP a) = lvl_price (obj LP (fst x)))"

definition lprice :: "OrdersAtPrice MemPool \<Rightarrow> nat \<times> nat list \<Rightarrow> Price" where
  "lprice LP x = lvl_price (obj LP (fst x))"

definition head_ptr :: "levels \<Rightarrow> ptr" where
  "head_ptr xs = (if xs = [] then None else Some (fst (hd xs)))"

definition side_ok ::
  "OrdersAtPrice MemPool \<Rightarrow> 'x order_node_scheme MemPool \<Rightarrow> Side \<Rightarrow> ptr \<Rightarrow> levels \<Rightarrow> bool" where
  "side_ok LP OP s best xs \<longleftrightarrow>
     best = head_ptr xs \<and> cdll (nextE LP) (prevE LP) (map fst xs) \<and>
     (\<forall>x\<in>set xs. level_ok LP OP s x) \<and>
     sorted_wrt (\<lambda>x y. worse s (lprice LP y) (lprice LP x)) xs \<and> distinct (flat xs)"

definition table_ok :: "('x, 'y) book_core_scheme \<Rightarrow> (nat \<times> nat list) set \<Rightarrow> bool" where
  "table_ok b X \<longleftrightarrow>
     (\<forall>x\<in>X. arr_get (price_orders_at_price b)
                    (priceToIndex b (lprice (orders_at_price_pool b) x)) = Some (fst x)) \<and>
     (\<forall>i l. i < arr_size (price_orders_at_price b) \<longrightarrow> arr_get (price_orders_at_price b) i = Some l \<longrightarrow>
        (\<exists>x\<in>X. fst x = l \<and> priceToIndex b (lprice (orders_at_price_pool b) x) = i))"

definition rep :: "('x, 'y) book_core_scheme \<Rightarrow> (Side \<Rightarrow> levels) \<Rightarrow> bool" where
  "rep b L \<longleftrightarrow>
     (\<forall>s\<in>{BUY, SELL}. side_ok (orders_at_price_pool b) (order_pool b) s (best_orders_by_price s b) (L s)) \<and>
     fst ` set (L BUY) \<inter> fst ` set (L SELL) = {} \<and>
     set (flat (L BUY)) \<inter> set (flat (L SELL)) = {} \<and>
     used (orders_at_price_pool b) = fst ` set (L BUY) \<union> fst ` set (L SELL) \<and>
     pool_inv (orders_at_price_pool b) \<and>
     0 < arr_size (price_orders_at_price b) \<and> table_ok b (set (L BUY) \<union> set (L SELL))"

text \<open>The clauses of \<open>rep\<close> seen from one side.\<close>

lemma repD:
  assumes "rep b L" and "s \<in> {BUY, SELL}"
  shows rep_side: "side_ok (orders_at_price_pool b) (order_pool b) s (best_orders_by_price s b) (L s)"
    and rep_opp: "side_ok (orders_at_price_pool b) (order_pool b) (opp s) (best_orders_by_price (opp s) b) (L (opp s))"
    and rep_disj_levels: "fst ` set (L s) \<inter> fst ` set (L (opp s)) = {}"
    and rep_disj_orders: "set (flat (L s)) \<inter> set (flat (L (opp s))) = {}"
    and rep_used: "used (orders_at_price_pool b) = fst ` set (L s) \<union> fst ` set (L (opp s))"
    and rep_pool: "pool_inv (orders_at_price_pool b)"
    and rep_tab: "0 < arr_size (price_orders_at_price b)"
    and rep_table: "table_ok b (set (L s) \<union> set (L (opp s)))"
proof -
  consider "s = BUY" | "s = SELL" using assms(2) by blast
  then show "side_ok (orders_at_price_pool b) (order_pool b) s (best_orders_by_price s b) (L s)"
    and "side_ok (orders_at_price_pool b) (order_pool b) (opp s) (best_orders_by_price (opp s) b) (L (opp s))"
    and "fst ` set (L s) \<inter> fst ` set (L (opp s)) = {}"
    and "set (flat (L s)) \<inter> set (flat (L (opp s))) = {}"
    and "used (orders_at_price_pool b) = fst ` set (L s) \<union> fst ` set (L (opp s))"
    and "pool_inv (orders_at_price_pool b)" and "0 < arr_size (price_orders_at_price b)"
    and "table_ok b (set (L s) \<union> set (L (opp s)))"
    using assms(1) by (cases; simp add: rep_def Int_commute Un_commute)+
qed

lemma repI:
  assumes "s \<in> {BUY, SELL}"
    and "side_ok (orders_at_price_pool b) (order_pool b) s (best_orders_by_price s b) xs"
    and "side_ok (orders_at_price_pool b) (order_pool b) (opp s) (best_orders_by_price (opp s) b) (L (opp s))"
    and "fst ` set xs \<inter> fst ` set (L (opp s)) = {}"
    and "set (flat xs) \<inter> set (flat (L (opp s))) = {}"
    and "used (orders_at_price_pool b) = fst ` set xs \<union> fst ` set (L (opp s))"
    and "pool_inv (orders_at_price_pool b)" and "0 < arr_size (price_orders_at_price b)"
    and "table_ok b (set xs \<union> set (L (opp s)))"
  shows "rep b (L(s := xs))"
proof -
  consider "s = BUY" | "s = SELL" using assms(1) by blast
  then show ?thesis using assms(2-) by cases (simp_all add: rep_def Int_commute Un_commute)
qed

lemma level_ok_frame:
  assumes "level_ok LP OP s x" and "lvl_data (obj LP' (fst x)) = lvl_data (obj LP (fst x))"
    and "\<And>a. a \<in> set (snd x) \<Longrightarrow> obj OP' a = obj OP a"
  shows "level_ok LP' OP' s x"
proof -
  have "cdll (nextO OP') (prevO OP') (snd x) = cdll (nextO OP) (prevO OP) (snd x)"
    using assms(3) by (intro cdll_cong) (auto simp: view_defs)
  then show ?thesis using assms by (auto simp: level_ok_def lvl_data_def)
qed

lemma lprice_frame: "lvl_data (obj LP' (fst x)) = lvl_data (obj LP (fst x)) \<Longrightarrow> lprice LP' x = lprice LP x"
  by (simp add: lprice_def lvl_data_def)

lemma sorted_levels_frame:
  assumes "\<And>x. x \<in> set xs \<Longrightarrow> lprice LP' x = lprice LP x"
  shows "sorted_wrt (\<lambda>x y. worse s (lprice LP' y) (lprice LP' x)) xs =
         sorted_wrt (\<lambda>x y. worse s (lprice LP y) (lprice LP x)) xs"
  using assms by (induction xs) auto

lemma side_ok_frame:
  assumes "side_ok LP OP s best xs"
    and "\<And>l. l \<in> fst ` set xs \<Longrightarrow> obj LP' l = obj LP l" and "\<And>a. a \<in> set (flat xs) \<Longrightarrow> obj OP' a = obj OP a"
  shows "side_ok LP' OP' s best xs"
proof -
  have "cdll (nextE LP') (prevE LP') (map fst xs) = cdll (nextE LP) (prevE LP) (map fst xs)"
    using assms(2) by (intro cdll_cong) (auto simp: view_defs)
  moreover have "\<forall>x\<in>set xs. level_ok LP' OP' s x"
  proof
    fix x assume x: "x \<in> set xs"
    with assms(1) have "level_ok LP OP s x" by (simp add: side_ok_def)
    then show "level_ok LP' OP' s x"
      using assms(2) [of "fst x"] assms(3) x by (elim level_ok_frame) (auto simp: set_flat)
  qed
  moreover have "\<And>x. x \<in> set xs \<Longrightarrow> lprice LP' x = lprice LP x"
    using assms(2) by (simp add: lprice_def)
  ultimately show ?thesis
    using assms(1) sorted_levels_frame [of xs LP' LP s] by (simp add: side_ok_def)
qed

lemma side_ok_level: "side_ok LP OP s best xs \<Longrightarrow> x \<in> set xs \<Longrightarrow> level_ok LP OP s x"
  by (simp add: side_ok_def)

lemma side_ok_distinct: "side_ok LP OP s best xs \<Longrightarrow> distinct (map fst xs)"
  by (auto simp: side_ok_def dest: cdll_distinct)

text \<open>An order of the representation is found under its price in the table.\<close>

lemma rep_lookup:
  assumes "rep b L" and "s \<in> {BUY, SELL}" and "x \<in> set (L s)"
  shows "getOrdersAtPrice (lprice (orders_at_price_pool b) x) b = Inr (Some (fst x))"
  using rep_table [OF assms(1,2)] rep_tab [OF assms(1,2)] assms(3)
  by (auto simp: getOrdersAtPrice_def table_ok_def priceToIndex_less)

lemma rep_empty:
  assumes "pool_inv (orders_at_price_pool b)" and "used (orders_at_price_pool b) = {}"
    and "0 < arr_size (price_orders_at_price b)" and "arr_get (price_orders_at_price b) = (\<lambda>_. None)"
    and "bids_by_price b = None" and "asks_by_price b = None"
  shows "rep b (\<lambda>_. [])"
  using assms by (auto simp: rep_def side_ok_def head_ptr_def table_ok_def best_orders_by_price_def)


section \<open>Appending to an existing level\<close>

lemma strip_data:
  assumes "strip x = strip y"
  shows "ord_side x = ord_side y" and "ord_price x = ord_price y" and "ord_qty x = ord_qty y"
    and "ord_priority x = ord_priority y"
  using assms by (metis strip_fields)+

lemma side_ok_append:
  assumes ok: "side_ok LP OP s best (us @ (l, os) # vs)"
    and a: "a \<notin> set (flat (us @ (l, os) # vs))"
    and n: "nextO OP' = (nextO OP)(last os := Some a, a := Some (hd os))"
    and p: "prevO OP' = (prevO OP)(a := Some (last os), hd os := Some a)"
    and st: "\<And>c. strip (obj OP' c) = strip (obj OP c)"
    and new: "ord_side (obj OP a) = s" "ord_price (obj OP a) = lvl_price (obj LP l)"
  shows "side_ok LP OP' s best (us @ (l, os @ [a]) # vs)"
proof -
  have d: "distinct (flat (us @ (l, os) # vs))" using ok by (simp add: side_ok_def)
  have lok: "level_ok LP OP s (l, os)" using ok by (simp add: side_ok_def)
  have os: "os \<noteq> []" using lok by (simp add: level_ok_def)
  have data: "ord_side (obj OP' c) = ord_side (obj OP c) \<and> ord_price (obj OP' c) = ord_price (obj OP c)" for c
    using strip_data [OF st [of c]] by simp
  have "cdll (nextO OP') (prevO OP') (os @ [a])"
    using lok a os unfolding n p by (intro cdll_snoc) (auto simp: level_ok_def)
  then have 1: "level_ok LP OP' s (l, os @ [a])"
    using lok os data new by (auto simp: level_ok_def)
  have 2: "level_ok LP OP' s x" if x: "x \<in> set us \<union> set vs" for x
  proof -
    have "level_ok LP OP s x" using ok x by (auto simp: side_ok_def)
    moreover have "set (snd x) \<subseteq> set (flat us) \<union> set (flat vs)" using x by (auto simp: set_flat)
    then have "set (snd x) \<inter> set os = {}" and "a \<notin> set (snd x)" using d a by auto
    then have "cdll (nextO OP') (prevO OP') (snd x) = cdll (nextO OP) (prevO OP) (snd x)"
      using os by (intro cdll_cong) (auto simp: n p)
    ultimately show ?thesis using data by (auto simp: level_ok_def)
  qed
  show ?thesis
    using ok a d 1 2 by (auto simp: side_ok_def head_ptr_def hd_append lprice_def sorted_wrt_append split: if_splits)
qed


text \<open>
  What linking and unlinking leave alone in the order pool: which blocks are in use, and every field
  of every order but the two links.
\<close>

definition relinked :: "'x order_node_scheme MemPool \<Rightarrow> 'x order_node_scheme MemPool \<Rightarrow> bool" where
  "relinked P P' \<longleftrightarrow>
     used P' = used P \<and> pool_size P' = pool_size P \<and> pool_inv P' = pool_inv P \<and>
     (\<forall>c. strip (obj P' c) = strip (obj P c))"

lemma relinked_upd:
  assumes "\<And>x. strip (f x) = strip x" and "relinked P P'"
  shows "relinked P (pool_upd a f P')"
  using assms by (simp add: relinked_def)

lemma relinked_refl [simp]: "relinked P P"
  by (simp add: relinked_def)

lemma link_existing:
  assumes r: "rep b L" and s: "s \<in> {BUY, SELL}" and L: "L s = us @ (l, os) # vs"
    and new: "ord_side (obj (order_pool b) a) = s"
      "ord_price (obj (order_pool b) a) = lvl_price (obj (orders_at_price_pool b) l)"
    and a: "a \<notin> set (flat (L BUY))" "a \<notin> set (flat (L SELL))"
  obtains OP' where "linkOrder (Some a) b = Inr (b\<lparr>order_pool := OP'\<rparr>)"
    and "rep (b\<lparr>order_pool := OP'\<rparr>) (L(s := us @ (l, os @ [a]) # vs))" and "relinked (order_pool b) OP'"
proof -
  let ?LP = "orders_at_price_pool b" and ?OP = "order_pool b"
  let ?P1 = "pool_upd (last os) (\<lambda>x. x\<lparr>next_order := Some a\<rparr>) ?OP"
  let ?P2 = "pool_upd a (\<lambda>x. x\<lparr>prev_order := Some (last os)\<rparr>) ?P1"
  let ?P3 = "pool_upd a (\<lambda>x. x\<lparr>next_order := Some (hd os)\<rparr>) ?P2"
  let ?P4 = "pool_upd (hd os) (\<lambda>x. x\<lparr>prev_order := Some a\<rparr>) ?P3"
  have aa: "a \<notin> set (flat (L s))" "a \<notin> set (flat (L (opp s)))" using a s by auto
  have ok: "side_ok ?LP ?OP s (best_orders_by_price s b) (us @ (l, os) # vs)"
    using rep_side [OF r s] L by simp
  have lok: "level_ok ?LP ?OP s (l, os)" using ok by (simp add: side_ok_def)
  then have os: "os \<noteq> []" and first: "first_order (obj ?LP l) = Some (hd os)"
    and prev: "prev_order (obj ?OP (hd os)) = Some (last os)"
    by (auto simp: level_ok_def view_defs dest: cdll_hd_prev)
  have ne: "a \<noteq> hd os" "a \<noteq> last os" using aa(1) os L by auto
  have get: "getOrdersAtPrice (ord_price (obj ?OP a)) b = Inr (Some l)"
    using rep_lookup [OF r s, of "(l, os)"] L new by (simp add: lprice_def)
  have run: "linkOrder (Some a) b = Inr (b\<lparr>order_pool := ?P4\<rparr>)"
    using get first prev ne by (cases "hd os = last os") (simp_all add: linkOrder_def Let_def)
  have views: "nextO ?P4 = (nextO ?OP)(last os := Some a, a := Some (hd os))"
    "prevO ?P4 = (prevO ?OP)(a := Some (last os), hd os := Some a)"
    using ne by (auto simp: view_defs fun_eq_iff)
  have rel: "relinked ?OP ?P4" by (intro relinked_upd) simp_all
  have 1: "side_ok ?LP ?P4 s (best_orders_by_price s b) (us @ (l, os @ [a]) # vs)"
    using rel aa(1) L by (intro side_ok_append [OF ok _ views _ new]) (auto simp: relinked_def)
  have osL: "set os \<subseteq> set (flat (L s))" using L by auto
  have 2: "side_ok ?LP ?P4 (opp s) (best_orders_by_price (opp s) b) (L (opp s))"
  proof (rule side_ok_frame [OF rep_opp [OF r s]])
    fix c assume c: "c \<in> set (flat (L (opp s)))"
    then have "c \<notin> set os" using osL rep_disj_orders [OF r s] by auto
    then have "c \<noteq> hd os" "c \<noteq> last os" using os by auto
    then show "obj ?P4 c = obj ?OP c" using c aa(2) by auto
  qed simp
  have "rep (b\<lparr>order_pool := ?P4\<rparr>) (L(s := us @ (l, os @ [a]) # vs))"
    using 1 2 rep_disj_levels [OF r s] rep_disj_orders [OF r s] rep_used [OF r s] rep_pool [OF r s]
      rep_tab [OF r s] rep_table [OF r s] aa L
    by (intro repI [OF s]) (auto simp: table_ok_def lprice_def)
  then show ?thesis using run rel by (intro that)
qed

end
