(* ===== verification/Price_Levels_Insert.thy ===== *)
theory Price_Levels_Insert
  imports Price_Levels_Rep
begin

text \<open>
  \<open>addOrdersAtPrice()\<close> and the part of \<open>addOrder()\<close> that links an order: the search for the place of
  a new level finds the first level that is not more aggressive (\<open>find_target_correct\<close>), the level is
  linked there, and altogether an order is appended behind all orders of its side that are at least
  as aggressive (\<open>link_rep\<close>).
\<close>

section \<open>The search for the place of a level\<close>

lemma add_after_loop_correct:
  assumes c: "cdll (nextE (orders_at_price_pool b)) (prevE (orders_at_price_pool b)) (map fst (us1 @ us2 @ vs))"
    and us1: "us1 \<noteq> []"
    and u: "\<forall>x\<in>set us2. worse s price (lprice (orders_at_price_pool b) x)"
    and v: "vs \<noteq> [] \<Longrightarrow> \<not> worse s price (lprice (orders_at_price_pool b) (hd vs))"
    and fuel: "length us2 < fuel"
  shows "add_after_loop fuel b s price (Some (fst (hd us1))) True
           (Some (hd (map fst us2 @ map fst vs @ [fst (hd us1)]))) =
         Inr (if vs = [] then (True, Some (fst (hd us1))) else (False, Some (fst (hd vs))))"
  using assms
proof (induction us2 arbitrary: us1 fuel)
  case Nil
  obtain f where f: "fuel = Suc f" using Nil.prems(5) by (cases fuel) auto
  show ?case
  proof (cases vs)
    case (Cons y ys)
    have "fst y \<noteq> fst (hd us1)" using cdll_distinct [OF Nil.prems(1)] Nil.prems(2) Cons
      by (cases us1) auto
    then show ?thesis using f Nil.prems(4) Cons by (cases f) (auto simp: lprice_def)
  qed (simp add: f)
next
  case (Cons u us2)
  obtain f where f: "fuel = Suc f" "length us2 < f" using Cons.prems(5) by (cases fuel) auto
  have ne: "fst u \<noteq> fst (hd us1)" using cdll_distinct [OF Cons.prems(1)] Cons.prems(2)
    by (cases us1) auto
  have "cdll (nextE (orders_at_price_pool b)) (prevE (orders_at_price_pool b))
      (map fst us1 @ fst u # map fst (us2 @ vs))" using Cons.prems(1) by simp
  from cdll_next [OF this] have "next_entry (obj (orders_at_price_pool b) (fst u)) =
      Some (hd (map fst us2 @ map fst vs @ [fst (hd us1)]))"
    using Cons.prems(2) by (simp add: view_defs hd_append hd_map)
  moreover have "add_after_loop f b s price (Some (fst (hd (us1 @ [u])))) True
      (Some (hd (map fst us2 @ map fst vs @ [fst (hd (us1 @ [u]))]))) =
      Inr (if vs = [] then (True, Some (fst (hd (us1 @ [u])))) else (False, Some (fst (hd vs))))"
    using Cons.prems f(2) by (intro Cons.IH) auto
  ultimately show ?case using f(1) ne Cons.prems(2,3) by (simp add: lprice_def)
qed

lemma find_target_correct:
  assumes c: "cdll (nextE (orders_at_price_pool b)) (prevE (orders_at_price_pool b)) (map fst (us @ vs))"
    and ne: "us @ vs \<noteq> []"
    and u: "\<forall>x\<in>set us. worse s price (lprice (orders_at_price_pool b) x)"
    and v: "vs \<noteq> [] \<Longrightarrow> \<not> worse s price (lprice (orders_at_price_pool b) (hd vs))"
    and fuel: "length (us @ vs) \<le> pool_size (orders_at_price_pool b)"
  shows "find_target s price (Some (fst (hd (us @ vs)))) b =
         Inr (if vs = [] then (True, Some (fst (hd us))) else (False, Some (fst (hd vs))))"
proof (cases us)
  case Nil
  obtain f where "pool_size (orders_at_price_pool b) = Suc f"
    using fuel ne by (cases "pool_size (orders_at_price_pool b)") auto
  then show ?thesis using Nil ne v by (auto simp: find_target_def lprice_def)
next
  case (Cons x us2)
  let ?t = "hd (map fst us2 @ map fst vs @ [fst x])"
  obtain f where f: "pool_size (orders_at_price_pool b) = Suc f"
    using fuel Cons by (cases "pool_size (orders_at_price_pool b)") auto
  have nx: "next_entry (obj (orders_at_price_pool b) (fst x)) = Some ?t"
    using cdll_next [of "nextE (orders_at_price_pool b)" "prevE (orders_at_price_pool b)" "[]" "fst x"
        "map fst (us2 @ vs)"] c Cons by (simp add: view_defs)
  show ?thesis
  proof (cases "us2 = [] \<and> vs \<noteq> []")
    case True
    then show ?thesis using nx f u v Cons by (simp add: find_target_def lprice_def Let_def hd_map)
  next
    case False
    then have "worse s price (lvl_price (obj (orders_at_price_pool b) ?t))"
      using u Cons by (cases us2) (auto simp: lprice_def)
    moreover have "add_after_loop (Suc f) b s price (Some (fst (hd [x]))) True
        (Some (hd (map fst us2 @ map fst vs @ [fst (hd [x])]))) =
        Inr (if vs = [] then (True, Some (fst (hd [x]))) else (False, Some (fst (hd vs))))"
      using c Cons u v f fuel by (intro add_after_loop_correct) auto
    ultimately show ?thesis using nx f u Cons
      by (simp add: find_target_def lprice_def Let_def del: add_after_loop.simps)
  qed
qed

section \<open>Linking a new level\<close>

text \<open>What the operations on levels keep: everything but links, lists and table entries.\<close>

definition reshaped :: "('x, 'y) book_core_scheme \<Rightarrow> ('x, 'y) book_core_scheme \<Rightarrow> bool" where
  "reshaped b b' \<longleftrightarrow>
     relinked (order_pool b) (order_pool b') \<and> book_core.more b' = book_core.more b \<and>
     arr_size (price_orders_at_price b') = arr_size (price_orders_at_price b) \<and>
     pool_size (orders_at_price_pool b') = pool_size (orders_at_price_pool b)"

lemma priceToIndex_reshaped: "reshaped b b' \<Longrightarrow> priceToIndex b' p = priceToIndex b p"
  by (simp add: priceToIndex_def reshaped_def)

lemma side_ok_insert_level:
  assumes ok: "side_ok LP OP s best (us @ vs)"
    and c: "cdll (nextE LP') (prevE LP') (map fst us @ n # map fst vs)"
    and d: "\<And>x. x \<in> set (us @ vs) \<Longrightarrow> lvl_data (obj LP' (fst x)) = lvl_data (obj LP (fst x))"
    and n: "lvl_data (obj LP' n) = (s, price, Some a)"
    and o: "\<And>c. c \<noteq> a \<Longrightarrow> obj OP' c = obj OP c"
    and a: "next_order (obj OP' a) = Some a" "prev_order (obj OP' a) = Some a"
      "ord_side (obj OP' a) = s" "ord_price (obj OP' a) = price" "a \<notin> set (flat (us @ vs))"
    and u: "\<forall>x\<in>set us. worse s price (lprice LP x)"
    and v: "\<forall>x\<in>set vs. worse s (lprice LP x) price"
  shows "side_ok LP' OP' s (head_ptr (us @ (n, [a]) # vs)) (us @ (n, [a]) # vs)"
proof -
  have lp: "lprice LP' x = lprice LP x" if "x \<in> set us \<union> set vs" for x
    using d [of x] that by (auto intro: lprice_frame)
  have "level_ok LP' OP' s x" if x: "x \<in> set us \<union> set vs" for x
  proof -
    have "a \<notin> set (snd x)" using x a(5) by (auto simp: set_flat)
    then have "\<And>c. c \<in> set (snd x) \<Longrightarrow> obj OP' c = obj OP c" using o by metis
    then show ?thesis using ok x d by (intro level_ok_frame [of LP OP s x LP' OP']) (auto simp: side_ok_def)
  qed
  moreover have "level_ok LP' OP' s (n, [a])"
    using n a by (simp add: level_ok_def lvl_data_def view_defs)
  moreover have "lprice LP' (n, [a]) = price" using n by (simp add: lprice_def lvl_data_def)
  moreover have "sorted_wrt (\<lambda>x y. worse s (lprice LP' y) (lprice LP' x)) us"
    and "sorted_wrt (\<lambda>x y. worse s (lprice LP' y) (lprice LP' x)) vs"
    using ok lp sorted_levels_frame [of us LP' LP s] sorted_levels_frame [of vs LP' LP s]
    by (auto simp: side_ok_def sorted_wrt_append)
  moreover have "\<forall>x\<in>set us. \<forall>y\<in>set vs. worse s (lprice LP' y) (lprice LP' x)"
    using ok lp by (auto simp: side_ok_def sorted_wrt_append)
  ultimately show ?thesis
    using ok c a(5) u v lp by (auto simp: side_ok_def sorted_wrt_append)
qed

text \<open>The level pool after the link updates, up to the order of writes that do not interfere.\<close>

definition linked_level :: "OrdersAtPrice MemPool \<Rightarrow> OrdersAtPrice MemPool \<Rightarrow> bool" where
  "linked_level P P' \<longleftrightarrow>
     used P' = used P \<and> pool_size P' = pool_size P \<and> pool_inv P' = pool_inv P \<and>
     (\<forall>l. lvl_data (obj P' l) = lvl_data (obj P l))"

lemma insert_after_run:
  assumes c: "cdll (nextE P) (prevE P) xs" and xs: "xs \<noteq> []" and n: "n \<notin> set xs"
    and P: "P = orders_at_price_pool b"
  shows "\<exists>P'. insert_after (Some (hd xs)) (Some n) (Some (hd xs)) b = Inr (b\<lparr>orders_at_price_pool := P'\<rparr>) \<and>
     linked_level P P' \<and> cdll (nextE P') (prevE P') (xs @ [n]) \<and>
     (\<forall>l. l \<noteq> n \<longrightarrow> l \<notin> set xs \<longrightarrow> obj P' l = obj P l)"
proof -
  let ?z = "last xs" and ?y = "hd xs"
  let ?P1 = "pool_upd n (\<lambda>l. l\<lparr>prev_entry := Some ?z\<rparr>) P"
  let ?P2 = "pool_upd ?y (\<lambda>l. l\<lparr>prev_entry := Some n\<rparr>) ?P1"
  let ?P3 = "pool_upd n (\<lambda>l. l\<lparr>next_entry := Some ?y\<rparr>) ?P2"
  let ?P4 = "pool_upd ?z (\<lambda>l. l\<lparr>next_entry := Some n\<rparr>) ?P3"
  have ne: "n \<noteq> ?z" "n \<noteq> ?y" "?z \<noteq> n" "?y \<noteq> n" "?z \<in> set xs" "?y \<in> set xs" using n xs by auto
  have f: "next_entry (obj P ?z) = Some ?y" "prev_entry (obj P ?y) = Some ?z"
    using cdll_last_next [OF c xs] cdll_hd_prev [OF c xs] by (simp_all add: view_defs)
  have "insert_after (Some ?y) (Some n) (Some ?y) b = Inr (b\<lparr>orders_at_price_pool := ?P4\<rparr>)"
    using f ne P by (cases "?z = ?y") (simp_all add: insert_after_def)
  moreover have "nextE ?P4 = (nextE P)(?z := Some n, n := Some ?y)"
    "prevE ?P4 = (prevE P)(n := Some ?z, ?y := Some n)"
    using ne by (auto simp: view_defs fun_eq_iff)
  then have "cdll (nextE ?P4) (prevE ?P4) (xs @ [n])" using cdll_snoc [OF c xs n] by simp
  moreover have "linked_level P ?P4" by (simp add: linked_level_def lvl_data_def)
  moreover have "\<forall>l. l \<noteq> n \<longrightarrow> l \<notin> set xs \<longrightarrow> obj ?P4 l = obj P l" using ne by auto
  ultimately show ?thesis by blast
qed

lemma insert_before_run:
  assumes c: "cdll (nextE P) (prevE P) (us @ y # vs)" and n: "n \<notin> set (us @ y # vs)"
    and P: "P = orders_at_price_pool b" and best: "best = hd (us @ [y])"
    and us: "us \<noteq> [] \<longleftrightarrow> worse s price (lvl_price (obj P best))"
    and y: "lvl_price (obj P y) \<noteq> price" and s: "s \<in> {BUY, SELL}"
  shows "\<exists>P'. insert_before s price (Some best) (Some n) (Some y) b =
       Inr (if us = [] then set_best s (Some n) (b\<lparr>orders_at_price_pool := P'\<rparr>)
            else b\<lparr>orders_at_price_pool := P'\<rparr>) \<and>
     linked_level P P' \<and> cdll (nextE P') (prevE P') (us @ n # y # vs) \<and>
     (\<forall>l. l \<noteq> n \<longrightarrow> l \<notin> set (us @ y # vs) \<longrightarrow> obj P' l = obj P l)"
proof -
  define z where "z = last (y # vs @ us)"
  let ?P1 = "pool_upd n (\<lambda>l. l\<lparr>prev_entry := Some z\<rparr>) P"
  let ?P2 = "pool_upd n (\<lambda>l. l\<lparr>next_entry := Some y\<rparr>) ?P1"
  let ?P3 = "pool_upd z (\<lambda>l. l\<lparr>next_entry := Some n\<rparr>) ?P2"
  let ?P4 = "pool_upd y (\<lambda>l. l\<lparr>prev_entry := Some n\<rparr>) ?P3"
  have zin: "z \<in> set (us @ y # vs)" using last_in_set [of "y # vs @ us"] by (auto simp: z_def)
  have bin: "best \<in> set (us @ y # vs)" using best by (cases us) auto
  have ne: "n \<noteq> z" "n \<noteq> y" "z \<noteq> n" "y \<noteq> n" "best \<noteq> n" using n zin bin by auto
  have pz: "prevE P y = Some z" using cdll_prev [OF c] by (simp add: z_def)
  have fz: "prev_entry (obj P y) = Some z" using pz by (simp add: view_defs)
  let ?c = "s = BUY \<and> price > lvl_price (obj P best) \<or> s = SELL \<and> price < lvl_price (obj P best)"
  let ?P5 = "if us = [] then pool_upd y (\<lambda>l. l\<lparr>next_entry := next_entry (obj ?P4 y)\<rparr>) ?P4 else ?P4"
  have cus: "?c \<longleftrightarrow> us = []"
    using us y s best by (cases us) (auto simp: worse_def)
  have keep: "us = [] \<Longrightarrow> next_entry (obj ?P4 y) \<noteq> Some best"
    using best ne cdll_next [OF c] cdll_distinct [OF c] by (cases vs) (auto simp: view_defs z_def)
  have run: "insert_before s price (Some best) (Some n) (Some y) b =
       Inr (if us = [] then set_best s (Some n) (b\<lparr>orders_at_price_pool := ?P5\<rparr>)
            else b\<lparr>orders_at_price_pool := ?P5\<rparr>)"
  proof (cases "us = []")
    case True
    then have "best = y" using best by simp
    moreover have "s = BUY \<and> price > lvl_price (obj P y) \<or> s = SELL \<and> price < lvl_price (obj P y)"
      using cus True best by simp
    ultimately show ?thesis using True keep fz ne P
      by (cases "z = y") (simp_all add: insert_before_def)
  next
    case False
    have "s = BUY \<and> \<not> price > lvl_price (obj P best) \<or> s = SELL \<and> \<not> price < lvl_price (obj P best)"
      using cus False s by blast
    then show ?thesis using False fz ne P
      by (elim disjE conjE; cases "z = y"; cases "best = y"; cases "best = z")
        (simp_all add: insert_before_def)
  qed
  have "nextE ?P5 = (nextE P)(z := Some n, n := Some y)"
    "prevE ?P5 = (prevE P)(n := Some z, y := Some n)"
    using ne by (auto simp: view_defs fun_eq_iff)
  then have "cdll (nextE ?P5) (prevE ?P5) (us @ n # y # vs)" using cdll_insert [OF c n pz] by simp
  moreover have "linked_level P ?P5" by (simp add: linked_level_def lvl_data_def)
  moreover have "\<forall>l. l \<noteq> n \<longrightarrow> l \<notin> set (us @ y # vs) \<longrightarrow> obj ?P5 l = obj P l" using ne zin by auto
  ultimately show ?thesis using run by blast
qed


lemma best_set_best_opp: "s \<in> {BUY, SELL} \<Longrightarrow> best_orders_by_price (opp s) (set_best s p b) = best_orders_by_price (opp s) b"
  by (auto simp: best_orders_by_price_def set_best_def)

lemma more_set_best [simp]: "book_core.more (set_best s p b) = book_core.more b"
  by (simp add: set_best_def)

lemma addOrdersAtPrice_run:
  assumes P: "P = orders_at_price_pool b" and s: "s \<in> {BUY, SELL}"
    and n: "lvl_side (obj P n) = s" "lvl_price (obj P n) = price" "n \<notin> fst ` set (us @ vs)"
    and c: "cdll (nextE P) (prevE P) (map fst (us @ vs))"
    and best: "best_orders_by_price s b = head_ptr (us @ vs)"
    and u: "\<forall>x\<in>set us. worse s price (lprice P x)" and v: "\<forall>x\<in>set vs. worse s (lprice P x) price"
    and fuel: "length (us @ vs) \<le> pool_size P" and tab: "0 < arr_size (price_orders_at_price b)"
  shows "\<exists>b'. addOrdersAtPrice (Some n) b = Inr b' \<and> linked_level P (orders_at_price_pool b') \<and>
     cdll (nextE (orders_at_price_pool b')) (prevE (orders_at_price_pool b')) (map fst us @ n # map fst vs) \<and>
     (\<forall>l. l \<noteq> n \<longrightarrow> l \<notin> fst ` set (us @ vs) \<longrightarrow> obj (orders_at_price_pool b') l = obj P l) \<and>
     order_pool b' = order_pool b \<and> book_core.more b' = book_core.more b \<and>
     price_orders_at_price b' = (price_orders_at_price b)
       \<lparr>arr_get := (arr_get (price_orders_at_price b))(priceToIndex b price := Some n)\<rparr> \<and>
     best_orders_by_price s b' = Some (hd (map fst us @ [n])) \<and>
     best_orders_by_price (opp s) b' = best_orders_by_price (opp s) b"
proof -
  let ?tab = "(price_orders_at_price b)
    \<lparr>arr_get := (arr_get (price_orders_at_price b))(priceToIndex b price := Some n)\<rparr>"
  let ?b = "b\<lparr>price_orders_at_price := ?tab\<rparr>"
  have put: "arr_put (priceToIndex b price) (Some n) (price_orders_at_price b) = Inr ?tab"
    using tab by (simp add: priceToIndex_less)
  have v': "vs \<noteq> [] \<Longrightarrow> \<not> worse s price (lprice P (hd vs))" using v worse_asym by (cases vs) auto
  have n': "n \<notin> set (map fst (us @ vs))" using n(3) by auto
  have hd_eq: "head_ptr (us @ vs) = Some (fst (hd (us @ vs)))" if "us @ vs \<noteq> []"
    using that by (simp add: head_ptr_def)
  have find: "find_target s price (Some (fst (hd (us @ vs)))) ?b =
      Inr (if vs = [] then (True, Some (fst (hd us))) else (False, Some (fst (hd vs))))"
    if "us @ vs \<noteq> []" using c u v' fuel P that by (intro find_target_correct) simp_all
  consider (empty) "us @ vs = []" | (after) "us \<noteq> []" "vs = []" | (before) y ys where "vs = y # ys"
    by (cases vs) auto
  then show ?thesis
  proof cases
    case empty
    then show ?thesis using put P n s best
      by (auto simp: addOrdersAtPrice_def head_ptr_def linked_level_def lvl_data_def view_defs best_set_best_opp)
  next
    case after
    obtain P' where "insert_after (Some (hd (map fst us))) (Some n) (Some (hd (map fst us))) ?b =
        Inr (?b\<lparr>orders_at_price_pool := P'\<rparr>)" "linked_level P P'"
      "cdll (nextE P') (prevE P') (map fst us @ [n])" "\<forall>l. l \<noteq> n \<longrightarrow> l \<notin> set (map fst us) \<longrightarrow> obj P' l = obj P l"
      using insert_after_run [of P "map fst us" n ?b] c after n' P by auto
    then show ?thesis using put P n best hd_eq find after
      by (simp add: addOrdersAtPrice_def Let_def hd_map hd_append)
  next
    case before
    have bst: "fst (hd (us @ vs)) = hd (map fst us @ [fst y])" using before by (cases us) auto
    have us: "us \<noteq> [] \<longleftrightarrow> worse s price (lvl_price (obj P (hd (map fst us @ [fst y]))))"
      using u v' before by (cases us) (auto simp: lprice_def)
    have y: "lvl_price (obj P (fst y)) \<noteq> price" using v before worse_irrefl by (auto simp: lprice_def)
    obtain P' where P': "insert_before s price (Some (hd (map fst us @ [fst y]))) (Some n) (Some (fst y)) ?b =
        Inr (if map fst us = [] then set_best s (Some n) (?b\<lparr>orders_at_price_pool := P'\<rparr>)
             else ?b\<lparr>orders_at_price_pool := P'\<rparr>)" "linked_level P P'"
      "cdll (nextE P') (prevE P') (map fst us @ n # fst y # map fst ys)"
      "\<forall>l. l \<noteq> n \<longrightarrow> l \<notin> set (map fst us @ fst y # map fst ys) \<longrightarrow> obj P' l = obj P l"
      using insert_before_run [of P "map fst us" "fst y" "map fst ys" n ?b "hd (map fst us @ [fst y])" s price]
        c before n' P us y s by auto
    have "addOrdersAtPrice (Some n) b =
        Inr (if us = [] then set_best s (Some n) (?b\<lparr>orders_at_price_pool := P'\<rparr>)
             else ?b\<lparr>orders_at_price_pool := P'\<rparr>)"
      using put P n best hd_eq find before P'(1) bst by (simp add: addOrdersAtPrice_def Let_def)
    then show ?thesis using P'(2-) before best hd_eq s
      by (cases "us = []") (auto simp: best_set_best_opp hd_map)
  qed
qed


section \<open>Linking an order\<close>

lemma rep_levels_le:
  assumes r: "rep b L" and s: "s \<in> {BUY, SELL}"
  shows "length (L s) \<le> pool_size (orders_at_price_pool b)"
proof -
  have "length (L s) = card (fst ` set (L s))"
    using side_ok_distinct [OF rep_side [OF r s]] distinct_card [of "map fst (L s)"] by simp
  also have "\<dots> \<le> card {..<pool_size (orders_at_price_pool b)}"
    using rep_used [OF r s] by (intro card_mono) (auto dest: used_less)
  finally show ?thesis by simp
qed

lemma table_ok_insert:
  assumes t: "table_ok b X" and free: "arr_get (price_orders_at_price b) (priceToIndex b price) = None"
    and tab: "price_orders_at_price b' = (price_orders_at_price b)
       \<lparr>arr_get := (arr_get (price_orders_at_price b))(priceToIndex b price := Some n)\<rparr>"
    and pos: "0 < arr_size (price_orders_at_price b)"
    and lp: "\<And>x. x \<in> X \<Longrightarrow> lprice (orders_at_price_pool b') x = lprice (orders_at_price_pool b) x"
    and new: "lprice (orders_at_price_pool b') (n, os) = price"
  shows "table_ok b' (insert (n, os) X)"
proof -
  have ix: "priceToIndex b' p = priceToIndex b p" for p using tab by (simp add: priceToIndex_def)
  have "priceToIndex b (lprice (orders_at_price_pool b) x) \<noteq> priceToIndex b price" if "x \<in> X" for x
    using t free that by (auto simp: table_ok_def)
  then show ?thesis using t lp new pos by (auto simp: table_ok_def ix tab)
qed

lemma link_new_level:
  assumes r: "rep b L" and s: "s \<in> {BUY, SELL}" and L: "L s = us @ vs"
    and new: "ord_side (obj (order_pool b) a) = s" "ord_price (obj (order_pool b) a) = price"
    and a: "a \<notin> set (flat (L BUY))" "a \<notin> set (flat (L SELL))"
    and free: "getOrdersAtPrice price b = Inr None"
    and room: "card (used (orders_at_price_pool b)) + 2 \<le> pool_size (orders_at_price_pool b)"
    and u: "\<forall>x\<in>set us. worse s price (lprice (orders_at_price_pool b) x)"
    and v: "\<forall>x\<in>set vs. worse s (lprice (orders_at_price_pool b) x) price"
  obtains b' n where "linkOrder (Some a) b = Inr b'" and "rep b' (L(s := us @ (n, [a]) # vs))"
    and "reshaped b b'"
proof -
  let ?LP = "orders_at_price_pool b" and ?OP = "order_pool b"
  let ?OP' = "pool_upd a (\<lambda>x. x\<lparr>next_order := Some a, prev_order := Some a\<rparr>) ?OP"
  let ?lv = "\<lparr>lvl_side = s, lvl_price = price, first_order = Some a, prev_entry = None, next_entry = None\<rparr>"
  have aa: "a \<notin> set (flat (L s))" "a \<notin> set (flat (L (opp s)))" using a s by auto
  obtain n P where P: "allocate ?lv ?LP = Inr (n, P)" "pool_inv P" "pool_size P = pool_size ?LP"
    "n \<notin> used ?LP" "used P = insert n (used ?LP)" "obj P = (obj ?LP)(n := ?lv)"
    using pool.alloc_ok [OF rep_pool [OF r s] room, of ?lv] by blast
  let ?b = "b\<lparr>order_pool := ?OP', orders_at_price_pool := P\<rparr>"
  have nn: "n \<notin> fst ` set (L s)" "n \<notin> fst ` set (L (opp s))" using P(4) rep_used [OF r s] by auto
  have ok: "side_ok ?LP ?OP s (best_orders_by_price s b) (us @ vs)" using rep_side [OF r s] L by simp
  have lp: "lprice P x = lprice ?LP x" if "fst x \<noteq> n" for x using that by (simp add: lprice_def P(6))
  have ne: "fst x \<noteq> n" if "x \<in> set (L s) \<union> set (L (opp s))" for x using nn that by auto
  have "cdll (nextE P) (prevE P) (map fst (us @ vs)) = cdll (nextE ?LP) (prevE ?LP) (map fst (us @ vs))"
    using nn(1) L by (intro cdll_cong) (auto simp: view_defs P(6))
  then have c: "cdll (nextE P) (prevE P) (map fst (us @ vs))" using ok by (simp add: side_ok_def)
  obtain b' where b': "addOrdersAtPrice (Some n) ?b = Inr b'" "linked_level P (orders_at_price_pool b')"
    "cdll (nextE (orders_at_price_pool b')) (prevE (orders_at_price_pool b')) (map fst us @ n # map fst vs)"
    "\<forall>l. l \<noteq> n \<longrightarrow> l \<notin> fst ` set (us @ vs) \<longrightarrow> obj (orders_at_price_pool b') l = obj P l"
    "order_pool b' = ?OP'" "book_core.more b' = book_core.more b"
    "price_orders_at_price b' = (price_orders_at_price b)
       \<lparr>arr_get := (arr_get (price_orders_at_price b))(priceToIndex b price := Some n)\<rparr>"
    "best_orders_by_price s b' = Some (hd (map fst us @ [n]))"
    "best_orders_by_price (opp s) b' = best_orders_by_price (opp s) b"
    using addOrdersAtPrice_run [of P ?b s n price us vs] s nn(1) L c ok u v lp ne
      rep_levels_le [OF r s] rep_tab [OF r s] P(3,6)
    by (auto simp: side_ok_def)
  have run: "linkOrder (Some a) b = Inr b'"
    using free new P(1) b'(1) by (simp add: linkOrder_def)
  let ?LP' = "orders_at_price_pool b'"
  have data: "lvl_data (obj ?LP' l) = lvl_data (obj P l)" for l using b'(2) by (simp add: linked_level_def)
  then have lp': "lprice ?LP' x = lprice ?LP x" if "x \<in> set (L s) \<union> set (L (opp s))" for x
    using lp [OF ne [OF that]] by (simp add: lprice_def lvl_data_def)
  have old: "lvl_data (obj ?LP' (fst x)) = lvl_data (obj ?LP (fst x))" if "x \<in> set (us @ vs)" for x
    using data ne [of x] that L P(6) by auto
  have lvn: "lvl_data (obj ?LP' n) = (s, price, Some a)" using data P(6) by (simp add: lvl_data_def)
  have "side_ok ?LP' ?OP' s (head_ptr (us @ (n, [a]) # vs)) (us @ (n, [a]) # vs)"
    using new aa(1) L u v by (intro side_ok_insert_level [OF ok b'(3) old lvn]) simp_all
  moreover have "head_ptr (us @ (n, [a]) # vs) = Some (hd (map fst us @ [n]))" by (cases us) (auto simp: head_ptr_def)
  moreover have "side_ok ?LP' ?OP' (opp s) (best_orders_by_price (opp s) b) (L (opp s))"
  proof (rule side_ok_frame [OF rep_opp [OF r s]])
    fix l assume "l \<in> fst ` set (L (opp s))"
    then have "l \<noteq> n" "l \<notin> fst ` set (us @ vs)" using rep_disj_levels [OF r s] nn(2) L by auto
    then show "obj ?LP' l = obj ?LP l" using b'(4) P(6) by simp
  qed (use aa(2) in auto)
  moreover have "table_ok b' (insert (n, [a]) (set (L s) \<union> set (L (opp s))))"
    using rep_table [OF r s] free rep_tab [OF r s] b'(7) lp' data P(6)
    by (intro table_ok_insert [of b _ price])
      (auto simp: getOrdersAtPrice_def priceToIndex_less lprice_def lvl_data_def)
  moreover have "used ?LP' = insert n (fst ` set (L s) \<union> fst ` set (L (opp s)))" "pool_inv ?LP'"
    using b'(2) P(2,5) rep_used [OF r s] by (auto simp: linked_level_def)
  ultimately have "rep b' (L(s := us @ (n, [a]) # vs))"
    using b'(5,7,8,9) L rep_disj_levels [OF r s] rep_disj_orders [OF r s] nn(2) aa(2) rep_tab [OF r s]
    by (intro repI [OF s]) (auto simp: insert_commute)
  moreover have "reshaped b b'"
    using b'(2,5,6,7) P(3) by (auto simp: reshaped_def linked_level_def intro!: relinked_upd simp: strip_def)
  ultimately show ?thesis using run by (intro that)
qed


text \<open>Price-time order: behind everything that is not less aggressive.\<close>

definition price_insert :: "Side \<Rightarrow> ('a \<Rightarrow> Price) \<Rightarrow> 'a \<Rightarrow> 'a list \<Rightarrow> 'a list" where
  "price_insert s f a xs =
     takeWhile (\<lambda>c. \<not> worse s (f c) (f a)) xs @ a # dropWhile (\<lambda>c. \<not> worse s (f c) (f a)) xs"

lemma price_insert_split:
  assumes "\<forall>c\<in>set xs. \<not> worse s (f c) (f a)" and "\<forall>c\<in>set ys. worse s (f c) (f a)"
  shows "price_insert s f a (xs @ ys) = xs @ a # ys"
proof -
  have "ys \<noteq> [] \<Longrightarrow> \<not> \<not> worse s (f (hd ys)) (f a)" using assms(2) by simp
  then show ?thesis using assms(1) takeWhile_dropWhile_unique [of xs "\<lambda>c. \<not> worse s (f c) (f a)" ys]
    by (simp add: price_insert_def)
qed

lemma map_price_insert:
  "map g (price_insert s (\<lambda>c. f (g c)) a xs) = price_insert s f (g a) (map g xs)"
  by (simp add: price_insert_def takeWhile_map dropWhile_map comp_def)

lemma set_price_insert [simp]: "set (price_insert s f a xs) = insert a (set xs)"
  using set_append [of "takeWhile (\<lambda>c. \<not> worse s (f c) (f a)) xs" "dropWhile (\<lambda>c. \<not> worse s (f c) (f a)) xs"]
  by (auto simp: price_insert_def dest: set_takeWhileD)

lemma mset_price_insert [simp]: "mset (price_insert s f a xs) = add_mset a (mset xs)"
  using mset_append [of "takeWhile (\<lambda>c. \<not> worse s (f c) (f a)) xs" "dropWhile (\<lambda>c. \<not> worse s (f c) (f a)) xs"]
  by (simp add: price_insert_def)

lemma opp_in: "s \<in> {BUY, SELL} \<Longrightarrow> opp s \<in> {BUY, SELL}"
  by auto

lemma rep_order_level:
  assumes r: "rep b L" and s: "s \<in> {BUY, SELL}" and x: "x \<in> set (L s)" and c: "c \<in> set (snd x)"
  shows "ord_price (obj (order_pool b) c) = lprice (orders_at_price_pool b) x"
    and "ord_side (obj (order_pool b) c) = s"
  using side_ok_level [OF rep_side [OF r s] x] c by (auto simp: level_ok_def lprice_def)

lemma rep_level_order:
  assumes r: "rep b L" and s: "s \<in> {BUY, SELL}" and x: "x \<in> set (L s)"
  obtains c where "c \<in> set (snd x)" and "c \<in> set (flat (L s))"
    and "ord_price (obj (order_pool b) c) = lprice (orders_at_price_pool b) x"
proof -
  have "snd x \<noteq> []" using side_ok_level [OF rep_side [OF r s] x] by (simp add: level_ok_def)
  then have "hd (snd x) \<in> set (snd x)" by simp
  then show ?thesis using that rep_order_level(1) [OF r s x] x by (auto simp: set_flat)
qed

definition live :: "(Side \<Rightarrow> levels) \<Rightarrow> nat set" where
  "live L = set (flat (L BUY)) \<union> set (flat (L SELL))"

definition fits :: "('x, 'y) book_core_scheme \<Rightarrow> (Side \<Rightarrow> levels) \<Rightarrow> Side \<Rightarrow> Price \<Rightarrow> bool" where
  "fits b L s price \<longleftrightarrow>
     (\<forall>c\<in>live L. priceToIndex b (ord_price (obj (order_pool b) c)) = priceToIndex b price \<longrightarrow>
        ord_price (obj (order_pool b) c) = price \<and> ord_side (obj (order_pool b) c) = s)"

text \<open>The table entry of a price that does not collide: its level, or nothing.\<close>

lemma rep_entry:
  assumes r: "rep b L" and s: "s \<in> {BUY, SELL}" and f: "fits b L s price"
  obtains (none) "getOrdersAtPrice price b = Inr None"
      and "\<And>c. c \<in> live L \<Longrightarrow> ord_price (obj (order_pool b) c) \<noteq> price"
    | (some) x where "getOrdersAtPrice price b = Inr (Some (fst x))" and "x \<in> set (L s)"
      and "lprice (orders_at_price_pool b) x = price"
proof -
  have i: "priceToIndex b price < arr_size (price_orders_at_price b)"
    using rep_tab [OF r s] by (rule priceToIndex_less)
  have g: "getOrdersAtPrice price b = Inr (arr_get (price_orders_at_price b) (priceToIndex b price))"
    using i by (simp add: getOrdersAtPrice_def)
  show ?thesis
  proof (cases "arr_get (price_orders_at_price b) (priceToIndex b price)")
    case None
    have "ord_price (obj (order_pool b) c) \<noteq> price" if c: "c \<in> live L" for c
    proof -
      obtain t x where t: "t \<in> {BUY, SELL}" "x \<in> set (L t)" "c \<in> set (snd x)"
        using c by (auto simp: live_def set_flat)
      then have "x \<in> set (L t) \<union> set (L (opp t))" by simp
      then show ?thesis using rep_table [OF r t(1)] rep_order_level(1) [OF r t] None
        by (auto simp: table_ok_def)
    qed
    then show ?thesis using g None by (intro none) auto
  next
    case (Some l)
    then obtain x where x: "x \<in> set (L s) \<union> set (L (opp s))" "fst x = l"
      "priceToIndex b (lprice (orders_at_price_pool b) x) = priceToIndex b price"
      using rep_table [OF r s] i unfolding table_ok_def by blast
    then obtain t where t: "t \<in> {BUY, SELL}" "x \<in> set (L t)" using s opp_in [OF s] by blast
    obtain c where c: "c \<in> set (snd x)" "c \<in> set (flat (L t))"
      "ord_price (obj (order_pool b) c) = lprice (orders_at_price_pool b) x"
      using rep_level_order [OF r t] .
    then have "c \<in> live L" using t(1) by (auto simp: live_def)
    then have "lprice (orders_at_price_pool b) x = price" "t = s"
      using f c x(3) rep_order_level(2) [OF r t c(1)] by (auto simp: fits_def)
    then show ?thesis using g Some t x(2) by (intro some [of x]) auto
  qed
qed


lemma rep_sorted:
  assumes "rep b L" and "s \<in> {BUY, SELL}"
  shows "sorted_wrt (\<lambda>x y. worse s (lprice (orders_at_price_pool b) y) (lprice (orders_at_price_pool b) x)) (L s)"
  using rep_side [OF assms] by (simp add: side_ok_def)

lemma flat_order:
  assumes r: "rep b L" and s: "s \<in> {BUY, SELL}" and "set xs \<subseteq> set (L s)" and "c \<in> set (flat xs)"
  obtains x where "x \<in> set xs" and "ord_price (obj (order_pool b) c) = lprice (orders_at_price_pool b) x"
  using rep_order_level(1) [OF r s] assms(3,4) by (auto simp: set_flat)

lemma price_split:
  assumes r: "rep b L" and s: "s \<in> {BUY, SELL}"
    and "\<And>x. x \<in> set (L s) \<Longrightarrow> lprice (orders_at_price_pool b) x \<noteq> price"
  obtains us vs where "L s = us @ vs" and "\<forall>x\<in>set us. worse s price (lprice (orders_at_price_pool b) x)"
    and "\<forall>x\<in>set vs. worse s (lprice (orders_at_price_pool b) x) price"
proof -
  let ?W = "\<lambda>x. worse s price (lprice (orders_at_price_pool b) x)"
  let ?us = "takeWhile ?W (L s)" and ?vs = "dropWhile ?W (L s)"
  have split: "L s = ?us @ ?vs" by simp
  have "worse s (lprice (orders_at_price_pool b) x) price" if x: "x \<in> set ?vs" for x
  proof -
    obtain y ys where y: "?vs = y # ys" using x by (cases ?vs) auto
    have "\<not> ?W y" using y hd_dropWhile [of ?W "L s"] by simp
    moreover have "y \<in> set (L s)" using y split by (metis list.set_intros(1) set_dropWhileD)
    ultimately have w: "worse s (lprice (orders_at_price_pool b) y) price"
      using assms(3) worse_total [OF s] by blast
    have "sorted_wrt (\<lambda>x y. worse s (lprice (orders_at_price_pool b) y) (lprice (orders_at_price_pool b) x)) (?us @ ?vs)"
      using rep_sorted [OF r s] by simp
    then have "x = y \<or> worse s (lprice (orders_at_price_pool b) x) (lprice (orders_at_price_pool b) y)"
      using x y unfolding sorted_wrt_append by auto
    then show ?thesis using w worse_trans by blast
  qed
  then show ?thesis using split by (intro that [of ?us ?vs]) (auto dest: set_takeWhileD)
qed

text \<open>
  Linking an order into a represented book, seen on the flat lists: it goes behind all orders of its
  side that are not less aggressive, and the other side is unchanged.
\<close>

lemma link_rep:
  assumes r: "rep b L" and s: "s \<in> {BUY, SELL}"
    and new: "ord_side (obj (order_pool b) a) = s" "ord_price (obj (order_pool b) a) = price" "a \<notin> live L"
    and f: "fits b L s price"
    and room: "card (used (orders_at_price_pool b)) + 2 \<le> pool_size (orders_at_price_pool b)"
  obtains b' L' where "linkOrder (Some a) b = Inr b'" and "rep b' L'" and "reshaped b b'"
    and "flat (L' s) = price_insert s (\<lambda>c. ord_price (obj (order_pool b) c)) a (flat (L s))"
    and "flat (L' (opp s)) = flat (L (opp s))"
proof -
  let ?p = "\<lambda>c. ord_price (obj (order_pool b) c)" and ?LP = "orders_at_price_pool b"
  have a: "a \<notin> set (flat (L BUY))" "a \<notin> set (flat (L SELL))" using new(3) by (auto simp: live_def)
  have ss: "opp s \<noteq> s" using s by auto
  from r s f show ?thesis
  proof (cases rule: rep_entry)
    case none
    have "lprice ?LP x \<noteq> price" if "x \<in> set (L s)" for x
      using rep_level_order [OF r s that] none(2) s by (metis UnI1 UnI2 insertE live_def singletonD)
    then obtain us vs where uv: "L s = us @ vs" "\<forall>x\<in>set us. worse s price (lprice ?LP x)"
      "\<forall>x\<in>set vs. worse s (lprice ?LP x) price" using price_split [OF r s] by blast
    obtain b' n where b': "linkOrder (Some a) b = Inr b'" "rep b' (L(s := us @ (n, [a]) # vs))" "reshaped b b'"
      using link_new_level [OF r s uv(1) new(1,2) a none(1) room uv(2,3)] .
    have "price_insert s ?p a (flat us @ flat vs) = flat us @ a # flat vs"
    proof (rule price_insert_split)
      show "\<forall>c\<in>set (flat us). \<not> worse s (?p c) (?p a)"
        using uv flat_order [OF r s, of us] worse_asym new(2) by (metis Un_iff set_append subsetI)
      show "\<forall>c\<in>set (flat vs). worse s (?p c) (?p a)"
        using uv flat_order [OF r s, of vs] new(2) by (metis Un_iff set_append subsetI)
    qed
    then show ?thesis using b' uv(1) ss by (intro that [of b' "L(s := us @ (n, [a]) # vs)"]) auto
  next
    case (some x)
    obtain us vs where uv: "L s = us @ (fst x, snd x) # vs" using some(2) by (auto dest: split_list)
    obtain OP' where b': "linkOrder (Some a) b = Inr (b\<lparr>order_pool := OP'\<rparr>)"
      "rep (b\<lparr>order_pool := OP'\<rparr>) (L(s := us @ (fst x, snd x @ [a]) # vs))" "relinked (order_pool b) OP'"
      using link_existing [OF r s uv new(1) _ a] new(2) some(3) by (auto simp: lprice_def)
    have srt: "sorted_wrt (\<lambda>x y. worse s (lprice ?LP y) (lprice ?LP x)) (us @ x # vs)"
      using rep_sorted [OF r s] uv by simp
    have "price_insert s ?p a ((flat us @ snd x) @ flat vs) = (flat us @ snd x) @ a # flat vs"
    proof (rule price_insert_split)
      have "\<not> worse s (?p c) price" if c: "c \<in> set (flat us)" for c
        using flat_order [OF r s _ c] uv srt some(3) worse_asym
        by (metis (no_types, lifting) Un_iff list.set_intros(1) set_append sorted_wrt_append subsetI)
      then show "\<forall>c\<in>set (flat us @ snd x). \<not> worse s (?p c) (?p a)"
        using rep_order_level(1) [OF r s some(2)] some(3) new(2) by auto
      have "worse s (?p c) price" if c: "c \<in> set (flat vs)" for c
      proof -
        obtain y where "y \<in> set vs" "?p c = lprice ?LP y" using flat_order [OF r s _ c] uv by auto
        then show ?thesis using srt some(3) by (auto simp: sorted_wrt_append)
      qed
      then show "\<forall>c\<in>set (flat vs). worse s (?p c) (?p a)" using new(2) by blast
    qed
    moreover have "reshaped b (b\<lparr>order_pool := OP'\<rparr>)" using b'(3) by (simp add: reshaped_def)
    ultimately show ?thesis using b'(1,2) uv ss
      by (intro that [of "b\<lparr>order_pool := OP'\<rparr>" "L(s := us @ (fst x, snd x @ [a]) # vs)"]) auto
  qed
qed

end
