(* ===== verification/Price_Levels_Remove.thy ===== *)
theory Price_Levels_Remove
  imports Price_Levels_Insert
begin

text \<open>
  \<open>removeOrdersAtPrice()\<close> and the part of \<open>removeOrder()\<close> that unlinks an order: the order leaves the
  FIFO list of its level, and the level leaves the book when it was its last order (\<open>unlink_rep\<close>).
\<close>

section \<open>An order leaves a level that keeps others\<close>

lemma side_ok_shrink:
  assumes ok: "side_ok LP OP s best (us @ (l, os) # vs)"
    and c: "cdll (nextO OP') (prevO OP') os'" and os': "os' \<noteq> []" "set os' \<subseteq> set os"
    and o: "\<And>c. c \<notin> set os \<Longrightarrow> obj OP' c = obj OP c" and st: "\<And>c. strip (obj OP' c) = strip (obj OP c)"
    and l: "obj LP' = (obj LP)(l := (obj LP l)\<lparr>first_order := Some (hd os')\<rparr>)"
  shows "side_ok LP' OP' s best (us @ (l, os') # vs)"
proof -
  have d: "distinct (map fst (us @ (l, os) # vs))" using side_ok_distinct [OF ok] .
  have dd: "distinct (flat (us @ (l, os) # vs))" using ok by (simp add: side_ok_def)
  have "nextE LP' = nextE LP" "prevE LP' = prevE LP" by (auto simp: view_defs l fun_eq_iff)
  moreover have "lprice LP (l, os') = lprice LP (l, os)" by (simp add: lprice_def)
  moreover have lpx: "lprice LP' x = lprice LP x" for x by (simp add: lprice_def l)
  moreover have "level_ok LP' OP' s x" if x: "x \<in> set us \<union> set vs" for x
  proof -
    have "fst x \<noteq> l" using d x by force
    moreover have "set (snd x) \<subseteq> set (flat us) \<union> set (flat vs)" using x by (auto simp: set_flat)
    then have "set (snd x) \<inter> set os = {}" using dd by auto
    ultimately show ?thesis using ok x o l
      by (intro level_ok_frame [of LP OP s x LP' OP']) (auto simp: side_ok_def lvl_data_def)
  qed
  moreover have "level_ok LP' OP' s (l, os')"
    using ok c os' strip_data [OF st] by (auto simp: side_ok_def level_ok_def l)
  moreover have "distinct (flat (us @ (l, os') # vs))"
    using dd os'(2) cdll_distinct [OF c] by auto
  ultimately show ?thesis
    using ok by (auto simp: side_ok_def head_ptr_def hd_append lpx sorted_wrt_append split: if_splits)
qed

lemma table_ok_alt:
  "table_ok b Y \<longleftrightarrow>
     (\<forall>l\<in>fst ` Y. arr_get (price_orders_at_price b)
        (priceToIndex b (lvl_price (obj (orders_at_price_pool b) l))) = Some l) \<and>
     (\<forall>i l. i < arr_size (price_orders_at_price b) \<longrightarrow> arr_get (price_orders_at_price b) i = Some l \<longrightarrow>
        l \<in> fst ` Y \<and> priceToIndex b (lvl_price (obj (orders_at_price_pool b) l)) = i)"
  unfolding table_ok_def lprice_def by (auto simp: image_iff) metis+

lemma table_ok_cong:
  assumes t: "table_ok b X" and f: "fst ` X' = fst ` X"
    and tab: "price_orders_at_price b' = price_orders_at_price b"
    and lp: "\<And>l. lvl_price (obj (orders_at_price_pool b') l) = lvl_price (obj (orders_at_price_pool b) l)"
  shows "table_ok b' X'"
  using t by (simp add: table_ok_alt f tab lp priceToIndex_def)

lemma unlink_kept_level:
  assumes r: "rep b L" and s: "s \<in> {BUY, SELL}" and L: "L s = us @ (l, os1 @ a # os2) # vs"
    and ne: "os1 @ os2 \<noteq> []"
  obtains b' where "unlinkOrder (Some a) b = Inr b'" and "rep b' (L(s := us @ (l, os1 @ os2) # vs))"
    and "reshaped b b'"
proof -
  let ?LP = "orders_at_price_pool b" and ?OP = "order_pool b" and ?os = "os1 @ a # os2"
  have ok: "side_ok ?LP ?OP s (best_orders_by_price s b) (us @ (l, ?os) # vs)" using rep_side [OF r s] L by simp
  then have lok: "level_ok ?LP ?OP s (l, ?os)" by (simp add: side_ok_def)
  then have cd: "cdll (nextO ?OP) (prevO ?OP) ?os" by (simp add: level_ok_def)
  define y where "y = hd (os2 @ os1)"
  define z where "z = last (os2 @ os1)"
  have nx: "next_order (obj ?OP a) = Some y" "prev_order (obj ?OP a) = Some z"
    using cdll_next [OF cd] cdll_prev [OF cd] ne by (auto simp: y_def z_def view_defs hd_append)
  have yz: "y \<in> set (os1 @ os2)" "z \<in> set (os1 @ os2)" "y \<noteq> a" "z \<noteq> a"
  proof -
    have "os2 @ os1 \<noteq> []" using ne by auto
    from hd_in_set [OF this] last_in_set [OF this]
    show "y \<in> set (os1 @ os2)" "z \<in> set (os1 @ os2)" by (auto simp: y_def z_def)
    then show "y \<noteq> a" "z \<noteq> a" using cdll_distinct [OF cd] by auto
  qed
  let ?P1 = "pool_upd z (\<lambda>x. x\<lparr>next_order := Some y\<rparr>) ?OP"
  let ?P2 = "pool_upd y (\<lambda>x. x\<lparr>prev_order := Some z\<rparr>) ?P1"
  let ?P3 = "pool_upd a (\<lambda>x. x\<lparr>prev_order := None, next_order := None\<rparr>) ?P2"
  let ?Q = "if os1 = [] then pool_upd l (\<lambda>x. x\<lparr>first_order := Some y\<rparr>) ?LP else ?LP"
  let ?b = "b\<lparr>order_pool := ?P3, orders_at_price_pool := ?Q\<rparr>"
  have first: "first_order (obj ?LP l) = Some (hd ?os)" using lok by (simp add: level_ok_def)
  have hd_a: "hd ?os = a \<longleftrightarrow> os1 = []" using cdll_distinct [OF cd] by (cases os1) auto
  have get: "getOrdersAtPrice (ord_price (obj ?OP a)) b = Inr (Some l)"
    using rep_lookup [OF r s, of "(l, ?os)"] L lok by (simp add: level_ok_def lprice_def)
  have run: "unlinkOrder (Some a) b = Inr ?b"
    using get nx yz(3,4) first hd_a by (cases "os1 = []") (simp_all add: unlinkOrder_def Let_def)
  have views: "nextO ?P3 = (nextO ?OP)(z := Some y, a := None)" "prevO ?P3 = (prevO ?OP)(y := Some z, a := None)"
    using yz by (auto simp: view_defs fun_eq_iff)
  have "cdll (nextO ?P3) (prevO ?P3) (os1 @ os2)"
    using cdll_remove [OF cd ne, of y z] nx cdll_distinct [OF cd] by (simp add: views view_defs [symmetric])
  moreover have st: "strip (obj ?P3 c) = strip (obj ?OP c)" for c by (simp add: strip_def)
  moreover have "hd (os1 @ os2) = (if os1 = [] then y else hd ?os)" by (auto simp: y_def hd_append)
  then have "obj ?Q = (obj ?LP)(l := (obj ?LP l)\<lparr>first_order := Some (hd (os1 @ os2))\<rparr>)"
    using first by (auto simp: fun_eq_iff)
  ultimately have 1: "side_ok ?Q ?P3 s (best_orders_by_price s b) (us @ (l, os1 @ os2) # vs)"
    using yz ne by (intro side_ok_shrink [OF ok]) auto
  have sub: "set ?os \<subseteq> set (flat (L s))" "l \<in> fst ` set (L s)" using L by auto
  have 2: "side_ok ?Q ?P3 (opp s) (best_orders_by_price (opp s) b) (L (opp s))"
  proof (rule side_ok_frame [OF rep_opp [OF r s]])
    fix c assume "c \<in> set (flat (L (opp s)))"
    then have "c \<notin> set ?os" using sub rep_disj_orders [OF r s] by auto
    then show "obj ?P3 c = obj ?OP c" using yz by auto
  next
    fix k assume "k \<in> fst ` set (L (opp s))"
    then have "k \<noteq> l" using sub rep_disj_levels [OF r s] by auto
    then show "obj ?Q k = obj ?LP k" by simp
  qed
  have 3: "fst ` set (us @ (l, os1 @ os2) # vs) = fst ` set (L s)" using L by auto
  have 4: "set (flat (us @ (l, os1 @ os2) # vs)) \<subseteq> set (flat (L s))" using L by auto
  have 5: "table_ok ?b (set (us @ (l, os1 @ os2) # vs) \<union> set (L (opp s)))"
    by (rule table_ok_cong [OF rep_table [OF r s]]) (simp_all only: image_Un 3, simp_all)
  have 6: "used ?Q = used ?LP" "pool_inv ?Q = pool_inv ?LP" by simp_all
  have "rep ?b (L(s := us @ (l, os1 @ os2) # vs))"
  proof (rule repI [OF s])
    show "set (flat (us @ (l, os1 @ os2) # vs)) \<inter> set (flat (L (opp s))) = {}"
      using 4 rep_disj_orders [OF r s] by blast
    show "fst ` set (us @ (l, os1 @ os2) # vs) \<inter> fst ` set (L (opp s)) = {}"
      using 3 rep_disj_levels [OF r s] by simp
    show "used (orders_at_price_pool ?b) = fst ` set (us @ (l, os1 @ os2) # vs) \<union> fst ` set (L (opp s))"
      using 3 6 rep_used [OF r s] by simp
    show "table_ok ?b (set (us @ (l, os1 @ os2) # vs) \<union> set (L (opp s)))" by (rule 5)
  qed (use 1 2 6 rep_pool [OF r s] rep_tab [OF r s] in simp_all)
  moreover have "reshaped b ?b" by (auto simp: reshaped_def relinked_def strip_def)
  ultimately show ?thesis using run by (intro that)
qed


section \<open>The last order of a level\<close>

lemma removeOrdersAtPrice_run:
  assumes r: "rep b L" and s: "s \<in> {BUY, SELL}" and L: "L s = us @ (l, os) # vs"
    and p: "lvl_price (obj (orders_at_price_pool b) l) = price"
  shows "\<exists>b'. removeOrdersAtPrice s price b = Inr b' \<and> order_pool b' = order_pool b \<and>
     book_core.more b' = book_core.more b \<and>
     price_orders_at_price b' = (price_orders_at_price b)
       \<lparr>arr_get := (arr_get (price_orders_at_price b))(priceToIndex b price := None)\<rparr> \<and>
     pool_inv (orders_at_price_pool b') \<and> used (orders_at_price_pool b') = used (orders_at_price_pool b) - {l} \<and>
     pool_size (orders_at_price_pool b') = pool_size (orders_at_price_pool b) \<and>
     (\<forall>k. lvl_data (obj (orders_at_price_pool b') k) = lvl_data (obj (orders_at_price_pool b) k)) \<and>
     (\<forall>k. k \<notin> fst ` set (L s) \<longrightarrow> obj (orders_at_price_pool b') k = obj (orders_at_price_pool b) k) \<and>
     cdll (nextE (orders_at_price_pool b')) (prevE (orders_at_price_pool b')) (map fst (us @ vs)) \<and>
     best_orders_by_price s b' = head_ptr (us @ vs) \<and>
     best_orders_by_price (opp s) b' = best_orders_by_price (opp s) b"
proof -
  let ?LP = "orders_at_price_pool b"
  let ?tab = "(price_orders_at_price b)\<lparr>arr_get := (arr_get (price_orders_at_price b))(priceToIndex b price := None)\<rparr>"
  have ok: "side_ok ?LP (order_pool b) s (best_orders_by_price s b) (us @ (l, os) # vs)" using rep_side [OF r s] L by simp
  have cd: "cdll (nextE ?LP) (prevE ?LP) (map fst us @ l # map fst vs)" using ok by (simp add: side_ok_def)
  have get: "getOrdersAtPrice price b = Inr (Some l)"
    using rep_lookup [OF r s, of "(l, os)"] L p by (simp add: lprice_def)
  have best: "best_orders_by_price s b = Some (hd (map fst us @ [l]))" using ok by (cases us) (auto simp: side_ok_def head_ptr_def)
  have put: "arr_put (priceToIndex b price) None (price_orders_at_price b) = Inr ?tab"
    using rep_tab [OF r s] by (simp add: priceToIndex_less)
  have lu: "l \<in> used ?LP" using rep_used [OF r s] L by auto
  have self: "next_entry (obj ?LP l) = Some l \<longleftrightarrow> us @ vs = []"
    using cdll_self_iff(1) [OF cd] by (simp add: view_defs)
  show ?thesis
  proof (cases "us @ vs = []")
    case True
    obtain P where "deallocate (Some l) ?LP = Inr P" "pool_inv P" "pool_size P = pool_size ?LP"
      "used P = used ?LP - {l}" "obj P = obj ?LP"
      using pool.dealloc_ok [OF rep_pool [OF r s] lu] by blast
    then show ?thesis using True self get put s
      by (auto simp: removeOrdersAtPrice_def Let_def head_ptr_def best_set_best_opp)
  next
    case False
    define y where "y = hd (map fst vs @ map fst us)"
    define z where "z = last (map fst vs @ map fst us)"
    have nx: "nextE ?LP l = Some y" "prevE ?LP l = Some z"
      using cdll_next [OF cd] cdll_prev [OF cd] False by (auto simp: y_def z_def hd_append)
    have ne: "map fst vs @ map fst us \<noteq> []" using False by auto
    have yz: "y \<in> set (map fst us @ map fst vs)" "z \<in> set (map fst us @ map fst vs)"
      using hd_in_set [OF ne] last_in_set [OF ne] by (auto simp: y_def z_def)
    then have yzl: "y \<noteq> l" "z \<noteq> l" using cdll_distinct [OF cd] by auto
    let ?P1 = "pool_upd z (\<lambda>x. x\<lparr>next_entry := Some y\<rparr>) ?LP"
    let ?P2 = "pool_upd y (\<lambda>x. x\<lparr>prev_entry := Some z\<rparr>) ?P1"
    let ?P3 = "pool_upd l (\<lambda>x. x\<lparr>prev_entry := None, next_entry := None\<rparr>) ?P2"
    have "pool_inv ?P3" "l \<in> used ?P3" using lu rep_pool [OF r s] by simp_all
    then obtain P where P: "deallocate (Some l) ?P3 = Inr P" "pool_inv P" "pool_size P = pool_size ?P3"
      "used P = used ?P3 - {l}" "obj P = obj ?P3" using pool.dealloc_ok by blast
    have views: "nextE P = (nextE ?LP)(z := Some y, l := None)" "prevE P = (prevE ?LP)(y := Some z, l := None)"
      using yzl by (auto simp: view_defs fun_eq_iff P(5))
    have cd': "cdll (nextE P) (prevE P) (map fst (us @ vs))"
      using cdll_remove [OF cd _ nx] False cdll_distinct [OF cd] by (simp add: views)
    have best': "best_orders_by_price s b = Some l \<longleftrightarrow> us = []"
      using best cdll_distinct [OF cd] by (cases us) auto
    let ?b = "(if us = [] then set_best s (Some y) (b\<lparr>orders_at_price_pool := ?P2\<rparr>) else b\<lparr>orders_at_price_pool := ?P2\<rparr>)
        \<lparr>price_orders_at_price := ?tab, orders_at_price_pool := P\<rparr>"
    have nx': "next_entry (obj ?LP l) = Some y" "prev_entry (obj ?LP l) = Some z" using nx by (simp_all add: view_defs)
    have run: "removeOrdersAtPrice s price b = Inr ?b"
      using nx' yzl get put self False P(1) best'
      by (cases "us = []") (simp_all add: removeOrdersAtPrice_def Let_def)
    have "us = [] \<Longrightarrow> head_ptr (us @ vs) = Some y" using False by (simp add: head_ptr_def y_def hd_map)
    moreover have "us \<noteq> [] \<Longrightarrow> head_ptr (us @ vs) = best_orders_by_price s b"
      using best by (simp add: head_ptr_def hd_map)
    moreover have "\<forall>k. k \<notin> fst ` set (L s) \<longrightarrow> obj P k = obj ?LP k" using L yz P(5) by auto
    moreover have "\<forall>k. lvl_data (obj P k) = lvl_data (obj ?LP k)" by (simp add: P(5) lvl_data_def)
    ultimately show ?thesis using run cd' P(2-4) s by (cases "us = []") (simp_all add: best_set_best_opp)
  qed
qed


lemma side_ok_delete_level:
  assumes ok: "side_ok LP OP s best (us @ (l, os) # vs)"
    and c: "cdll (nextE LP') (prevE LP') (map fst (us @ vs))"
    and d: "\<And>k. lvl_data (obj LP' k) = lvl_data (obj LP k)"
  shows "side_ok LP' OP s (head_ptr (us @ vs)) (us @ vs)"
proof -
  have "level_ok LP' OP s x" if "x \<in> set us \<union> set vs" for x
    using ok that d by (intro level_ok_frame [of LP OP s x LP' OP]) (auto simp: side_ok_def)
  moreover have "lprice LP' x = lprice LP x" for x using d by (intro lprice_frame)
  ultimately show ?thesis using ok c by (auto simp: side_ok_def sorted_wrt_append)
qed

lemma table_ok_delete:
  assumes t: "table_ok b X" and inj: "inj_on fst X" and x: "x \<in> X"
    and tab: "price_orders_at_price b' = (price_orders_at_price b)
       \<lparr>arr_get := (arr_get (price_orders_at_price b))
          (priceToIndex b (lprice (orders_at_price_pool b) x) := None)\<rparr>"
    and lp: "\<And>x. lprice (orders_at_price_pool b') x = lprice (orders_at_price_pool b) x"
  shows "table_ok b' (X - {x})"
proof -
  have ix: "priceToIndex b' p = priceToIndex b p" for p using tab by (simp add: priceToIndex_def)
  have "priceToIndex b (lprice (orders_at_price_pool b) y) \<noteq> priceToIndex b (lprice (orders_at_price_pool b) x)"
    if "y \<in> X" "y \<noteq> x" for y
  proof -
    have "fst y \<noteq> fst x" using inj that x by (auto dest: inj_onD)
    then show ?thesis using t that(1) x unfolding table_ok_def by (metis option.inject)
  qed
  then show ?thesis using t unfolding table_ok_def tab ix lp by (auto; metis DiffI singletonD)
qed

lemma unlink_last_order:
  assumes r: "rep b L" and s: "s \<in> {BUY, SELL}" and L: "L s = us @ (l, [a]) # vs"
  obtains b' where "unlinkOrder (Some a) b = Inr b'" and "rep b' (L(s := us @ vs))" and "reshaped b b'"
proof -
  let ?LP = "orders_at_price_pool b" and ?OP = "order_pool b" and ?x = "(l, [a])"
  have ok: "side_ok ?LP ?OP s (best_orders_by_price s b) (us @ ?x # vs)" using rep_side [OF r s] L by simp
  have xL: "?x \<in> set (L s)" using L by simp
  have ord: "ord_price (obj ?OP a) = lprice ?LP ?x" "ord_side (obj ?OP a) = s" "prev_order (obj ?OP a) = Some a"
    using ok by (auto simp: side_ok_def level_ok_def lprice_def view_defs)
  obtain b' where b': "removeOrdersAtPrice s (lprice ?LP ?x) b = Inr b'" "order_pool b' = ?OP"
    "book_core.more b' = book_core.more b"
    "price_orders_at_price b' = (price_orders_at_price b)
       \<lparr>arr_get := (arr_get (price_orders_at_price b))(priceToIndex b (lprice ?LP ?x) := None)\<rparr>"
    "pool_inv (orders_at_price_pool b')" "used (orders_at_price_pool b') = used ?LP - {l}"
    "pool_size (orders_at_price_pool b') = pool_size ?LP"
    "\<And>k. lvl_data (obj (orders_at_price_pool b') k) = lvl_data (obj ?LP k)"
    "\<And>k. k \<notin> fst ` set (L s) \<Longrightarrow> obj (orders_at_price_pool b') k = obj ?LP k"
    "cdll (nextE (orders_at_price_pool b')) (prevE (orders_at_price_pool b')) (map fst (us @ vs))"
    "best_orders_by_price s b' = head_ptr (us @ vs)"
    "best_orders_by_price (opp s) b' = best_orders_by_price (opp s) b"
    using removeOrdersAtPrice_run [OF r s L, of "lprice ?LP ?x"] by (auto simp: lprice_def)
  have run: "unlinkOrder (Some a) b = Inr b'"
    using ord b'(1) rep_lookup [OF r s xL] by (simp add: unlinkOrder_def)
  let ?LP' = "orders_at_price_pool b'"
  have d: "distinct (map fst (us @ ?x # vs))" using side_ok_distinct [OF ok] .
  have 1: "side_ok ?LP' ?OP s (head_ptr (us @ vs)) (us @ vs)" by (rule side_ok_delete_level [OF ok b'(10,8)])
  have 2: "side_ok ?LP' ?OP (opp s) (best_orders_by_price (opp s) b) (L (opp s))"
    using rep_disj_levels [OF r s] by (intro side_ok_frame [OF rep_opp [OF r s]] b'(9)) auto
  have inj: "inj_on fst (set (L s) \<union> set (L (opp s)))"
    using side_ok_distinct [OF rep_side [OF r s]] side_ok_distinct [OF rep_opp [OF r s]] rep_disj_levels [OF r s]
    by (auto simp: inj_on_Un distinct_map)
  have nx': "l \<notin> fst ` (set (us @ vs) \<union> set (L (opp s)))"
    using d rep_disj_levels [OF r s] L by auto
  then have nx: "?x \<notin> set (us @ vs) \<union> set (L (opp s))" "l \<notin> fst ` (set (us @ vs) \<union> set (L (opp s)))"
    by (force, blast)
  have eq: "set (L s) \<union> set (L (opp s)) - {?x} = set (us @ vs) \<union> set (L (opp s))" using nx L by auto
  have 3: "table_ok b' (set (us @ vs) \<union> set (L (opp s)))"
    using table_ok_delete [OF rep_table [OF r s] inj _ b'(4)] b'(8) xL unfolding eq by (auto intro: lprice_frame)
  have 4: "used ?LP' = fst ` set (us @ vs) \<union> fst ` set (L (opp s))"
    using b'(6) rep_used [OF r s] nx L by auto
  have sub: "set (us @ vs) \<subseteq> set (L s)" "set (flat (us @ vs)) \<subseteq> set (flat (L s))" using L by auto
  have "rep b' (L(s := us @ vs))"
  proof (rule repI [OF s])
    show "fst ` set (us @ vs) \<inter> fst ` set (L (opp s)) = {}" using sub rep_disj_levels [OF r s] by blast
    show "set (flat (us @ vs)) \<inter> set (flat (L (opp s))) = {}" using sub rep_disj_orders [OF r s] by blast
  qed (use 1 2 3 4 b' rep_tab [OF r s] in simp_all)
  moreover have "reshaped b b'" using b' by (simp add: reshaped_def)
  ultimately show ?thesis using run by (intro that)
qed

section \<open>Unlinking an order\<close>

text \<open>On the flat lists: the order is deleted from its side, and the other side is unchanged.\<close>

lemma unlink_rep:
  assumes r: "rep b L" and s: "s \<in> {BUY, SELL}" and a: "a \<in> set (flat (L s))"
  obtains b' L' where "unlinkOrder (Some a) b = Inr b'" and "rep b' L'" and "reshaped b b'"
    and "flat (L' s) = remove1 a (flat (L s))" and "flat (L' (opp s)) = flat (L (opp s))"
proof -
  obtain x where "x \<in> set (L s)" "a \<in> set (snd x)" using a by (auto simp: set_flat)
  then obtain us vs os1 os2 where L: "L s = us @ (fst x, os1 @ a # os2) # vs"
    by (metis prod.collapse split_list)
  have "distinct (flat (L s))" using rep_side [OF r s] by (simp add: side_ok_def)
  then have d: "a \<notin> set (flat us @ os1)" by (auto simp: L)
  have ss: "opp s \<noteq> s" using s by auto
  show ?thesis
  proof (cases "os1 @ os2 = []")
    case True
    then obtain b' where "unlinkOrder (Some a) b = Inr b'" "rep b' (L(s := us @ vs))" "reshaped b b'"
      using unlink_last_order [OF r s, of us "fst x" a vs] L by auto
    then show ?thesis using True d ss L by (intro that [of b' "L(s := us @ vs)"]) (auto simp: remove1_append)
  next
    case False
    then obtain b' where "unlinkOrder (Some a) b = Inr b'"
      "rep b' (L(s := us @ (fst x, os1 @ os2) # vs))" "reshaped b b'"
      using unlink_kept_level [OF r s L] by auto
    then show ?thesis using d ss L
      by (intro that [of b' "L(s := us @ (fst x, os1 @ os2) # vs)"]) (auto simp: remove1_append)
  qed
qed

end
