(* ===== verification/Book_Rep.thy ===== *)
theory Book_Rep
  imports Price_Levels_Remove
begin

text \<open>
  The view of a linked book its clients work with: \<open>book_rep b F\<close> says that following the links of
  \<open>b\<close> from the best level of side \<open>s\<close> visits the orders \<open>F s\<close> in this sequence.  The theory states what
  the linked code does to these queues as the locale \<open>price_time_queues\<close> and interprets it on
  \<open>linkOrder\<close> and \<open>unlinkOrder\<close>; it also has the facts about the best order, the last order of a
  price and changes of the order pool that the order books use.
\<close>

type_synonym queues = "Side \<Rightarrow> nat list"

definition book_rep :: "('x, 'y) book_core_scheme \<Rightarrow> queues \<Rightarrow> bool" where
  "book_rep b F \<longleftrightarrow> (\<exists>L. rep b L \<and> F BUY = flat (L BUY) \<and> F SELL = flat (L SELL))"

abbreviation price_of :: "('x, 'y) book_core_scheme \<Rightarrow> nat \<Rightarrow> Price" where
  "price_of b c \<equiv> ord_price (obj (order_pool b) c)"

abbreviation side_of :: "('x, 'y) book_core_scheme \<Rightarrow> nat \<Rightarrow> Side" where
  "side_of b c \<equiv> ord_side (obj (order_pool b) c)"

definition queued :: "queues \<Rightarrow> nat set" where
  "queued F = set (F BUY) \<union> set (F SELL)"

lemma queuedI: "s \<in> {BUY, SELL} \<Longrightarrow> c \<in> set (F s) \<Longrightarrow> c \<in> queued F"
  by (auto simp: queued_def)

lemma finite_queued [simp]: "finite (queued F)"
  by (simp add: queued_def)

lemma book_repE:
  assumes "book_rep b F"
  obtains L where "rep b L" and "\<And>s. s \<in> {BUY, SELL} \<Longrightarrow> F s = flat (L s)" and "queued F = live L"
  using assms by (auto simp: book_rep_def queued_def live_def)

lemma book_repI:
  "rep b L \<Longrightarrow> (\<And>s. s \<in> {BUY, SELL} \<Longrightarrow> F s = flat (L s)) \<Longrightarrow> book_rep b F"
  by (auto simp: book_rep_def)

lemma book_rep_cong:
  assumes "orders_at_price_pool b' = orders_at_price_pool b" and "order_pool b' = order_pool b"
    and "bids_by_price b' = bids_by_price b" and "asks_by_price b' = asks_by_price b"
    and "price_orders_at_price b' = price_orders_at_price b"
  shows "book_rep b' F = book_rep b F"
  using assms by (simp add: book_rep_def rep_def best_orders_by_price_def table_ok_def priceToIndex_def)

text \<open>No live order has another price under the same index, or the same price on the other side.\<close>

definition admits :: "('x, 'y) book_core_scheme \<Rightarrow> queues \<Rightarrow> Side \<Rightarrow> Price \<Rightarrow> bool" where
  "admits b F s price \<longleftrightarrow>
     (\<forall>c\<in>queued F. priceToIndex b (price_of b c) = priceToIndex b price \<longrightarrow> price_of b c = price \<and> side_of b c = s)"

definition level_room :: "('x, 'y) book_core_scheme \<Rightarrow> bool" where
  "level_room b \<longleftrightarrow> card (used (orders_at_price_pool b)) + 2 \<le> pool_size (orders_at_price_pool b)"

section \<open>What the links say about the queues\<close>

lemma book_rep_side:
  assumes "book_rep b F" and "s \<in> {BUY, SELL}" and "c \<in> set (F s)"
  shows "side_of b c = s"
proof -
  obtain L where L: "rep b L" "\<And>s. s \<in> {BUY, SELL} \<Longrightarrow> F s = flat (L s)" using assms(1) by (auto elim: book_repE)
  then obtain x where "x \<in> set (L s)" "c \<in> set (snd x)" using assms by (auto simp: set_flat)
  then show ?thesis using rep_order_level(2) [OF L(1) assms(2)] by blast
qed

lemma book_rep_distinct:
  assumes "book_rep b F" and "s \<in> {BUY, SELL}"
  shows "distinct (F s)" and "set (F s) \<inter> set (F (opp s)) = {}"
proof -
  obtain L where L: "rep b L" "\<And>s. s \<in> {BUY, SELL} \<Longrightarrow> F s = flat (L s)" using assms(1) by (auto elim: book_repE)
  then show "distinct (F s)" using rep_side [OF L(1) assms(2)] assms(2) by (simp add: side_ok_def)
  show "set (F s) \<inter> set (F (opp s)) = {}"
    using rep_disj_orders [OF L(1) assms(2)] L(2) [OF assms(2)] L(2) [OF opp_in [OF assms(2)]] by simp
qed

lemma sorted_flat:
  assumes "sorted_wrt (\<lambda>x y. worse s (f y) (f x)) xs"
    and "\<And>x c. x \<in> set xs \<Longrightarrow> c \<in> set (snd x) \<Longrightarrow> g c = f x"
  shows "sorted_wrt (\<lambda>c d. \<not> worse s (g c) (g d)) (flat xs)"
  using assms
proof (induction xs)
  case (Cons x xs)
  have "sorted_wrt (\<lambda>c d. \<not> worse s (g c) (g d)) (snd x)"
    using Cons.prems(2) [OF list.set_intros(1)] by (simp add: sorted_wrt_iff_nth_less)
  moreover have "\<not> worse s (g c) (g d)" if c: "c \<in> set (snd x)" and d: "d \<in> set (flat xs)" for c d
  proof -
    obtain y where "y \<in> set xs" "d \<in> set (snd y)" using d by (auto simp: set_flat)
    then have "g d = f y" "g c = f x" "worse s (f y) (f x)" using Cons.prems c by auto
    then show ?thesis using worse_asym by simp
  qed
  ultimately show ?case using Cons by (auto simp: sorted_wrt_append)
qed simp

lemma book_rep_sorted:
  assumes "book_rep b F" and "s \<in> {BUY, SELL}"
  shows "sorted_wrt (\<lambda>c d. \<not> worse s (price_of b c) (price_of b d)) (F s)"
proof -
  obtain L where L: "rep b L" "\<And>s. s \<in> {BUY, SELL} \<Longrightarrow> F s = flat (L s)" using assms(1) by (auto elim: book_repE)
  have "sorted_wrt (\<lambda>c d. \<not> worse s (price_of b c) (price_of b d)) (flat (L s))"
    using rep_sorted [OF L(1) assms(2)] rep_order_level(1) [OF L(1) assms(2)] by (rule sorted_flat)
  then show ?thesis using L(2) assms(2) by simp
qed

lemma book_rep_best:
  assumes "book_rep b F" and "s \<in> {BUY, SELL}"
  obtains (empty) "F s = []" and "best_orders_by_price s b = None"
    | (level) l c cs where "F s = c # cs" and "best_orders_by_price s b = Some l"
        and "first_order (obj (orders_at_price_pool b) l) = Some c"
proof -
  obtain L where L: "rep b L" "\<And>s. s \<in> {BUY, SELL} \<Longrightarrow> F s = flat (L s)" using assms(1) by (auto elim: book_repE)
  note ok = rep_side [OF L(1) assms(2)]
  show ?thesis
  proof (cases "L s")
    case Nil
    then show ?thesis using ok L(2) assms(2) by (intro empty) (auto simp: side_ok_def head_ptr_def)
  next
    case (Cons x xs)
    then have "snd x \<noteq> []" "first_order (obj (orders_at_price_pool b) (fst x)) = Some (hd (snd x))"
      "best_orders_by_price s b = Some (fst x)"
      using ok by (auto simp: side_ok_def level_ok_def head_ptr_def)
    then show ?thesis using L(2) [OF assms(2)] Cons
      by (intro level [of "hd (snd x)" "tl (snd x) @ flat xs" "fst x"]) auto
  qed
qed

lemma book_rep_best_price:
  assumes "book_rep b F" and "s \<in> {BUY, SELL}" and "best_orders_by_price s b = Some l"
  obtains c where "c \<in> set (F s)" and "lvl_price (obj (orders_at_price_pool b) l) = price_of b c"
proof -
  obtain L where L: "rep b L" "\<And>s. s \<in> {BUY, SELL} \<Longrightarrow> F s = flat (L s)" using assms(1) by (auto elim: book_repE)
  have "head_ptr (L s) = Some l" using rep_side [OF L(1) assms(2)] assms(3) by (simp add: side_ok_def)
  then have x: "hd (L s) \<in> set (L s)" "fst (hd (L s)) = l" by (auto simp: head_ptr_def split: if_splits)
  obtain c where "c \<in> set (flat (L s))" "price_of b c = lprice (orders_at_price_pool b) (hd (L s))"
    using rep_level_order [OF L(1) assms(2) x(1)] .
  then show ?thesis using L(2) [OF assms(2)] x(2) by (intro that) (auto simp: lprice_def)
qed

text \<open>The last order of a price, whose priority the next one continues.\<close>

lemma book_rep_last:
  assumes "book_rep b F" and "s \<in> {BUY, SELL}" and "admits b F s price"
  obtains (none) "getOrdersAtPrice price b = Inr None" and "filter (\<lambda>c. price_of b c = price) (F s) = []"
    | (some) l fst_ord where "getOrdersAtPrice price b = Inr (Some l)"
        and "first_order (obj (orders_at_price_pool b) l) = Some fst_ord"
        and "filter (\<lambda>c. price_of b c = price) (F s) \<noteq> []"
        and "prev_order (obj (order_pool b) fst_ord) = Some (last (filter (\<lambda>c. price_of b c = price) (F s)))"
proof -
  obtain L where L: "rep b L" "\<And>s. s \<in> {BUY, SELL} \<Longrightarrow> F s = flat (L s)" "queued F = live L"
    using assms(1) by (auto elim: book_repE)
  have f: "fits b L s price" using assms(3) L(3) by (simp add: admits_def fits_def)
  note r = L(1) and s = assms(2)
  from r s f show ?thesis
  proof (cases rule: rep_entry)
    case none
    then have "filter (\<lambda>c. price_of b c = price) (F s) = []"
      using L(3) s by (auto simp: filter_empty_conv queued_def live_def)
    then show ?thesis using none(1) that(1) by blast
  next
    case (some x)
    obtain us vs where uv: "L s = us @ x # vs" using some(2) by (auto dest: split_list)
    have srt: "sorted_wrt (\<lambda>x y. worse s (lprice (orders_at_price_pool b) y) (lprice (orders_at_price_pool b) x)) (us @ x # vs)"
      using rep_sorted [OF r s] uv by simp
    have "price_of b c \<noteq> price" if c: "c \<in> set (flat us) \<union> set (flat vs)" for c
    proof -
      have "c \<in> set (flat (us @ vs))" using c by simp
      then obtain y where y: "y \<in> set (us @ vs)" "price_of b c = lprice (orders_at_price_pool b) y"
        using flat_order [OF r s, of "us @ vs" c] uv by auto
      then have "worse s (lprice (orders_at_price_pool b) y) price \<or> worse s price (lprice (orders_at_price_pool b) y)"
        using srt some(3) by (auto simp: sorted_wrt_append)
      then show ?thesis using y(2) worse_irrefl by metis
    qed
    then have fl: "filter (\<lambda>c. price_of b c = price) (F s) = snd x"
      using L(2) [OF s] uv rep_order_level(1) [OF r s some(2)] some(3)
      by (auto simp: filter_empty_conv intro: filter_True)
    have "level_ok (orders_at_price_pool b) (order_pool b) s x" using side_ok_level [OF rep_side [OF r s] some(2)] .
    then have "snd x \<noteq> []" "first_order (obj (orders_at_price_pool b) (fst x)) = Some (hd (snd x))"
      "prev_order (obj (order_pool b) (hd (snd x))) = Some (last (snd x))"
      by (auto simp: level_ok_def view_defs dest: cdll_hd_prev)
    then show ?thesis using some(1) fl that(2) by simp
  qed
qed


section \<open>The queue interface\<close>

locale price_time_queues =
  fixes enter leave :: "nat \<Rightarrow> 'b \<Rightarrow> 'b res" and queues :: "'b \<Rightarrow> queues \<Rightarrow> bool"
    and px :: "'b \<Rightarrow> nat \<Rightarrow> Price" and sd :: "'b \<Rightarrow> nat \<Rightarrow> Side" and ready :: "'b \<Rightarrow> queues \<Rightarrow> nat \<Rightarrow> bool"
  assumes enter_ok: "queues b F \<Longrightarrow> ready b F a \<Longrightarrow>
      \<exists>b'. enter a b = Inr b' \<and> px b' = px b \<and> sd b' = sd b \<and>
           queues b' (F(sd b a := price_insert (sd b a) (px b) a (F (sd b a))))"
    and leave_ok: "queues b F \<Longrightarrow> s \<in> {BUY, SELL} \<Longrightarrow> a \<in> set (F s) \<Longrightarrow>
      \<exists>b'. leave a b = Inr b' \<and> px b' = px b \<and> sd b' = sd b \<and> queues b' (F(s := remove1 a (F s)))"
    and ready_side: "ready b F a \<Longrightarrow> sd b a \<in> {BUY, SELL} \<and> a \<notin> set (F (sd b a))"
begin

lemma enter_leave:
  assumes "queues b F" and "ready b F a"
  shows "\<exists>b' b''. enter a b = Inr b' \<and> leave a b' = Inr b'' \<and> queues b'' F"
proof -
  let ?s = "sd b a" and ?P = "\<lambda>c. \<not> worse (sd b a) (px b c) (px b a)"
  let ?F = "F(?s := price_insert ?s (px b) a (F ?s))"
  obtain b' where b': "enter a b = Inr b'" "queues b' ?F" using enter_ok [OF assms] by blast
  have s: "?s \<in> {BUY, SELL}" and a: "a \<notin> set (F ?s)" using ready_side [OF assms(2)] by auto
  have "a \<in> set (?F ?s)" by simp
  from leave_ok [OF b'(2) s this] obtain b'' where b'': "leave a b' = Inr b''"
    "queues b'' (?F(?s := remove1 a (?F ?s)))" by blast
  have "a \<notin> set (takeWhile ?P (F ?s))" using a by (auto dest: set_takeWhileD)
  then have "remove1 a (price_insert ?s (px b) a (F ?s)) = F ?s"
    by (simp add: price_insert_def remove1_append)
  then show ?thesis using b' b'' by auto
qed

end

definition enterable :: "('x, 'y) book_core_scheme \<Rightarrow> queues \<Rightarrow> nat \<Rightarrow> bool" where
  "enterable b F a \<longleftrightarrow> side_of b a \<in> {BUY, SELL} \<and> a \<notin> queued F \<and> admits b F (side_of b a) (price_of b a) \<and> level_room b"

lemma reshaped_data:
  assumes "reshaped b b'"
  shows "price_of b' = price_of b" and "side_of b' = side_of b"
    and "strip (obj (order_pool b') c) = strip (obj (order_pool b) c)"
    and "book_core.more b' = book_core.more b"
    and "used (order_pool b') = used (order_pool b)" "pool_size (order_pool b') = pool_size (order_pool b)"
    and "pool_inv (order_pool b') = pool_inv (order_pool b)"
    and "priceToIndex b' p = priceToIndex b p"
    and "pool_size (orders_at_price_pool b') = pool_size (orders_at_price_pool b)"
proof -
  have st: "strip (obj (order_pool b') c) = strip (obj (order_pool b) c)" for c
    using assms by (simp add: reshaped_def relinked_def)
  show "price_of b' = price_of b" "side_of b' = side_of b" using strip_data [OF st] by (auto simp: fun_eq_iff)
  show "strip (obj (order_pool b') c) = strip (obj (order_pool b) c)" by (rule st)
qed (use assms in \<open>auto simp: reshaped_def relinked_def priceToIndex_def\<close>)

lemma book_link:
  assumes "book_rep b F" and "enterable b F a"
  obtains b' where "linkOrder (Some a) b = Inr b'" and "reshaped b b'"
    and "book_rep b' (F(side_of b a := price_insert (side_of b a) (price_of b) a (F (side_of b a))))"
proof -
  let ?s = "side_of b a"
  obtain L where L: "rep b L" "\<And>s. s \<in> {BUY, SELL} \<Longrightarrow> F s = flat (L s)" "queued F = live L"
    using assms(1) by (auto elim: book_repE)
  have s: "?s \<in> {BUY, SELL}" and al: "a \<notin> live L" and f: "fits b L ?s (price_of b a)"
    and room: "card (used (orders_at_price_pool b)) + 2 \<le> pool_size (orders_at_price_pool b)"
    using assms(2) L(3) by (auto simp: enterable_def admits_def fits_def level_room_def)
  obtain b' L' where b': "linkOrder (Some a) b = Inr b'" "rep b' L'" "reshaped b b'"
    "flat (L' ?s) = price_insert ?s (price_of b) a (flat (L ?s))" "flat (L' (opp ?s)) = flat (L (opp ?s))"
    using link_rep [OF L(1) s refl refl al f room] .
  have "book_rep b' (F(?s := price_insert ?s (price_of b) a (F ?s)))"
    using b'(2,4,5) L(2) s by (intro book_repI [OF b'(2)]) (auto simp: opp_def split: if_splits)
  then show ?thesis using b' by (intro that)
qed

lemma book_unlink:
  assumes "book_rep b F" and s: "s \<in> {BUY, SELL}" and "a \<in> set (F s)"
  obtains b' where "unlinkOrder (Some a) b = Inr b'" and "reshaped b b'"
    and "book_rep b' (F(s := remove1 a (F s)))"
proof -
  obtain L where L: "rep b L" "\<And>s. s \<in> {BUY, SELL} \<Longrightarrow> F s = flat (L s)"
    using assms(1) by (auto elim: book_repE)
  have a: "a \<in> set (flat (L s))" using assms(3) L(2) s by simp
  obtain b' L' where b': "unlinkOrder (Some a) b = Inr b'" "rep b' L'" "reshaped b b'"
    "flat (L' s) = remove1 a (flat (L s))" "flat (L' (opp s)) = flat (L (opp s))"
    using unlink_rep [OF L(1) s a] .
  have "book_rep b' (F(s := remove1 a (F s)))"
    using b'(4,5) L(2) s by (intro book_repI [OF b'(2)]) (auto simp: opp_def split: if_splits)
  then show ?thesis using b' by (intro that)
qed

interpretation ptq: price_time_queues "\<lambda>a. linkOrder (Some a)" "\<lambda>a. unlinkOrder (Some a)" book_rep
  price_of side_of enterable
proof
  fix b :: "('x, 'y) book_core_scheme" and F a
  assume r: "book_rep b F" and e: "enterable b F a"
  obtain b' where "linkOrder (Some a) b = Inr b'" and "reshaped b b'"
    and "book_rep b' (F(side_of b a := price_insert (side_of b a) (price_of b) a (F (side_of b a))))"
    using book_link [OF r e] .
  then show "\<exists>b'. linkOrder (Some a) b = Inr b' \<and> price_of b' = price_of b \<and> side_of b' = side_of b \<and>
      book_rep b' (F(side_of b a := price_insert (side_of b a) (price_of b) a (F (side_of b a))))"
    by (intro exI [of _ b'] conjI reshaped_data)
next
  fix b :: "('x, 'y) book_core_scheme" and F s a
  assume r: "book_rep b F" and s: "s \<in> {BUY, SELL}" and a: "a \<in> set (F s)"
  obtain b' where "unlinkOrder (Some a) b = Inr b'" and "reshaped b b'" and "book_rep b' (F(s := remove1 a (F s)))"
    using book_unlink [OF r s a] .
  then show "\<exists>b'. unlinkOrder (Some a) b = Inr b' \<and> price_of b' = price_of b \<and> side_of b' = side_of b \<and>
      book_rep b' (F(s := remove1 a (F s)))"
    by (intro exI [of _ b'] conjI reshaped_data)
qed (auto simp: enterable_def queued_def)

section \<open>Changes of the order pool\<close>

lemma book_rep_frame:
  assumes r: "book_rep b F"
    and o: "\<And>c. c \<in> queued F \<Longrightarrow> nextO OP' c = nextO (order_pool b) c \<and> prevO OP' c = prevO (order_pool b) c \<and>
        ord_side (obj OP' c) = side_of b c \<and> ord_price (obj OP' c) = price_of b c"
  shows "book_rep (b\<lparr>order_pool := OP'\<rparr>) F"
proof -
  obtain L where L: "rep b L" "\<And>s. s \<in> {BUY, SELL} \<Longrightarrow> F s = flat (L s)" "queued F = live L"
    using r by (auto elim: book_repE)
  have lv: "level_ok (orders_at_price_pool b) OP' s x"
    if s: "s \<in> {BUY, SELL}" and x: "x \<in> set (L s)" for s x
  proof -
    have q: "c \<in> queued F" if "c \<in> set (snd x)" for c
      using that x s L(3) by (auto simp: live_def set_flat)
    then have "cdll (nextO OP') (prevO OP') (snd x) = cdll (nextO (order_pool b)) (prevO (order_pool b)) (snd x)"
      using o by (intro cdll_cong) auto
    then show ?thesis using side_ok_level [OF rep_side [OF L(1) s] x] q o by (simp add: level_ok_def)
  qed
  have "side_ok (orders_at_price_pool b) OP' s (best_orders_by_price s b) (L s)" if s: "s \<in> {BUY, SELL}" for s
    using rep_side [OF L(1) s] lv [OF s] by (simp add: side_ok_def)
  then have "rep (b\<lparr>order_pool := OP'\<rparr>) L" using L(1) by (auto simp: rep_def table_ok_def)
  then show ?thesis using L(2) by (rule book_repI)
qed


section \<open>Levels and prices\<close>

text \<open>A book occupies as many blocks of the level pool as its orders have different prices.\<close>

lemma book_rep_level_count:
  assumes "book_rep b F"
  shows "card (used (orders_at_price_pool b)) = card (price_of b ` queued F)"
proof -
  obtain L where L: "rep b L" "\<And>s. s \<in> {BUY, SELL} \<Longrightarrow> F s = flat (L s)" "queued F = live L"
    using assms by (auto elim: book_repE)
  let ?X = "set (L BUY) \<union> set (L SELL)" and ?p = "\<lambda>l. lvl_price (obj (orders_at_price_pool b) l)"
  have t: "table_ok b ?X" and u: "used (orders_at_price_pool b) = fst ` ?X" using L(1) by (auto simp: rep_def)
  have "inj_on ?p (fst ` ?X)"
    using t unfolding table_ok_alt by (intro inj_onI) (metis option.inject)
  then have "card (fst ` ?X) = card (?p ` fst ` ?X)" by (simp add: card_image)
  also have "?p ` fst ` ?X = price_of b ` queued F"
  proof (rule equalityI; rule subsetI)
    fix p assume "p \<in> ?p ` fst ` ?X"
    then obtain s x where x: "s \<in> {BUY, SELL}" "x \<in> set (L s)" "p = lprice (orders_at_price_pool b) x"
      by (auto simp: lprice_def)
    then obtain c where c: "c \<in> set (flat (L s))" "price_of b c = p" using rep_level_order [OF L(1) x(1,2)] by metis
    then have "c \<in> queued F" using x(1) L(2) by (auto simp: queued_def)
    then show "p \<in> price_of b ` queued F" using c(2) by blast
  next
    fix p assume "p \<in> price_of b ` queued F"
    then obtain s c where c: "s \<in> {BUY, SELL}" "c \<in> set (flat (L s))" "p = price_of b c"
      using L(2) by (auto simp: queued_def)
    then obtain x where "x \<in> set (L s)" "c \<in> set (snd x)" by (auto simp: set_flat)
    then show "p \<in> ?p ` fst ` ?X" using c rep_order_level(1) [OF L(1) c(1)] by (auto simp: lprice_def)
  qed
  finally show ?thesis using u by simp
qed

end
