(* ===== verification/ME_Order_Book.thy ===== *)
theory ME_Order_Book
  imports Book_Rep
begin

text \<open>
  \<open>Exchange::MEOrderBook\<close> (\<open>exchange/matcher/me_order.h\<close>, \<open>me_order_book.h\<close>, \<open>me_order_book.cpp\<close>): the
  limit order book of the matching engine.  Its operations call back into the matching engine to send
  client responses and market updates; here they return the messages in the order they are sent.
  \<open>ME_Book_Refine\<close> relates this code to a specification on price-time ordered lists.
\<close>

section \<open>State\<close>

record MEOrder = order_node +
  ord_ticker_id :: TickerId
  ord_client_id :: ClientId
  ord_client_order_id :: OrderId
  ord_market_order_id :: OrderId

definition MEOrder_default :: MEOrder where
  "MEOrder_default =
     \<lparr>ord_side = Side_INVALID, ord_price = Price_INVALID, ord_qty = Qty_INVALID, ord_priority = Priority_INVALID,
      prev_order = None, next_order = None, ord_ticker_id = TickerId_INVALID,
      ord_client_id = ClientId_INVALID, ord_client_order_id = OrderId_INVALID,
      ord_market_order_id = OrderId_INVALID\<rparr>"

record MEOrderBook = "unit MEOrder_ext book_core" +
  ticker_id :: TickerId
  cid_oid_to_order :: "ptr arr arr"
  next_market_order_id :: OrderId

datatype me_event = Response MEClientResponse | Update MEMarketUpdate

text \<open>
  The constructor.  Only a build with \<open>LLT_BENCHMARK_MODE\<close> clears \<open>cid_oid_to_order_\<close>; otherwise the
  table holds whatever the memory held, the parameter \<open>mem\<close>.
\<close>

definition MEOrderBook_new :: "Limits \<Rightarrow> bool \<Rightarrow> (nat \<Rightarrow> nat \<Rightarrow> ptr) \<Rightarrow> TickerId \<Rightarrow> MEOrderBook" where
  "MEOrderBook_new limits benchmark_mode mem tid =
     \<lparr>orders_at_price_pool = MemPool_new (ME_MAX_PRICE_LEVELS limits) OrdersAtPrice_default,
      bids_by_price = None, asks_by_price = None,
      order_pool = MemPool_new (ME_MAX_ORDER_IDS limits) MEOrder_default,
      price_orders_at_price = arr_fill (ME_MAX_PRICE_LEVELS limits) None,
      ticker_id = tid,
      cid_oid_to_order =
        \<lparr>arr_size = ME_MAX_NUM_CLIENTS limits,
         arr_get = (\<lambda>c. \<lparr>arr_size = ME_MAX_ORDER_IDS limits,
                        arr_get = (\<lambda>i. if benchmark_mode then None else mem c i)\<rparr>)\<rparr>,
      next_market_order_id = 1\<rparr>"

section \<open>Helpers\<close>

definition generateNewMarketOrderId :: "MEOrderBook \<Rightarrow> OrderId \<times> MEOrderBook" where
  "generateNewMarketOrderId b =
     (next_market_order_id b, b\<lparr>next_market_order_id := next_market_order_id b + 1\<rparr>)"

definition getNextPriority :: "Price \<Rightarrow> MEOrderBook \<Rightarrow> Priority res" where
  "getNextPriority price b =
     rbind (getOrdersAtPrice price b) (\<lambda>orders_at_price.
       if orders_at_price = None then Inr 1
       else
         rbind (get_level orders_at_price b) (\<lambda>l.
         rbind (get_order (first_order l) b) (\<lambda>fo.
         rbind (get_order (prev_order fo) b) (\<lambda>lo.
         Inr (ord_priority lo + 1)))))"

text \<open>\<open>cid_oid_to_order_.at(cid).at(oid) = p\<close>\<close>

definition set_cid_oid :: "ClientId \<Rightarrow> OrderId \<Rightarrow> ptr \<Rightarrow> MEOrderBook \<Rightarrow> MEOrderBook res" where
  "set_cid_oid cid oid p b =
     rbind (arr_at (cid_oid_to_order b) (unat cid)) (\<lambda>row.
     rbind (arr_put (unat oid) p row) (\<lambda>row'.
     rbind (arr_put (unat cid) row' (cid_oid_to_order b)) (\<lambda>tab.
     Inr (b\<lparr>cid_oid_to_order := tab\<rparr>))))"

definition removeOrder :: "ptr \<Rightarrow> MEOrderBook \<Rightarrow> MEOrderBook res" where
  "removeOrder order b =
     rbind (unlinkOrder order b) (\<lambda>b.
     rbind (get_order order b) (\<lambda>ord.
     rbind (set_cid_oid (ord_client_id ord) (ord_client_order_id ord) None b) (\<lambda>b.
     rbind (deallocate order (order_pool b)) (\<lambda>P.
     Inr (b\<lparr>order_pool := P\<rparr>)))))"

definition addOrder :: "ptr \<Rightarrow> MEOrderBook \<Rightarrow> MEOrderBook res" where
  "addOrder order b =
     rbind (linkOrder order b) (\<lambda>b.
     rbind (get_order order b) (\<lambda>ord.
     set_cid_oid (ord_client_id ord) (ord_client_order_id ord) order b))"

section \<open>Matching\<close>

definition match ::
  "TickerId \<Rightarrow> ClientId \<Rightarrow> Side \<Rightarrow> OrderId \<Rightarrow> OrderId \<Rightarrow> ptr \<Rightarrow> Qty \<Rightarrow> MEOrderBook \<Rightarrow>
   (Qty \<times> MEOrderBook \<times> me_event list) res" where
  "match tid client_id side client_order_id new_market_order_id itr leaves_qty b =
     rbind (get_order itr b) (\<lambda>ord.
       let order_qty = ord_qty ord;
           fill_qty = min leaves_qty order_qty;
           leaves = leaves_qty - fill_qty
       in
       rbind (assign_order itr (\<lambda>x. x\<lparr>ord_qty := ord_qty x - fill_qty\<rparr>) b) (\<lambda>b.
       rbind (get_order itr b) (\<lambda>ord.
         let ev =
               [Response \<lparr>rsp_type = FILLED, rsp_client_id = client_id, rsp_ticker_id = tid,
                  rsp_client_order_id = client_order_id, rsp_market_order_id = new_market_order_id,
                  rsp_side = side, rsp_price = ord_price ord, rsp_exec_qty = fill_qty, rsp_leaves_qty = leaves\<rparr>,
                Response \<lparr>rsp_type = FILLED, rsp_client_id = ord_client_id ord, rsp_ticker_id = tid,
                  rsp_client_order_id = ord_client_order_id ord, rsp_market_order_id = ord_market_order_id ord,
                  rsp_side = ord_side ord, rsp_price = ord_price ord, rsp_exec_qty = fill_qty,
                  rsp_leaves_qty = ord_qty ord\<rparr>,
                Update \<lparr>upd_type = TRADE, upd_order_id = OrderId_INVALID, upd_ticker_id = tid,
                  upd_side = side, upd_price = ord_price ord, upd_qty = fill_qty,
                  upd_priority = Priority_INVALID\<rparr>]
         in
         if ord_qty ord = 0 then
           rbind (removeOrder itr b) (\<lambda>b.
           Inr (leaves, b, ev @
                [Update \<lparr>upd_type = CANCEL, upd_order_id = ord_market_order_id ord, upd_ticker_id = tid,
                   upd_side = ord_side ord, upd_price = ord_price ord, upd_qty = order_qty,
                   upd_priority = Priority_INVALID\<rparr>]))
         else
           Inr (leaves, b, ev @
                [Update \<lparr>upd_type = MODIFY, upd_order_id = ord_market_order_id ord, upd_ticker_id = tid,
                   upd_side = ord_side ord, upd_price = ord_price ord, upd_qty = ord_qty ord,
                   upd_priority = ord_priority ord\<rparr>]))))"

text \<open>
  The condition of the \<open>while\<close> loops of \<open>checkForMatch()\<close> with its \<open>break\<close>: the order to match next, if
  any.  The loop for a buy looks at the asks, the loop for a sell at the bids.
\<close>

definition passes :: "Side \<Rightarrow> Price \<Rightarrow> Price \<Rightarrow> bool" where
  "passes side price best_price \<longleftrightarrow> (if side = BUY then price < best_price else price > best_price)"

definition match_candidate :: "Side \<Rightarrow> Price \<Rightarrow> Qty \<Rightarrow> MEOrderBook \<Rightarrow> ptr res" where
  "match_candidate side price leaves_qty b =
     (let best = (if side = BUY then asks_by_price b else bids_by_price b) in
      if leaves_qty = 0 \<or> best = None then Inr None
      else
        rbind (get_level best b) (\<lambda>l.
        rbind (get_order (first_order l) b) (\<lambda>ord.
        if passes side price (ord_price ord) then Inr None else Inr (first_order l))))"

text \<open>
  The loops.  Every iteration but the last removes the order it matches, so as many iterations as the
  order pool has blocks are enough (\<open>match_loop_refines\<close>).
\<close>

fun match_loop ::
  "nat \<Rightarrow> TickerId \<Rightarrow> ClientId \<Rightarrow> Side \<Rightarrow> OrderId \<Rightarrow> OrderId \<Rightarrow> Price \<Rightarrow> Qty \<Rightarrow> MEOrderBook \<Rightarrow>
   (Qty \<times> MEOrderBook \<times> me_event list) res" where
  "match_loop 0 tid cid side coid moid price leaves_qty b =
     rbind (match_candidate side price leaves_qty b) (\<lambda>itr.
       if itr = None then Inr (leaves_qty, b, []) else Inl Diverges)"
| "match_loop (Suc fuel) tid cid side coid moid price leaves_qty b =
     rbind (match_candidate side price leaves_qty b) (\<lambda>itr.
       if itr = None then Inr (leaves_qty, b, [])
       else
         rbind (match tid cid side coid moid itr leaves_qty b) (\<lambda>(leaves_qty, b, ev).
         rbind (match_loop fuel tid cid side coid moid price leaves_qty b) (\<lambda>(leaves_qty, b, ev').
         Inr (leaves_qty, b, ev @ ev'))))"

text \<open>The last parameter of \<open>checkForMatch()\<close> has type \<open>Qty\<close>, so the 64-bit identifier is truncated.\<close>

definition checkForMatch ::
  "ClientId \<Rightarrow> OrderId \<Rightarrow> TickerId \<Rightarrow> Side \<Rightarrow> Price \<Rightarrow> Qty \<Rightarrow> Qty \<Rightarrow> MEOrderBook \<Rightarrow>
   (Qty \<times> MEOrderBook \<times> me_event list) res" where
  "checkForMatch client_id client_order_id tid side price qty new_market_order_id b =
     (if side = BUY \<or> side = SELL then
        match_loop (pool_size (order_pool b)) tid client_id side client_order_id (ucast new_market_order_id) price qty b
      else Inr (qty, b, []))"

section \<open>Requests\<close>

definition add ::
  "ClientId \<Rightarrow> OrderId \<Rightarrow> TickerId \<Rightarrow> Side \<Rightarrow> Price \<Rightarrow> Qty \<Rightarrow> MEOrderBook \<Rightarrow> (MEOrderBook \<times> me_event list) res" where
  "add client_id client_order_id tid side price qty b0 =
     (let (new_market_order_id, b) = generateNewMarketOrderId b0;
          accepted = Response \<lparr>rsp_type = ACCEPTED, rsp_client_id = client_id, rsp_ticker_id = tid,
             rsp_client_order_id = client_order_id, rsp_market_order_id = new_market_order_id,
             rsp_side = side, rsp_price = price, rsp_exec_qty = 0, rsp_leaves_qty = qty\<rparr>
      in
      rbind (checkForMatch client_id client_order_id tid side price qty (ucast new_market_order_id) b) (\<lambda>(leaves_qty, b, ev).
        if leaves_qty \<noteq> 0 then
          rbind (getNextPriority price b) (\<lambda>priority.
          rbind (allocate \<lparr>ord_side = side, ord_price = price, ord_qty = leaves_qty, ord_priority = priority,
                           prev_order = None, next_order = None, ord_ticker_id = tid,
                           ord_client_id = client_id, ord_client_order_id = client_order_id,
                           ord_market_order_id = new_market_order_id\<rparr> (order_pool b)) (\<lambda>(order, P).
          rbind (addOrder (Some order) (b\<lparr>order_pool := P\<rparr>)) (\<lambda>b.
          Inr (b, accepted # ev @
            [Update \<lparr>upd_type = ADD, upd_order_id = new_market_order_id, upd_ticker_id = tid, upd_side = side,
               upd_price = price, upd_qty = leaves_qty, upd_priority = priority\<rparr>]))))
        else Inr (b, accepted # ev)))"

definition lookup_order :: "ClientId \<Rightarrow> OrderId \<Rightarrow> MEOrderBook \<Rightarrow> ptr res" where
  "lookup_order client_id order_id b =
     (if unat client_id < arr_size (cid_oid_to_order b)
      then rbind (arr_at (cid_oid_to_order b) (unat client_id)) (\<lambda>co_itr. arr_at co_itr (unat order_id))
      else Inr None)"

definition cancel ::
  "ClientId \<Rightarrow> OrderId \<Rightarrow> TickerId \<Rightarrow> MEOrderBook \<Rightarrow> (MEOrderBook \<times> me_event list) res" where
  "cancel client_id order_id tid b =
     rbind (lookup_order client_id order_id b) (\<lambda>exchange_order.
       if exchange_order = None then
         Inr (b, [Response \<lparr>rsp_type = CANCEL_REJECTED, rsp_client_id = client_id, rsp_ticker_id = tid,
                   rsp_client_order_id = order_id, rsp_market_order_id = OrderId_INVALID,
                   rsp_side = Side_INVALID, rsp_price = Price_INVALID, rsp_exec_qty = Qty_INVALID,
                   rsp_leaves_qty = Qty_INVALID\<rparr>])
       else
         rbind (get_order exchange_order b) (\<lambda>ord.
         rbind (removeOrder exchange_order b) (\<lambda>b.
         Inr (b,
           [Update \<lparr>upd_type = CANCEL, upd_order_id = ord_market_order_id ord, upd_ticker_id = tid,
              upd_side = ord_side ord, upd_price = ord_price ord, upd_qty = 0, upd_priority = ord_priority ord\<rparr>,
            Response \<lparr>rsp_type = CANCELED, rsp_client_id = client_id, rsp_ticker_id = tid,
              rsp_client_order_id = order_id, rsp_market_order_id = ord_market_order_id ord,
              rsp_side = ord_side ord, rsp_price = ord_price ord, rsp_exec_qty = Qty_INVALID,
              rsp_leaves_qty = ord_qty ord\<rparr>]))))"

end
