(* ===== verification/ME_Book_Inv.thy ===== *)
theory ME_Book_Inv
  imports ME_Order_Book
begin

text \<open>
  The invariant of \<open>MEOrderBook\<close>: the links represent two queues of orders, exactly the queued orders
  occupy the order pool, and the table from client and client order identifiers to orders agrees with
  them.  The theory shows that \<open>removeOrder()\<close>, \<open>addOrder()\<close> and a change of quantity keep it.
\<close>

section \<open>The client order table\<close>

definition tab_get :: "MEOrderBook \<Rightarrow> nat \<Rightarrow> nat \<Rightarrow> ptr" where
  "tab_get b i j = arr_get (arr_get (cid_oid_to_order b) i) j"

definition tab_dim :: "nat \<Rightarrow> nat \<Rightarrow> MEOrderBook \<Rightarrow> bool" where
  "tab_dim N M b \<longleftrightarrow> arr_size (cid_oid_to_order b) = N \<and> (\<forall>i<N. arr_size (arr_get (cid_oid_to_order b) i) = M)"

abbreviation cid_of :: "MEOrderBook \<Rightarrow> nat \<Rightarrow> nat" where
  "cid_of b c \<equiv> unat (ord_client_id (obj (order_pool b) c))"

abbreviation coid_of :: "MEOrderBook \<Rightarrow> nat \<Rightarrow> nat" where
  "coid_of b c \<equiv> unat (ord_client_order_id (obj (order_pool b) c))"

definition tab_ok :: "nat \<Rightarrow> nat \<Rightarrow> MEOrderBook \<Rightarrow> nat set \<Rightarrow> bool" where
  "tab_ok N M b Q \<longleftrightarrow>
     tab_dim N M b \<and> (\<forall>c\<in>Q. cid_of b c < N \<and> coid_of b c < M) \<and>
     (\<forall>i<N. \<forall>j<M. \<forall>c. tab_get b i j = Some c \<longleftrightarrow> c \<in> Q \<and> cid_of b c = i \<and> coid_of b c = j)"

definition me_inv :: "nat \<Rightarrow> nat \<Rightarrow> MEOrderBook \<Rightarrow> queues \<Rightarrow> bool" where
  "me_inv N M b F \<longleftrightarrow>
     book_rep b F \<and> pool_inv (order_pool b) \<and> used (order_pool b) = queued F \<and> tab_ok N M b (queued F)"

lemma set_cid_oid_ok:
  assumes "tab_dim N M b" and "unat cid < N" and "unat oid < M"
  obtains tab where "set_cid_oid cid oid p b = Inr (b\<lparr>cid_oid_to_order := tab\<rparr>)"
    and "tab_dim N M (b\<lparr>cid_oid_to_order := tab\<rparr>)"
    and "\<And>i j. tab_get (b\<lparr>cid_oid_to_order := tab\<rparr>) i j = (if i = unat cid \<and> j = unat oid then p else tab_get b i j)"
proof (rule that)
  let ?row = "arr_get (cid_oid_to_order b) (unat cid)"
  let ?tab = "(cid_oid_to_order b)\<lparr>arr_get := (arr_get (cid_oid_to_order b))
    (unat cid := ?row\<lparr>arr_get := (arr_get ?row)(unat oid := p)\<rparr>)\<rparr>"
  show "set_cid_oid cid oid p b = Inr (b\<lparr>cid_oid_to_order := ?tab\<rparr>)"
    using assms by (auto simp: set_cid_oid_def tab_dim_def)
  show "tab_dim N M (b\<lparr>cid_oid_to_order := ?tab\<rparr>)" using assms by (auto simp: tab_dim_def)
qed (auto simp: tab_get_def)

lemma more_fields:
  assumes "book_core.more b' = book_core.more b"
  shows "cid_oid_to_order b' = cid_oid_to_order b" and "next_market_order_id b' = next_market_order_id b"
    and "ticker_id b' = ticker_id b"
  using assms by (cases b; cases b'; simp add: book_core.defs)+

lemma strip_me_fields [simp]:
  "ord_client_id (strip x) = ord_client_id x" "ord_client_order_id (strip x) = ord_client_order_id x"
  "ord_market_order_id (strip x) = ord_market_order_id x" "ord_ticker_id (strip x) = ord_ticker_id x"
  by (simp_all add: strip_def)

lemma strip_ids:
  assumes "strip x = strip y"
  shows "ord_client_id x = ord_client_id y" and "ord_client_order_id x = ord_client_order_id y"
    and "ord_market_order_id x = ord_market_order_id y" and "ord_ticker_id x = ord_ticker_id y"
  using assms by (metis strip_me_fields)+

section \<open>What an operation leaves alone\<close>

definition me_frame :: "MEOrderBook \<Rightarrow> MEOrderBook \<Rightarrow> nat set \<Rightarrow> bool" where
  "me_frame b b' A \<longleftrightarrow>
     (\<forall>c. c \<notin> A \<longrightarrow> strip (obj (order_pool b') c) = strip (obj (order_pool b) c)) \<and>
     next_market_order_id b' = next_market_order_id b \<and>
     pool_size (order_pool b') = pool_size (order_pool b) \<and>
     pool_size (orders_at_price_pool b') = pool_size (orders_at_price_pool b) \<and>
     (\<forall>p. priceToIndex b' p = priceToIndex b p)"

definition same_sizes :: "MEOrderBook \<Rightarrow> MEOrderBook \<Rightarrow> bool" where
  "same_sizes b b' \<longleftrightarrow>
     pool_size (order_pool b') = pool_size (order_pool b) \<and>
     pool_size (orders_at_price_pool b') = pool_size (orders_at_price_pool b) \<and>
     (\<forall>p. priceToIndex b' p = priceToIndex b p)"

lemma me_frame_sizes: "me_frame b b' A \<Longrightarrow> same_sizes b b'"
  by (simp add: me_frame_def same_sizes_def)

lemma same_sizes_refl [simp]: "same_sizes b b"
  by (simp add: same_sizes_def)

lemma same_sizes_trans: "same_sizes b b' \<Longrightarrow> same_sizes b' b'' \<Longrightarrow> same_sizes b b''"
  by (simp add: same_sizes_def)

lemma same_sizes_next [simp]: "same_sizes (b\<lparr>next_market_order_id := n\<rparr>) b' = same_sizes b b'"
  by (simp add: same_sizes_def priceToIndex_def)

lemma me_frame_trans: "me_frame b b' A \<Longrightarrow> me_frame b' b'' A \<Longrightarrow> me_frame b b'' A"
  by (auto simp: me_frame_def)

lemma core_upd_more [simp]:
  "book_core.more (b\<lparr>order_pool := P\<rparr>) = book_core.more b"
  "book_core.more (b\<lparr>orders_at_price_pool := Q\<rparr>) = book_core.more b"
  by simp_all

lemma book_rep_table [simp]: "book_rep (b\<lparr>cid_oid_to_order := t\<rparr>) F = book_rep b F"
  by (rule book_rep_cong) simp_all

lemma book_rep_next [simp]: "book_rep (b\<lparr>next_market_order_id := n\<rparr>) F = book_rep b F"
  by (rule book_rep_cong) simp_all

section \<open>Removing and adding an order\<close>

lemma queued_remove1:
  assumes "book_rep b F" and s: "s \<in> {BUY, SELL}" and "a \<in> set (F s)"
  shows "queued (F(s := remove1 a (F s))) = queued F - {a}"
proof -
  have "distinct (F s)" "set (F s) \<inter> set (F (opp s)) = {}" using book_rep_distinct [OF assms(1) s] by auto
  then show ?thesis using s assms(3) by (auto simp: queued_def)
qed

lemma tab_ok_remove:
  assumes t: "tab_ok N M b Q" and a: "a \<in> Q" and dim: "tab_dim N M b'"
    and tab: "\<And>i j. tab_get b' i j = (if i = cid_of b a \<and> j = coid_of b a then None else tab_get b i j)"
    and ids: "\<And>c. cid_of b' c = cid_of b c \<and> coid_of b' c = coid_of b c"
  shows "tab_ok N M b' (Q - {a})"
proof -
  have "c = a" if "c \<in> Q" "cid_of b c = cid_of b a" "coid_of b c = coid_of b a" for c
    using t a that unfolding tab_ok_def by (metis option.inject)
  then show ?thesis using t dim ids unfolding tab_ok_def tab by auto
qed

lemma me_remove:
  assumes inv: "me_inv N M b F" and s: "s \<in> {BUY, SELL}" and a: "a \<in> set (F s)"
  obtains b' where "removeOrder (Some a) b = Inr b'" and "me_inv N M b' (F(s := remove1 a (F s)))"
    and "me_frame b b' {}"
proof -
  have r: "book_rep b F" and pi: "pool_inv (order_pool b)" and us: "used (order_pool b) = queued F"
    and t: "tab_ok N M b (queued F)" using inv by (auto simp: me_inv_def)
  have aq: "a \<in> queued F" using s a by (rule queuedI)
  obtain b1 where b1: "unlinkOrder (Some a) b = Inr b1" "reshaped b b1" "book_rep b1 (F(s := remove1 a (F s)))"
    using book_unlink [OF r s a] .
  note rd = reshaped_data [OF b1(2)]
  note mf = more_fields [OF rd(4)]
  have ids: "cid_of b1 c = cid_of b c \<and> coid_of b1 c = coid_of b c" for c using strip_ids [OF rd(3)] by simp
  have "tab_dim N M b1" using t mf by (simp add: tab_ok_def tab_dim_def)
  moreover have "cid_of b1 a < N" "coid_of b1 a < M" using t aq ids by (auto simp: tab_ok_def)
  ultimately obtain tab where b2: "set_cid_oid (ord_client_id (obj (order_pool b1) a))
        (ord_client_order_id (obj (order_pool b1) a)) None b1 = Inr (b1\<lparr>cid_oid_to_order := tab\<rparr>)"
      "tab_dim N M (b1\<lparr>cid_oid_to_order := tab\<rparr>)"
      "\<And>i j. tab_get (b1\<lparr>cid_oid_to_order := tab\<rparr>) i j =
         (if i = cid_of b1 a \<and> j = coid_of b1 a then None else tab_get b1 i j)"
    using set_cid_oid_ok by blast
  have "a \<in> used (order_pool b1)" "pool_inv (order_pool b1)" using aq us pi rd by auto
  then obtain P where P: "deallocate (Some a) (order_pool b1) = Inr P" "pool_inv P"
    "pool_size P = pool_size (order_pool b1)" "used P = used (order_pool b1) - {a}" "obj P = obj (order_pool b1)"
    using pool.dealloc_ok [of "order_pool b1" a] by blast
  let ?b = "b1\<lparr>cid_oid_to_order := tab, order_pool := P\<rparr>"
  have "removeOrder (Some a) b = Inr ?b" using b1(1) b2(1) P(1) by (simp add: removeOrder_def)
  moreover have "book_rep ?b (F(s := remove1 a (F s)))"
    using book_rep_frame [of "b1\<lparr>cid_oid_to_order := tab\<rparr>" _ P] b1(3) P(5) by (simp add: view_defs)
  moreover have "tab_ok N M ?b (queued F - {a})"
    using b2(2,3) ids mf P(5) by (intro tab_ok_remove [OF t aq]) (auto simp: tab_dim_def tab_get_def)
  ultimately show ?thesis
    using that [of ?b] P rd us mf queued_remove1 [OF r s a] by (simp add: me_inv_def me_frame_def priceToIndex_def)
qed


lemma tab_ok_add:
  assumes t: "tab_ok N M b Q" and a: "a \<notin> Q" and dim: "tab_dim N M b'"
    and key: "cid_of b' a < N" "coid_of b' a < M"
      "\<And>c. c \<in> Q \<Longrightarrow> \<not> (cid_of b c = cid_of b' a \<and> coid_of b c = coid_of b' a)"
    and tab: "\<And>i j. tab_get b' i j = (if i = cid_of b' a \<and> j = coid_of b' a then Some a else tab_get b i j)"
    and ids: "\<And>c. c \<noteq> a \<Longrightarrow> cid_of b' c = cid_of b c \<and> coid_of b' c = coid_of b c"
  shows "tab_ok N M b' (insert a Q)"
proof -
  have "tab_get b i j \<noteq> Some a" if "i < N" "j < M" for i j using t a that by (auto simp: tab_ok_def)
  moreover have "cid_of b' c = cid_of b c \<and> coid_of b' c = coid_of b c" if "c \<in> Q" for c
    using ids [of c] that a by (cases "c = a") simp_all
  ultimately show ?thesis using t dim key unfolding tab_ok_def tab by auto
qed

lemma me_insert:
  assumes inv: "me_inv N M b F" and s: "s \<in> {BUY, SELL}"
    and x: "ord_side x = s" and adm: "admits b F s (ord_price x)" and room: "level_room b"
    and oroom: "card (queued F) + 2 \<le> pool_size (order_pool b)"
    and key: "unat (ord_client_id x) < N" "unat (ord_client_order_id x) < M"
      "\<And>c. c \<in> queued F \<Longrightarrow> \<not> (cid_of b c = unat (ord_client_id x) \<and> coid_of b c = unat (ord_client_order_id x))"
  obtains a P b' where "allocate x (order_pool b) = Inr (a, P)" and "addOrder (Some a) (b\<lparr>order_pool := P\<rparr>) = Inr b'"
    and "a \<notin> queued F" and "me_inv N M b' (F(s := price_insert s (price_of b') a (F s)))"
    and "me_frame b b' {a}" and "strip (obj (order_pool b') a) = strip x"
proof -
  have r: "book_rep b F" and pi: "pool_inv (order_pool b)" and us: "used (order_pool b) = queued F"
    and t: "tab_ok N M b (queued F)" using inv by (auto simp: me_inv_def)
  obtain a P where P: "allocate x (order_pool b) = Inr (a, P)" "pool_inv P" "pool_size P = pool_size (order_pool b)"
    "a \<notin> queued F" "used P = insert a (queued F)" "obj P = (obj (order_pool b))(a := x)"
    using pool.alloc_ok [OF pi, of x] oroom us by auto
  let ?b = "b\<lparr>order_pool := P\<rparr>"
  have ne: "c \<noteq> a" if "c \<in> queued F" for c using that P(4) by auto
  have r': "book_rep ?b F" using P(6) ne by (intro book_rep_frame [OF r]) (auto simp: view_defs)
  have "enterable ?b F a"
    using x s adm room P(4,6) ne by (auto simp: enterable_def admits_def level_room_def)
  from book_link [OF r' this] obtain b1 where b1: "linkOrder (Some a) ?b = Inr b1" "reshaped ?b b1"
    "book_rep b1 (F(s := price_insert s (price_of ?b) a (F s)))" using x P(6) by auto
  note rd = reshaped_data [OF b1(2)]
  have mf: "cid_oid_to_order b1 = cid_oid_to_order b" "next_market_order_id b1 = next_market_order_id b"
    using more_fields [OF rd(4)] by simp_all
  have sx: "strip (obj (order_pool b1) a) = strip x" using rd(3) [of a] P(6) by simp
  have ids: "cid_of b1 c = cid_of b c \<and> coid_of b1 c = coid_of b c" if "c \<noteq> a" for c
    using strip_ids [OF rd(3) [of c]] that P(6) by simp
  have ka: "ord_client_id (obj (order_pool b1) a) = ord_client_id x"
    "ord_client_order_id (obj (order_pool b1) a) = ord_client_order_id x" using strip_ids [OF sx] by auto
  have "tab_dim N M b1" using t mf by (simp add: tab_ok_def tab_dim_def)
  then obtain tab where b2: "set_cid_oid (ord_client_id x) (ord_client_order_id x) (Some a) b1 =
        Inr (b1\<lparr>cid_oid_to_order := tab\<rparr>)" "tab_dim N M (b1\<lparr>cid_oid_to_order := tab\<rparr>)"
      "\<And>i j. tab_get (b1\<lparr>cid_oid_to_order := tab\<rparr>) i j =
         (if i = unat (ord_client_id x) \<and> j = unat (ord_client_order_id x) then Some a else tab_get b1 i j)"
    using key set_cid_oid_ok by blast
  let ?b2 = "b1\<lparr>cid_oid_to_order := tab\<rparr>"
  have "addOrder (Some a) ?b = Inr ?b2" using b1(1) b2(1) ka by (simp add: addOrder_def)
  moreover have "tab_ok N M ?b2 (insert a (queued F))"
    using b2(2,3) key ids ka mf by (intro tab_ok_add [OF t P(4)]) (auto simp: tab_get_def)
  moreover have "queued (F(s := price_insert s (price_of ?b2) a (F s))) = insert a (queued F)"
    using s by (auto simp: queued_def)
  moreover have "book_rep ?b2 (F(s := price_insert s (price_of ?b2) a (F s)))" using b1(3) rd(1) by simp
  moreover have "me_frame b ?b2 {a}" using rd P mf by (auto simp: me_frame_def priceToIndex_def)
  ultimately show ?thesis using that [OF P(1), of ?b2] P rd sx by (simp add: me_inv_def)
qed

lemma me_qty:
  assumes inv: "me_inv N M b F"
  shows "me_inv N M (b\<lparr>order_pool := pool_upd c (\<lambda>x. x\<lparr>ord_qty := f x\<rparr>) (order_pool b)\<rparr>) F"
    and "me_frame b (b\<lparr>order_pool := pool_upd c (\<lambda>x. x\<lparr>ord_qty := f x\<rparr>) (order_pool b)\<rparr>) {c}"
proof -
  let ?P = "pool_upd c (\<lambda>x. x\<lparr>ord_qty := f x\<rparr>) (order_pool b)"
  have "book_rep (b\<lparr>order_pool := ?P\<rparr>) F"
    using inv by (intro book_rep_frame) (auto simp: me_inv_def view_defs)
  moreover have "tab_ok N M (b\<lparr>order_pool := ?P\<rparr>) (queued F)"
    using inv by (auto simp: me_inv_def tab_ok_def tab_dim_def tab_get_def)
  ultimately show "me_inv N M (b\<lparr>order_pool := ?P\<rparr>) F" using inv by (simp add: me_inv_def)
qed (auto simp: me_frame_def)

section \<open>The empty book\<close>

lemma book_rep_new:
  assumes "0 < ME_MAX_PRICE_LEVELS limits"
  shows "book_rep (MEOrderBook_new limits bm mem tid) (\<lambda>_. [])"
  using assms
  by (intro book_repI [of _ "\<lambda>_. []"] rep_empty) (simp_all add: MEOrderBook_new_def pool_inv_new)

text \<open>
  A new book is well formed when its table is clear: in a benchmark build, or when the memory the
  book occupies happens to be zero.
\<close>

lemma me_inv_new:
  assumes "0 < ME_MAX_PRICE_LEVELS limits" and "0 < ME_MAX_ORDER_IDS limits"
    and "bm \<or> (\<forall>i<ME_MAX_NUM_CLIENTS limits. \<forall>j<ME_MAX_ORDER_IDS limits. mem i j = None)"
  shows "me_inv (ME_MAX_NUM_CLIENTS limits) (ME_MAX_ORDER_IDS limits) (MEOrderBook_new limits bm mem tid) (\<lambda>_. [])"
  using book_rep_new [OF assms(1)] assms(2,3)
  by (auto simp: me_inv_def tab_ok_def tab_dim_def tab_get_def queued_def MEOrderBook_new_def pool_inv_new)

end
