(* ===== verification/ME_Book_Spec.thy ===== *)
theory ME_Book_Spec
  imports ME_Order_Book
begin

text \<open>
  What a limit order book does, on lists: each side is the list of its resting orders by price and
  then by time of arrival.  A new order takes from the head of the other side as long as the price
  allows; what is left of it is queued behind all orders of its side that are at least as aggressive.
  The theory has this specification, the facts about it that hold of lists alone (quantities are
  conserved, an uncrossed book stays uncrossed, fills follow price-time order), and nothing of the
  linked representation, which \<open>ME_Book_Refine\<close> relates to it.
\<close>

record abs_book =
  ab_queue :: "Side \<Rightarrow> MEOrder list"
  ab_next :: OrderId

definition match_events ::
  "TickerId \<Rightarrow> ClientId \<Rightarrow> Side \<Rightarrow> OrderId \<Rightarrow> OrderId \<Rightarrow> Qty \<Rightarrow> MEOrder \<Rightarrow> me_event list" where
  "match_events tid cid side coid moid leaves o' =
     (let fill = min leaves (ord_qty o'); rest = ord_qty o' - fill in
      [Response \<lparr>rsp_type = FILLED, rsp_client_id = cid, rsp_ticker_id = tid, rsp_client_order_id = coid,
         rsp_market_order_id = moid, rsp_side = side, rsp_price = ord_price o', rsp_exec_qty = fill,
         rsp_leaves_qty = leaves - fill\<rparr>,
       Response \<lparr>rsp_type = FILLED, rsp_client_id = ord_client_id o', rsp_ticker_id = tid,
         rsp_client_order_id = ord_client_order_id o', rsp_market_order_id = ord_market_order_id o',
         rsp_side = ord_side o', rsp_price = ord_price o', rsp_exec_qty = fill, rsp_leaves_qty = rest\<rparr>,
       Update \<lparr>upd_type = TRADE, upd_order_id = OrderId_INVALID, upd_ticker_id = tid, upd_side = side,
         upd_price = ord_price o', upd_qty = fill, upd_priority = Priority_INVALID\<rparr>,
       (if rest = 0 then
          Update \<lparr>upd_type = CANCEL, upd_order_id = ord_market_order_id o', upd_ticker_id = tid,
            upd_side = ord_side o', upd_price = ord_price o', upd_qty = ord_qty o',
            upd_priority = Priority_INVALID\<rparr>
        else
          Update \<lparr>upd_type = MODIFY, upd_order_id = ord_market_order_id o', upd_ticker_id = tid,
            upd_side = ord_side o', upd_price = ord_price o', upd_qty = rest,
            upd_priority = ord_priority o'\<rparr>)])"

fun spec_match ::
  "TickerId \<Rightarrow> ClientId \<Rightarrow> Side \<Rightarrow> OrderId \<Rightarrow> OrderId \<Rightarrow> Price \<Rightarrow> Qty \<Rightarrow> MEOrder list \<Rightarrow>
   Qty \<times> MEOrder list \<times> me_event list" where
  "spec_match tid cid side coid moid price leaves [] = (leaves, [], [])"
| "spec_match tid cid side coid moid price leaves (x # xs) =
     (if leaves = 0 \<or> passes side price (ord_price x) then (leaves, x # xs, [])
      else
        let fill = min leaves (ord_qty x); ev = match_events tid cid side coid moid leaves x in
        if ord_qty x = fill then
          (case spec_match tid cid side coid moid price (leaves - fill) xs of
             (l, ys, ev') \<Rightarrow> (l, ys, ev @ ev'))
        else (leaves - fill, x\<lparr>ord_qty := ord_qty x - fill\<rparr> # xs, ev))"

definition next_priority :: "Price \<Rightarrow> MEOrder list \<Rightarrow> Priority" where
  "next_priority price xs =
     (case filter (\<lambda>x. ord_price x = price) xs of [] \<Rightarrow> 1 | ys \<Rightarrow> ord_priority (last ys) + 1)"

text \<open>The identifier that fills of the incoming order carry: its market order identifier modulo \<open>2 ^ 32\<close>.\<close>

definition fill_id :: "OrderId \<Rightarrow> OrderId" where
  "fill_id n = ucast (ucast n :: Qty)"

definition spec_add ::
  "ClientId \<Rightarrow> OrderId \<Rightarrow> TickerId \<Rightarrow> Side \<Rightarrow> Price \<Rightarrow> Qty \<Rightarrow> abs_book \<Rightarrow> abs_book \<times> me_event list" where
  "spec_add cid coid tid side price qty A =
     (case spec_match tid cid side coid (fill_id (ab_next A)) price qty (ab_queue A (opp side)) of
        (leaves, ys, ev) \<Rightarrow>
          let accepted = Response \<lparr>rsp_type = ACCEPTED, rsp_client_id = cid, rsp_ticker_id = tid,
                rsp_client_order_id = coid, rsp_market_order_id = ab_next A, rsp_side = side,
                rsp_price = price, rsp_exec_qty = 0, rsp_leaves_qty = qty\<rparr>;
              prio = next_priority price (ab_queue A side);
              x = \<lparr>ord_side = side, ord_price = price, ord_qty = leaves, ord_priority = prio,
                   prev_order = None, next_order = None, ord_ticker_id = tid, ord_client_id = cid,
                   ord_client_order_id = coid, ord_market_order_id = ab_next A\<rparr>
          in
          if leaves = 0 then
            (\<lparr>ab_queue = (ab_queue A)(opp side := ys), ab_next = ab_next A + 1\<rparr>, accepted # ev)
          else
            (\<lparr>ab_queue = (ab_queue A)(opp side := ys, side := price_insert side ord_price x (ab_queue A side)),
              ab_next = ab_next A + 1\<rparr>,
             accepted # ev @ [Update \<lparr>upd_type = ADD, upd_order_id = ab_next A, upd_ticker_id = tid,
               upd_side = side, upd_price = price, upd_qty = leaves, upd_priority = prio\<rparr>]))"

definition has_key :: "ClientId \<Rightarrow> OrderId \<Rightarrow> MEOrder \<Rightarrow> bool" where
  "has_key cid oid x \<longleftrightarrow> ord_client_id x = cid \<and> ord_client_order_id x = oid"

definition ab_orders :: "abs_book \<Rightarrow> MEOrder list" where
  "ab_orders A = ab_queue A BUY @ ab_queue A SELL"

definition spec_cancel :: "ClientId \<Rightarrow> OrderId \<Rightarrow> TickerId \<Rightarrow> abs_book \<Rightarrow> abs_book \<times> me_event list" where
  "spec_cancel cid oid tid A =
     (case find (has_key cid oid) (ab_orders A) of
        None \<Rightarrow>
          (A, [Response \<lparr>rsp_type = CANCEL_REJECTED, rsp_client_id = cid, rsp_ticker_id = tid,
                 rsp_client_order_id = oid, rsp_market_order_id = OrderId_INVALID, rsp_side = Side_INVALID,
                 rsp_price = Price_INVALID, rsp_exec_qty = Qty_INVALID, rsp_leaves_qty = Qty_INVALID\<rparr>])
      | Some x \<Rightarrow>
          (A\<lparr>ab_queue := (\<lambda>s. filter (\<lambda>y. \<not> has_key cid oid y) (ab_queue A s))\<rparr>,
           [Update \<lparr>upd_type = CANCEL, upd_order_id = ord_market_order_id x, upd_ticker_id = tid,
              upd_side = ord_side x, upd_price = ord_price x, upd_qty = 0, upd_priority = ord_priority x\<rparr>,
            Response \<lparr>rsp_type = CANCELED, rsp_client_id = cid, rsp_ticker_id = tid,
              rsp_client_order_id = oid, rsp_market_order_id = ord_market_order_id x, rsp_side = ord_side x,
              rsp_price = ord_price x, rsp_exec_qty = Qty_INVALID, rsp_leaves_qty = ord_qty x\<rparr>]))"

lemma next_priority_alt:
  "next_priority price xs =
     (let ys = filter (\<lambda>x. ord_price x = price) xs in if ys = [] then 1 else ord_priority (last ys) + 1)"
  by (auto simp: next_priority_def Let_def split: list.split)

section \<open>Facts about matching\<close>

lemma passes_worse: "side \<in> {BUY, SELL} \<Longrightarrow> passes side price p \<longleftrightarrow> worse (opp side) p price"
  by (auto simp: passes_def worse_def)

text \<open>Matching stops for lack of quantity or at a price that does not cross.\<close>

lemma spec_match_stops:
  assumes "spec_match tid cid side coid moid price leaves xs = (l, ys, ev)" and "side \<in> {BUY, SELL}"
    and "sorted_wrt (\<lambda>x y. \<not> worse (opp side) (ord_price x) (ord_price y)) xs"
  shows "l = 0 \<or> (\<forall>y\<in>set ys. passes side price (ord_price y))"
  using assms
proof (induction xs arbitrary: leaves l ys ev)
  case (Cons x xs)
  show ?case
  proof (cases "leaves = 0 \<or> passes side price (ord_price x)")
    case True
    have "passes side price (ord_price y)" if "y \<in> set xs" "passes side price (ord_price x)" for y
      using Cons.prems(2,3) that by (auto simp: passes_def worse_def)
    then show ?thesis using True Cons.prems(1) by auto
  next
    case False
    show ?thesis
    proof (cases "ord_qty x = min leaves (ord_qty x)")
      case True
      obtain l' ys' ev' where "spec_match tid cid side coid moid price (leaves - ord_qty x) xs = (l', ys', ev')"
        using prod_cases3 by blast
      then show ?thesis using Cons False True by (auto simp: Let_def)
    next
      case nf: False
      then have "min leaves (ord_qty x) = leaves" by (auto simp: min_def split: if_splits)
      then show ?thesis using Cons.prems(1) False nf by (auto simp: Let_def)
    qed
  qed
qed simp

text \<open>The orders that remain are a suffix of the side, its first order possibly with less quantity.\<close>

lemma spec_match_suffix:
  assumes "spec_match tid cid side coid moid price leaves xs = (l, ys, ev)"
  shows "\<exists>zs us. xs = zs @ us \<and>
    (ys = us \<or> (\<exists>x vs q. us = x # vs \<and> ys = x\<lparr>ord_qty := q\<rparr> # vs \<and> q \<noteq> 0 \<and> q < ord_qty x))"
  using assms
proof (induction xs arbitrary: leaves l ys ev)
  case (Cons x xs)
  consider (stop) "leaves = 0 \<or> passes side price (ord_price x)"
    | (full) "\<not> (leaves = 0 \<or> passes side price (ord_price x))" "ord_qty x = min leaves (ord_qty x)"
    | (part) "\<not> (leaves = 0 \<or> passes side price (ord_price x))" "ord_qty x \<noteq> min leaves (ord_qty x)" by blast
  then show ?case
  proof cases
    case stop
    then have "ys = x # xs" using Cons.prems by auto
    then show ?thesis by (intro exI [of _ "[]"] exI [of _ "x # xs"]) simp
  next
    case full
    obtain l' ys' ev' where r: "spec_match tid cid side coid moid price (leaves - ord_qty x) xs = (l', ys', ev')"
      using prod_cases3 by blast
    then have "ys = ys'" using Cons.prems full by (auto simp: Let_def)
    then show ?thesis using Cons.IH [OF r] by (metis append_Cons)
  next
    case part
    then have m: "min leaves (ord_qty x) = leaves" "leaves < ord_qty x" "leaves \<noteq> 0"
      by (auto simp: min_def split: if_splits)
    then have "0 < unat leaves" by (simp add: unat_gt_0)
    then have "ord_qty x - leaves \<noteq> 0" "ord_qty x - leaves < ord_qty x"
      using m(2) by (auto simp: word_less_nat_alt unat_sub word_le_nat_alt)
    then show ?thesis using Cons.prems part m by (intro exI [of _ "[]"] exI [of _ "x # xs"]) (auto simp: Let_def)
  qed
qed auto

lemma spec_match_orders:
  assumes "spec_match tid cid side coid moid price leaves xs = (l, ys, ev)" and "y \<in> set ys"
  obtains x q where "x \<in> set xs" and "y = x\<lparr>ord_qty := q\<rparr>"
proof -
  obtain zs us where "xs = zs @ us" "ys = us \<or> (\<exists>x vs q. us = x # vs \<and> ys = x\<lparr>ord_qty := q\<rparr> # vs)"
    using spec_match_suffix [OF assms(1)] by blast
  then have "y \<in> set xs \<or> (\<exists>x\<in>set xs. \<exists>q. y = x\<lparr>ord_qty := q\<rparr>)" using assms(2) by auto
  then show ?thesis using that [of y "ord_qty y"] that by auto
qed

text \<open>The quantity taken from the resting orders is the quantity the incoming order got.\<close>

definition total_qty :: "MEOrder list \<Rightarrow> nat" where
  "total_qty xs = (\<Sum>x\<leftarrow>xs. unat (ord_qty x))"

lemma spec_match_conserves:
  assumes "spec_match tid cid side coid moid price leaves xs = (l, ys, ev)"
  shows "total_qty ys + unat leaves = total_qty xs + unat l" and "l \<le> leaves"
proof -
  have "total_qty ys + unat leaves = total_qty xs + unat l \<and> l \<le> leaves"
    using assms
  proof (induction xs arbitrary: leaves l ys ev)
    case (Cons x xs)
    consider (stop) "leaves = 0 \<or> passes side price (ord_price x)"
      | (full) "\<not> (leaves = 0 \<or> passes side price (ord_price x))" "ord_qty x \<le> leaves"
      | (part) "\<not> (leaves = 0 \<or> passes side price (ord_price x))" "leaves < ord_qty x" by fastforce
    then show ?case
    proof cases
      case full
      obtain l' ys' ev' where r: "spec_match tid cid side coid moid price (leaves - ord_qty x) xs = (l', ys', ev')"
        using prod_cases3 by blast
      then have "ys = ys'" "l = l'" using Cons.prems full by (auto simp: Let_def min_def split: if_splits)
      then show ?thesis using Cons.IH [OF r] full(2)
        by (auto simp: total_qty_def unat_sub word_le_nat_alt)
    next
      case part
      then have "l = 0" "ys = x\<lparr>ord_qty := ord_qty x - leaves\<rparr> # xs" using Cons.prems
        by (auto simp: Let_def min_def split: if_splits)
      then show ?thesis using part by (auto simp: total_qty_def unat_sub word_le_nat_alt word_less_nat_alt)
    qed (use Cons.prems in \<open>auto simp: total_qty_def\<close>)
  qed (simp add: total_qty_def)
  then show "total_qty ys + unat leaves = total_qty xs + unat l" "l \<le> leaves" by auto
qed


text \<open>What the messages say: the quantity traded, and the resting orders touched, in order.\<close>

definition traded :: "me_event list \<Rightarrow> nat" where
  "traded ev = (\<Sum>e\<leftarrow>ev. case e of Update u \<Rightarrow> if upd_type u = TRADE then unat (upd_qty u) else 0 | _ \<Rightarrow> 0)"

definition touched :: "me_event list \<Rightarrow> OrderId list" where
  "touched ev = concat (map (\<lambda>e. case e of
     Update u \<Rightarrow> if upd_type u \<in> {CANCEL, MODIFY} then [upd_order_id u] else [] | _ \<Rightarrow> []) ev)"

lemma traded_append [simp]: "traded (xs @ ys) = traded xs + traded ys" by (simp add: traded_def)

lemma touched_append [simp]: "touched (xs @ ys) = touched xs @ touched ys" by (simp add: touched_def)

lemma match_events_traded [simp]:
  "traded (match_events tid cid side coid moid leaves x) = unat (min leaves (ord_qty x))"
  by (simp add: match_events_def traded_def Let_def)

lemma match_events_touched [simp]:
  "touched (match_events tid cid side coid moid leaves x) = [ord_market_order_id x]"
  by (simp add: match_events_def touched_def Let_def)

lemma match_events_set:
  assumes "e \<in> set (match_events tid cid side coid moid leaves x)"
  shows "\<forall>u. e = Update u \<longrightarrow> upd_type u = TRADE \<longrightarrow> upd_price u = ord_price x"
    and "\<forall>r. e = Response r \<longrightarrow> rsp_type r = FILLED \<and>
       (rsp_client_id r = cid \<and> rsp_client_order_id r = coid \<and> rsp_market_order_id r = moid \<or>
        rsp_client_id r = ord_client_id x \<and> rsp_client_order_id r = ord_client_order_id x)"
  using assms by (auto simp: match_events_def Let_def split: if_splits)

lemma spec_match_traded:
  assumes "spec_match tid cid side coid moid price leaves xs = (l, ys, ev)"
  shows "traded ev + unat l = unat leaves"
  using assms
proof (induction xs arbitrary: leaves l ys ev)
  case (Cons x xs)
  consider (stop) "leaves = 0 \<or> passes side price (ord_price x)"
    | (full) "\<not> (leaves = 0 \<or> passes side price (ord_price x))" "ord_qty x \<le> leaves"
    | (part) "\<not> (leaves = 0 \<or> passes side price (ord_price x))" "leaves < ord_qty x" by fastforce
  then show ?case
  proof cases
    case full
    obtain l' ys' ev' where r: "spec_match tid cid side coid moid price (leaves - ord_qty x) xs = (l', ys', ev')"
      using prod_cases3 by blast
    then have "ev = match_events tid cid side coid moid leaves x @ ev'" "l = l'" using Cons.prems full
      by (auto simp: Let_def min_def split: if_splits)
    then show ?thesis using Cons.IH [OF r] full(2) by (auto simp: min_def unat_sub word_le_nat_alt)
  next
    case part
    then have "l = 0" "ev = match_events tid cid side coid moid leaves x" using Cons.prems
      by (auto simp: Let_def min_def split: if_splits)
    then show ?thesis using part by (auto simp: min_def)
  qed (use Cons.prems in \<open>auto simp: traded_def\<close>)
qed (simp add: traded_def)

text \<open>
  Price-time priority: the resting orders touched are the first ones of the side, all of them are
  crossed by the limit price, and each trade happens at the price of a resting order.
\<close>

lemma spec_match_prefix:
  assumes "spec_match tid cid side coid moid price leaves xs = (l, ys, ev)"
  shows "touched ev = map ord_market_order_id (take (length (touched ev)) xs) \<and>
    (\<forall>x\<in>set (take (length (touched ev)) xs). \<not> passes side price (ord_price x)) \<and>
    (\<forall>u. Update u \<in> set ev \<longrightarrow> upd_type u = TRADE \<longrightarrow> \<not> passes side price (upd_price u))"
  using assms
proof (induction xs arbitrary: leaves l ys ev)
  case (Cons x xs)
  consider (stop) "leaves = 0 \<or> passes side price (ord_price x)"
    | (full) "\<not> (leaves = 0 \<or> passes side price (ord_price x))" "ord_qty x \<le> leaves"
    | (part) "\<not> (leaves = 0 \<or> passes side price (ord_price x))" "leaves < ord_qty x" by fastforce
  then show ?case
  proof cases
    case full
    obtain l' ys' ev' where r: "spec_match tid cid side coid moid price (leaves - ord_qty x) xs = (l', ys', ev')"
      using prod_cases3 by blast
    then have "ev = match_events tid cid side coid moid leaves x @ ev'" using Cons.prems full
      by (auto simp: Let_def min_def split: if_splits)
    then show ?thesis using Cons.IH [OF r] full(1) match_events_set(1) by fastforce
  next
    case part
    then have "ev = match_events tid cid side coid moid leaves x" using Cons.prems
      by (auto simp: Let_def min_def split: if_splits)
    then show ?thesis using part(1) match_events_set(1) by fastforce
  qed (use Cons.prems in \<open>auto simp: touched_def\<close>)
qed (simp add: touched_def)

lemma spec_match_fill_ids:
  assumes "spec_match tid cid side coid moid price leaves xs = (l, ys, ev)" and "Response r \<in> set ev"
    and "\<forall>x\<in>set xs. \<not> has_key cid coid x" and "rsp_client_id r = cid" and "rsp_client_order_id r = coid"
  shows "rsp_type r = FILLED \<and> rsp_market_order_id r = moid"
  using assms(1-3)
proof (induction xs arbitrary: leaves l ys ev)
  case (Cons x xs)
  have k: "\<not> has_key cid coid x" using Cons.prems(3) by simp
  obtain l' ys' ev' where r: "spec_match tid cid side coid moid price (leaves - min leaves (ord_qty x)) xs = (l', ys', ev')"
    using prod_cases3 by blast
  have "Response r \<in> set (match_events tid cid side coid moid leaves x) \<or> Response r \<in> set ev'"
    using Cons.prems(1,2) r by (auto simp: Let_def split: if_splits)
  then show ?case
  proof
    assume "Response r \<in> set (match_events tid cid side coid moid leaves x)"
    then show ?thesis using match_events_set(2) k assms(4,5) by (force simp: has_key_def)
  qed (use Cons.IH [OF r] Cons.prems(3) in auto)
qed simp

section \<open>Well-formed books\<close>

definition uncrossed :: "abs_book \<Rightarrow> bool" where
  "uncrossed A \<longleftrightarrow> (\<forall>x\<in>set (ab_queue A BUY). \<forall>y\<in>set (ab_queue A SELL). ord_price x < ord_price y)"

lemma spec_add_uncrossed:
  assumes "uncrossed A" and s: "side \<in> {BUY, SELL}"
    and "sorted_wrt (\<lambda>x y. \<not> worse (opp side) (ord_price x) (ord_price y)) (ab_queue A (opp side))"
  shows "uncrossed (fst (spec_add cid coid tid side price qty A))"
proof -
  obtain l ys ev where sm: "spec_match tid cid side coid (fill_id (ab_next A)) price qty (ab_queue A (opp side)) = (l, ys, ev)"
    using prod_cases3 by blast
  have old: "\<exists>x\<in>set (ab_queue A (opp side)). ord_price y = ord_price x" if y: "y \<in> set ys" for y
    using spec_match_orders [OF sm y] by (metis order_node.select_convs(2) order_node.surjective order_node.update_convs(3))
  have stop: "l \<noteq> 0 \<Longrightarrow> \<forall>y\<in>set ys. passes side price (ord_price y)" using spec_match_stops [OF sm s assms(3)] by blast
  show ?thesis
  proof (cases "side = BUY")
    case True
    have "ord_price x < ord_price y" if "x \<in> set (ab_queue A BUY)" "y \<in> set ys" for x y
      using old [OF that(2)] that(1) assms(1) True by (auto simp: uncrossed_def)
    then show ?thesis using stop True sm by (auto simp: spec_add_def uncrossed_def passes_def Let_def)
  next
    case False
    then have S: "side = SELL" using s by auto
    have "ord_price x < ord_price y" if "y \<in> set (ab_queue A SELL)" "x \<in> set ys" for x y
      using old [OF that(2)] that(1) assms(1) S by (auto simp: uncrossed_def)
    then show ?thesis using stop S sm by (auto simp: spec_add_def uncrossed_def passes_def Let_def)
  qed
qed

lemma spec_cancel_uncrossed: "uncrossed A \<Longrightarrow> uncrossed (fst (spec_cancel cid oid tid A))"
  by (auto simp: spec_cancel_def uncrossed_def split: option.split)

end
