(* ===== verification/ME_Book_Refine.thy ===== *)
theory ME_Book_Refine
  imports ME_Book_Inv ME_Book_Spec
begin

text \<open>
  \<open>MEOrderBook\<close> implements the list specification of \<open>ME_Book_Spec\<close>: related by \<open>me_rel\<close>, the code
  and the specification send the same messages in the same order and end in related states.
\<close>

definition absq :: "MEOrderBook \<Rightarrow> queues \<Rightarrow> Side \<Rightarrow> MEOrder list" where
  "absq b F s = map (\<lambda>c. strip (obj (order_pool b) c)) (F s)"

definition me_rel :: "nat \<Rightarrow> nat \<Rightarrow> MEOrderBook \<Rightarrow> abs_book \<Rightarrow> bool" where
  "me_rel N M b A \<longleftrightarrow>
     (\<exists>F. me_inv N M b F \<and> (\<forall>s\<in>{BUY, SELL}. ab_queue A s = absq b F s)) \<and> next_market_order_id b = ab_next A"

lemma absq_frame:
  assumes "me_frame b b' X" and "X \<inter> set (F s) = {}"
  shows "absq b' F s = absq b F s"
  using assms by (auto simp: absq_def me_frame_def)

lemma strip_qty: "strip (x\<lparr>ord_qty := q\<rparr>) = (strip x)\<lparr>ord_qty := q\<rparr>"
  by (simp add: strip_def)

section \<open>Matching\<close>

lemma match_run:
  assumes inv: "me_inv N M b F" and s: "side \<in> {BUY, SELL}" and F: "F (opp side) = c # cs"
    and fill: "fill = min leaves (ord_qty (obj (order_pool b) c))"
  obtains b' where "match tid cid side coid moid (Some c) leaves b =
      Inr (leaves - fill, b', match_events tid cid side coid moid leaves (strip (obj (order_pool b) c)))"
    and "me_frame b b' {c}"
    and "if ord_qty (obj (order_pool b) c) = fill then me_inv N M b' (F(opp side := cs))
         else me_inv N M b' F \<and>
           strip (obj (order_pool b') c) = (strip (obj (order_pool b) c))\<lparr>ord_qty := ord_qty (obj (order_pool b) c) - fill\<rparr>"
proof -
  let ?q = "ord_qty (obj (order_pool b) c)"
  let ?b = "b\<lparr>order_pool := pool_upd c (\<lambda>x. x\<lparr>ord_qty := ord_qty x - fill\<rparr>) (order_pool b)\<rparr>"
  have inv': "me_inv N M ?b F" and fr: "me_frame b ?b {c}" using me_qty [OF inv, of c "\<lambda>x. ord_qty x - fill"] by auto
  have os: "opp side \<in> {BUY, SELL}" using opp_in [OF s] .
  show ?thesis
  proof (cases "?q = fill")
    case True
    then have m: "min leaves ?q = ?q" and fq: "fill = ?q" using fill by metis+
    have cF: "c \<in> set (F (opp side))" using F by simp
    obtain b' where b': "removeOrder (Some c) ?b = Inr b'"
      "me_inv N M b' (F(opp side := remove1 c (F (opp side))))" "me_frame ?b b' {}"
      using me_remove [OF inv' os cF] .
    have "match tid cid side coid moid (Some c) leaves b =
        Inr (leaves - fill, b', match_events tid cid side coid moid leaves (strip (obj (order_pool b) c)))"
      using b'(1) unfolding fq by (simp add: match_def match_events_def Let_def m)
    moreover have "me_frame b b' {c}" using fr b'(3) by (auto simp: me_frame_def)
    ultimately show ?thesis using that True b'(2) F by simp
  next
    case False
    then have "match tid cid side coid moid (Some c) leaves b =
        Inr (leaves - fill, ?b, match_events tid cid side coid moid leaves (strip (obj (order_pool b) c)))"
      using fill by (simp add: match_def match_events_def Let_def)
    then show ?thesis using that [of ?b] fr inv' False by (simp add: strip_qty)
  qed
qed

lemma match_candidate_ok:
  assumes inv: "me_inv N M b F" and s: "side \<in> {BUY, SELL}"
  shows "match_candidate side price leaves b =
    Inr (case F (opp side) of [] \<Rightarrow> None
         | c # cs \<Rightarrow> if leaves = 0 \<or> passes side price (price_of b c) then None else Some c)"
proof -
  have best: "(if side = BUY then asks_by_price b else bids_by_price b) = best_orders_by_price (opp side) b"
    using s by (auto simp: best_orders_by_price_def)
  have "book_rep b F" using inv by (simp add: me_inv_def)
  then show ?thesis using opp_in [OF s]
    by (cases rule: book_rep_best) (simp_all add: match_candidate_def best)
qed

lemma match_loop_zero:
  "match_loop fuel tid cid side coid moid price 0 b = Inr (0, b, [])"
  by (cases fuel) (simp_all add: match_candidate_def)

lemma match_loop_refines:
  assumes "me_inv N M b F" and s: "side \<in> {BUY, SELL}" and "length (F (opp side)) \<le> fuel"
    and "spec_match tid cid side coid moid price leaves (absq b F (opp side)) = (l, ys, ev)"
  shows "\<exists>b' F'. match_loop fuel tid cid side coid moid price leaves b = Inr (l, b', ev) \<and> me_inv N M b' F' \<and>
    F' side = F side \<and> set (F' (opp side)) \<subseteq> set (F (opp side)) \<and> absq b' F' (opp side) = ys \<and>
    me_frame b b' (set (F (opp side)))"
  using assms(1,3,4)
proof (induction "F (opp side)" arbitrary: b F leaves fuel l ys ev)
  case Nil
  then show ?case using match_candidate_ok [OF Nil(2) s, of price leaves]
    by (cases fuel) (auto simp: absq_def me_frame_def)
next
  case (Cons c cs)
  have F: "F (opp side) = c # cs" using Cons.hyps(2) by simp
  have ss: "side \<noteq> opp side" using s by auto
  obtain f where f: "fuel = Suc f" "length cs \<le> f" using Cons.prems(2) F by (cases fuel) auto
  let ?o = "strip (obj (order_pool b) c)" and ?q = "ord_qty (obj (order_pool b) c)"
  note cand = match_candidate_ok [OF Cons.prems(1) s, of price leaves]
  show ?case
  proof (cases "leaves = 0 \<or> passes side price (price_of b c)")
    case True
    then show ?thesis using cand f F Cons.prems by (intro exI [of _ b] exI [of _ F]) (auto simp: absq_def me_frame_def)
  next
    case False
    define fill where "fill = min leaves ?q"
    obtain b1 where b1: "match tid cid side coid moid (Some c) leaves b =
        Inr (leaves - fill, b1, match_events tid cid side coid moid leaves ?o)"
      "me_frame b b1 {c}"
      "if ?q = fill then me_inv N M b1 (F(opp side := cs))
       else me_inv N M b1 F \<and> strip (obj (order_pool b1) c) = ?o\<lparr>ord_qty := ?q - fill\<rparr>"
      using match_run [OF Cons.prems(1) s F fill_def] by metis
    have "distinct (F (opp side))" using Cons.prems(1) opp_in [OF s] by (auto simp: me_inv_def book_rep_distinct)
    then have cc: "c \<notin> set cs" using F by simp
    have step: "match_loop fuel tid cid side coid moid price leaves b =
        rbind (match_loop f tid cid side coid moid price (leaves - fill) b1)
          (\<lambda>(l, b, ev'). Inr (l, b, match_events tid cid side coid moid leaves ?o @ ev'))"
      using cand f F False b1(1) by simp
    have prem: "spec_match tid cid side coid moid price leaves (?o # map (\<lambda>c. strip (obj (order_pool b) c)) cs) = (l, ys, ev)"
      using Cons.prems(3) F by (simp add: absq_def)
    have cs: "absq b1 (F(opp side := cs)) (opp side) = map (\<lambda>c. strip (obj (order_pool b) c)) cs"
      using b1(2) cc by (auto simp: absq_def me_frame_def)
    show ?thesis
    proof (cases "?q = fill")
      case True
      then have m: "min leaves ?q = ?q" and fq: "fill = ?q" using fill_def by metis+
      obtain l' ys' ev' where r: "spec_match tid cid side coid moid price (leaves - fill)
          (absq b1 (F(opp side := cs)) (opp side)) = (l', ys', ev')" using prod_cases3 by blast
      have eq: "l = l'" "ys = ys'" "ev = match_events tid cid side coid moid leaves ?o @ ev'"
        using prem r [unfolded cs fq] False by (auto simp: Let_def m)
      have "me_inv N M b1 (F(opp side := cs))" using b1(3) True by simp
      then have "\<exists>b' F'. match_loop f tid cid side coid moid price (leaves - fill) b1 = Inr (l', b', ev') \<and>
          me_inv N M b' F' \<and> F' side = (F(opp side := cs)) side \<and>
          set (F' (opp side)) \<subseteq> set ((F(opp side := cs)) (opp side)) \<and> absq b' F' (opp side) = ys' \<and>
          me_frame b1 b' (set ((F(opp side := cs)) (opp side)))"
        by (rule Cons.hyps(1) [rotated]) (use f(2) r in simp_all)
      then obtain b' F' where b': "match_loop f tid cid side coid moid price (leaves - fill) b1 = Inr (l', b', ev')"
        "me_inv N M b' F'" "F' side = (F(opp side := cs)) side"
        "set (F' (opp side)) \<subseteq> set ((F(opp side := cs)) (opp side))"
        "absq b' F' (opp side) = ys'" "me_frame b1 b' (set ((F(opp side := cs)) (opp side)))" by blast
      moreover have "me_frame b b' (set (F (opp side)))" using b1(2) b'(6) F by (auto simp: me_frame_def)
      ultimately show ?thesis using step eq F ss by (intro exI [of _ b'] exI [of _ F']) auto
    next
      case nf: False
      then have "fill = leaves" by (auto simp: fill_def min_def split: if_splits)
      then have "match_loop fuel tid cid side coid moid price leaves b =
          Inr (0, b1, match_events tid cid side coid moid leaves ?o)"
        using step by (simp add: match_loop_zero)
      moreover have "absq b1 F (opp side) = ?o\<lparr>ord_qty := ?q - fill\<rparr> # map (\<lambda>c. strip (obj (order_pool b) c)) cs"
        using cs b1(3) nf F by (simp add: absq_def)
      moreover have "l = 0" "ys = ?o\<lparr>ord_qty := ?q - fill\<rparr> # map (\<lambda>c. strip (obj (order_pool b) c)) cs"
        "ev = match_events tid cid side coid moid leaves ?o"
        using prem False nf \<open>fill = leaves\<close> fill_def by (auto simp: Let_def)
      moreover have "me_frame b b1 (set (F (opp side)))" using b1(2) F by (auto simp: me_frame_def)
      ultimately show ?thesis using nf b1(3) by (intro exI [of _ b1] exI [of _ F]) simp
    qed
  qed
qed


section \<open>New orders\<close>

text \<open>
  When the book can take a new order: the identifiers fit the table and are not in use, no live order
  has another price with the same table index, and both pools have two free blocks.
\<close>

definition can_add :: "nat \<Rightarrow> nat \<Rightarrow> MEOrderBook \<Rightarrow> abs_book \<Rightarrow> ClientId \<Rightarrow> OrderId \<Rightarrow> Side \<Rightarrow> Price \<Rightarrow> bool" where
  "can_add N M b A cid coid side price \<longleftrightarrow>
     side \<in> {BUY, SELL} \<and> unat cid < N \<and> unat coid < M \<and>
     (\<forall>x\<in>set (ab_orders A). \<not> has_key cid coid x \<and>
        (priceToIndex b (ord_price x) = priceToIndex b price \<longrightarrow> ord_price x = price)) \<and>
     card (ord_price ` set (ab_orders A)) + 2 \<le> pool_size (orders_at_price_pool b) \<and>
     length (ab_orders A) + 2 \<le> pool_size (order_pool b)"

lemma me_inv_next [simp]: "me_inv N M (b\<lparr>next_market_order_id := n\<rparr>) F = me_inv N M b F"
  by (simp add: me_inv_def tab_ok_def tab_dim_def tab_get_def)

lemma absq_sorted:
  assumes "me_inv N M b F" and "s \<in> {BUY, SELL}"
  shows "sorted_wrt (\<lambda>x y. \<not> worse s (ord_price x) (ord_price y)) (absq b F s)"
  using book_rep_sorted [of b F s] assms by (simp add: absq_def sorted_wrt_map me_inv_def)

lemma queued_le_length: "card (queued F) \<le> length (F BUY) + length (F SELL)"
  using card_Un_le [of "set (F BUY)" "set (F SELL)"] card_length [of "F BUY"] card_length [of "F SELL"]
  by (simp add: queued_def)

text \<open>After matching: what is left of the book, and that the rest of the order can be queued.\<close>

lemma matched_orders:
  assumes s: "side \<in> {BUY, SELL}"
    and A: "\<And>s. s \<in> {BUY, SELL} \<Longrightarrow> ab_queue A s = absq b F s"
    and sm: "spec_match tid cid side coid moid price leaves (absq b F (opp side)) = (l, ys, ev)"
    and F': "F' side = F side" "absq b' F' (opp side) = ys" "me_frame b b' (set (F (opp side)))"
    and r: "book_rep b F" and c: "c \<in> queued F'"
  shows "\<exists>x\<in>set (ab_orders A). \<exists>q. strip (obj (order_pool b') c) = x\<lparr>ord_qty := q\<rparr>"
proof -
  have sub: "set (absq b F s) \<subseteq> set (ab_orders A)" if "s \<in> {BUY, SELL}" for s
    using that A by (auto simp: ab_orders_def)
  consider "c \<in> set (F side)" | "c \<in> set (F' (opp side))" using c s F'(1) by (auto simp: queued_def)
  then show ?thesis
  proof cases
    case 1
    then have "c \<notin> set (F (opp side))" using book_rep_distinct(2) [OF r s] by auto
    then have "strip (obj (order_pool b') c) = strip (obj (order_pool b) c)" using F'(3) by (simp add: me_frame_def)
    moreover have "strip (obj (order_pool b) c) \<in> set (ab_orders A)" using 1 sub [OF s] by (auto simp: absq_def)
    ultimately show ?thesis by (metis order_node.surjective order_node.update_convs(3))
  next
    case 2
    then have "strip (obj (order_pool b') c) \<in> set ys" using F'(2) by (auto simp: absq_def)
    then obtain x q where "x \<in> set (absq b F (opp side))" "strip (obj (order_pool b') c) = x\<lparr>ord_qty := q\<rparr>"
      using spec_match_orders [OF sm] by metis
    then show ?thesis using sub [OF opp_in [OF s]] by blast
  qed
qed

lemma getNextPriority_ok:
  assumes "me_inv N M b F" and s: "s \<in> {BUY, SELL}" and "admits b F s price"
  shows "getNextPriority price b = Inr (next_priority price (absq b F s))"
proof -
  have f: "filter (\<lambda>x. ord_price x = price) (absq b F s) =
      map (\<lambda>c. strip (obj (order_pool b) c)) (filter (\<lambda>c. price_of b c = price) (F s))"
    by (simp add: absq_def filter_map comp_def)
  have "book_rep b F" using assms(1) by (simp add: me_inv_def)
  then show ?thesis using s assms(3)
  proof (cases rule: book_rep_last)
    case (some l fst_ord)
    then show ?thesis by (simp add: getNextPriority_def next_priority_alt f Let_def last_map)
  qed (simp add: getNextPriority_def next_priority_alt f)
qed

lemma admits_after_match:
  assumes s: "side \<in> {BUY, SELL}" and r: "book_rep b' F'"
    and ord: "\<And>c. c \<in> queued F' \<Longrightarrow> \<exists>x\<in>set (ab_orders A). \<exists>q. strip (obj (order_pool b') c) = x\<lparr>ord_qty := q\<rparr>"
    and ok: "can_add N M b A cid coid side price" and fr: "me_frame b b' X"
    and stop: "\<forall>y\<in>set (absq b' F' (opp side)). passes side price (ord_price y)"
  shows "admits b' F' side price"
  unfolding admits_def
proof (intro ballI impI)
  fix c assume c: "c \<in> queued F'" and i: "priceToIndex b' (price_of b' c) = priceToIndex b' price"
  obtain x q where x: "x \<in> set (ab_orders A)" "strip (obj (order_pool b') c) = x\<lparr>ord_qty := q\<rparr>" using ord [OF c] by blast
  then have "price_of b' c = ord_price x" by (metis order_node.select_convs(2) order_node.surjective order_node.update_convs(3) strip_fields(2))
  then have p: "price_of b' c = price" using ok fr x(1) i by (simp add: can_add_def me_frame_def)
  have "c \<notin> set (F' (opp side))"
  proof
    assume "c \<in> set (F' (opp side))"
    then have "strip (obj (order_pool b') c) \<in> set (absq b' F' (opp side))" by (simp add: absq_def)
    then have "passes side price price" using stop p by (metis strip_fields(2))
    then show False by (simp add: passes_def split: if_splits)
  qed
  then have "c \<in> set (F' side)" using c s by (auto simp: queued_def)
  then show "price_of b' c = price \<and> side_of b' c = side" using p book_rep_side [OF r s] by blast
qed


lemma can_add_next [simp]: "can_add N M (b\<lparr>next_market_order_id := n\<rparr>) A = can_add N M b A"
  by (simp add: can_add_def priceToIndex_def fun_eq_iff)

lemma can_add_sizes: "same_sizes b b' \<Longrightarrow> can_add N M b' A = can_add N M b A"
  by (simp add: can_add_def same_sizes_def fun_eq_iff)

lemma queue_rest:
  assumes inv: "me_inv N M b F" and s: "side \<in> {BUY, SELL}" and adm: "admits b F side price"
    and ord: "\<And>c. c \<in> queued F \<Longrightarrow> \<exists>x\<in>set (ab_orders A). \<exists>q. strip (obj (order_pool b) c) = x\<lparr>ord_qty := q\<rparr>"
    and ok: "can_add N M b0 A cid coid side price" and fr: "me_frame b0 b X"
    and len: "card (queued F) \<le> length (ab_orders A)"
    and x: "ord_side x = side" "ord_price x = price" "ord_client_id x = cid" "ord_client_order_id x = coid" "strip x = x"
  shows "\<exists>a P b' F'. allocate x (order_pool b) = Inr (a, P) \<and> addOrder (Some a) (b\<lparr>order_pool := P\<rparr>) = Inr b' \<and>
    me_inv N M b' F' \<and> absq b' F' side = price_insert side ord_price x (absq b F side) \<and>
    absq b' F' (opp side) = absq b F (opp side) \<and> next_market_order_id b' = next_market_order_id b \<and>
    same_sizes b b'"
proof -
  have r: "book_rep b F" using inv by (simp add: me_inv_def)
  have "price_of b ` queued F \<subseteq> ord_price ` set (ab_orders A)"
  proof
    fix p assume "p \<in> price_of b ` queued F"
    then obtain c where c: "c \<in> queued F" "p = price_of b c" by blast
    obtain y q where y: "y \<in> set (ab_orders A)" "strip (obj (order_pool b) c) = y\<lparr>ord_qty := q\<rparr>" using ord [OF c(1)] by blast
    from arg_cong [OF y(2), of ord_price] show "p \<in> ord_price ` set (ab_orders A)" using y(1) c(2) by simp
  qed
  then have "card (price_of b ` queued F) \<le> card (ord_price ` set (ab_orders A))" by (intro card_mono) auto
  then have room: "level_room b" using ok fr book_rep_level_count [OF r]
    by (auto simp: level_room_def can_add_def me_frame_def)
  have oroom: "card (queued F) + 2 \<le> pool_size (order_pool b)" using ok fr len by (auto simp: can_add_def me_frame_def)
  have key: "\<not> (cid_of b c = unat cid \<and> coid_of b c = unat coid)" if c: "c \<in> queued F" for c
  proof -
    obtain y q where y: "y \<in> set (ab_orders A)" "strip (obj (order_pool b) c) = y\<lparr>ord_qty := q\<rparr>" using ord [OF c] by blast
    have "\<not> has_key cid coid y" using ok y(1) by (simp add: can_add_def)
    then show ?thesis using arg_cong [OF y(2), of ord_client_id] arg_cong [OF y(2), of ord_client_order_id]
      by (auto simp: has_key_def word_unat_eq_iff)
  qed
  obtain a P b' where b': "allocate x (order_pool b) = Inr (a, P)" "addOrder (Some a) (b\<lparr>order_pool := P\<rparr>) = Inr b'"
    "a \<notin> queued F" "me_inv N M b' (F(side := price_insert side (price_of b') a (F side)))"
    "me_frame b b' {a}" "strip (obj (order_pool b') a) = strip x"
    using me_insert [OF inv s x(1) adm [folded x(2)] room oroom, unfolded x(3,4), OF _ _ key] ok
    unfolding can_add_def by metis
  let ?F = "F(side := price_insert side (price_of b') a (F side))"
  have ss: "side \<noteq> opp side" using s by auto
  have old: "absq b' F t = absq b F t" if "t \<in> {BUY, SELL}" for t
    using b'(3) that by (intro absq_frame [OF b'(5)]) (auto simp: queued_def)
  have "absq b' ?F side = price_insert side ord_price (strip (obj (order_pool b') a)) (absq b' F side)"
    using map_price_insert [of "\<lambda>c. strip (obj (order_pool b') c)" side ord_price a "F side"]
    by (simp add: absq_def)
  then have "absq b' ?F side = price_insert side ord_price x (absq b F side)" using old [OF s] b'(6) x(5) by simp
  moreover have "absq b' ?F (opp side) = absq b F (opp side)" using old [OF opp_in [OF s]] ss by (simp add: absq_def)
  ultimately show ?thesis using b'(1,2,4) b'(5) me_frame_sizes [OF b'(5)] by (auto simp: me_frame_def)
qed

lemma add_refines_lemma:
  assumes rel: "me_rel N M b A" and ok: "can_add N M b A cid coid side price"
  shows "\<exists>b'. add cid coid tid side price qty b = Inr (b', snd (spec_add cid coid tid side price qty A)) \<and>
             me_rel N M b' (fst (spec_add cid coid tid side price qty A)) \<and> same_sizes b b'"
proof -
  obtain F where inv: "me_inv N M b F" and A: "\<And>s. s \<in> {BUY, SELL} \<Longrightarrow> ab_queue A s = absq b F s"
    and nid: "next_market_order_id b = ab_next A" using rel by (auto simp: me_rel_def)
  have s: "side \<in> {BUY, SELL}" using ok by (simp add: can_add_def)
  have os: "opp side \<in> {BUY, SELL}" and ss: "side \<noteq> opp side" "opp side \<noteq> side" using s by auto
  let ?b = "b\<lparr>next_market_order_id := ab_next A + 1\<rparr>"
  have inv': "me_inv N M ?b F" using inv by simp
  have r: "book_rep ?b F" using inv by (simp add: me_inv_def)
  have aq: "absq ?b F s = absq b F s" for s by (simp add: absq_def)
  obtain l ys ev where sm: "spec_match tid cid side coid (fill_id (ab_next A)) price qty (absq ?b F (opp side)) = (l, ys, ev)"
    using prod_cases3 by blast
  have len: "length (F (opp side)) \<le> pool_size (order_pool ?b)"
    using ok A s by (auto simp: can_add_def ab_orders_def absq_def)
  obtain b2 F2 where m: "match_loop (pool_size (order_pool ?b)) tid cid side coid (fill_id (ab_next A)) price qty ?b = Inr (l, b2, ev)"
    "me_inv N M b2 F2" "F2 side = F side" "set (F2 (opp side)) \<subseteq> set (F (opp side))"
    "absq b2 F2 (opp side) = ys" "me_frame ?b b2 (set (F (opp side)))"
    using match_loop_refines [OF inv' s len sm] by blast
  have chk: "checkForMatch cid coid tid side price qty (ucast (ab_next A)) ?b = Inr (l, b2, ev)"
    using m(1) s by (auto simp: checkForMatch_def fill_id_def)
  have "set (F side) \<inter> set (F (opp side)) = {}" using book_rep_distinct(2) [OF r s] .
  then have side: "absq b2 F2 side = ab_queue A side"
    using m(3,6) A [OF s] by (auto simp: absq_def me_frame_def)
  have sz: "same_sizes b b2" using me_frame_sizes [OF m(6)] by simp
  note spec = spec_add_def sm [unfolded aq, folded A [OF os]]
  show ?thesis
  proof (cases "l = 0")
    case True
    have "add cid coid tid side price qty b = Inr (b2, snd (spec_add cid coid tid side price qty A))"
      using chk True nid by (simp add: add_def generateNewMarketOrderId_def spec)
    moreover have "me_rel N M b2 (fst (spec_add cid coid tid side price qty A))"
      unfolding me_rel_def
      using True m(2,5,6) side s ss by (intro conjI exI [of _ F2]) (auto simp: spec me_frame_def)
    ultimately show ?thesis using sz by blast
  next
    case False
    have sorted: "sorted_wrt (\<lambda>x y. \<not> worse (opp side) (ord_price x) (ord_price y)) (absq ?b F (opp side))"
      using absq_sorted [OF inv' os] .
    have stop: "\<forall>y\<in>set (absq b2 F2 (opp side)). passes side price (ord_price y)"
      using spec_match_stops [OF sm s sorted] False m(5) by simp
    have r2: "book_rep b2 F2" using m(2) by (simp add: me_inv_def)
    have ord: "\<exists>x\<in>set (ab_orders A). \<exists>q. strip (obj (order_pool b2) c) = x\<lparr>ord_qty := q\<rparr>" if "c \<in> queued F2" for c
      using A aq by (intro matched_orders [OF s _ sm m(3,5,6) r that]) auto
    have ok': "can_add N M ?b A cid coid side price" using ok by simp
    have adm: "admits b2 F2 side price" by (rule admits_after_match [OF s r2 ord ok' m(6) stop])
    have prio: "getNextPriority price b2 = Inr (next_priority price (ab_queue A side))"
      using getNextPriority_ok [OF m(2) s adm] side by simp
    let ?x = "\<lparr>ord_side = side, ord_price = price, ord_qty = l,
      ord_priority = next_priority price (ab_queue A side), prev_order = None, next_order = None,
      ord_ticker_id = tid, ord_client_id = cid, ord_client_order_id = coid, ord_market_order_id = ab_next A\<rparr>"
    have "queued F2 \<subseteq> queued F" using m(3,4) s by (auto simp: queued_def)
    then have "card (queued F2) \<le> card (queued F)" by (intro card_mono) auto
    then have len2: "card (queued F2) \<le> length (ab_orders A)"
      using queued_le_length [of F] A by (simp add: ab_orders_def absq_def)
    obtain a P b3 F3 where q: "allocate ?x (order_pool b2) = Inr (a, P)"
      "addOrder (Some a) (b2\<lparr>order_pool := P\<rparr>) = Inr b3" "me_inv N M b3 F3"
      "absq b3 F3 side = price_insert side ord_price ?x (absq b2 F2 side)"
      "absq b3 F3 (opp side) = absq b2 F2 (opp side)" "next_market_order_id b3 = next_market_order_id b2"
      "same_sizes b2 b3" using queue_rest [OF m(2) s adm ord ok' m(6) len2, of ?x] by (auto simp: strip_def)
    have "add cid coid tid side price qty b = Inr (b3, snd (spec_add cid coid tid side price qty A))"
      using chk False nid prio q(1,2) by (simp add: add_def generateNewMarketOrderId_def spec Let_def)
    moreover have "me_rel N M b3 (fst (spec_add cid coid tid side price qty A))"
      unfolding me_rel_def
      using False q(3-6) m(5,6) side s ss by (intro conjI exI [of _ F3]) (auto simp: spec me_frame_def Let_def)
    ultimately show ?thesis using same_sizes_trans [OF sz q(7)] by blast
  qed
qed


lemma add_result:
  assumes "me_rel N M b A" and "can_add N M b A cid coid side price"
    and "add cid coid tid side price qty b = Inr (b', ev)"
  shows "ev = snd (spec_add cid coid tid side price qty A)"
    and "me_rel N M b' (fst (spec_add cid coid tid side price qty A))"
  using add_refines_lemma [OF assms(1,2), of tid qty] assms(3) by auto

section \<open>Cancellations\<close>

lemma absq_key:
  assumes inv: "me_inv N M b F" and c: "c \<in> queued F"
    and i: "tab_get b (unat cid) (unat oid) = p" "unat cid < N" "unat oid < M"
  shows "has_key cid oid (strip (obj (order_pool b) c)) \<longleftrightarrow> p = Some c"
proof -
  have "tab_ok N M b (queued F)" using inv by (simp add: me_inv_def)
  then have "p = Some c \<longleftrightarrow> cid_of b c = unat cid \<and> coid_of b c = unat oid" using c i by (auto simp: tab_ok_def)
  then show ?thesis by (auto simp: has_key_def word_unat_eq_iff)
qed

lemma ab_orders_absq:
  assumes "\<And>s. s \<in> {BUY, SELL} \<Longrightarrow> ab_queue A s = absq b F s"
  shows "set (ab_orders A) = (\<lambda>c. strip (obj (order_pool b) c)) ` queued F"
  using assms by (auto simp: ab_orders_def absq_def queued_def)

lemma cancel_lookup:
  assumes inv: "me_inv N M b F" and range: "unat cid < N \<longrightarrow> unat oid < M"
  obtains (none) "lookup_order cid oid b = Inr None"
        and "\<And>c. c \<in> queued F \<Longrightarrow> \<not> has_key cid oid (strip (obj (order_pool b) c))"
    | (found) a where "lookup_order cid oid b = Inr (Some a)"
        and "a \<in> queued F"
        and "\<And>c. c \<in> queued F \<Longrightarrow> has_key cid oid (strip (obj (order_pool b) c)) \<longleftrightarrow> c = a"
proof (cases "unat cid < N")
  case True
  have t: "tab_ok N M b (queued F)" using inv by (simp add: me_inv_def)
  have M: "unat oid < M" using True range by simp
  have look: "lookup_order cid oid b = Inr (tab_get b (unat cid) (unat oid))"
    using t True M by (simp add: lookup_order_def tab_ok_def tab_dim_def tab_get_def)
  note key = absq_key [OF inv _ refl True M]
  show ?thesis
  proof (cases "tab_get b (unat cid) (unat oid)")
    case None
    then show ?thesis using look key that(1) by auto
  next
    case (Some a)
    then have "a \<in> queued F" using t True M by (auto simp: tab_ok_def)
    then show ?thesis using look key Some that(2) [of a] by auto
  qed
next
  case False
  have t: "tab_ok N M b (queued F)" using inv by (simp add: me_inv_def)
  then have "\<not> has_key cid oid (strip (obj (order_pool b) c))" if "c \<in> queued F" for c
    using False that by (auto simp: tab_ok_def has_key_def)
  then show ?thesis using t False that(1) by (auto simp: lookup_order_def tab_ok_def tab_dim_def)
qed

lemma cancel_refines_lemma:
  assumes rel: "me_rel N M b A" and range: "unat cid < N \<longrightarrow> unat oid < M"
  shows "\<exists>b'. cancel cid oid tid b = Inr (b', snd (spec_cancel cid oid tid A)) \<and>
             me_rel N M b' (fst (spec_cancel cid oid tid A)) \<and> same_sizes b b'"
proof -
  obtain F where inv: "me_inv N M b F" and A: "\<And>s. s \<in> {BUY, SELL} \<Longrightarrow> ab_queue A s = absq b F s"
    and nid: "next_market_order_id b = ab_next A" using rel by (auto simp: me_rel_def)
  note os = ab_orders_absq [OF A]
  from inv range show ?thesis
  proof (cases rule: cancel_lookup)
    case none
    then have "find (has_key cid oid) (ab_orders A) = None" using os by (auto simp: find_None_iff)
    then show ?thesis using none(1) rel by (simp add: cancel_def spec_cancel_def same_sizes_def)
  next
    case (found a)
    obtain s where s: "s \<in> {BUY, SELL}" "a \<in> set (F s)" using found(2) by (auto simp: queued_def)
    have fi: "find (has_key cid oid) (ab_orders A) = Some (strip (obj (order_pool b) a))"
    proof (cases "find (has_key cid oid) (ab_orders A)")
      case None
      then show ?thesis using found(2,3) os by (auto simp: find_None_iff)
    next
      case (Some x)
      then have "x \<in> set (ab_orders A)" "has_key cid oid x" by (auto simp: find_Some_iff)
      then show ?thesis using Some found(3) os by auto
    qed
    obtain b' where b': "removeOrder (Some a) b = Inr b'" "me_inv N M b' (F(s := remove1 a (F s)))" "me_frame b b' {}"
      using me_remove [OF inv s] .
    have "absq b' (F(s := remove1 a (F s))) t = filter (\<lambda>y. \<not> has_key cid oid y) (ab_queue A t)"
      if t: "t \<in> {BUY, SELL}" for t
    proof -
      have d: "distinct (F s)" and dj: "set (F s) \<inter> set (F (opp s)) = {}"
        using book_rep_distinct [of b F s] inv s(1) by (auto simp: me_inv_def)
      have "filter (\<lambda>c. \<not> has_key cid oid (strip (obj (order_pool b) c))) (F t) = filter (\<lambda>c. c \<noteq> a) (F t)"
        using found(3) t by (intro filter_cong) (auto simp: queued_def)
      also have "\<dots> = (F(s := remove1 a (F s))) t"
      proof (cases "t = s")
        case True
        then show ?thesis using d by (simp add: distinct_remove1_removeAll removeAll_filter_not_eq conj_commute neq_commute)
      next
        case False
        then have "t = opp s" using t s(1) by auto
        then show ?thesis using False dj s(2) by (auto simp: filter_id_conv)
      qed
      finally show ?thesis using A [OF t] b'(3) by (simp add: absq_def filter_map comp_def me_frame_def)
    qed
    then have "me_rel N M b' (fst (spec_cancel cid oid tid A))"
      unfolding me_rel_def using b'(2,3) nid fi
      by (intro conjI exI [of _ "F(s := remove1 a (F s))"]) (auto simp: spec_cancel_def me_frame_def)
    then show ?thesis using found(1) b'(1) fi me_frame_sizes [OF b'(3)] by (simp add: cancel_def spec_cancel_def)
  qed
qed

end
