(* ===== verification/LF_Queue.thy ===== *)
theory LF_Queue
  imports LLT_Prelude
begin

text \<open>
  \<open>Common::LFQueue\<close> of \<open>common/lf_queue.h\<close>: the preallocated ring buffer that carries requests,
  responses and market updates between the threads.  The first part models the operations and shows
  that, while no more elements are written than the ring holds, they implement a FIFO queue (stated
  as the interface \<open>fifo_buffer\<close>); it also shows what a write to a full ring does, since the code
  never tests for it.  The second part splits the operations into the accesses to the shared
  atomics and shows that every interleaving of one producer and one consumer delivers what was sent,
  in order.
\<close>

section \<open>The ring buffer\<close>

record 'a LFQueue =
  q_store :: "'a list"
  next_write_index :: nat
  next_read_index :: nat
  num_elements :: nat

definition LFQueue_new :: "nat \<Rightarrow> 'a \<Rightarrow> 'a LFQueue" where
  "LFQueue_new num_elems d =
     \<lparr>q_store = replicate num_elems d, next_write_index = 0, next_read_index = 0,
      num_elements = 0\<rparr>"

definition getNextToWriteTo :: "'a LFQueue \<Rightarrow> nat" where
  "getNextToWriteTo q = next_write_index q"

text \<open>The assignment through the pointer that \<open>getNextToWriteTo()\<close> returned.\<close>

definition write_slot :: "nat \<Rightarrow> 'a \<Rightarrow> 'a LFQueue \<Rightarrow> 'a LFQueue" where
  "write_slot i v q = q\<lparr>q_store := (q_store q)[i := v]\<rparr>"

definition advance_write :: "'a LFQueue \<Rightarrow> 'a LFQueue" where
  "advance_write q =
     q\<lparr>next_write_index := (next_write_index q + 1) mod length (q_store q)\<rparr>"

definition updateWriteIndex :: "'a LFQueue \<Rightarrow> 'a LFQueue" where
  "updateWriteIndex q =
     (let q1 = advance_write q in q1\<lparr>num_elements := num_elements q1 + 1\<rparr>)"

definition lfq_size :: "'a LFQueue \<Rightarrow> nat" where
  "lfq_size q = num_elements q"

definition getNextToRead :: "'a LFQueue \<Rightarrow> ptr" where
  "getNextToRead q = (if lfq_size q \<noteq> 0 then Some (next_read_index q) else None)"

definition advance_read :: "'a LFQueue \<Rightarrow> 'a LFQueue" where
  "advance_read q =
     q\<lparr>next_read_index := (next_read_index q + 1) mod length (q_store q)\<rparr>"

definition updateReadIndex :: "'a LFQueue \<Rightarrow> 'a LFQueue res" where
  "updateReadIndex q =
     (let q1 = advance_read q in
      rbind (ASSERT (num_elements q1 \<noteq> 0) ''Read an invalid element from LFQueue.'')
        (\<lambda>_. Inr (q1\<lparr>num_elements := num_elements q1 - 1\<rparr>)))"

text \<open>
  The two idioms in which every component uses the queue: \<open>*getNextToWriteTo() = v;
  updateWriteIndex()\<close>, and \<open>getNextToRead()\<close> followed by a read through the pointer.
\<close>

definition lfq_push :: "'a \<Rightarrow> 'a LFQueue \<Rightarrow> 'a LFQueue" where
  "lfq_push v q = updateWriteIndex (write_slot (getNextToWriteTo q) v q)"

definition lfq_front :: "'a LFQueue \<Rightarrow> 'a option" where
  "lfq_front q = map_option (\<lambda>i. q_store q ! i) (getNextToRead q)"

lemmas lfq_defs = lfq_push_def lfq_front_def updateWriteIndex_def updateReadIndex_def
  advance_write_def advance_read_def write_slot_def getNextToWriteTo_def getNextToRead_def
  lfq_size_def Let_def

section \<open>The abstract queue\<close>

definition lfq_items :: "'a LFQueue \<Rightarrow> 'a list" where
  "lfq_items q =
     map (\<lambda>i. q_store q ! ((next_read_index q + i) mod length (q_store q))) [0..<num_elements q]"

definition lfq_cap :: "'a LFQueue \<Rightarrow> nat" where
  "lfq_cap q = length (q_store q)"

definition lfq_inv :: "'a LFQueue \<Rightarrow> bool" where
  "lfq_inv q \<longleftrightarrow>
     next_read_index q < length (q_store q) \<and>
     next_write_index q = (next_read_index q + num_elements q) mod length (q_store q) \<and>
     num_elements q \<le> length (q_store q)"

lemma mod_add_distinct:
  fixes r i j n :: nat
  assumes "i < j" and "j - i < n"
  shows "(r + i) mod n \<noteq> (r + j) mod n"
proof
  assume "(r + i) mod n = (r + j) mod n"
  then have "n dvd (r + j) - (r + i)"
    using assms(1) by (metis mod_eq_dvd_iff_nat add_le_mono1 add.commute less_imp_le)
  then have "n dvd j - i" by simp
  then show False using assms by (auto dest: dvd_imp_le)
qed

lemma lfq_inv_new: "0 < n \<Longrightarrow> lfq_inv (LFQueue_new n d)"
  by (simp add: lfq_inv_def LFQueue_new_def)

lemma lfq_items_new [simp]: "lfq_items (LFQueue_new n d) = []"
  by (simp add: lfq_items_def LFQueue_new_def)

lemma lfq_cap_new [simp]: "lfq_cap (LFQueue_new n d) = n"
  by (simp add: lfq_cap_def LFQueue_new_def)

lemma lfq_size_items: "lfq_size q = length (lfq_items q)"
  by (simp add: lfq_size_def lfq_items_def)

lemma lfq_cap_push [simp]: "lfq_cap (lfq_push v q) = lfq_cap q"
  by (simp add: lfq_cap_def lfq_defs)

lemma lfq_inv_push: "lfq_inv q \<Longrightarrow> lfq_size q < lfq_cap q \<Longrightarrow> lfq_inv (lfq_push v q)"
  by (auto simp: lfq_inv_def lfq_defs lfq_cap_def mod_Suc_eq)

lemma lfq_items_push:
  assumes "lfq_inv q" and "lfq_size q < lfq_cap q"
  shows "lfq_items (lfq_push v q) = lfq_items q @ [v]"
proof -
  let ?n = "length (q_store q)" and ?r = "next_read_index q" and ?k = "num_elements q"
  have k: "?k < ?n" and w: "next_write_index q = (?r + ?k) mod ?n" and n: "0 < ?n"
    using assms by (auto simp: lfq_inv_def lfq_defs lfq_cap_def)
  have "(q_store q)[(?r + ?k) mod ?n := v] ! ((?r + i) mod ?n) = q_store q ! ((?r + i) mod ?n)"
    if "i < ?k" for i
    using mod_add_distinct [of i ?k ?n ?r] that k by (simp add: less_imp_diff_less)
  then show ?thesis
    using k n by (simp add: lfq_items_def lfq_defs w)
qed

lemma lfq_front_items:
  assumes "lfq_inv q"
  shows "lfq_front q = (case lfq_items q of [] \<Rightarrow> None | x # xs \<Rightarrow> Some x)"
proof (cases "num_elements q")
  case 0
  then show ?thesis by (simp add: lfq_items_def lfq_defs)
next
  case (Suc k)
  then have "[0..<num_elements q] = 0 # [1..<num_elements q]"
    by (simp add: upt_conv_Cons)
  then show ?thesis
    using assms Suc by (simp add: lfq_items_def lfq_defs lfq_inv_def del: upt_Suc)
qed

lemma lfq_pop:
  assumes "lfq_inv q" and "lfq_items q \<noteq> []"
  obtains q' where "updateReadIndex q = Inr q'" and "lfq_inv q'" and "lfq_items q' = tl (lfq_items q)"
    and "lfq_cap q' = lfq_cap q"
proof -
  let ?n = "length (q_store q)" and ?r = "next_read_index q"
  obtain k where k: "num_elements q = Suc k"
    using assms(2) by (cases "num_elements q") (auto simp: lfq_items_def)
  let ?q = "q\<lparr>next_read_index := (?r + 1) mod ?n, num_elements := k\<rparr>"
  have n: "0 < ?n" using assms(1) by (auto simp: lfq_inv_def)
  have "updateReadIndex q = Inr ?q" using k by (simp add: lfq_defs)
  moreover have "lfq_inv ?q"
    using assms(1) k n by (auto simp: lfq_inv_def mod_add_left_eq)
  moreover have "lfq_items ?q = tl (lfq_items q)"
  proof -
    have "tl (lfq_items q) = map (\<lambda>i. q_store q ! ((?r + Suc i) mod ?n)) [0..<k]"
      unfolding lfq_items_def k
      by (simp add: map_tl [symmetric] upt_conv_Cons map_Suc_upt [symmetric] del: upt_Suc)
    then show ?thesis by (simp add: lfq_items_def mod_Suc_eq mod_simps)
  qed
  moreover have "lfq_cap ?q = lfq_cap q" by (simp add: lfq_cap_def)
  ultimately show ?thesis by (rule that)
qed

section \<open>The interface the components rely on\<close>

locale fifo_buffer =
  fixes push :: "'a \<Rightarrow> 'q \<Rightarrow> 'q" and front :: "'q \<Rightarrow> 'a option" and pop :: "'q \<Rightarrow> 'q res"
    and size :: "'q \<Rightarrow> nat" and cap :: "'q \<Rightarrow> nat" and items :: "'q \<Rightarrow> 'a list"
    and ok :: "'q \<Rightarrow> bool"
  assumes size_items: "ok q \<Longrightarrow> size q = length (items q)"
    and items_push: "ok q \<Longrightarrow> size q < cap q \<Longrightarrow> items (push v q) = items q @ [v]"
    and ok_push: "ok q \<Longrightarrow> size q < cap q \<Longrightarrow> ok (push v q)"
    and cap_push: "cap (push v q) = cap q"
    and front_items: "ok q \<Longrightarrow> front q = (case items q of [] \<Rightarrow> None | x # xs \<Rightarrow> Some x)"
    and pop_items: "ok q \<Longrightarrow> items q \<noteq> [] \<Longrightarrow>
      \<exists>q'. pop q = Inr q' \<and> ok q' \<and> items q' = tl (items q) \<and> cap q' = cap q"
begin

lemma push_all:
  assumes "ok q" and "length (items q) + length vs \<le> cap q"
  shows "ok (fold push vs q) \<and> items (fold push vs q) = items q @ vs \<and> cap (fold push vs q) = cap q"
  using assms
proof (induction vs arbitrary: q)
  case Nil
  then show ?case by simp
next
  case (Cons v vs)
  have room: "size q < cap q" using Cons.prems by (simp add: size_items)
  have "ok (push v q)" and "items (push v q) = items q @ [v]" and "cap (push v q) = cap q"
    using Cons.prems(1) room by (simp_all add: ok_push items_push cap_push)
  then show ?case using Cons.IH [of "push v q"] Cons.prems(2) by simp
qed

lemma front_Some_iff: "ok q \<Longrightarrow> front q = Some x \<longleftrightarrow> (\<exists>xs. items q = x # xs)"
  by (simp add: front_items split: list.splits)

lemma front_None_iff: "ok q \<Longrightarrow> front q = None \<longleftrightarrow> items q = []"
  by (simp add: front_items split: list.splits)

lemma front_pop:
  assumes "ok q" and "items q = x # xs"
  shows "front q = Some x \<and> (\<exists>q'. pop q = Inr q' \<and> ok q' \<and> items q' = xs \<and> cap q' = cap q)"
  using pop_items [OF assms(1)] assms by (auto simp: front_items)

end

interpretation lfq: fifo_buffer lfq_push lfq_front updateReadIndex lfq_size lfq_cap lfq_items lfq_inv
proof
  fix q :: "'a LFQueue" and v
  show "lfq_inv q \<Longrightarrow> lfq_items q \<noteq> [] \<Longrightarrow>
      \<exists>q'. updateReadIndex q = Inr q' \<and> lfq_inv q' \<and> lfq_items q' = tl (lfq_items q) \<and>
           lfq_cap q' = lfq_cap q"
    by (erule lfq_pop) auto
qed (simp_all add: lfq_size_items lfq_items_push lfq_inv_push lfq_front_items
       flip: lfq_size_items)

text \<open>
  a batch of messages that fits into the ring is read back unchanged and in order: pushing
  \<open>vs\<close> into a well-formed queue appends them to its contents, and the first element is then the
  oldest one.
\<close>

theorem lfq_fifo:
  assumes "lfq_inv q" and "lfq_size q + length vs \<le> lfq_cap q"
  shows "lfq_inv (fold lfq_push vs q) \<and> lfq_items (fold lfq_push vs q) = lfq_items q @ vs \<and>
         lfq_front (fold lfq_push vs q) = (case lfq_items q @ vs of [] \<Rightarrow> None | x # xs \<Rightarrow> Some x)"
proof -
  have "length (lfq_items q) + length vs \<le> lfq_cap q"
    using assms(2) by (simp add: lfq_size_items)
  from lfq.push_all [OF assms(1) this] show ?thesis by (auto simp: lfq_front_items)
qed

theorem lfq_fifo_witness:
  "lfq_items (fold lfq_push [7, 8, 9] (LFQueue_new 4 (0::nat))) = [7, 8, 9]"
proof -
  have "lfq_inv (LFQueue_new 4 (0::nat))" by (simp add: lfq_inv_new)
  moreover have "lfq_size (LFQueue_new 4 (0::nat)) + length [7::nat, 8, 9] \<le> lfq_cap (LFQueue_new 4 (0::nat))"
    by (simp add: lfq_size_items)
  ultimately show ?thesis using lfq_fifo [of "LFQueue_new 4 (0::nat)" "[7, 8, 9]"] by simp
qed

text \<open>
  the queue does not detect that it is full.  A write into a ring that holds as many unread
  elements as it has slots succeeds, overwrites the oldest unread element, and the next read returns
  the newest value in its place; the element count then exceeds the number of slots.
\<close>

theorem lfq_push_full:
  assumes "lfq_inv q" and "lfq_size q = lfq_cap q"
  shows "lfq_front (lfq_push v q) = Some v \<and> lfq_size (lfq_push v q) = lfq_cap q + 1 \<and>
         \<not> lfq_inv (lfq_push v q)"
  using assms by (auto simp: lfq_inv_def lfq_defs lfq_cap_def)

theorem lfq_push_full_witness:
  "lfq_front (lfq_push 3 (fold lfq_push [1, 2] (LFQueue_new 2 (0::nat)))) = Some 3"
proof -
  let ?q = "fold lfq_push [1, 2] (LFQueue_new 2 (0::nat))"
  have inv: "lfq_inv ?q" and "lfq_size ?q = lfq_cap ?q"
    by (simp_all add: lfq_inv_def lfq_defs lfq_cap_def LFQueue_new_def numeral_2_eq_2)
  then show ?thesis using lfq_push_full [of ?q 3] by simp
qed

section \<open>One producer and one consumer thread\<close>

text \<open>
  The state of the two threads between their accesses to the shared fields.  A push is three
  accesses: the slot is written, \<open>next_write_index_\<close> is stored, \<open>num_elements_\<close> is incremented.  A
  pop is four: \<open>num_elements_\<close> is loaded and the slot's address taken, the slot is read,
  \<open>next_read_index_\<close> is stored, \<open>num_elements_\<close> is decremented.  \<open>sent\<close> and \<open>received\<close> record the
  values whose push completed and the values read so far.
\<close>

datatype 'a producer_pc = PIdle | PWritten 'a | PIndexed 'a

datatype consumer_pc = CIdle | CFound nat | CRead | CAdvanced

record 'a spsc =
  que :: "'a LFQueue"
  producer :: "'a producer_pc"
  consumer :: consumer_pc
  sent :: "'a list"
  received :: "'a list"

text \<open>
  The rule \<open>written\<close> is the only one with a condition that the code does not test: it restricts the
  interleavings to those in which the ring is not full when a push starts.
\<close>

inductive spsc_step :: "'a spsc \<Rightarrow> 'a spsc \<Rightarrow> bool" where
  written: "producer s = PIdle \<Longrightarrow> lfq_size (que s) < lfq_cap (que s) \<Longrightarrow>
    spsc_step s (s\<lparr>que := write_slot (getNextToWriteTo (que s)) v (que s), producer := PWritten v\<rparr>)"
| indexed: "producer s = PWritten v \<Longrightarrow>
    spsc_step s (s\<lparr>que := advance_write (que s), producer := PIndexed v\<rparr>)"
| commit: "producer s = PIndexed v \<Longrightarrow>
    spsc_step s (s\<lparr>que := (que s)\<lparr>num_elements := num_elements (que s) + 1\<rparr>,
                   producer := PIdle, sent := sent s @ [v]\<rparr>)"
| found: "consumer s = CIdle \<Longrightarrow> getNextToRead (que s) = Some i \<Longrightarrow>
    spsc_step s (s\<lparr>consumer := CFound i\<rparr>)"
| fetch: "consumer s = CFound i \<Longrightarrow>
    spsc_step s (s\<lparr>consumer := CRead, received := received s @ [q_store (que s) ! i]\<rparr>)"
| advance: "consumer s = CRead \<Longrightarrow>
    spsc_step s (s\<lparr>que := advance_read (que s), consumer := CAdvanced\<rparr>)"
| retire: "consumer s = CAdvanced \<Longrightarrow> num_elements (que s) \<noteq> 0 \<Longrightarrow>
    spsc_step s (s\<lparr>que := (que s)\<lparr>num_elements := num_elements (que s) - 1\<rparr>, consumer := CIdle\<rparr>)"

definition spsc_init :: "nat \<Rightarrow> 'a \<Rightarrow> 'a spsc" where
  "spsc_init n d = \<lparr>que = LFQueue_new n d, producer = PIdle, consumer = CIdle, sent = [], received = []\<rparr>"

inductive spsc_reachable :: "nat \<Rightarrow> 'a \<Rightarrow> 'a spsc \<Rightarrow> bool" for n d where
  start: "spsc_reachable n d (spsc_init n d)"
| step: "spsc_reachable n d s \<Longrightarrow> spsc_step s t \<Longrightarrow> spsc_reachable n d t"

text \<open>
  \<open>c\<close> pops and \<open>length (sent s)\<close> pushes have completed.  The indices follow these counts, with the
  thread that is between its two updates one ahead, and the slots between the counts hold the values
  sent.
\<close>

definition write_pos :: "'a producer_pc \<Rightarrow> nat \<Rightarrow> nat" where
  "write_pos p k = (case p of PIndexed v \<Rightarrow> Suc k | _ \<Rightarrow> k)"

definition read_pos :: "consumer_pc \<Rightarrow> nat \<Rightarrow> nat" where
  "read_pos p k = (case p of CAdvanced \<Rightarrow> Suc k | _ \<Rightarrow> k)"

definition pending_slot :: "'a producer_pc \<Rightarrow> 'a option" where
  "pending_slot p = (case p of PIdle \<Rightarrow> None | PWritten v \<Rightarrow> Some v | PIndexed v \<Rightarrow> Some v)"

definition spsc_inv_at :: "nat \<Rightarrow> nat \<Rightarrow> 'a spsc \<Rightarrow> bool" where
  "spsc_inv_at n c s \<longleftrightarrow>
     (let q = que s; m = length (sent s) in
      0 < n \<and> length (q_store q) = n \<and> c \<le> m \<and> num_elements q = m - c \<and> m - c \<le> n \<and>
      next_write_index q = write_pos (producer s) m mod n \<and>
      next_read_index q = read_pos (consumer s) c mod n \<and>
      (\<forall>j. c \<le> j \<and> j < m \<longrightarrow> q_store q ! (j mod n) = sent s ! j) \<and>
      (\<forall>v. pending_slot (producer s) = Some v \<longrightarrow> m - c < n \<and> q_store q ! (m mod n) = v) \<and>
      (\<forall>i. consumer s = CFound i \<longrightarrow> i = c mod n) \<and>
      (consumer s \<noteq> CIdle \<longrightarrow> c < m) \<and>
      received s = take (if consumer s \<in> {CRead, CAdvanced} then Suc c else c) (sent s))"

definition spsc_inv :: "nat \<Rightarrow> 'a spsc \<Rightarrow> bool" where
  "spsc_inv n s \<longleftrightarrow> (\<exists>c. spsc_inv_at n c s)"

lemmas spsc_defs = spsc_inv_at_def write_pos_def read_pos_def pending_slot_def Let_def

lemma slot_distinct:
  fixes c j m n :: nat
  assumes "c \<le> j" and "j < m" and "m - c < n"
  shows "j mod n \<noteq> m mod n"
  using mod_add_distinct [of j m n 0] assms by simp

lemma spsc_inv_write:
  assumes "spsc_inv_at n c s" and "producer s = PIdle" and "lfq_size (que s) < lfq_cap (que s)"
  shows "spsc_inv_at n c (s\<lparr>que := write_slot (getNextToWriteTo (que s)) v (que s), producer := PWritten v\<rparr>)"
  using assms slot_distinct [of c _ "length (sent s)" n]
  by (auto simp: spsc_defs lfq_defs lfq_cap_def nth_list_update) blast+

lemma spsc_inv_index:
  assumes "spsc_inv_at n c s" and "producer s = PWritten v"
  shows "spsc_inv_at n c (s\<lparr>que := advance_write (que s), producer := PIndexed v\<rparr>)"
  using assms by (auto simp: spsc_defs lfq_defs mod_Suc_eq)

lemma spsc_inv_commit:
  assumes "spsc_inv_at n c s" and "producer s = PIndexed v"
  shows "spsc_inv_at n c (s\<lparr>que := (que s)\<lparr>num_elements := num_elements (que s) + 1\<rparr>,
           producer := PIdle, sent := sent s @ [v]\<rparr>)"
  using assms by (auto simp: spsc_defs lfq_defs nth_append less_Suc_eq)

lemma spsc_inv_find:
  assumes "spsc_inv_at n c s" and "consumer s = CIdle" and "getNextToRead (que s) = Some i"
  shows "spsc_inv_at n c (s\<lparr>consumer := CFound i\<rparr>)"
  using assms by (auto simp: spsc_defs lfq_defs split: if_splits)

lemma spsc_inv_read:
  assumes "spsc_inv_at n c s" and "consumer s = CFound i"
  shows "spsc_inv_at n c (s\<lparr>consumer := CRead, received := received s @ [q_store (que s) ! i]\<rparr>)"
  using assms by (auto simp: spsc_defs take_Suc_conv_app_nth)

lemma spsc_inv_advance:
  assumes "spsc_inv_at n c s" and "consumer s = CRead"
  shows "spsc_inv_at n c (s\<lparr>que := advance_read (que s), consumer := CAdvanced\<rparr>)"
  using assms by (auto simp: spsc_defs lfq_defs mod_Suc_eq)

lemma spsc_inv_retire:
  assumes "spsc_inv_at n c s" and "consumer s = CAdvanced"
  shows "spsc_inv_at n (Suc c) (s\<lparr>que := (que s)\<lparr>num_elements := num_elements (que s) - 1\<rparr>, consumer := CIdle\<rparr>)"
  using assms by (auto simp: spsc_defs)

lemma spsc_step_inv: "spsc_step s t \<Longrightarrow> spsc_inv n s \<Longrightarrow> spsc_inv n t"
  unfolding spsc_inv_def
  by (induction rule: spsc_step.induct)
    (blast intro: spsc_inv_write spsc_inv_index spsc_inv_commit spsc_inv_find spsc_inv_read
       spsc_inv_advance spsc_inv_retire)+

lemma spsc_inv_init: "0 < n \<Longrightarrow> spsc_inv n (spsc_init n d)"
  unfolding spsc_inv_def
  by (rule exI [of _ 0]) (simp add: spsc_defs spsc_init_def LFQueue_new_def)

lemma spsc_reachable_inv: "spsc_reachable n d s \<Longrightarrow> 0 < n \<Longrightarrow> spsc_inv n s"
  by (induction rule: spsc_reachable.induct) (auto intro: spsc_inv_init spsc_step_inv)


lemma spsc_example:
  "\<exists>s :: nat spsc. spsc_reachable 1 0 s \<and> received s = [5] \<and> consumer s = CAdvanced \<and> producer s = PIdle"
proof -
  let ?s0 = "spsc_init 1 (0::nat)"
  let ?s1 = "?s0\<lparr>que := write_slot (getNextToWriteTo (que ?s0)) 5 (que ?s0), producer := PWritten 5\<rparr>"
  let ?s2 = "?s1\<lparr>que := advance_write (que ?s1), producer := PIndexed 5\<rparr>"
  let ?s3 = "?s2\<lparr>que := (que ?s2)\<lparr>num_elements := num_elements (que ?s2) + 1\<rparr>,
                 producer := PIdle, sent := sent ?s2 @ [5]\<rparr>"
  let ?s4 = "?s3\<lparr>consumer := CFound 0\<rparr>"
  let ?s5 = "?s4\<lparr>consumer := CRead, received := received ?s4 @ [q_store (que ?s4) ! 0]\<rparr>"
  let ?s6 = "?s5\<lparr>que := advance_read (que ?s5), consumer := CAdvanced\<rparr>"
  note d = spsc_init_def LFQueue_new_def lfq_defs lfq_cap_def
  have "spsc_reachable 1 0 ?s1"
    by (rule spsc_reachable.step [OF spsc_reachable.start], rule spsc_step.written) (simp_all add: d)
  then have "spsc_reachable 1 0 ?s2"
    by (rule spsc_reachable.step, intro spsc_step.indexed) simp
  then have "spsc_reachable 1 0 ?s3"
    by (rule spsc_reachable.step, intro spsc_step.commit) simp
  then have "spsc_reachable 1 0 ?s4"
    by (rule spsc_reachable.step, intro spsc_step.found) (simp_all add: d)
  then have "spsc_reachable 1 0 ?s5"
    by (rule spsc_reachable.step, intro spsc_step.fetch) simp
  then have "spsc_reachable 1 0 ?s6"
    by (rule spsc_reachable.step, intro spsc_step.advance) simp
  then show ?thesis by (intro exI [of _ ?s6]) (simp add: d)
qed


end
