(* ===== verification/Matching_Engine.thy ===== *)
theory Matching_Engine
  imports ME_Book_Refine LF_Queue
begin

text \<open>
  \<open>Exchange::MatchingEngine\<close> (\<open>exchange/matcher/matching_engine.h\<close>, \<open>matching_engine.cpp\<close>): one order book
  per ticker, the queue of incoming requests and the queues of outgoing responses and market updates.
  One pass of the loop of \<open>run()\<close> reads a request, lets the book process it, writes the messages of
  the book to the two queues in the order they were sent, and releases the request.
\<close>

section \<open>State and operations\<close>

record MatchingEngine =
  ticker_order_book :: "MEOrderBook arr"
  incoming_requests :: "MEClientRequest LFQueue"
  outgoing_ogw_responses :: "MEClientResponse LFQueue"
  outgoing_md_updates :: "MEMarketUpdate LFQueue"

definition MatchingEngine_new ::
  "Limits \<Rightarrow> bool \<Rightarrow> (nat \<Rightarrow> nat \<Rightarrow> nat \<Rightarrow> ptr) \<Rightarrow> MEClientRequest LFQueue \<Rightarrow> MEClientResponse LFQueue \<Rightarrow>
   MEMarketUpdate LFQueue \<Rightarrow> MatchingEngine" where
  "MatchingEngine_new limits benchmark_mode mem client_requests client_responses market_updates =
     \<lparr>ticker_order_book = \<lparr>arr_size = ME_MAX_TICKERS limits,
        arr_get = (\<lambda>i. MEOrderBook_new limits benchmark_mode (mem i) (of_nat i))\<rparr>,
      incoming_requests = client_requests, outgoing_ogw_responses = client_responses,
      outgoing_md_updates = market_updates\<rparr>"

definition sendClientResponse :: "MEClientResponse \<Rightarrow> MatchingEngine \<Rightarrow> MatchingEngine" where
  "sendClientResponse client_response e =
     e\<lparr>outgoing_ogw_responses := lfq_push client_response (outgoing_ogw_responses e)\<rparr>"

definition sendMarketUpdate :: "MEMarketUpdate \<Rightarrow> MatchingEngine \<Rightarrow> MatchingEngine" where
  "sendMarketUpdate market_update e =
     e\<lparr>outgoing_md_updates := lfq_push market_update (outgoing_md_updates e)\<rparr>"

fun send_event :: "me_event \<Rightarrow> MatchingEngine \<Rightarrow> MatchingEngine" where
  "send_event (Response r) e = sendClientResponse r e"
| "send_event (Update u) e = sendMarketUpdate u e"

text \<open>The call of a member of the book of a ticker, with its callbacks into the engine.\<close>

definition with_book ::
  "nat \<Rightarrow> (MEOrderBook \<Rightarrow> (MEOrderBook \<times> me_event list) res) \<Rightarrow> MatchingEngine \<Rightarrow> MatchingEngine res" where
  "with_book t f e =
     rbind (arr_index (ticker_order_book e) t) (\<lambda>order_book.
     rbind (f order_book) (\<lambda>(order_book, ev).
     rbind (arr_store t order_book (ticker_order_book e)) (\<lambda>books.
     Inr (fold send_event ev (e\<lparr>ticker_order_book := books\<rparr>)))))"

definition processClientRequest :: "MEClientRequest \<Rightarrow> MatchingEngine \<Rightarrow> MatchingEngine res" where
  "processClientRequest r e =
     (case req_type r of
        Request_NEW \<Rightarrow>
          with_book (unat (req_ticker_id r))
            (add (req_client_id r) (req_order_id r) (req_ticker_id r) (req_side r) (req_price r) (req_qty r)) e
      | Request_CANCEL \<Rightarrow>
          with_book (unat (req_ticker_id r)) (cancel (req_client_id r) (req_order_id r) (req_ticker_id r)) e
      | Request_INVALID \<Rightarrow>
          rbind (arr_index (ticker_order_book e) (unat (req_ticker_id r))) (\<lambda>_.
          FATAL ''Received invalid client-request-type''))"

text \<open>One iteration of the loop of \<open>run()\<close>.\<close>

definition me_run_once :: "MatchingEngine \<Rightarrow> MatchingEngine res" where
  "me_run_once e =
     (case lfq_front (incoming_requests e) of
        None \<Rightarrow> Inr e
      | Some me_client_request \<Rightarrow>
          rbind (processClientRequest me_client_request e) (\<lambda>e.
          rbind (updateReadIndex (incoming_requests e)) (\<lambda>q.
          Inr (e\<lparr>incoming_requests := q\<rparr>))))"

section \<open>Messages\<close>

definition responses_of :: "me_event list \<Rightarrow> MEClientResponse list" where
  "responses_of ev = concat (map (\<lambda>e. case e of Response r \<Rightarrow> [r] | Update _ \<Rightarrow> []) ev)"

definition updates_of :: "me_event list \<Rightarrow> MEMarketUpdate list" where
  "updates_of ev = concat (map (\<lambda>e. case e of Update u \<Rightarrow> [u] | Response _ \<Rightarrow> []) ev)"

lemma of_simps [simp]:
  "responses_of [] = []" "responses_of (Response r # ev) = r # responses_of ev"
  "responses_of (Update u # ev) = responses_of ev"
  "updates_of [] = []" "updates_of (Update u # ev) = u # updates_of ev"
  "updates_of (Response r # ev) = updates_of ev"
  by (simp_all add: responses_of_def updates_of_def)

lemma send_events:
  "fold send_event ev e =
     e\<lparr>outgoing_ogw_responses := fold lfq_push (responses_of ev) (outgoing_ogw_responses e),
       outgoing_md_updates := fold lfq_push (updates_of ev) (outgoing_md_updates e)\<rparr>"
proof (induction ev arbitrary: e)
  case (Cons x ev)
  then show ?case by (cases x) (simp_all add: sendClientResponse_def sendMarketUpdate_def)
qed simp

section \<open>Refinement\<close>

text \<open>
  The engine keeps one abstract book per ticker.  A request is admissible when its ticker exists and
  its book can take it.
\<close>

type_synonym abs_engine = "nat \<Rightarrow> abs_book"

definition engine_rel :: "nat \<Rightarrow> nat \<Rightarrow> MatchingEngine \<Rightarrow> abs_engine \<Rightarrow> bool" where
  "engine_rel N M e E \<longleftrightarrow>
     (\<forall>t<arr_size (ticker_order_book e). me_rel N M (arr_get (ticker_order_book e) t) (E t))"

definition spec_request :: "MEClientRequest \<Rightarrow> abs_book \<Rightarrow> abs_book \<times> me_event list" where
  "spec_request r A =
     (if req_type r = Request_NEW
      then spec_add (req_client_id r) (req_order_id r) (req_ticker_id r) (req_side r) (req_price r) (req_qty r) A
      else spec_cancel (req_client_id r) (req_order_id r) (req_ticker_id r) A)"

definition admissible :: "nat \<Rightarrow> nat \<Rightarrow> MEClientRequest \<Rightarrow> MatchingEngine \<Rightarrow> abs_engine \<Rightarrow> bool" where
  "admissible N M r e E \<longleftrightarrow>
     (let t = unat (req_ticker_id r) in
      t < arr_size (ticker_order_book e) \<and> req_type r \<noteq> Request_INVALID \<and>
      (req_type r = Request_NEW \<longrightarrow>
         can_add N M (arr_get (ticker_order_book e) t) (E t) (req_client_id r) (req_order_id r) (req_side r) (req_price r)) \<and>
      (req_type r = Request_CANCEL \<longrightarrow> unat (req_client_id r) < N \<longrightarrow> unat (req_order_id r) < M))"

lemma spec_request_run:
  assumes "me_rel N M b A" and "req_type r \<noteq> Request_INVALID"
    and "req_type r = Request_NEW \<Longrightarrow> can_add N M b A (req_client_id r) (req_order_id r) (req_side r) (req_price r)"
    and "req_type r = Request_CANCEL \<Longrightarrow> unat (req_client_id r) < N \<longrightarrow> unat (req_order_id r) < M"
  shows "\<exists>b'. (if req_type r = Request_NEW
      then add (req_client_id r) (req_order_id r) (req_ticker_id r) (req_side r) (req_price r) (req_qty r) b
      else cancel (req_client_id r) (req_order_id r) (req_ticker_id r) b) =
        Inr (b', snd (spec_request r A)) \<and> me_rel N M b' (fst (spec_request r A)) \<and> same_sizes b b'"
  using assms add_refines_lemma [OF assms(1)] cancel_refines_lemma [OF assms(1)]
  by (cases "req_type r") (auto simp: spec_request_def)

lemma processClientRequest_refines:
  assumes rel: "engine_rel N M e E" and ok: "admissible N M r e E"
  defines "t \<equiv> unat (req_ticker_id r)"
  defines "A' \<equiv> fst (spec_request r (E t))" and "ev \<equiv> snd (spec_request r (E t))"
  shows "\<exists>e'. processClientRequest r e = Inr e' \<and> engine_rel N M e' (E(t := A')) \<and>
     arr_size (ticker_order_book e') = arr_size (ticker_order_book e) \<and>
     (\<forall>i. same_sizes (arr_get (ticker_order_book e) i) (arr_get (ticker_order_book e') i)) \<and>
     outgoing_ogw_responses e' = fold lfq_push (responses_of ev) (outgoing_ogw_responses e) \<and>
     outgoing_md_updates e' = fold lfq_push (updates_of ev) (outgoing_md_updates e) \<and>
     incoming_requests e' = incoming_requests e"
proof -
  let ?b = "arr_get (ticker_order_book e) t"
  have t: "t < arr_size (ticker_order_book e)" and ty: "req_type r \<noteq> Request_INVALID"
    using ok by (auto simp: admissible_def t_def Let_def)
  have "me_rel N M ?b (E t)" using rel t by (simp add: engine_rel_def)
  from spec_request_run [OF this ty] ok obtain b' where b': "(if req_type r = Request_NEW
      then add (req_client_id r) (req_order_id r) (req_ticker_id r) (req_side r) (req_price r) (req_qty r) ?b
      else cancel (req_client_id r) (req_order_id r) (req_ticker_id r) ?b) = Inr (b', ev)"
    "me_rel N M b' A'" "same_sizes ?b b'" by (auto simp: admissible_def Let_def A'_def ev_def t_def)
  have "processClientRequest r e = Inr (fold send_event ev (e\<lparr>ticker_order_book :=
      (ticker_order_book e)\<lparr>arr_get := (arr_get (ticker_order_book e))(t := b')\<rparr>\<rparr>))"
    using t ty b'(1) by (cases "req_type r") (auto simp: processClientRequest_def with_book_def t_def [symmetric])
  then show ?thesis using rel b'(2,3) same_sizes_refl by (auto simp: send_events engine_rel_def)
qed

end
