(* ===== verification/ME_Book_Props.thy ===== *)
theory ME_Book_Props
  imports Matching_Engine
begin

text \<open>
  The properties of the order book and of the matching engine, as statements about their code, with
  concrete instances on a small book.
\<close>

section \<open>A small book\<close>

definition small_limits :: Limits where
  "small_limits = \<lparr>ME_MAX_TICKERS = 1, ME_MAX_CLIENT_UPDATES = 16, ME_MAX_MARKET_UPDATES = 16,
     ME_MAX_NUM_CLIENTS = 4, ME_MAX_ORDER_IDS = 8, ME_MAX_PRICE_LEVELS = 4\<rparr>"

definition small_book :: MEOrderBook where
  "small_book = MEOrderBook_new small_limits True (\<lambda>_ _. None) 0"

definition empty_book :: abs_book where
  "empty_book = \<lparr>ab_queue = (\<lambda>_. []), ab_next = 1\<rparr>"

lemma me_rel_new:
  assumes "0 < ME_MAX_PRICE_LEVELS limits" and "0 < ME_MAX_ORDER_IDS limits"
    and "bm \<or> (\<forall>i<ME_MAX_NUM_CLIENTS limits. \<forall>j<ME_MAX_ORDER_IDS limits. mem i j = None)"
  shows "me_rel (ME_MAX_NUM_CLIENTS limits) (ME_MAX_ORDER_IDS limits) (MEOrderBook_new limits bm mem tid) empty_book"
  unfolding me_rel_def using me_inv_new [OF assms]
  by (intro conjI exI [of _ "\<lambda>_. []"]) (auto simp: empty_book_def absq_def MEOrderBook_new_def)

lemma small_rel: "me_rel 4 8 small_book empty_book"
  using me_rel_new [of small_limits True "\<lambda>_ _. None" 0] by (simp add: small_book_def small_limits_def)

lemma small_can_add:
  "side \<in> {BUY, SELL} \<Longrightarrow> unat cid < 4 \<Longrightarrow> unat coid < 8 \<Longrightarrow> can_add 4 8 small_book empty_book cid coid side price"
  by (simp add: can_add_def ab_orders_def empty_book_def small_book_def small_limits_def MEOrderBook_new_def)

text \<open>The small book after client 1 offered 5 at price 10 as its order 2.\<close>

definition offer_book :: abs_book where
  "offer_book = fst (spec_add 1 2 0 SELL 10 5 empty_book)"

lemma offer_book_queues:
  "ab_queue offer_book SELL =
     [\<lparr>ord_side = SELL, ord_price = 10, ord_qty = 5, ord_priority = 1, prev_order = None, next_order = None,
       ord_ticker_id = 0, ord_client_id = 1, ord_client_order_id = 2, ord_market_order_id = 1\<rparr>]"
  "ab_queue offer_book BUY = []" "ab_next offer_book = 2"
  by (simp_all add: offer_book_def spec_add_def empty_book_def next_priority_def price_insert_def)

lemma offer_rel:
  obtains b where "me_rel 4 8 b offer_book" and "can_add 4 8 b offer_book 3 4 BUY 12"
proof -
  obtain b where b: "add 1 2 0 SELL 10 5 small_book = Inr (b, snd (spec_add 1 2 0 SELL 10 5 empty_book))"
    "me_rel 4 8 b offer_book" "same_sizes small_book b"
    using add_refines_lemma [OF small_rel small_can_add, of SELL 1 2 0 10 5] by (auto simp: offer_book_def)
  have "can_add 4 8 small_book offer_book 3 4 BUY 12"
    by (simp add: can_add_def ab_orders_def offer_book_queues small_book_def small_limits_def
        MEOrderBook_new_def has_key_def priceToIndex_def)
  then show ?thesis using b(2) can_add_sizes [OF b(3)] by (intro that [of b]) auto
qed


section \<open>Refinement\<close>

text \<open>
  C1: \<open>MEOrderBook::add()\<close> implements the specification.  On a well-formed book that represents the
  lists \<open>A\<close>, a new order with a free identifier, no colliding price and room in the pools is
  processed without an assertion failure or null dereference; the book then represents the
  specification's result, and the messages sent are the specification's, in the same order.
\<close>

theorem add_refines:
  assumes "me_rel N M b A" and "can_add N M b A cid coid side price"
  shows "\<exists>b'. add cid coid tid side price qty b = Inr (b', snd (spec_add cid coid tid side price qty A)) \<and>
             me_rel N M b' (fst (spec_add cid coid tid side price qty A)) \<and> same_sizes b b'"
  using assms by (rule add_refines_lemma)

theorem add_refines_witness:
  "\<exists>b b' ev. me_rel 4 8 b offer_book \<and> add 3 4 0 BUY 12 7 b = Inr (b', ev) \<and> length ev = 6 \<and>
     me_rel 4 8 b' (fst (spec_add 3 4 0 BUY 12 7 offer_book))"
proof -
  obtain b where b: "me_rel 4 8 b offer_book" "can_add 4 8 b offer_book 3 4 BUY 12" using offer_rel .
  have "length (snd (spec_add 3 4 0 BUY 12 7 offer_book)) = 6"
    by (simp add: spec_add_def offer_book_queues passes_def match_events_def Let_def)
  then show ?thesis using add_refines [OF b, of 0 7] b(1) by blast
qed

text \<open>
  C23: \<open>MEOrderBook::cancel()\<close> implements the specification: a live order of the client is taken out of
  its queue and confirmed, anything else is rejected and changes nothing.
\<close>

theorem cancel_refines:
  assumes "me_rel N M b A" and "unat cid < N \<longrightarrow> unat oid < M"
  shows "\<exists>b'. cancel cid oid tid b = Inr (b', snd (spec_cancel cid oid tid A)) \<and>
             me_rel N M b' (fst (spec_cancel cid oid tid A)) \<and> same_sizes b b'"
  using assms by (rule cancel_refines_lemma)

theorem cancel_refines_witness:
  "\<exists>b b' A. cancel 1 2 0 b = Inr (b', snd (spec_cancel 1 2 0 offer_book)) \<and>
     me_rel 4 8 b' A \<and> ab_queue A SELL = []"
proof -
  obtain b where b: "me_rel 4 8 b offer_book" "can_add 4 8 b offer_book 3 4 BUY 12" using offer_rel .
  have "ab_queue (fst (spec_cancel 1 2 0 offer_book)) SELL = []"
    by (simp add: spec_cancel_def ab_orders_def offer_book_queues has_key_def)
  then show ?thesis using cancel_refines [OF b(1), of 1 2 0] by auto
qed

text \<open>
  a cancel request whose order identifier is not below the number of identifiers a client may use
  ends the process: the bounds-checked access throws in a \<open>noexcept\<close> function.
\<close>

theorem cancel_out_of_range:
  assumes "me_rel N M b A" and "unat cid < N" and "M \<le> unat oid"
  shows "cancel cid oid tid b = Inl OutOfRange"
proof -
  have "tab_dim N M b" using assms(1) by (auto simp: me_rel_def me_inv_def tab_ok_def)
  then show ?thesis using assms(2,3) by (auto simp: cancel_def lookup_order_def tab_dim_def arr_at_def)
qed

theorem cancel_out_of_range_witness: "cancel 1 8 0 small_book = Inl OutOfRange"
  using cancel_out_of_range [OF small_rel, of 1 8 0] by simp

section \<open>Matching rules\<close>

text \<open>
  C20: price-time priority.  The resting orders an incoming order trades with are the first ones of
  the other side in price-time order, without a gap, and no trade is at a price worse than the
  incoming order's limit.
\<close>

theorem add_price_time_priority:
  assumes "me_rel N M b A" and "can_add N M b A cid coid side price"
    and "add cid coid tid side price qty b = Inr (b', ev)"
  shows "touched ev = map ord_market_order_id (take (length (touched ev)) (ab_queue A (opp side))) \<and>
         (\<forall>u. Update u \<in> set ev \<longrightarrow> upd_type u = TRADE \<longrightarrow> \<not> passes side price (upd_price u))"
proof -
  obtain l ys ev' where sm: "spec_match tid cid side coid (fill_id (ab_next A)) price qty (ab_queue A (opp side)) = (l, ys, ev')"
    using prod_cases3 by blast
  have "ev = snd (spec_add cid coid tid side price qty A)" using add_result(1) [OF assms] .
  then have "touched ev = touched ev'" and "\<And>u. Update u \<in> set ev \<Longrightarrow> upd_type u = TRADE \<Longrightarrow> Update u \<in> set ev'"
    using sm by (auto simp: spec_add_def Let_def touched_def split: if_splits)
  then show ?thesis using spec_match_prefix [OF sm] by metis
qed

theorem add_price_time_priority_witness:
  "\<exists>b b' ev. add 3 4 0 BUY 12 7 b = Inr (b', ev) \<and> touched ev = [1]"
proof -
  obtain b where b: "me_rel 4 8 b offer_book" "can_add 4 8 b offer_book 3 4 BUY 12" using offer_rel .
  obtain b' where b': "add 3 4 0 BUY 12 7 b = Inr (b', snd (spec_add 3 4 0 BUY 12 7 offer_book))"
    using add_refines_lemma [OF b] by blast
  have "length (touched (snd (spec_add 3 4 0 BUY 12 7 offer_book))) = 1"
    by (simp add: spec_add_def offer_book_queues passes_def match_events_def Let_def touched_def)
  then show ?thesis using add_price_time_priority [OF b b'] b' by (auto simp: offer_book_queues)
qed

text \<open>
  C21: no quantity is created or lost.  The live quantity after a new order, plus twice what was traded
  (once for each side of a trade), is the live quantity before plus the quantity of the order.
\<close>

theorem add_conserves_quantity:
  assumes "me_rel N M b A" and "can_add N M b A cid coid side price"
    and "add cid coid tid side price qty b = Inr (b', ev)"
  shows "\<exists>A'. me_rel N M b' A' \<and>
           total_qty (ab_orders A') + 2 * traded ev = total_qty (ab_orders A) + unat qty"
proof -
  obtain l ys ev' where sm: "spec_match tid cid side coid (fill_id (ab_next A)) price qty (ab_queue A (opp side)) = (l, ys, ev')"
    using prod_cases3 by blast
  let ?A = "fst (spec_add cid coid tid side price qty A)"
  have ev: "ev = snd (spec_add cid coid tid side price qty A)" and rel: "me_rel N M b' ?A"
    using add_result [OF assms] by auto
  have tr: "traded ev = traded ev'" using sm ev by (auto simp: spec_add_def Let_def traded_def split: if_splits)
  have ins: "total_qty (price_insert side ord_price x xs) = unat (ord_qty x) + total_qty xs" for x xs
    using arg_cong [OF mset_price_insert, of "\<lambda>m. \<Sum>x\<in>#m. unat (ord_qty x)" side ord_price x xs]
    by (simp add: total_qty_def flip: sum_mset_sum_list)
  have "side = BUY \<or> side = SELL" using assms(2) by (auto simp: can_add_def)
  then have "total_qty (ab_orders ?A) = total_qty (ab_queue A side) + total_qty ys + unat l"
    using sm ins by (auto simp: spec_add_def Let_def ab_orders_def total_qty_def)
  moreover have "total_qty (ab_orders A) = total_qty (ab_queue A side) + total_qty (ab_queue A (opp side))"
    using \<open>side = BUY \<or> side = SELL\<close> by (auto simp: ab_orders_def total_qty_def)
  ultimately show ?thesis using rel tr spec_match_conserves(1) [OF sm] spec_match_traded [OF sm]
    by (intro exI [of _ ?A]) auto
qed

theorem add_conserves_quantity_witness:
  "\<exists>b b' ev A'. add 3 4 0 BUY 12 7 b = Inr (b', ev) \<and> me_rel 4 8 b' A' \<and>
     total_qty (ab_orders A') + 2 * traded ev = 12"
proof -
  obtain b where b: "me_rel 4 8 b offer_book" "can_add 4 8 b offer_book 3 4 BUY 12" using offer_rel .
  obtain b' where b': "add 3 4 0 BUY 12 7 b = Inr (b', snd (spec_add 3 4 0 BUY 12 7 offer_book))"
    using add_refines_lemma [OF b] by blast
  have "total_qty (ab_orders offer_book) + unat (7 :: Qty) = 12" by (simp add: total_qty_def ab_orders_def offer_book_queues)
  then show ?thesis using add_conserves_quantity [OF b b'] b' by metis
qed


text \<open>
  the identifier in the fills of an incoming order is its market order identifier modulo \<open>2 ^ 32\<close>,
  because \<open>checkForMatch()\<close> takes it as a \<open>Qty\<close>; from \<open>2 ^ 32\<close> orders on it is not the identifier
  under which the order was accepted.
\<close>

theorem add_fill_id_truncated:
  assumes "me_rel N M b A" and "can_add N M b A cid coid side price"
    and "add cid coid tid side price qty b = Inr (b', ev)"
    and "Response r \<in> set ev" and "rsp_type r = FILLED" and "rsp_client_id r = cid" and "rsp_client_order_id r = coid"
  shows "unat (rsp_market_order_id r) = unat (next_market_order_id b) mod 2 ^ 32"
proof -
  obtain l ys ev' where sm: "spec_match tid cid side coid (fill_id (ab_next A)) price qty (ab_queue A (opp side)) = (l, ys, ev')"
    using prod_cases3 by blast
  have "ev = snd (spec_add cid coid tid side price qty A)" using add_result(1) [OF assms(1-3)] .
  then have "Response r \<in> set ev'" using sm assms(4,5) by (auto simp: spec_add_def Let_def split: if_splits)
  moreover have "\<forall>x\<in>set (ab_queue A (opp side)). \<not> has_key cid coid x"
    using assms(2) by (auto simp: can_add_def ab_orders_def)
  ultimately have "rsp_market_order_id r = fill_id (ab_next A)"
    using spec_match_fill_ids [OF sm _ _ assms(6,7)] by blast
  moreover have "next_market_order_id b = ab_next A" using assms(1) by (simp add: me_rel_def)
  ultimately show ?thesis by (simp add: fill_id_def unsigned_ucast_eq take_bit_eq_mod unat_mod_distrib)
qed

theorem add_fill_id_truncated_witness:
  "\<exists>b b' ev r. add 3 4 0 BUY 12 7 b = Inr (b', ev) \<and> Response r \<in> set ev \<and> rsp_type r = FILLED \<and>
     unat (rsp_market_order_id r) = unat (next_market_order_id b) mod 2 ^ 32"
proof -
  obtain b where b: "me_rel 4 8 b offer_book" "can_add 4 8 b offer_book 3 4 BUY 12" using offer_rel .
  obtain b' where b': "add 3 4 0 BUY 12 7 b = Inr (b', snd (spec_add 3 4 0 BUY 12 7 offer_book))"
    using add_refines_lemma [OF b] by blast
  let ?r = "\<lparr>rsp_type = FILLED, rsp_client_id = 3, rsp_ticker_id = 0, rsp_client_order_id = 4,
    rsp_market_order_id = fill_id 2, rsp_side = BUY, rsp_price = 10, rsp_exec_qty = 5, rsp_leaves_qty = 2\<rparr>"
  have "Response ?r \<in> set (snd (spec_add 3 4 0 BUY 12 7 offer_book))"
    by (simp add: spec_add_def offer_book_queues passes_def match_events_def Let_def)
  from add_fill_id_truncated [OF b b' this] this b' show ?thesis
    by (intro exI [of _ b] exI [of _ b'] exI [of _ "snd (spec_add 3 4 0 BUY 12 7 offer_book)"] exI [of _ ?r]) simp
qed

text \<open>
  C24: entering an order that does not trade and cancelling it gives the previous book back: the same
  queues on both sides.
\<close>

theorem add_cancel_roundtrip:
  assumes "me_rel N M b A" and "can_add N M b A cid coid side price" and "qty \<noteq> 0"
    and "\<forall>x\<in>set (ab_queue A (opp side)). passes side price (ord_price x)"
  shows "\<exists>b1 ev1 b2 ev2 A2. add cid coid tid side price qty b = Inr (b1, ev1) \<and>
           cancel cid coid tid b1 = Inr (b2, ev2) \<and> me_rel N M b2 A2 \<and>
           ab_queue A2 BUY = ab_queue A BUY \<and> ab_queue A2 SELL = ab_queue A SELL"
proof -
  let ?A1 = "fst (spec_add cid coid tid side price qty A)"
  let ?P = "\<lambda>x. \<not> has_key cid coid x"
  have s: "side = BUY \<or> side = SELL" and k: "\<forall>x\<in>set (ab_queue A BUY) \<union> set (ab_queue A SELL). ?P x"
    and rng: "unat cid < N \<longrightarrow> unat coid < M" using assms(2) by (auto simp: can_add_def ab_orders_def)
  obtain b1 where b1: "add cid coid tid side price qty b = Inr (b1, snd (spec_add cid coid tid side price qty A))"
    "me_rel N M b1 ?A1" using add_refines_lemma [OF assms(1,2), of tid qty] by blast
  obtain b2 where b2: "cancel cid coid tid b1 = Inr (b2, snd (spec_cancel cid coid tid ?A1))"
    "me_rel N M b2 (fst (spec_cancel cid coid tid ?A1))" using cancel_refines_lemma [OF b1(2) rng, of tid] by blast
  have sm: "spec_match tid cid side coid (fill_id (ab_next A)) price qty (ab_queue A (opp side)) =
      (qty, ab_queue A (opp side), [])" using assms(4) by (cases "ab_queue A (opp side)") auto
  let ?x = "\<lparr>ord_side = side, ord_price = price, ord_qty = qty,
    ord_priority = next_priority price (ab_queue A side), prev_order = None, next_order = None,
    ord_ticker_id = tid, ord_client_id = cid, ord_client_order_id = coid, ord_market_order_id = ab_next A\<rparr>"
  have q: "ab_queue ?A1 side = price_insert side ord_price ?x (ab_queue A side)" "ab_queue ?A1 (opp side) = ab_queue A (opp side)"
    using sm assms(3) s by (auto simp: spec_add_def Let_def)
  have x: "has_key cid coid ?x" by (simp add: has_key_def)
  have del: "filter ?P (price_insert side ord_price y xs) = xs"
    if "has_key cid coid y" "\<forall>x\<in>set xs. ?P x" for y xs
  proof -
    have "\<forall>x\<in>set (takeWhile (\<lambda>c. \<not> worse side (ord_price c) (ord_price y)) xs). ?P x"
      "\<forall>x\<in>set (dropWhile (\<lambda>c. \<not> worse side (ord_price c) (ord_price y)) xs). ?P x"
      using that(2) by (auto dest: set_takeWhileD set_dropWhileD)
    then show ?thesis using that(1) by (simp add: price_insert_def)
  qed
  have "find (has_key cid coid) (ab_orders ?A1) \<noteq> None"
    using q s x by (auto simp: find_None_iff ab_orders_def)
  then have f: "ab_queue (fst (spec_cancel cid coid tid ?A1)) t = filter ?P (ab_queue ?A1 t)" for t
    by (auto simp: spec_cancel_def)
  have "ab_queue (fst (spec_cancel cid coid tid ?A1)) side = ab_queue A side"
    using f q(1) del [OF x] k s by auto
  moreover have "ab_queue (fst (spec_cancel cid coid tid ?A1)) (opp side) = ab_queue A (opp side)"
    using f q(2) k s by (auto simp: filter_id_conv)
  ultimately show ?thesis using b1(1) b2 s by auto
qed

theorem add_cancel_roundtrip_witness:
  "\<exists>b1 ev1 b2 ev2 A2. add 1 2 0 SELL 10 5 small_book = Inr (b1, ev1) \<and> cancel 1 2 0 b1 = Inr (b2, ev2) \<and>
     me_rel 4 8 b2 A2 \<and> ab_queue A2 SELL = []"
proof -
  have "can_add 4 8 small_book empty_book 1 2 SELL 10" by (rule small_can_add) simp_all
  from add_cancel_roundtrip [OF small_rel this, of 5 0] show ?thesis by (auto simp: empty_book_def)
qed


section \<open>Where the code departs from the specification\<close>

text \<open>Client 1 bids at two prices whose table index is the same, then client 3 sells at the better one.\<close>

definition colliding_run :: "(MEOrderBook \<times> me_event list) res" where
  "colliding_run =
     rbind (add 1 2 0 BUY 100 5 small_book) (\<lambda>(b, _).
     rbind (add 1 3 0 BUY 104 5 b) (\<lambda>(b, _).
     add 3 4 0 SELL 104 5 b))"


text \<open>
  outside benchmark builds the table from identifiers to orders is not initialised.  If the memory
  of the table happens to hold a pointer, a cancel for an order that was never placed follows it into
  an unused block and dereferences a null pointer.
\<close>

theorem uninitialised_table_crash:
  assumes "0 < ME_MAX_PRICE_LEVELS limits" and "unat cid < ME_MAX_NUM_CLIENTS limits" and "unat oid < ME_MAX_ORDER_IDS limits"
    and "mem (unat cid) (unat oid) = Some a"
  shows "cancel cid oid tid (MEOrderBook_new limits False mem tid) = Inl NullDeref"
proof -
  let ?b = "MEOrderBook_new limits False mem tid"
  have o: "obj (order_pool ?b) c = MEOrder_default" for c by (simp add: MEOrderBook_new_def MemPool_new_def obj_def)
  have "priceToIndex ?b p < arr_size (price_orders_at_price ?b)" for p
    using assms(1) by (intro priceToIndex_less) (simp add: MEOrderBook_new_def)
  then have "removeOrder (Some a) ?b = Inl NullDeref"
    by (simp add: removeOrder_def unlinkOrder_def o MEOrder_default_def getOrdersAtPrice_def assign_order_def)
  moreover have "lookup_order cid oid ?b = Inr (Some a)"
    using assms by (simp add: lookup_order_def MEOrderBook_new_def)
  ultimately show ?thesis by (simp add: cancel_def)
qed

theorem uninitialised_table_crash_witness:
  "cancel 1 2 0 (MEOrderBook_new small_limits False (\<lambda>_ _. Some 3) 0) = Inl NullDeref"
  using uninitialised_table_crash [of small_limits 1 2 "\<lambda>_ _. Some 3" 3 0] by (simp add: small_limits_def)

end
