(* ===== verification/Engine_Props.thy ===== *)
theory Engine_Props
  imports ME_Book_Props
begin

text \<open>
  Properties of the matching engine as a whole: one iteration of its loop, the states reachable by
  requests from a newly constructed engine, and requests it does not survive.
\<close>

section \<open>Reachable engines\<close>

text \<open>
  The engine handles a request, or the order server and the market data publisher change the queues
  they share with it.  The second component is the specification's state.
\<close>

inductive engine_reach ::
  "Limits \<Rightarrow> bool \<Rightarrow> (nat \<Rightarrow> nat \<Rightarrow> nat \<Rightarrow> ptr) \<Rightarrow> MatchingEngine \<Rightarrow> abs_engine \<Rightarrow> bool" for limits bm mem where
  start: "engine_reach limits bm mem (MatchingEngine_new limits bm mem q1 q2 q3) (\<lambda>_. empty_book)"
| handle: "engine_reach limits bm mem e E \<Longrightarrow>
    admissible (ME_MAX_NUM_CLIENTS limits) (ME_MAX_ORDER_IDS limits) r e E \<Longrightarrow>
    processClientRequest r e = Inr e' \<Longrightarrow> t = unat (req_ticker_id r) \<Longrightarrow>
    engine_reach limits bm mem e' (E(t := fst (spec_request r (E t))))"
| exchange_queues: "engine_reach limits bm mem e E \<Longrightarrow>
    engine_reach limits bm mem
      (e\<lparr>incoming_requests := q1, outgoing_ogw_responses := q2, outgoing_md_updates := q3\<rparr>) E"

definition cleared :: "Limits \<Rightarrow> bool \<Rightarrow> (nat \<Rightarrow> nat \<Rightarrow> nat \<Rightarrow> ptr) \<Rightarrow> bool" where
  "cleared limits bm mem \<longleftrightarrow>
     0 < ME_MAX_PRICE_LEVELS limits \<and> 0 < ME_MAX_ORDER_IDS limits \<and>
     (bm \<or> (\<forall>t<ME_MAX_TICKERS limits. \<forall>i<ME_MAX_NUM_CLIENTS limits. \<forall>j<ME_MAX_ORDER_IDS limits. mem t i j = None))"

lemma me_rel_sorted:
  assumes "me_rel N M b A" and "s \<in> {BUY, SELL}"
  shows "sorted_wrt (\<lambda>x y. \<not> worse s (ord_price x) (ord_price y)) (ab_queue A s)"
  using assms absq_sorted by (auto simp: me_rel_def)

lemma spec_request_uncrossed:
  assumes "me_rel N M b A" and "uncrossed A" and "req_type r = Request_NEW \<Longrightarrow> req_side r \<in> {BUY, SELL}"
  shows "uncrossed (fst (spec_request r A))"
  using assms spec_add_uncrossed [OF assms(2)] me_rel_sorted [OF assms(1) opp_in] spec_cancel_uncrossed [OF assms(2)]
  by (simp add: spec_request_def)

lemma engine_reach_inv:
  assumes "engine_reach limits bm mem e E" and "cleared limits bm mem"
  shows "engine_rel (ME_MAX_NUM_CLIENTS limits) (ME_MAX_ORDER_IDS limits) e E \<and> (\<forall>t. uncrossed (E t)) \<and>
    arr_size (ticker_order_book e) = ME_MAX_TICKERS limits"
  using assms(1)
proof induction
  case (start q1 q2 q3)
  have "me_rel (ME_MAX_NUM_CLIENTS limits) (ME_MAX_ORDER_IDS limits) (MEOrderBook_new limits bm (mem t) (of_nat t)) empty_book"
    if "t < ME_MAX_TICKERS limits" for t using assms(2) that by (intro me_rel_new) (auto simp: cleared_def)
  then show ?case by (auto simp: engine_rel_def MatchingEngine_new_def uncrossed_def empty_book_def)
next
  case (handle e E r e' t)
  let ?N = "ME_MAX_NUM_CLIENTS limits" and ?M = "ME_MAX_ORDER_IDS limits"
  have t: "t < arr_size (ticker_order_book e)" and side: "req_type r = Request_NEW \<Longrightarrow> req_side r \<in> {BUY, SELL}"
    using handle.hyps(2,4) by (auto simp: admissible_def can_add_def Let_def)
  have "engine_rel ?N ?M e' (E(t := fst (spec_request r (E t)))) \<and>
      arr_size (ticker_order_book e') = arr_size (ticker_order_book e)"
    using processClientRequest_refines [OF _ handle.hyps(2)] handle by auto
  moreover have "uncrossed (fst (spec_request r (E t)))"
    using handle.IH t side by (intro spec_request_uncrossed) (auto simp: engine_rel_def)
  ultimately show ?case using handle.IH by (simp add: fun_upd_def)
next
  case (exchange_queues e E q1 q2 q3)
  then show ?case by (simp add: engine_rel_def)
qed

text \<open>
  C4: the book is never crossed.  In every engine reached from a newly constructed one by admissible
  requests, for every ticker, the best bid is below the best ask.
\<close>

theorem book_never_crossed:
  assumes "engine_reach limits bm mem e E" and "cleared limits bm mem" and "t < ME_MAX_TICKERS limits"
    and "b = arr_get (ticker_order_book e) t" and "bids_by_price b = Some l" and "asks_by_price b = Some m"
  shows "lvl_price (obj (orders_at_price_pool b) l) < lvl_price (obj (orders_at_price_pool b) m)"
proof -
  have "me_rel (ME_MAX_NUM_CLIENTS limits) (ME_MAX_ORDER_IDS limits) b (E t)" and un: "uncrossed (E t)"
    using engine_reach_inv [OF assms(1,2)] assms(3,4) by (auto simp: engine_rel_def)
  then obtain F where r: "book_rep b F" and A: "\<And>s. s \<in> {BUY, SELL} \<Longrightarrow> ab_queue (E t) s = absq b F s"
    by (auto simp: me_rel_def me_inv_def)
  obtain c where c: "c \<in> set (F BUY)" "lvl_price (obj (orders_at_price_pool b) l) = price_of b c"
    using book_rep_best_price [OF r, of BUY l] assms(5) by (auto simp: best_orders_by_price_def)
  obtain d where d: "d \<in> set (F SELL)" "lvl_price (obj (orders_at_price_pool b) m) = price_of b d"
    using book_rep_best_price [OF r, of SELL m] assms(6) by (auto simp: best_orders_by_price_def)
  have "strip (obj (order_pool b) c) \<in> set (ab_queue (E t) BUY)" "strip (obj (order_pool b) d) \<in> set (ab_queue (E t) SELL)"
    using c(1) d(1) A by (auto simp: absq_def)
  then have "ord_price (strip (obj (order_pool b) c)) < ord_price (strip (obj (order_pool b) d))"
    using un unfolding uncrossed_def by blast
  then show ?thesis using c d by simp
qed

text \<open>
  C16: Every book of a reachable engine is well formed: both pools, the circular lists of levels and orders, the table of price levels and the
  table of orders describe the same live orders, each live order is found in the table under its client and its identifier, and an
  entry of the table is always a live order.
\<close>

theorem engine_books_wellformed:
  assumes "engine_reach limits bm mem e E" and "cleared limits bm mem" and "t < ME_MAX_TICKERS limits"
    and "b = arr_get (ticker_order_book e) t"
  shows "\<exists>F. me_inv (ME_MAX_NUM_CLIENTS limits) (ME_MAX_ORDER_IDS limits) b F \<and>
     (\<forall>c\<in>queued F. tab_get b (cid_of b c) (coid_of b c) = Some c) \<and>
     (\<forall>i<ME_MAX_NUM_CLIENTS limits. \<forall>j<ME_MAX_ORDER_IDS limits. \<forall>c. tab_get b i j = Some c \<longrightarrow> c \<in> queued F)"
proof -
  have "me_rel (ME_MAX_NUM_CLIENTS limits) (ME_MAX_ORDER_IDS limits) b (E t)"
    using engine_reach_inv [OF assms(1,2)] assms(3,4) by (auto simp: engine_rel_def)
  then obtain F where "me_inv (ME_MAX_NUM_CLIENTS limits) (ME_MAX_ORDER_IDS limits) b F" by (auto simp: me_rel_def)
  moreover from this have "tab_ok (ME_MAX_NUM_CLIENTS limits) (ME_MAX_ORDER_IDS limits) b (queued F)" by (simp add: me_inv_def)
  ultimately show ?thesis by (intro exI [of _ F]) (auto simp: tab_ok_def)
qed

text \<open>A reachable engine with one bid and one ask.\<close>

definition new_request :: "ClientId \<Rightarrow> OrderId \<Rightarrow> Side \<Rightarrow> Price \<Rightarrow> Qty \<Rightarrow> MEClientRequest" where
  "new_request cid oid side price qty =
     \<lparr>req_type = Request_NEW, req_client_id = cid, req_ticker_id = 0, req_order_id = oid, req_side = side,
      req_price = price, req_qty = qty\<rparr>"

definition small_engine :: MatchingEngine where
  "small_engine = MatchingEngine_new small_limits True (\<lambda>_ _ _. None)
     (lfq_push (new_request 1 2 SELL 10 5) (LFQueue_new 4 (new_request 0 0 BUY 0 0)))
     (LFQueue_new 16 \<lparr>rsp_type = Response_INVALID, rsp_client_id = 0, rsp_ticker_id = 0, rsp_client_order_id = 0,
        rsp_market_order_id = 0, rsp_side = Side_INVALID, rsp_price = 0, rsp_exec_qty = 0, rsp_leaves_qty = 0\<rparr>)
     (LFQueue_new 16 MEMarketUpdate_default)"

lemma small_engine_book: "arr_get (ticker_order_book small_engine) 0 = small_book"
  "arr_size (ticker_order_book small_engine) = 1"
  by (simp_all add: small_engine_def MatchingEngine_new_def small_book_def small_limits_def)

lemma small_engine_reach: "engine_reach small_limits True (\<lambda>_ _ _. None) small_engine (\<lambda>_. empty_book)"
  unfolding small_engine_def by (rule engine_reach.start)

lemma small_cleared: "cleared small_limits True (\<lambda>_ _ _. None)"
  by (simp add: cleared_def small_limits_def)

lemma small_sizes: "ME_MAX_NUM_CLIENTS small_limits = 4" "ME_MAX_ORDER_IDS small_limits = 8"
  "ME_MAX_TICKERS small_limits = 1" by (simp_all add: small_limits_def)

lemma small_engine_rel: "engine_rel 4 8 small_engine (\<lambda>_. empty_book)"
  using engine_reach_inv [OF small_engine_reach small_cleared] by (simp add: small_sizes)

lemma small_admissible: "admissible 4 8 (new_request 1 2 SELL 10 5) small_engine (\<lambda>_. empty_book)"
  using small_can_add [of SELL 1 2 10] by (simp add: admissible_def new_request_def small_engine_book)

definition two_sided_book :: abs_book where
  "two_sided_book = fst (spec_add 3 4 0 BUY 9 7 offer_book)"

lemma two_sided_book_queues: "length (ab_queue two_sided_book BUY) = 1" "length (ab_queue two_sided_book SELL) = 1"
  by (simp_all add: two_sided_book_def spec_add_def offer_book_queues passes_def next_priority_def price_insert_def)

lemma two_sided_book_engine:
  obtains e E where "engine_reach small_limits True (\<lambda>_ _ _. None) e E" and "E 0 = two_sided_book"
proof -
  let ?r1 = "new_request 1 2 SELL 10 5" and ?r2 = "new_request 3 4 BUY 9 7"
  let ?E0 = "\<lambda>_ :: nat. empty_book"
  have t: "unat (req_ticker_id ?r1) = 0" "unat (req_ticker_id ?r2) = 0" by (simp_all add: new_request_def)
  have E1: "fst (spec_request ?r1 empty_book) = offer_book" by (simp add: spec_request_def new_request_def offer_book_def)
  have E2: "fst (spec_request ?r2 offer_book) = two_sided_book" by (simp add: spec_request_def new_request_def two_sided_book_def)
  obtain e1 where e1: "processClientRequest ?r1 small_engine = Inr e1"
    "same_sizes small_book (arr_get (ticker_order_book e1) 0)"
    "arr_size (ticker_order_book e1) = 1" "engine_rel 4 8 e1 (?E0(0 := offer_book))"
    using processClientRequest_refines [OF small_engine_rel small_admissible] unfolding t E1
    by (metis small_engine_book)
  have reach1: "engine_reach small_limits True (\<lambda>_ _ _. None) e1 (?E0(0 := offer_book))"
    using engine_reach.handle [OF small_engine_reach _ e1(1) refl] small_admissible
    by (simp add: small_sizes t E1)
  have "can_add 4 8 small_book offer_book 3 4 BUY 9"
    by (simp add: can_add_def ab_orders_def offer_book_queues small_book_def small_limits_def
        MEOrderBook_new_def has_key_def priceToIndex_def)
  then have adm: "admissible 4 8 ?r2 e1 (?E0(0 := offer_book))"
    using can_add_sizes [OF e1(2)] e1(3) by (simp add: admissible_def new_request_def)
  obtain e2 where e2: "processClientRequest ?r2 e1 = Inr e2"
    using processClientRequest_refines [OF e1(4) adm] by blast
  have "engine_reach small_limits True (\<lambda>_ _ _. None) e2 (?E0(0 := two_sided_book))"
    using engine_reach.handle [OF reach1 _ e2 refl] adm by (simp add: small_sizes t E2)
  then show ?thesis by (rule that) simp
qed

theorem engine_books_wellformed_witness:
  "\<exists>e E F. engine_reach small_limits True (\<lambda>_ _ _. None) e E \<and> E 0 = two_sided_book \<and> me_inv 4 8 (arr_get (ticker_order_book e) 0) F"
proof -
  obtain e E where e: "engine_reach small_limits True (\<lambda>_ _ _. None) e E" "E 0 = two_sided_book" by (rule two_sided_book_engine)
  show ?thesis using engine_books_wellformed [OF e(1) small_cleared, of 0 "arr_get (ticker_order_book e) 0"] e by (auto simp: small_limits_def)
qed

theorem book_never_crossed_witness:
  "\<exists>(e :: MatchingEngine) b l m. b = arr_get (ticker_order_book e) 0 \<and> bids_by_price b = Some l \<and> asks_by_price b = Some m \<and>
     lvl_price (obj (orders_at_price_pool b) l) < lvl_price (obj (orders_at_price_pool b) m)"
proof -
  obtain e E where e: "engine_reach small_limits True (\<lambda>_ _ _. None) e E" "E 0 = two_sided_book" using two_sided_book_engine .
  let ?b = "arr_get (ticker_order_book e) 0"
  have "me_rel 4 8 ?b two_sided_book"
    using engine_reach_inv [OF e(1) small_cleared] e(2) by (auto simp: engine_rel_def small_sizes)
  then obtain F where r: "book_rep ?b F" and A: "\<And>s. s \<in> {BUY, SELL} \<Longrightarrow> ab_queue two_sided_book s = absq ?b F s"
    by (auto simp: me_rel_def me_inv_def)
  have ne: "F s \<noteq> []" if "s \<in> {BUY, SELL}" for s using A [OF that] two_sided_book_queues that by (auto simp: absq_def)
  have "\<exists>l. best_orders_by_price s ?b = Some l" if s: "s \<in> {BUY, SELL}" for s
    using book_rep_best [OF r s] ne [OF s] by metis
  from this [of BUY] this [of SELL] obtain l m where "bids_by_price ?b = Some l" "asks_by_price ?b = Some m"
    by (auto simp: best_orders_by_price_def)
  then have "lvl_price (obj (orders_at_price_pool ?b) l) < lvl_price (obj (orders_at_price_pool ?b) m)"
    using book_never_crossed [OF e(1) small_cleared _ refl, of 0 l m] by (simp add: small_sizes)
  with \<open>bids_by_price ?b = Some l\<close> \<open>asks_by_price ?b = Some m\<close> show ?thesis
    by blast
qed

section \<open>One iteration of the loop\<close>

lemma engine_pass:
  assumes "engine_rel N M e E" and "admissible N M r e E"
    and "lfq_inv (incoming_requests e)" and "lfq_items (incoming_requests e) = r # rs"
    and "t = unat (req_ticker_id r)" and "(A', ev) = spec_request r (E t)"
    and "lfq_inv (outgoing_ogw_responses e)" and "lfq_inv (outgoing_md_updates e)"
    and "length (lfq_items (outgoing_ogw_responses e)) + length (responses_of ev) \<le> lfq_cap (outgoing_ogw_responses e)"
    and "length (lfq_items (outgoing_md_updates e)) + length (updates_of ev) \<le> lfq_cap (outgoing_md_updates e)"
  shows "\<exists>e'. me_run_once e = Inr e' \<and> engine_rel N M e' (E(t := A')) \<and>
     lfq_items (incoming_requests e') = rs \<and>
     lfq_items (outgoing_ogw_responses e') = lfq_items (outgoing_ogw_responses e) @ responses_of ev \<and>
     lfq_items (outgoing_md_updates e') = lfq_items (outgoing_md_updates e) @ updates_of ev \<and>
     lfq_inv (outgoing_md_updates e') \<and> lfq_inv (outgoing_ogw_responses e')"
proof -
  have sp: "A' = fst (spec_request r (E t))" "ev = snd (spec_request r (E t))" using assms(6) by (auto simp: prod_eq_iff)
  obtain e1 where e1: "processClientRequest r e = Inr e1" "engine_rel N M e1 (E(t := A'))"
    "outgoing_ogw_responses e1 = fold lfq_push (responses_of ev) (outgoing_ogw_responses e)"
    "outgoing_md_updates e1 = fold lfq_push (updates_of ev) (outgoing_md_updates e)"
    "incoming_requests e1 = incoming_requests e"
    using processClientRequest_refines [OF assms(1,2)] unfolding sp assms(5) by blast
  obtain q' where q: "lfq_front (incoming_requests e) = Some r" "updateReadIndex (incoming_requests e) = Inr q'"
    "lfq_items q' = rs" using lfq.front_pop [OF assms(3,4)] by blast
  have "me_run_once e = Inr (e1\<lparr>incoming_requests := q'\<rparr>)" using q e1(1,5) by (simp add: me_run_once_def)
  then show ?thesis using e1 q(3) lfq.push_all [OF assms(7,9)] lfq.push_all [OF assms(8,10)]
    by (simp add: engine_rel_def)
qed

text \<open>
  C8: one iteration of the engine's loop serves the oldest request.  If it is admissible and the
  outgoing queues have room for its messages, the request leaves the incoming queue, exactly the
  responses and the updates that the specification prescribes are appended to the outgoing queues in
  order, and the books represent the specification's next state.
\<close>

theorem engine_serves_request:
  assumes "engine_rel N M e E" and "admissible N M r e E"
    and "lfq_inv (incoming_requests e)" and "lfq_items (incoming_requests e) = r # rs"
    and "t = unat (req_ticker_id r)" and "(A', ev) = spec_request r (E t)"
    and "lfq_inv (outgoing_ogw_responses e)" and "lfq_inv (outgoing_md_updates e)"
    and "length (lfq_items (outgoing_ogw_responses e)) + length (responses_of ev) \<le> lfq_cap (outgoing_ogw_responses e)"
    and "length (lfq_items (outgoing_md_updates e)) + length (updates_of ev) \<le> lfq_cap (outgoing_md_updates e)"
  shows "\<exists>e'. me_run_once e = Inr e' \<and> engine_rel N M e' (E(t := A')) \<and>
     lfq_items (incoming_requests e') = rs \<and>
     lfq_items (outgoing_ogw_responses e') = lfq_items (outgoing_ogw_responses e) @ responses_of ev \<and>
     lfq_items (outgoing_md_updates e') = lfq_items (outgoing_md_updates e) @ updates_of ev"
  using engine_pass [OF assms] by blast


text \<open>The small engine has one request and room for its messages.\<close>

lemma small_engine_queues:
  "lfq_inv (incoming_requests small_engine)" "lfq_items (incoming_requests small_engine) = [new_request 1 2 SELL 10 5]"
  "lfq_inv (outgoing_ogw_responses small_engine)" "lfq_inv (outgoing_md_updates small_engine)"
  "lfq_items (outgoing_ogw_responses small_engine) = []" "lfq_items (outgoing_md_updates small_engine) = []"
  "lfq_cap (outgoing_ogw_responses small_engine) = 16" "lfq_cap (outgoing_md_updates small_engine) = 16"
proof -
  let ?q = "LFQueue_new 4 (new_request 0 0 BUY 0 0)"
  have "lfq_inv ?q" "lfq_size ?q < lfq_cap ?q" by (simp_all add: lfq_inv_new lfq_size_items)
  then show "lfq_inv (incoming_requests small_engine)" "lfq_items (incoming_requests small_engine) = [new_request 1 2 SELL 10 5]"
    using lfq_inv_push [of ?q] lfq_items_push [of ?q] by (simp_all add: small_engine_def MatchingEngine_new_def)
qed (simp_all add: small_engine_def MatchingEngine_new_def lfq_inv_new)

lemma small_engine_messages:
  "length (responses_of (snd (spec_request (new_request 1 2 SELL 10 5) empty_book))) = 1"
  "updates_of (snd (spec_request (new_request 1 2 SELL 10 5) empty_book)) =
     [\<lparr>upd_type = ADD, upd_order_id = 1, upd_ticker_id = 0, upd_side = SELL, upd_price = 10, upd_qty = 5, upd_priority = 1\<rparr>]"
  by (simp_all add: spec_request_def new_request_def spec_add_def empty_book_def next_priority_def)

theorem engine_serves_request_witness:
  "\<exists>e'. me_run_once small_engine = Inr e' \<and> lfq_items (incoming_requests e') = [] \<and>
     length (lfq_items (outgoing_ogw_responses e')) = 1 \<and> length (lfq_items (outgoing_md_updates e')) = 1"
proof -
  let ?s = "spec_request (new_request 1 2 SELL 10 5) empty_book"
  have "(fst ?s, snd ?s) = ?s" by simp
  from engine_serves_request [OF small_engine_rel small_admissible small_engine_queues(1,2) refl this small_engine_queues(3,4)]
  show ?thesis using small_engine_messages small_engine_queues by auto
qed

text \<open>
  the ticker of a request is an unchecked array index.  A request for a ticker the exchange does
  not list, of whatever type, makes the engine leave the array of books.
\<close>

theorem unknown_ticker_undefined:
  assumes "arr_size (ticker_order_book e) \<le> unat (req_ticker_id r)"
  shows "processClientRequest r e = Inl BadIndex"
  using assms by (cases "req_type r") (auto simp: processClientRequest_def with_book_def arr_index_def)

theorem unknown_ticker_undefined_witness:
  "processClientRequest \<lparr>req_type = Request_NEW, req_client_id = 1, req_ticker_id = 1, req_order_id = 2,
     req_side = BUY, req_price = 10, req_qty = 5\<rparr> small_engine = Inl BadIndex"
  using unknown_ticker_undefined [of small_engine "\<lparr>req_type = Request_NEW, req_client_id = 1, req_ticker_id = 1,
     req_order_id = 2, req_side = BUY, req_price = 10, req_qty = 5\<rparr>"]
  by (simp add: small_engine_book)

end
