(* ===== verification/Unordered_Map_Book.thy ===== *)
theory Unordered_Map_Book
  imports ME_Book_Props "HOL-Library.AList"
begin

text \<open>
  \<open>Exchange::UnorderedMapMEOrderBook\<close> (\<open>exchange/matcher/unordered_map_me_order_book.h\<close> and \<open>.cpp\<close>): the order
  book of the matching engine with hash maps in place of the fixed arrays.  The links between levels and
  between orders are the code of \<open>Price_Levels\<close>.  A hash map is an association list with one entry per
  key; its \<open>operator[]\<close> inserts a null pointer for a key it does not find.  The theory shows that this
  book answers like the array based one, except for cancels, where the code compares the client
  identifier with the number of clients seen.
\<close>

section \<open>Hash maps\<close>

text \<open>\<open>m[k] = v\<close>, and reading \<open>m[k]\<close>, which returns the map with the entry it may have inserted.\<close>

type_synonym ('k, 'v) umap = "('k \<times> 'v) list"

definition umap_put :: "'k \<Rightarrow> 'v \<Rightarrow> ('k, 'v) umap \<Rightarrow> ('k, 'v) umap" where
  "umap_put k v m = AList.update k v m"

definition umap_index :: "'v \<Rightarrow> 'k \<Rightarrow> ('k, 'v) umap \<Rightarrow> 'v \<times> ('k, 'v) umap" where
  "umap_index dflt k m = (case map_of m k of Some v \<Rightarrow> (v, m) | None \<Rightarrow> (dflt, umap_put k dflt m))"

section \<open>State and operations\<close>

record UnorderedMapMEOrderBook = "unit MEOrder_ext book_links" +
  u_ticker_id :: TickerId
  u_cid_oid_to_order :: "(ClientId, (OrderId, ptr) umap) umap"
  u_price_orders_at_price :: "(nat, ptr) umap"
  u_next_market_order_id :: OrderId
  u_max_price_levels :: nat

definition UnorderedMapMEOrderBook_new :: "Limits \<Rightarrow> TickerId \<Rightarrow> UnorderedMapMEOrderBook" where
  "UnorderedMapMEOrderBook_new limits tid =
     \<lparr>orders_at_price_pool = MemPool_new (ME_MAX_PRICE_LEVELS limits) OrdersAtPrice_default,
      bids_by_price = None, asks_by_price = None,
      order_pool = MemPool_new (ME_MAX_ORDER_IDS limits) MEOrder_default,
      u_ticker_id = tid, u_cid_oid_to_order = [], u_price_orders_at_price = [],
      u_next_market_order_id = 1, u_max_price_levels = ME_MAX_PRICE_LEVELS limits\<rparr>"

definition u_generateNewMarketOrderId :: "UnorderedMapMEOrderBook \<Rightarrow> OrderId \<times> UnorderedMapMEOrderBook" where
  "u_generateNewMarketOrderId u =
     (u_next_market_order_id u, u\<lparr>u_next_market_order_id := u_next_market_order_id u + 1\<rparr>)"

definition u_priceToIndex :: "UnorderedMapMEOrderBook \<Rightarrow> Price \<Rightarrow> nat" where
  "u_priceToIndex u price = nat (price mod 2 ^ 64) mod u_max_price_levels u"

definition u_getOrdersAtPrice :: "Price \<Rightarrow> UnorderedMapMEOrderBook \<Rightarrow> ptr" where
  "u_getOrdersAtPrice price u =
     (case map_of (u_price_orders_at_price u) (u_priceToIndex u price) of None \<Rightarrow> None | Some p \<Rightarrow> p)"

definition u_set_level :: "nat \<Rightarrow> ptr \<Rightarrow> UnorderedMapMEOrderBook \<Rightarrow> UnorderedMapMEOrderBook" where
  "u_set_level i p u = u\<lparr>u_price_orders_at_price := umap_put i p (u_price_orders_at_price u)\<rparr>"

definition u_addOrdersAtPrice :: "ptr \<Rightarrow> UnorderedMapMEOrderBook \<Rightarrow> UnorderedMapMEOrderBook res" where
  "u_addOrdersAtPrice new u =
     rbind (get_level new u) (\<lambda>n.
     rbind (Inr (u_set_level (u_priceToIndex u (lvl_price n)) new u)) (\<lambda>u.
       let side = lvl_side n; price = lvl_price n;
           best = best_orders_by_price side u
       in
         if best = None then
           assign_level new (\<lambda>l. l\<lparr>prev_entry := new, next_entry := new\<rparr>) (set_best side new u)
         else
           rbind (find_target side price best u) (\<lambda>(add_after, target).
             if add_after then insert_after best new target u
             else insert_before side price best new target u)))"

definition u_removeOrdersAtPrice :: "Side \<Rightarrow> Price \<Rightarrow> UnorderedMapMEOrderBook \<Rightarrow> UnorderedMapMEOrderBook res" where
  "u_removeOrdersAtPrice side price u =
     (let best = best_orders_by_price side u in
      rbind (Inr (u_getOrdersAtPrice price u)) (\<lambda>orders_at_price.
      rbind (get_level orders_at_price u) (\<lambda>l.
      rbind
        (if next_entry l = orders_at_price then Inr (set_best side None u)
         else
           rbind (assign_level (prev_entry l) (\<lambda>x. x\<lparr>next_entry := next_entry l\<rparr>) u) (\<lambda>u.
           rbind (get_level orders_at_price u) (\<lambda>l.
           rbind (assign_level (next_entry l) (\<lambda>x. x\<lparr>prev_entry := prev_entry l\<rparr>) u) (\<lambda>u.
           rbind (get_level orders_at_price u) (\<lambda>l.
             let u = (if orders_at_price = best then set_best side (next_entry l) u else u) in
             assign_level orders_at_price (\<lambda>x. x\<lparr>prev_entry := None, next_entry := None\<rparr>) u)))))
        (\<lambda>u.
      rbind (Inr (u_set_level (u_priceToIndex u price) None u)) (\<lambda>u.
      rbind (deallocate orders_at_price (orders_at_price_pool u)) (\<lambda>P.
      Inr (u\<lparr>orders_at_price_pool := P\<rparr>)))))))"

definition u_getNextPriority :: "Price \<Rightarrow> UnorderedMapMEOrderBook \<Rightarrow> Priority res" where
  "u_getNextPriority price u =
     rbind (Inr (u_getOrdersAtPrice price u)) (\<lambda>orders_at_price.
       if orders_at_price = None then Inr 1
       else
         rbind (get_level orders_at_price u) (\<lambda>l.
         rbind (get_order (first_order l) u) (\<lambda>fo.
         rbind (get_order (prev_order fo) u) (\<lambda>lo.
         Inr (ord_priority lo + 1)))))"

text \<open>\<open>cid_oid_to_order_[cid][oid] = p\<close>\<close>

definition u_set_cid_oid :: "ClientId \<Rightarrow> OrderId \<Rightarrow> ptr \<Rightarrow> UnorderedMapMEOrderBook \<Rightarrow> UnorderedMapMEOrderBook" where
  "u_set_cid_oid cid oid p u =
     (let (row, m) = umap_index [] cid (u_cid_oid_to_order u) in
      u\<lparr>u_cid_oid_to_order := umap_put cid (umap_put oid p row) m\<rparr>)"

definition u_unlinkOrder :: "ptr \<Rightarrow> UnorderedMapMEOrderBook \<Rightarrow> UnorderedMapMEOrderBook res" where
  "u_unlinkOrder order u =
     rbind (get_order order u) (\<lambda>ord.
     rbind (Inr (u_getOrdersAtPrice (ord_price ord) u)) (\<lambda>orders_at_price.
       if prev_order ord = order then u_removeOrdersAtPrice (ord_side ord) (ord_price ord) u
       else
         (let order_before = prev_order ord; order_after = next_order ord in
          rbind (assign_order order_before (\<lambda>x. x\<lparr>next_order := order_after\<rparr>) u) (\<lambda>u.
          rbind (assign_order order_after (\<lambda>x. x\<lparr>prev_order := order_before\<rparr>) u) (\<lambda>u.
          rbind (get_level orders_at_price u) (\<lambda>l.
          rbind (if first_order l = order
                 then assign_level orders_at_price (\<lambda>l. l\<lparr>first_order := order_after\<rparr>) u
                 else Inr u) (\<lambda>u.
          assign_order order (\<lambda>x. x\<lparr>prev_order := None, next_order := None\<rparr>) u)))))))"

definition u_removeOrder :: "ptr \<Rightarrow> UnorderedMapMEOrderBook \<Rightarrow> UnorderedMapMEOrderBook res" where
  "u_removeOrder order u =
     rbind (u_unlinkOrder order u) (\<lambda>u.
     rbind (get_order order u) (\<lambda>ord.
     rbind (Inr (u_set_cid_oid (ord_client_id ord) (ord_client_order_id ord) None u)) (\<lambda>u.
     rbind (deallocate order (order_pool u)) (\<lambda>P.
     Inr (u\<lparr>order_pool := P\<rparr>)))))"

definition u_linkOrder :: "ptr \<Rightarrow> UnorderedMapMEOrderBook \<Rightarrow> UnorderedMapMEOrderBook res" where
  "u_linkOrder order u =
     rbind (get_order order u) (\<lambda>ord.
     rbind (Inr (u_getOrdersAtPrice (ord_price ord) u)) (\<lambda>orders_at_price.
       if orders_at_price = None then
         rbind (assign_order order (\<lambda>x. x\<lparr>next_order := order, prev_order := order\<rparr>) u) (\<lambda>u.
         rbind (allocate \<lparr>lvl_side = ord_side ord, lvl_price = ord_price ord, first_order = order,
                          prev_entry = None, next_entry = None\<rparr> (orders_at_price_pool u)) (\<lambda>(new, P).
         u_addOrdersAtPrice (Some new) (u\<lparr>orders_at_price_pool := P\<rparr>)))
       else
         rbind (get_level orders_at_price u) (\<lambda>l.
         (let first_ord = first_order l in
          rbind (get_order first_ord u) (\<lambda>fo.
          rbind (assign_order (prev_order fo) (\<lambda>x. x\<lparr>next_order := order\<rparr>) u) (\<lambda>u.
          rbind (get_order first_ord u) (\<lambda>fo.
          rbind (assign_order order (\<lambda>x. x\<lparr>prev_order := prev_order fo\<rparr>) u) (\<lambda>u.
          rbind (assign_order order (\<lambda>x. x\<lparr>next_order := first_ord\<rparr>) u) (\<lambda>u.
          assign_order first_ord (\<lambda>x. x\<lparr>prev_order := order\<rparr>) u)))))))))"

definition u_addOrder :: "ptr \<Rightarrow> UnorderedMapMEOrderBook \<Rightarrow> UnorderedMapMEOrderBook res" where
  "u_addOrder order u =
     rbind (u_linkOrder order u) (\<lambda>u.
     rbind (get_order order u) (\<lambda>ord.
     Inr (u_set_cid_oid (ord_client_id ord) (ord_client_order_id ord) order u)))"

definition u_match ::
  "TickerId \<Rightarrow> ClientId \<Rightarrow> Side \<Rightarrow> OrderId \<Rightarrow> OrderId \<Rightarrow> ptr \<Rightarrow> Qty \<Rightarrow> UnorderedMapMEOrderBook \<Rightarrow>
   (Qty \<times> UnorderedMapMEOrderBook \<times> me_event list) res" where
  "u_match tid client_id side client_order_id new_market_order_id itr leaves_qty u =
     rbind (get_order itr u) (\<lambda>ord.
       let order_qty = ord_qty ord;
           fill_qty = min leaves_qty order_qty;
           leaves = leaves_qty - fill_qty
       in
       rbind (assign_order itr (\<lambda>x. x\<lparr>ord_qty := ord_qty x - fill_qty\<rparr>) u) (\<lambda>u.
       rbind (get_order itr u) (\<lambda>ord.
         let ev =
               [Response \<lparr>rsp_type = FILLED, rsp_client_id = client_id, rsp_ticker_id = tid,
                  rsp_client_order_id = client_order_id, rsp_market_order_id = new_market_order_id,
                  rsp_side = side, rsp_price = ord_price ord, rsp_exec_qty = fill_qty, rsp_leaves_qty = leaves\<rparr>,
                Response \<lparr>rsp_type = FILLED, rsp_client_id = ord_client_id ord, rsp_ticker_id = tid,
                  rsp_client_order_id = ord_client_order_id ord, rsp_market_order_id = ord_market_order_id ord,
                  rsp_side = ord_side ord, rsp_price = ord_price ord, rsp_exec_qty = fill_qty,
                  rsp_leaves_qty = ord_qty ord\<rparr>,
                Update \<lparr>upd_type = TRADE, upd_order_id = OrderId_INVALID, upd_ticker_id = tid,
                  upd_side = side, upd_price = ord_price ord, upd_qty = fill_qty,
                  upd_priority = Priority_INVALID\<rparr>]
         in
         if ord_qty ord = 0 then
           rbind (u_removeOrder itr u) (\<lambda>u.
           Inr (leaves, u, ev @
                [Update \<lparr>upd_type = CANCEL, upd_order_id = ord_market_order_id ord, upd_ticker_id = tid,
                   upd_side = ord_side ord, upd_price = ord_price ord, upd_qty = order_qty,
                   upd_priority = Priority_INVALID\<rparr>]))
         else
           Inr (leaves, u, ev @
                [Update \<lparr>upd_type = MODIFY, upd_order_id = ord_market_order_id ord, upd_ticker_id = tid,
                   upd_side = ord_side ord, upd_price = ord_price ord, upd_qty = ord_qty ord,
                   upd_priority = ord_priority ord\<rparr>]))))"

definition u_match_candidate :: "Side \<Rightarrow> Price \<Rightarrow> Qty \<Rightarrow> UnorderedMapMEOrderBook \<Rightarrow> ptr res" where
  "u_match_candidate side price leaves_qty u =
     (let best = (if side = BUY then asks_by_price u else bids_by_price u) in
      if leaves_qty = 0 \<or> best = None then Inr None
      else
        rbind (get_level best u) (\<lambda>l.
        rbind (get_order (first_order l) u) (\<lambda>ord.
        if passes side price (ord_price ord) then Inr None else Inr (first_order l))))"

text \<open>The loops of \<open>checkForMatch()\<close>, bounded by the number of blocks of the order pool.\<close>

fun u_match_loop ::
  "nat \<Rightarrow> TickerId \<Rightarrow> ClientId \<Rightarrow> Side \<Rightarrow> OrderId \<Rightarrow> OrderId \<Rightarrow> Price \<Rightarrow> Qty \<Rightarrow> UnorderedMapMEOrderBook \<Rightarrow>
   (Qty \<times> UnorderedMapMEOrderBook \<times> me_event list) res" where
  "u_match_loop 0 tid cid side coid moid price leaves_qty u =
     rbind (u_match_candidate side price leaves_qty u) (\<lambda>itr.
       if itr = None then Inr (leaves_qty, u, []) else Inl Diverges)"
| "u_match_loop (Suc fuel) tid cid side coid moid price leaves_qty u =
     rbind (u_match_candidate side price leaves_qty u) (\<lambda>itr.
       if itr = None then Inr (leaves_qty, u, [])
       else
         rbind (u_match tid cid side coid moid itr leaves_qty u) (\<lambda>(leaves_qty, u, ev).
         rbind (u_match_loop fuel tid cid side coid moid price leaves_qty u) (\<lambda>(leaves_qty, u, ev').
         Inr (leaves_qty, u, ev @ ev'))))"

definition u_checkForMatch ::
  "ClientId \<Rightarrow> OrderId \<Rightarrow> TickerId \<Rightarrow> Side \<Rightarrow> Price \<Rightarrow> Qty \<Rightarrow> Qty \<Rightarrow> UnorderedMapMEOrderBook \<Rightarrow>
   (Qty \<times> UnorderedMapMEOrderBook \<times> me_event list) res" where
  "u_checkForMatch client_id client_order_id tid side price qty new_market_order_id u =
     (if side = BUY \<or> side = SELL then
        u_match_loop (pool_size (order_pool u)) tid client_id side client_order_id (ucast new_market_order_id) price qty u
      else Inr (qty, u, []))"

definition u_add ::
  "ClientId \<Rightarrow> OrderId \<Rightarrow> TickerId \<Rightarrow> Side \<Rightarrow> Price \<Rightarrow> Qty \<Rightarrow> UnorderedMapMEOrderBook \<Rightarrow>
   (UnorderedMapMEOrderBook \<times> me_event list) res" where
  "u_add client_id client_order_id tid side price qty u0 =
     (let (new_market_order_id, u) = u_generateNewMarketOrderId u0;
          accepted = Response \<lparr>rsp_type = ACCEPTED, rsp_client_id = client_id, rsp_ticker_id = tid,
             rsp_client_order_id = client_order_id, rsp_market_order_id = new_market_order_id,
             rsp_side = side, rsp_price = price, rsp_exec_qty = 0, rsp_leaves_qty = qty\<rparr>
      in
      rbind (u_checkForMatch client_id client_order_id tid side price qty (ucast new_market_order_id) u) (\<lambda>(leaves_qty, u, ev).
        if leaves_qty \<noteq> 0 then
          rbind (u_getNextPriority price u) (\<lambda>priority.
          rbind (allocate \<lparr>ord_side = side, ord_price = price, ord_qty = leaves_qty, ord_priority = priority,
                           prev_order = None, next_order = None, ord_ticker_id = tid,
                           ord_client_id = client_id, ord_client_order_id = client_order_id,
                           ord_market_order_id = new_market_order_id\<rparr> (order_pool u)) (\<lambda>(order, P).
          rbind (u_addOrder (Some order) (u\<lparr>order_pool := P\<rparr>)) (\<lambda>u.
          Inr (u, accepted # ev @
            [Update \<lparr>upd_type = ADD, upd_order_id = new_market_order_id, upd_ticker_id = tid, upd_side = side,
               upd_price = price, upd_qty = leaves_qty, upd_priority = priority\<rparr>]))))
        else Inr (u, accepted # ev)))"

text \<open>\<open>is_cancelable\<close>: the client identifier is compared with the number of entries of the outer map.\<close>

definition u_lookup_order ::
  "ClientId \<Rightarrow> OrderId \<Rightarrow> UnorderedMapMEOrderBook \<Rightarrow> ptr \<times> UnorderedMapMEOrderBook" where
  "u_lookup_order client_id order_id u =
     (if unat client_id < length (u_cid_oid_to_order u)
      then (let (co_itr, m) = umap_index [] client_id (u_cid_oid_to_order u);
                (p, row) = umap_index None order_id co_itr
            in (p, u\<lparr>u_cid_oid_to_order := umap_put client_id row m\<rparr>))
      else (None, u))"

definition u_cancel ::
  "ClientId \<Rightarrow> OrderId \<Rightarrow> TickerId \<Rightarrow> UnorderedMapMEOrderBook \<Rightarrow> (UnorderedMapMEOrderBook \<times> me_event list) res" where
  "u_cancel client_id order_id tid u0 =
     (let (exchange_order, u) = u_lookup_order client_id order_id u0 in
       if exchange_order = None then
         Inr (u, [Response \<lparr>rsp_type = CANCEL_REJECTED, rsp_client_id = client_id, rsp_ticker_id = tid,
                   rsp_client_order_id = order_id, rsp_market_order_id = OrderId_INVALID,
                   rsp_side = Side_INVALID, rsp_price = Price_INVALID, rsp_exec_qty = Qty_INVALID,
                   rsp_leaves_qty = Qty_INVALID\<rparr>])
       else
         rbind (get_order exchange_order u) (\<lambda>ord.
         rbind (u_removeOrder exchange_order u) (\<lambda>u.
         Inr (u,
           [Update \<lparr>upd_type = CANCEL, upd_order_id = ord_market_order_id ord, upd_ticker_id = tid,
              upd_side = ord_side ord, upd_price = ord_price ord, upd_qty = 0, upd_priority = ord_priority ord\<rparr>,
            Response \<lparr>rsp_type = CANCELED, rsp_client_id = client_id, rsp_ticker_id = tid,
              rsp_client_order_id = order_id, rsp_market_order_id = ord_market_order_id ord,
              rsp_side = ord_side ord, rsp_price = ord_price ord, rsp_exec_qty = Qty_INVALID,
              rsp_leaves_qty = ord_qty ord\<rparr>]))))"

section \<open>The array based book of a map based one\<close>

definition entry :: "('k, ptr) umap \<Rightarrow> 'k \<Rightarrow> ptr" where
  "entry m k = (case map_of m k of None \<Rightarrow> None | Some p \<Rightarrow> p)"

definition order_row :: "(ClientId, (OrderId, ptr) umap) umap \<Rightarrow> ClientId \<Rightarrow> (OrderId, ptr) umap" where
  "order_row m c = (case map_of m c of None \<Rightarrow> [] | Some row \<Rightarrow> row)"

text \<open>The arrays have \<open>N\<close> clients and \<open>M\<close> orders per client; an index beyond the identifiers holds a null pointer.\<close>

definition array_book :: "nat \<Rightarrow> nat \<Rightarrow> UnorderedMapMEOrderBook \<Rightarrow> MEOrderBook" where
  "array_book N M u =
     \<lparr>orders_at_price_pool = orders_at_price_pool u, bids_by_price = bids_by_price u, asks_by_price = asks_by_price u,
      order_pool = order_pool u,
      price_orders_at_price = \<lparr>arr_size = u_max_price_levels u, arr_get = entry (u_price_orders_at_price u)\<rparr>,
      ticker_id = u_ticker_id u,
      cid_oid_to_order =
        \<lparr>arr_size = N, arr_get = (\<lambda>c. \<lparr>arr_size = M, arr_get = (\<lambda>i.
           if unat (of_nat c :: ClientId) = c \<and> unat (of_nat i :: OrderId) = i
           then entry (order_row (u_cid_oid_to_order u) (of_nat c)) (of_nat i) else None)\<rparr>)\<rparr>,
      next_market_order_id = u_next_market_order_id u\<rparr>"

lemma entry_Nil [simp]: "entry [] k = None" by (simp add: entry_def)

lemma entry_put [simp]: "entry (umap_put k v m) = (entry m)(k := v)"
  by (auto simp: entry_def umap_put_def update_conv' fun_eq_iff)

lemma order_row_Nil [simp]: "order_row [] c = []" by (simp add: order_row_def)

lemma order_row_put [simp]: "order_row (umap_put c row m) = (order_row m)(c := row)"
  by (auto simp: order_row_def umap_put_def update_conv' fun_eq_iff)

lemma map_of_keys: "k \<in> fst ` set m \<longleftrightarrow> map_of m k \<noteq> None"
  by (simp add: map_of_eq_None_iff)

lemma umap_index_row: "umap_index [] c m = (order_row m c, if c \<in> fst ` set m then m else umap_put c [] m)"
  by (auto simp: umap_index_def order_row_def map_of_keys split: option.splits)

lemma umap_index_entry: "umap_index None k m = (entry m k, if k \<in> fst ` set m then m else umap_put k None m)"
  by (auto simp: umap_index_def entry_def map_of_keys split: option.splits)

lemma array_book_sel [simp]:
  "orders_at_price_pool (array_book N M u) = orders_at_price_pool u" "bids_by_price (array_book N M u) = bids_by_price u"
  "asks_by_price (array_book N M u) = asks_by_price u" "order_pool (array_book N M u) = order_pool u"
  "price_orders_at_price (array_book N M u) = \<lparr>arr_size = u_max_price_levels u, arr_get = entry (u_price_orders_at_price u)\<rparr>"
  "next_market_order_id (array_book N M u) = u_next_market_order_id u"
  "arr_size (cid_oid_to_order (array_book N M u)) = N"
  by (simp_all add: array_book_def)

lemma array_book_upd [simp]:
  "array_book N M u\<lparr>orders_at_price_pool := P\<rparr> = array_book N M (u\<lparr>orders_at_price_pool := P\<rparr>)"
  "array_book N M u\<lparr>bids_by_price := p\<rparr> = array_book N M (u\<lparr>bids_by_price := p\<rparr>)"
  "array_book N M u\<lparr>asks_by_price := p\<rparr> = array_book N M (u\<lparr>asks_by_price := p\<rparr>)"
  "array_book N M u\<lparr>order_pool := Q\<rparr> = array_book N M (u\<lparr>order_pool := Q\<rparr>)"
  "array_book N M u\<lparr>next_market_order_id := n\<rparr> = array_book N M (u\<lparr>u_next_market_order_id := n\<rparr>)"
  by (simp_all add: array_book_def cong: if_cong)

section \<open>Operations on the links\<close>

text \<open>The code that does not look at the tables does the same on both books.\<close>

lemma rbind_if: "rbind (if c then m else m') f = (if c then rbind m f else rbind m' f)"
  by simp

lemma links_read [simp]:
  "get_level p (array_book N M u) = get_level p u" "get_order p (array_book N M u) = get_order p u"
  "best_orders_by_price side (array_book N M u) = best_orders_by_price side u"
  "priceToIndex (array_book N M u) price = u_priceToIndex u price"
  by (simp_all add: get_level_def get_order_def best_orders_by_price_def priceToIndex_def u_priceToIndex_def)

lemma links_write [simp]:
  "assign_level p f (array_book N M u) = rbind (assign_level p f u) (\<lambda>u. Inr (array_book N M u))"
  "assign_order p g (array_book N M u) = rbind (assign_order p g u) (\<lambda>u. Inr (array_book N M u))"
  "set_best side p (array_book N M u) = array_book N M (set_best side p u)"
  by (simp_all add: assign_level_def assign_order_def set_best_def rbind_assoc)

lemma links_loop [simp]:
  "add_after_loop n (array_book N M u) side price best aa target = add_after_loop n u side price best aa target"
  by (induction n arbitrary: aa target) (auto simp: Let_def intro!: rbind_cong)

lemma links_find [simp]: "find_target side price best (array_book N M u) = find_target side price best u"
  by (simp add: find_target_def Let_def cong: if_cong)

lemma links_insert_after [simp]:
  "insert_after best new target (array_book N M u) = rbind (insert_after best new target u) (\<lambda>u. Inr (array_book N M u))"
  by (simp add: insert_after_def rbind_assoc cong: if_cong)

lemma links_insert_before [simp]:
  "insert_before side price best new target (array_book N M u) =
     rbind (insert_before side price best new target u) (\<lambda>u. Inr (array_book N M u))"
  by (simp add: insert_before_def rbind_assoc rbind_if cong: if_cong)

section \<open>Simulation\<close>

text \<open>
  \<open>follows h m m'\<close>: when \<open>m'\<close> succeeds, so does \<open>m\<close>, and \<open>h\<close> maps its result to that of \<open>m'\<close>.  The array
  based book is on the right, since it rejects identifiers beyond its arrays.
\<close>

definition follows :: "('b \<Rightarrow> 'a) \<Rightarrow> 'b res \<Rightarrow> 'a res \<Rightarrow> bool" where
  "follows h m m' \<longleftrightarrow> (\<forall>y. m' = Inr y \<longrightarrow> (\<exists>x. m = Inr x \<and> y = h x))"

lemma follows_Inr: "y = h x \<Longrightarrow> follows h (Inr x) (Inr y)"
  by (simp add: follows_def)

lemma follows_Inl [simp]: "follows h m (Inl e)"
  by (simp add: follows_def)

lemma follows_Inr_iff [simp]: "follows h (Inr x) (Inr y) \<longleftrightarrow> y = h x"
  by (auto simp: follows_def)

lemma follows_map: "follows h m (rbind m (\<lambda>x. Inr (h x)))"
  by (auto simp: follows_def rbind_eq_Inr_iff)

lemma follows_bind:
  assumes "follows h m m'" and "\<And>x. m = Inr x \<Longrightarrow> follows k (f x) (g (h x))"
  shows "follows k (rbind m f) (rbind m' g)"
  using assms by (cases m') (auto simp: follows_def)

lemma follows_same: "(\<And>x. m = Inr x \<Longrightarrow> follows k (f x) (g x)) \<Longrightarrow> follows k (rbind m f) (rbind m g)"
  by (cases m) auto

lemma follows_if: "(c \<Longrightarrow> follows h m m') \<Longrightarrow> (\<not> c \<Longrightarrow> follows h n n') \<Longrightarrow> follows h (if c then m else n) (if c then m' else n')"
  by simp

lemmas follows_intros = follows_same follows_if follows_Inr follows_map

lemma array_put_level:
  "arr_put i p (price_orders_at_price (array_book N M u)) = Inr tab \<Longrightarrow>
     (array_book N M u)\<lparr>price_orders_at_price := tab\<rparr> = array_book N M (u_set_level i p u)"
  by (auto simp: arr_put_def array_book_def u_set_level_def split: if_splits cong: if_cong)

lemma follows_getOrdersAtPrice:
  assumes "follows k (f (u_getOrdersAtPrice price u)) (g (u_getOrdersAtPrice price u))"
  shows "follows k (f (u_getOrdersAtPrice price u)) (rbind (getOrdersAtPrice price (array_book N M u)) g)"
  using assms by (simp add: getOrdersAtPrice_def arr_at_def u_getOrdersAtPrice_def entry_def)

lemma follows_put_level:
  assumes "follows k (f (u_set_level i p u)) (g (array_book N M (u_set_level i p u)))"
  shows "follows k (f (u_set_level i p u))
     (rbind (arr_put i p (price_orders_at_price (array_book N M u))) (\<lambda>tab. g ((array_book N M u)\<lparr>price_orders_at_price := tab\<rparr>)))"
proof (cases "arr_put i p (price_orders_at_price (array_book N M u))")
  case (Inr tab)
  then show ?thesis using assms by (simp only: rbind_Inr array_put_level [OF Inr])
qed simp

lemma follows_addOrdersAtPrice:
  "follows (array_book N M) (u_addOrdersAtPrice new u) (addOrdersAtPrice new (array_book N M u))"
  unfolding u_addOrdersAtPrice_def addOrdersAtPrice_def links_read Let_def rbind_Inr
  apply (rule follows_same)
  apply (rule follows_put_level)
  apply (simp add: follows_map)
  apply (intro impI follows_same)
  apply (auto simp: follows_map split: prod.splits)
  done

lemma u_set_level_sel [simp]: "orders_at_price_pool (u_set_level i p u) = orders_at_price_pool u"
  by (simp add: u_set_level_def)

lemma follows_release_level:
  "follows (array_book N M)
     (rbind (deallocate q (orders_at_price_pool u)) (\<lambda>P. Inr ((u_set_level i None u)\<lparr>orders_at_price_pool := P\<rparr>)))
     (rbind (arr_put i None (price_orders_at_price (array_book N M u))) (\<lambda>tab.
      rbind (deallocate q (orders_at_price_pool u)) (\<lambda>P.
      Inr ((array_book N M u)\<lparr>price_orders_at_price := tab, orders_at_price_pool := P\<rparr>))))"
proof (cases "arr_put i None (price_orders_at_price (array_book N M u))")
  case (Inr tab)
  have "(array_book N M u)\<lparr>price_orders_at_price := tab, orders_at_price_pool := P\<rparr> =
      array_book N M ((u_set_level i None u)\<lparr>orders_at_price_pool := P\<rparr>)" for P
    using array_put_level [OF Inr] by (simp only: array_book_upd)
  then show ?thesis unfolding Inr rbind_Inr by (auto intro!: follows_same follows_Inr simp del: array_book_upd)
qed simp

lemma follows_removeOrdersAtPrice:
  "follows (array_book N M) (u_removeOrdersAtPrice side price u) (removeOrdersAtPrice side price (array_book N M u))"
  unfolding u_removeOrdersAtPrice_def removeOrdersAtPrice_def links_read Let_def u_set_level_sel rbind_Inr
  apply (rule follows_getOrdersAtPrice)
  apply (rule follows_same)
  apply (rule follows_bind [where h = "array_book N M"])
   apply (simp add: follows_Inr follows_map rbind_assoc cong: if_cong)
   apply (intro impI follows_same)
   apply (simp add: follows_map)
  apply (unfold array_book_sel links_read)
  apply (rule follows_release_level [unfolded array_book_sel])
  done

lemma follows_set_cid_oid:
  "follows (array_book N M) (Inr (u_set_cid_oid cid oid p u)) (set_cid_oid cid oid p (array_book N M u))"
proof -
  have w: "unat (of_nat c :: ClientId) = c \<Longrightarrow> of_nat c = cid \<longleftrightarrow> c = unat cid" for c by auto
  have v: "unat (of_nat i :: OrderId) = i \<Longrightarrow> of_nat i = oid \<longleftrightarrow> i = unat oid" for i by auto
  show ?thesis
    by (auto simp: follows_def set_cid_oid_def arr_at_def arr_put_def u_set_cid_oid_def umap_index_row array_book_def fun_eq_iff w v
        split: if_splits cong: if_cong)
qed

lemma follows_getNextPriority:
  "follows (\<lambda>x. x) (u_getNextPriority price u) (getNextPriority price (array_book N M u))"
  unfolding u_getNextPriority_def getNextPriority_def links_read Let_def rbind_Inr
  by (rule follows_getOrdersAtPrice) (auto intro!: follows_intros)

lemma follows_unlinkOrder:
  "follows (array_book N M) (u_unlinkOrder order u) (unlinkOrder order (array_book N M u))"
  unfolding u_unlinkOrder_def unlinkOrder_def links_read Let_def rbind_Inr
  apply (rule follows_same)
  apply (rule follows_getOrdersAtPrice)
  apply (rule follows_if)
   apply (rule follows_removeOrdersAtPrice)
  apply (simp add: rbind_assoc rbind_if cong: if_cong)
  apply (intro follows_intros)
  done

lemma follows_linkOrder:
  "follows (array_book N M) (u_linkOrder order u) (linkOrder order (array_book N M u))"
  unfolding u_linkOrder_def linkOrder_def links_read Let_def rbind_Inr
  apply (rule follows_same)
  apply (rule follows_getOrdersAtPrice)
  apply (rule follows_if)
   apply (simp add: rbind_assoc cong: if_cong)
   apply (intro follows_same)
   apply (clarsimp simp: follows_addOrdersAtPrice)
  apply (simp add: rbind_assoc)
  apply (intro follows_intros)
  done

lemma follows_removeOrder:
  "follows (array_book N M) (u_removeOrder order u) (removeOrder order (array_book N M u))"
  unfolding u_removeOrder_def removeOrder_def rbind_Inr
  apply (rule follows_bind [OF follows_unlinkOrder])
  apply (simp only: links_read)
  apply (rule follows_same)
  apply (rule follows_bind [OF follows_set_cid_oid, where f = "\<lambda>u. rbind (deallocate order (order_pool u)) (\<lambda>P. Inr (u\<lparr>order_pool := P\<rparr>))", unfolded rbind_Inr])
  apply (auto intro!: follows_intros)
  done

lemma follows_addOrder:
  "follows (array_book N M) (u_addOrder order u) (addOrder order (array_book N M u))"
  unfolding u_addOrder_def addOrder_def
  apply (rule follows_bind [OF follows_linkOrder])
  apply (simp only: links_read)
  apply (rule follows_same)
  apply (rule follows_set_cid_oid)
  done

text \<open>Results that carry messages beside the book.\<close>

definition array_match :: "nat \<Rightarrow> nat \<Rightarrow> Qty \<times> UnorderedMapMEOrderBook \<times> me_event list \<Rightarrow> Qty \<times> MEOrderBook \<times> me_event list" where
  "array_match N M = (\<lambda>(q, u, ev). (q, array_book N M u, ev))"

definition array_reply :: "nat \<Rightarrow> nat \<Rightarrow> UnorderedMapMEOrderBook \<times> me_event list \<Rightarrow> MEOrderBook \<times> me_event list" where
  "array_reply N M = (\<lambda>(u, ev). (array_book N M u, ev))"

lemma array_results [simp]:
  "array_match N M (q, u, ev) = (q, array_book N M u, ev)" "array_reply N M (u, ev) = (array_book N M u, ev)"
  by (simp_all add: array_match_def array_reply_def)

lemma follows_match:
  "follows (array_match N M) (u_match tid cid side coid moid itr q u) (match tid cid side coid moid itr q (array_book N M u))"
  unfolding u_match_def match_def links_read Let_def links_write rbind_assoc rbind_Inr
  by (intro follows_same follows_if follows_bind [OF follows_removeOrder] follows_Inr) simp_all

lemma match_candidate_array: "match_candidate side price q (array_book N M u) = u_match_candidate side price q u"
  by (simp add: match_candidate_def u_match_candidate_def Let_def)

lemma follows_match_loop:
  "follows (array_match N M) (u_match_loop n tid cid side coid moid price q u)
     (match_loop n tid cid side coid moid price q (array_book N M u))"
proof (induction n arbitrary: q u)
  case 0
  show ?case by (auto simp: match_candidate_array intro!: follows_same follows_Inr)
next
  case (Suc n)
  have "follows (array_match N M)
      (rbind (u_match_loop n tid cid side coid moid price q' u') (\<lambda>(q, u, ev'). Inr (q, u, ev @ ev')))
      (rbind (match_loop n tid cid side coid moid price q' (array_book N M u')) (\<lambda>(q, b, ev'). Inr (q, b, ev @ ev')))" for q' u' ev
    by (rule follows_bind [OF Suc.IH]) auto
  then show ?case
    unfolding u_match_loop.simps match_loop.simps match_candidate_array
    by (intro follows_same follows_if follows_bind [OF follows_match] follows_Inr) auto
qed

lemma follows_checkForMatch:
  "follows (array_match N M) (u_checkForMatch cid coid tid side price q moid u) (checkForMatch cid coid tid side price q moid (array_book N M u))"
  by (simp add: u_checkForMatch_def checkForMatch_def follows_match_loop follows_Inr)

lemma follows_add:
  "follows (array_reply N M) (u_add cid coid tid side price q u) (add cid coid tid side price q (array_book N M u))"
  unfolding u_add_def add_def u_generateNewMarketOrderId_def generateNewMarketOrderId_def Let_def prod.case array_book_sel array_book_upd
  apply (rule follows_bind [OF follows_checkForMatch])
  apply (clarsimp simp del: rbind_if)
  apply (rule follows_bind [OF follows_getNextPriority])
  apply (rule follows_same)
  apply clarsimp
  apply (rule follows_bind [OF follows_addOrder])
  apply auto
  done

lemma array_book_fill_in:
  "array_book N M (u\<lparr>u_cid_oid_to_order := umap_put cid row m\<rparr>) = array_book N M u"
  if "order_row m = order_row (u_cid_oid_to_order u)" and "entry row = entry (order_row (u_cid_oid_to_order u) cid)"
  using that by (auto simp: array_book_def fun_eq_iff)

lemma u_lookup_order_array:
  assumes "unat cid < length (u_cid_oid_to_order u)" and "unat cid < N" and "u_lookup_order cid oid u = (p, u')"
  shows "p = entry (order_row (u_cid_oid_to_order u) cid) oid" and "array_book N M u' = array_book N M u"
    and "follows (\<lambda>x. x) (Inr p) (lookup_order cid oid (array_book N M u))"
proof -
  let ?m = "u_cid_oid_to_order u" and ?row = "order_row (u_cid_oid_to_order u) cid"
  have e: "order_row (if cid \<in> fst ` set ?m then ?m else umap_put cid [] ?m) = order_row ?m"
    by (auto simp: order_row_def map_of_keys fun_eq_iff umap_put_def update_conv')
  have f: "entry (if oid \<in> fst ` set ?row then ?row else umap_put oid None ?row) = entry ?row"
    by (auto simp: entry_def map_of_keys fun_eq_iff umap_put_def update_conv')
  show p: "p = entry ?row oid"
    using assms by (auto simp: u_lookup_order_def umap_index_row umap_index_entry Let_def)
  show "array_book N M u' = array_book N M u"
    using assms by (auto simp: u_lookup_order_def umap_index_row umap_index_entry Let_def intro!: array_book_fill_in [OF e f])
  show "follows (\<lambda>x. x) (Inr p) (lookup_order cid oid (array_book N M u))"
    using assms(2) by (simp add: lookup_order_def p array_book_def arr_at_def)
qed

lemma follows_cancel:
  assumes "unat cid < length (u_cid_oid_to_order u)" and "unat cid < N"
  shows "follows (array_reply N M) (u_cancel cid oid tid u) (cancel cid oid tid (array_book N M u))"
proof -
  obtain p u' where l: "u_lookup_order cid oid u = (p, u')" by fastforce
  note a = u_lookup_order_array(2,3) [OF assms l, of M]
  show ?thesis
    unfolding u_cancel_def cancel_def l Let_def prod.case
    apply (rule follows_bind [OF a(2), where f = "\<lambda>exchange_order. if exchange_order = None then Inr (u', _) else _ exchange_order", unfolded rbind_Inr])
    apply (unfold a(1) [symmetric] links_read)
    apply (intro follows_if follows_same follows_bind [OF follows_removeOrder] follows_Inr)
     apply simp_all
    done
qed

section \<open>Sequences of requests\<close>

text \<open>A request given to either book, and a sequence of them with all messages in the order they are sent.\<close>

definition book_request :: "MEClientRequest \<Rightarrow> MEOrderBook \<times> me_event list \<Rightarrow> (MEOrderBook \<times> me_event list) res" where
  "book_request r = (\<lambda>(b, ev).
     rbind (if req_type r = Request_NEW
            then add (req_client_id r) (req_order_id r) (req_ticker_id r) (req_side r) (req_price r) (req_qty r) b
            else cancel (req_client_id r) (req_order_id r) (req_ticker_id r) b) (\<lambda>(b, ev').
     Inr (b, ev @ ev')))"

definition u_book_request ::
  "MEClientRequest \<Rightarrow> UnorderedMapMEOrderBook \<times> me_event list \<Rightarrow> (UnorderedMapMEOrderBook \<times> me_event list) res" where
  "u_book_request r = (\<lambda>(u, ev).
     rbind (if req_type r = Request_NEW
            then u_add (req_client_id r) (req_order_id r) (req_ticker_id r) (req_side r) (req_price r) (req_qty r) u
            else u_cancel (req_client_id r) (req_order_id r) (req_ticker_id r) u) (\<lambda>(u, ev').
     Inr (u, ev @ ev')))"

text \<open>Every cancel comes from a client whose identifier is below the number of clients seen so far.\<close>

definition clients_seen :: "(UnorderedMapMEOrderBook \<times> me_event list) res \<Rightarrow> nat option" where
  "clients_seen m = (case m of Inl e \<Rightarrow> None | Inr (u, ev) \<Rightarrow> Some (length (u_cid_oid_to_order u)))"

definition cancels_low :: "nat \<Rightarrow> MEClientRequest list \<Rightarrow> UnorderedMapMEOrderBook \<times> me_event list \<Rightarrow> bool" where
  "cancels_low N rs x \<longleftrightarrow>
     (\<forall>i<length rs. req_type (rs ! i) = Request_NEW \<or>
        unat (req_client_id (rs ! i)) < N \<and>
        (\<forall>k. clients_seen (rfold u_book_request (take i rs) x) = Some k \<longrightarrow> unat (req_client_id (rs ! i)) < k))"

lemma cancels_low_Cons:
  assumes "cancels_low N (r # rs) (u, ev)"
  shows "req_type r = Request_NEW \<or> unat (req_client_id r) < min N (length (u_cid_oid_to_order u))"
    and "u_book_request r (u, ev) = Inr x \<Longrightarrow> cancels_low N rs x"
  using assms [unfolded cancels_low_def, rule_format, of 0] assms [unfolded cancels_low_def, rule_format, of "Suc i" for i]
  by (auto simp: cancels_low_def clients_seen_def)

lemma follows_request:
  assumes "req_type r = Request_NEW \<or> unat (req_client_id r) < min N (length (u_cid_oid_to_order u))"
  shows "follows (array_reply N M) (u_book_request r (u, ev)) (book_request r (array_book N M u, ev))"
proof -
  have "follows (array_reply N M)
      (if req_type r = Request_NEW
       then u_add (req_client_id r) (req_order_id r) (req_ticker_id r) (req_side r) (req_price r) (req_qty r) u
       else u_cancel (req_client_id r) (req_order_id r) (req_ticker_id r) u)
      (if req_type r = Request_NEW
       then add (req_client_id r) (req_order_id r) (req_ticker_id r) (req_side r) (req_price r) (req_qty r) (array_book N M u)
       else cancel (req_client_id r) (req_order_id r) (req_ticker_id r) (array_book N M u))"
    using assms by (intro follows_if follows_add follows_cancel) auto
  then show ?thesis unfolding u_book_request_def book_request_def prod.case by (rule follows_bind) auto
qed

lemma follows_requests:
  assumes "cancels_low N rs (u, ev)"
  shows "follows (array_reply N M) (rfold u_book_request rs (u, ev)) (rfold book_request rs (array_book N M u, ev))"
  using assms
proof (induction rs arbitrary: u ev)
  case (Cons r rs)
  show ?case unfolding rfold.simps
  proof (rule follows_bind [OF follows_request])
    show "req_type r = Request_NEW \<or> unat (req_client_id r) < min N (length (u_cid_oid_to_order u))"
      by (rule cancels_low_Cons(1) [OF Cons.prems])
    fix x assume "u_book_request r (u, ev) = Inr x"
    then show "follows (array_reply N M) (rfold u_book_request rs x) (rfold book_request rs (array_reply N M x))"
      using Cons.IH [of "fst x" "snd x"] cancels_low_Cons(2) [OF Cons.prems] by (cases x) simp
  qed
qed simp

lemma array_book_new:
  "array_book (ME_MAX_NUM_CLIENTS limits) (ME_MAX_ORDER_IDS limits) (UnorderedMapMEOrderBook_new limits tid) =
     MEOrderBook_new limits True mem tid"
  by (simp add: array_book_def UnorderedMapMEOrderBook_new_def MEOrderBook_new_def arr_fill_def fun_eq_iff)

text \<open>
  C15: The two order books are interchangeable: whatever sequence of requests an array based book serves
  from its construction, the hash map based book serves too, with the same responses and market updates in
  the same order, and ends with the same orders in the same levels.  Cancels are restricted to clients
  whose identifier is below the number of clients seen, which the map based code tests.
\<close>

theorem unordered_map_book_equivalent:
  assumes "rfold book_request rs (MEOrderBook_new limits True mem tid, []) = Inr (b, ev)"
    and "cancels_low (ME_MAX_NUM_CLIENTS limits) rs (UnorderedMapMEOrderBook_new limits tid, [])"
  shows "\<exists>u. rfold u_book_request rs (UnorderedMapMEOrderBook_new limits tid, []) = Inr (u, ev) \<and>
     b = array_book (ME_MAX_NUM_CLIENTS limits) (ME_MAX_ORDER_IDS limits) u"
  using follows_requests [OF assms(2), of "ME_MAX_ORDER_IDS limits"] assms(1)
  by (auto simp: follows_def array_book_new [of limits tid mem])

definition sample_request :: "ClientRequestType \<Rightarrow> ClientId \<Rightarrow> OrderId \<Rightarrow> Side \<Rightarrow> Price \<Rightarrow> Qty \<Rightarrow> MEClientRequest" where
  "sample_request k cid oid side price qty =
     \<lparr>req_type = k, req_client_id = cid, req_ticker_id = 0, req_order_id = oid, req_side = side, req_price = price, req_qty = qty\<rparr>"

definition sample_requests :: "MEClientRequest list" where
  "sample_requests =
     [sample_request Request_NEW 0 1 SELL 10 5, sample_request Request_NEW 1 2 BUY 10 3, sample_request Request_CANCEL 0 1 BUY 0 0]"

definition messages :: "('b \<times> me_event list) res \<Rightarrow> me_event list option" where
  "messages m = (case m of Inl e \<Rightarrow> None | Inr (b, ev) \<Rightarrow> Some ev)"

lemma messages_Some: "messages m = Some ev \<longleftrightarrow> (\<exists>b. m = Inr (b, ev))"
  by (auto simp: messages_def split: sum.splits)

lemma sample_run:
  "\<exists>b ev. rfold book_request sample_requests (MEOrderBook_new small_limits True (\<lambda>_ _. None) 0, []) = Inr (b, ev) \<and> length ev = 9"
proof -
  have "map_option length (messages (rfold book_request sample_requests (MEOrderBook_new small_limits True (\<lambda>_ _. None) 0, []))) = Some 9"
    by code_simp
  then show ?thesis by (auto simp: messages_Some)
qed

theorem unordered_map_book_equivalent_witness:
  "\<exists>u b ev. rfold book_request sample_requests (MEOrderBook_new small_limits True (\<lambda>_ _. None) 0, []) = Inr (b, ev) \<and>
     length ev = 9 \<and> rfold u_book_request sample_requests (UnorderedMapMEOrderBook_new small_limits 0, []) = Inr (u, ev) \<and>
     b = array_book 4 8 u"
proof -
  obtain b ev where b: "rfold book_request sample_requests (MEOrderBook_new small_limits True (\<lambda>_ _. None) 0, []) = Inr (b, ev)" "length ev = 9"
    using sample_run by auto
  have "clients_seen (rfold u_book_request (take 2 sample_requests) (UnorderedMapMEOrderBook_new small_limits 0, [])) = Some 1"
    by code_simp
  then have "cancels_low (ME_MAX_NUM_CLIENTS small_limits) sample_requests (UnorderedMapMEOrderBook_new small_limits 0, [])"
    by (auto simp: cancels_low_def sample_requests_def sample_request_def less_Suc_eq small_limits_def numeral_2_eq_2)
  from unordered_map_book_equivalent [OF b(1) this] b show ?thesis by (auto simp: small_limits_def)
qed

text \<open>
  The map based book rejects the cancel of a resting order when the identifier of its client is not
  below the number of clients seen: client 3 places the only order of the book and cannot cancel it,
  and the order still trades afterwards.  The array based book cancels it.
\<close>

theorem unordered_map_cancel_rejected:
  "map_option (map (\<lambda>e. case e of Response r \<Rightarrow> rsp_type r | Update u \<Rightarrow> Response_INVALID))
     (messages (rfold u_book_request [sample_request Request_NEW 3 2 SELL 10 5, sample_request Request_CANCEL 3 2 SELL 10 5,
        sample_request Request_NEW 0 1 BUY 10 5] (UnorderedMapMEOrderBook_new small_limits 0, []))) =
     Some [ACCEPTED, Response_INVALID, CANCEL_REJECTED, ACCEPTED, FILLED, FILLED, Response_INVALID, Response_INVALID] \<and>
   map_option (map (\<lambda>e. case e of Response r \<Rightarrow> rsp_type r | Update u \<Rightarrow> Response_INVALID))
     (messages (rfold book_request [sample_request Request_NEW 3 2 SELL 10 5, sample_request Request_CANCEL 3 2 SELL 10 5]
        (MEOrderBook_new small_limits True (\<lambda>_ _. None) 0, []))) =
     Some [ACCEPTED, Response_INVALID, Response_INVALID, CANCELED]"
  by (rule conjI; code_simp)

end
