(* ===== verification/Wire.thy ===== *)
theory Wire
  imports Order_Types
begin

text \<open>
  The packed message structures as they travel over TCP and multicast.  The source sends the memory of
  a \<open>#pragma pack(1)\<close> structure and reads it back with a \<open>reinterpret_cast\<close>, so the wire format is the
  concatenation of the members in declaration order, little-endian as on the x86 machines the system
  is built for.  Encoding and decoding are inverse to each other (\<open>decode_encode\<close> lemmas); a byte that
  is no value of an enumeration is read as \<open>INVALID\<close>, which the handlers treat the same way.
\<close>

type_synonym byte = "8 word"

section \<open>Little-endian numbers\<close>

fun le_bytes :: "nat \<Rightarrow> nat \<Rightarrow> byte list" where
  "le_bytes 0 v = []"
| "le_bytes (Suc n) v = of_nat (v mod 256) # le_bytes n (v div 256)"

fun le_val :: "byte list \<Rightarrow> nat" where
  "le_val [] = 0"
| "le_val (x # bs) = unat x + 256 * le_val bs"

lemma length_le_bytes [simp]: "length (le_bytes n v) = n"
  by (induction n arbitrary: v) simp_all

lemma le_val_bytes: "le_val (le_bytes n v) = v mod 256 ^ n"
proof (induction n arbitrary: v)
  case (Suc n)
  have "unat (of_nat (v mod 256) :: byte) = v mod 256" by (simp add: unat_of_nat take_bit_eq_mod)
  then show ?case using Suc by (simp add: mod_mult2_eq)
qed simp

lemma le_val_unat [simp]:
  "le_val (le_bytes 8 (unat (w :: 64 word))) = unat w" "le_val (le_bytes 4 (unat (v :: 32 word))) = unat v"
  using unsigned_less [of w, where ?'a = nat] unsigned_less [of v, where ?'a = nat] by (simp_all add: le_val_bytes)

definition int64_bytes :: "int \<Rightarrow> byte list" where
  "int64_bytes p = le_bytes 8 (nat (p mod 2 ^ 64))"

definition int64_val :: "byte list \<Rightarrow> int" where
  "int64_val bs = (let v = int (le_val bs) in if v < 2 ^ 63 then v else v - 2 ^ 64)"

definition is_int64 :: "int \<Rightarrow> bool" where
  "is_int64 p \<longleftrightarrow> - (2 ^ 63) \<le> p \<and> p < 2 ^ 63"

lemma length_int64 [simp]: "length (int64_bytes p) = 8"
  by (simp add: int64_bytes_def)

lemma int64_val_bytes: "is_int64 p \<Longrightarrow> int64_val (int64_bytes p) = p"
proof -
  assume p: "is_int64 p"
  have "nat (p mod 2 ^ 64) < 2 ^ 64" by (simp add: nat_less_iff)
  then have v: "le_val (int64_bytes p) = nat (p mod 2 ^ 64)" by (simp add: int64_bytes_def le_val_bytes)
  have m: "p mod 2 ^ 64 = (if 0 \<le> p then p else p + 2 ^ 64)"
  proof (cases "0 \<le> p")
    case True
    then show ?thesis using p by (simp add: is_int64_def)
  next
    case False
    then have "(p + 2 ^ 64) mod 2 ^ 64 = p + 2 ^ 64" using p by (intro mod_pos_pos_trivial) (simp_all add: is_int64_def)
    then show ?thesis using False by simp
  qed
  show ?thesis using v m p by (auto simp: int64_val_def Let_def is_int64_def)
qed

text \<open>Member number \<open>i\<close> of a structure, given the offset and the size of the member.\<close>

definition fld :: "nat \<Rightarrow> nat \<Rightarrow> byte list \<Rightarrow> byte list" where
  "fld off n bs = take n (drop off bs)"

lemma fld_0 [simp]: "length xs = n \<Longrightarrow> fld 0 n (xs @ ys) = xs"
  by (simp add: fld_def)

lemma fld_skip: "length xs \<le> off \<Longrightarrow> fld off n (xs @ ys) = fld (off - length xs) n ys"
  by (simp add: fld_def)

section \<open>Enumerations\<close>

definition side_byte :: "Side \<Rightarrow> byte" where
  "side_byte s = of_int (side_rep s)"

definition byte_side :: "byte \<Rightarrow> Side" where
  "byte_side x = (if x = 1 then BUY else if x = 255 then SELL else if x = 2 then Side_MAX else Side_INVALID)"

lemma byte_side_side_byte [simp]: "byte_side (side_byte s) = s"
  by (cases s) (simp_all add: byte_side_def side_byte_def side_rep_def)

definition request_type_byte :: "ClientRequestType \<Rightarrow> byte" where
  "request_type_byte t = (case t of Request_INVALID \<Rightarrow> 0 | Request_NEW \<Rightarrow> 1 | Request_CANCEL \<Rightarrow> 2)"

definition byte_request_type :: "byte \<Rightarrow> ClientRequestType" where
  "byte_request_type x = (if x = 1 then Request_NEW else if x = 2 then Request_CANCEL else Request_INVALID)"

lemma byte_request_type_byte [simp]: "byte_request_type (request_type_byte t) = t"
  by (cases t) (simp_all add: byte_request_type_def request_type_byte_def)

definition response_type_byte :: "ClientResponseType \<Rightarrow> byte" where
  "response_type_byte t =
     (case t of Response_INVALID \<Rightarrow> 0 | ACCEPTED \<Rightarrow> 1 | CANCELED \<Rightarrow> 2 | FILLED \<Rightarrow> 3 | CANCEL_REJECTED \<Rightarrow> 4)"

definition byte_response_type :: "byte \<Rightarrow> ClientResponseType" where
  "byte_response_type x =
     (if x = 1 then ACCEPTED else if x = 2 then CANCELED else if x = 3 then FILLED
      else if x = 4 then CANCEL_REJECTED else Response_INVALID)"

lemma byte_response_type_byte [simp]: "byte_response_type (response_type_byte t) = t"
  by (cases t) (simp_all add: byte_response_type_def response_type_byte_def)

definition update_type_byte :: "MarketUpdateType \<Rightarrow> byte" where
  "update_type_byte t =
     (case t of Update_INVALID \<Rightarrow> 0 | CLEAR \<Rightarrow> 1 | ADD \<Rightarrow> 2 | MODIFY \<Rightarrow> 3 | CANCEL \<Rightarrow> 4 | TRADE \<Rightarrow> 5
        | SNAPSHOT_START \<Rightarrow> 6 | SNAPSHOT_END \<Rightarrow> 7)"

definition byte_update_type :: "byte \<Rightarrow> MarketUpdateType" where
  "byte_update_type x =
     (if x = 1 then CLEAR else if x = 2 then ADD else if x = 3 then MODIFY else if x = 4 then CANCEL
      else if x = 5 then TRADE else if x = 6 then SNAPSHOT_START else if x = 7 then SNAPSHOT_END
      else Update_INVALID)"

lemma byte_update_type_byte [simp]: "byte_update_type (update_type_byte t) = t"
  by (cases t) (simp_all add: byte_update_type_def update_type_byte_def)

section \<open>Structures\<close>

definition encode_request :: "OMClientRequest \<Rightarrow> byte list" where
  "encode_request m =
     (let r = omreq_request m in
      le_bytes 8 (unat (omreq_seq_num m)) @ [request_type_byte (req_type r)] @
      le_bytes 4 (unat (req_client_id r)) @ le_bytes 4 (unat (req_ticker_id r)) @
      le_bytes 8 (unat (req_order_id r)) @ [side_byte (req_side r)] @ int64_bytes (req_price r) @
      le_bytes 4 (unat (req_qty r)))"

definition decode_request :: "byte list \<Rightarrow> OMClientRequest" where
  "decode_request bs =
     \<lparr>omreq_seq_num = of_nat (le_val (fld 0 8 bs)),
      omreq_request = \<lparr>req_type = byte_request_type (bs ! 8),
        req_client_id = of_nat (le_val (fld 9 4 bs)), req_ticker_id = of_nat (le_val (fld 13 4 bs)),
        req_order_id = of_nat (le_val (fld 17 8 bs)), req_side = byte_side (bs ! 25),
        req_price = int64_val (fld 26 8 bs), req_qty = of_nat (le_val (fld 34 4 bs))\<rparr>\<rparr>"

definition sizeof_OMClientRequest :: nat where "sizeof_OMClientRequest = 38"

definition encode_response :: "OMClientResponse \<Rightarrow> byte list" where
  "encode_response m =
     (let r = omrsp_response m in
      le_bytes 8 (unat (omrsp_seq_num m)) @ [response_type_byte (rsp_type r)] @
      le_bytes 4 (unat (rsp_client_id r)) @ le_bytes 4 (unat (rsp_ticker_id r)) @
      le_bytes 8 (unat (rsp_client_order_id r)) @ le_bytes 8 (unat (rsp_market_order_id r)) @
      [side_byte (rsp_side r)] @ int64_bytes (rsp_price r) @
      le_bytes 4 (unat (rsp_exec_qty r)) @ le_bytes 4 (unat (rsp_leaves_qty r)))"

definition decode_response :: "byte list \<Rightarrow> OMClientResponse" where
  "decode_response bs =
     \<lparr>omrsp_seq_num = of_nat (le_val (fld 0 8 bs)),
      omrsp_response = \<lparr>rsp_type = byte_response_type (bs ! 8),
        rsp_client_id = of_nat (le_val (fld 9 4 bs)), rsp_ticker_id = of_nat (le_val (fld 13 4 bs)),
        rsp_client_order_id = of_nat (le_val (fld 17 8 bs)), rsp_market_order_id = of_nat (le_val (fld 25 8 bs)),
        rsp_side = byte_side (bs ! 33), rsp_price = int64_val (fld 34 8 bs),
        rsp_exec_qty = of_nat (le_val (fld 42 4 bs)), rsp_leaves_qty = of_nat (le_val (fld 46 4 bs))\<rparr>\<rparr>"

definition sizeof_OMClientResponse :: nat where "sizeof_OMClientResponse = 50"

definition encode_update :: "MDPMarketUpdate \<Rightarrow> byte list" where
  "encode_update m =
     (let u = mdp_update m in
      le_bytes 8 (unat (mdp_seq_num m)) @ [update_type_byte (upd_type u)] @
      le_bytes 8 (unat (upd_order_id u)) @ le_bytes 4 (unat (upd_ticker_id u)) @
      [side_byte (upd_side u)] @ int64_bytes (upd_price u) @ le_bytes 4 (unat (upd_qty u)) @
      le_bytes 8 (unat (upd_priority u)))"

definition decode_update :: "byte list \<Rightarrow> MDPMarketUpdate" where
  "decode_update bs =
     \<lparr>mdp_seq_num = of_nat (le_val (fld 0 8 bs)),
      mdp_update = \<lparr>upd_type = byte_update_type (bs ! 8),
        upd_order_id = of_nat (le_val (fld 9 8 bs)), upd_ticker_id = of_nat (le_val (fld 17 4 bs)),
        upd_side = byte_side (bs ! 21), upd_price = int64_val (fld 22 8 bs),
        upd_qty = of_nat (le_val (fld 30 4 bs)), upd_priority = of_nat (le_val (fld 34 8 bs))\<rparr>\<rparr>"

definition sizeof_MDPMarketUpdate :: nat where "sizeof_MDPMarketUpdate = 42"

lemma length_encode [simp]:
  "length (encode_request m) = sizeof_OMClientRequest"
  "length (encode_response n) = sizeof_OMClientResponse"
  "length (encode_update k) = sizeof_MDPMarketUpdate"
  by (simp_all add: encode_request_def encode_response_def encode_update_def Let_def
      sizeof_OMClientRequest_def sizeof_OMClientResponse_def sizeof_MDPMarketUpdate_def)

lemma fld_single: "0 < off \<Longrightarrow> fld off n (x # ys) = fld (off - 1) n ys"
  by (cases off) (simp_all add: fld_def)

lemma fld_all [simp]: "length xs = n \<Longrightarrow> fld 0 n xs = xs"
  by (simp add: fld_def)

lemmas layout_simps = fld_skip fld_single nth_append Let_def int64_val_bytes

lemma decode_encode_request:
  "is_int64 (req_price (omreq_request m)) \<Longrightarrow> decode_request (encode_request m) = m"
  by (simp add: decode_request_def encode_request_def layout_simps)

lemma decode_encode_response:
  "is_int64 (rsp_price (omrsp_response m)) \<Longrightarrow> decode_response (encode_response m) = m"
  by (simp add: decode_response_def encode_response_def layout_simps)

lemma decode_encode_update:
  "is_int64 (upd_price (mdp_update m)) \<Longrightarrow> decode_update (encode_update m) = m"
  by (simp add: decode_update_def encode_update_def layout_simps)

end
