(* ===== verification/Sockets.thy ===== *)
theory Sockets
  imports Wire
begin

text \<open>
  \<open>Common::TCPSocket\<close> (\<open>common/tcp_socket.h\<close>, \<open>tcp_socket.cpp\<close>) and \<open>Common::McastSocket\<close>
  (\<open>common/mcast_socket.h\<close>, \<open>mcast_socket.cpp\<close>): the send and receive buffers in front of the kernel.
  The kernel is a parameter: the results that successive \<open>recvmsg()\<close>, \<open>recv()\<close> and \<open>send()\<close> calls
  return are lists, and an exhausted list answers \<open>EAGAIN\<close>.  The receive callback is a function from
  the socket, the receive time and the state of its owner.  Shown is that the TCP send path neither
  loses, duplicates nor reorders bytes.
\<close>

section \<open>Buffers\<close>

text \<open>\<open>memcpy(buf + off, bs, len)\<close> for a range inside the buffer.\<close>

definition put_bytes :: "nat \<Rightarrow> byte list \<Rightarrow> byte list \<Rightarrow> byte list" where
  "put_bytes off bs buf = take off buf @ bs @ drop (off + length bs) buf"

lemma length_put_bytes [simp]: "off + length bs \<le> length buf \<Longrightarrow> length (put_bytes off bs buf) = length buf"
  by (simp add: put_bytes_def)

lemma take_put_bytes: "off + length bs \<le> length buf \<Longrightarrow> take (off + length bs) (put_bytes off bs buf) = take off buf @ bs"
  by (simp add: put_bytes_def)

lemma take_put_bytes_before: "k \<le> off \<Longrightarrow> off \<le> length buf \<Longrightarrow> take k (put_bytes off bs buf) = take k buf"
  by (simp add: put_bytes_def min_def)

section \<open>Framing\<close>

text \<open>
  The loop \<open>for (i = 0; i + sizeof(T) <= next_rcv_valid_index_; i += sizeof(T))\<close> with which every
  receive callback walks the complete messages of its buffer; the rest of the bytes stays.
\<close>

function frames :: "nat \<Rightarrow> (byte list \<Rightarrow> 's \<Rightarrow> 's res) \<Rightarrow> byte list \<Rightarrow> 's \<Rightarrow> (byte list \<times> 's) res" where
  "frames n handle bs st =
     (if 0 < n \<and> n \<le> length bs then rbind (handle (take n bs) st) (frames n handle (drop n bs))
      else Inr (bs, st))"
  by pat_completeness auto
termination
  by (relation "measure (\<lambda>(n, h, bs, st). length bs)") auto

declare frames.simps [simp del]

lemma frames_short [simp]: "length bs < n \<Longrightarrow> frames n h bs st = Inr (bs, st)"
  by (subst frames.simps) simp

lemma frames_step: "0 < n \<Longrightarrow> n \<le> length bs \<Longrightarrow> frames n h bs st = rbind (h (take n bs) st) (frames n h (drop n bs))"
  by (subst frames.simps) simp

lemma frames_Cons: "0 < n \<Longrightarrow> length m = n \<Longrightarrow> frames n h (m @ bs) st = rbind (h m st) (frames n h bs)"
  by (simp add: frames_step)

lemma frames_messages:
  assumes "0 < n" and "\<forall>m\<in>set ms. length m = n"
  shows "frames n h (concat ms) st = rbind (rfold h ms st) (\<lambda>st. Inr ([], st))"
  using assms(2)
proof (induction ms arbitrary: st)
  case (Cons m ms)
  then show ?case by (cases "h m st") (simp_all add: frames_Cons [OF assms(1)])
qed (use assms(1) in simp)

lemma frames_append:
  assumes "0 < n"
  shows "frames n h (xs @ ys) st = rbind (frames n h xs st) (\<lambda>(rest, st). frames n h (rest @ ys) st)"
proof (induction xs arbitrary: st rule: length_induct)
  case (1 xs)
  show ?case
  proof (cases "n \<le> length xs")
    case True
    have "length (drop n xs) < length xs" using True assms by simp
    then have IH: "frames n h (drop n xs @ ys) st' = rbind (frames n h (drop n xs) st') (\<lambda>(rest, st). frames n h (rest @ ys) st)" for st'
      using 1 by blast
    show ?thesis using True assms
      by (cases "h (take n xs) st") (simp_all add: frames_step [of n xs] frames_step [of n "xs @ ys"] IH)
  qed simp
qed

text \<open>The reads of a connection one after the other, each starting with the rest of the one before.\<close>

definition frames_reads :: "nat \<Rightarrow> (byte list \<Rightarrow> 's \<Rightarrow> 's res) \<Rightarrow> byte list list \<Rightarrow> 's \<Rightarrow> (byte list \<times> 's) res" where
  "frames_reads n h reads st = rfold (\<lambda>bs (rest, st). frames n h (rest @ bs) st) reads ([], st)"

lemma frames_rest:
  assumes "0 < n" and "frames n h bs st = Inr (rest, st')"
  shows "length rest < n"
  using assms(2)
proof (induction bs arbitrary: st rule: length_induct)
  case (1 bs)
  show ?case
  proof (cases "n \<le> length bs")
    case True
    then obtain x where "frames n h (drop n bs) x = Inr (rest, st')"
      using 1(2) assms(1) by (auto simp: frames_step rbind_eq_Inr_iff)
    moreover have "length (drop n bs) < length bs" using True assms(1) by simp
    ultimately show ?thesis using 1(1) by blast
  next
    case False
    then show ?thesis using 1(2) by simp
  qed
qed

lemma frames_reads_concat:
  assumes "0 < n"
  shows "frames_reads n h reads st = frames n h (concat reads) st"
proof -
  have "rfold (\<lambda>bs (rest, st). frames n h (rest @ bs) st) reads (r, st) = frames n h (r @ concat reads) st" if "length r < n" for r
    using that
  proof (induction reads arbitrary: r st)
    case (Cons bs reads)
    show ?case
    proof (cases "frames n h (r @ bs) st")
      case (Inr x)
      then obtain rest st' where "frames n h (r @ bs) st = Inr (rest, st')" by (cases x) auto
      then show ?thesis using Cons.IH [OF frames_rest [OF assms]]
        by (simp add: frames_append [OF assms, of h "r @ bs" "concat reads"] flip: append_assoc)
    qed (simp add: frames_append [OF assms, of h "r @ bs" "concat reads"] flip: append_assoc)
  qed (simp add: frames_short)
  then show ?thesis using assms by (simp add: frames_reads_def)
qed

section \<open>TCP\<close>

record TCPSocket =
  socket_fd :: int
  closed :: bool
  outbound_data :: "byte list"
  next_send_index :: nat
  next_send_valid_index :: nat
  inbound_data :: "byte list"
  next_rcv_valid_index :: nat

definition TCPSocket_new :: "nat \<Rightarrow> TCPSocket" where
  "TCPSocket_new TCPBufferSize =
     \<lparr>socket_fd = - 1, closed = False, outbound_data = replicate TCPBufferSize 0, next_send_index = 0,
      next_send_valid_index = 0, inbound_data = replicate TCPBufferSize 0, next_rcv_valid_index = 0\<rparr>"

text \<open>\<open>connect()\<close>, given the descriptor that \<open>createSocket()\<close> returns.\<close>

definition tcp_connect :: "int \<Rightarrow> TCPSocket \<Rightarrow> TCPSocket" where
  "tcp_connect fd sock = sock\<lparr>socket_fd := fd, closed := fd < 0\<rparr>"

definition closeSocket :: "TCPSocket \<Rightarrow> TCPSocket" where
  "closeSocket sock = sock\<lparr>socket_fd := (if socket_fd sock \<ge> 0 then - 1 else socket_fd sock), closed := True\<rparr>"

definition tcp_send :: "byte list \<Rightarrow> TCPSocket \<Rightarrow> TCPSocket res" where
  "tcp_send dat sock =
     (if closed sock then Inr sock
      else
        let sock =
          (if next_send_valid_index sock + length dat > length (outbound_data sock) \<and> next_send_index sock > 0
           then
             (let pending = next_send_valid_index sock - next_send_index sock in
              sock\<lparr>outbound_data := put_bytes 0 (take pending (drop (next_send_index sock) (outbound_data sock)))
                     (outbound_data sock),
                   next_send_index := 0, next_send_valid_index := pending\<rparr>)
           else sock)
        in
        rbind (ASSERT (next_send_valid_index sock + length dat \<le> length (outbound_data sock))
                 ''TCPSocket outbound buffer capacity exceeded.'') (\<lambda>_.
        Inr (sock\<lparr>outbound_data := put_bytes (next_send_valid_index sock) dat (outbound_data sock),
                  next_send_valid_index := next_send_valid_index sock + length dat\<rparr>)))"

datatype recv_result = RecvData "byte list" Nanos | RecvEof | RecvEINTR | RecvEAGAIN | RecvError

type_synonym 's recv_callback = "TCPSocket \<Rightarrow> Nanos \<Rightarrow> 's \<Rightarrow> (TCPSocket \<times> 's) res"

text \<open>The receive loop of \<open>sendAndRecv()\<close>.\<close>

fun tcp_recv_loop ::
  "'s recv_callback \<Rightarrow> recv_result list \<Rightarrow> TCPSocket \<Rightarrow> 's \<Rightarrow> bool \<Rightarrow> (TCPSocket \<times> 's \<times> bool) res" where
  "tcp_recv_loop cb [] sock st received = Inr (sock, st, received)"
| "tcp_recv_loop cb (r # rs) sock st received =
     (if closed sock \<or> next_rcv_valid_index sock = length (inbound_data sock) then Inr (sock, st, received)
      else case r of
        RecvData bs kernel_time \<Rightarrow>
          rbind (cb (sock\<lparr>inbound_data := put_bytes (next_rcv_valid_index sock) bs (inbound_data sock),
                         next_rcv_valid_index := next_rcv_valid_index sock + length bs\<rparr>) kernel_time st)
            (\<lambda>(sock, st). tcp_recv_loop cb rs sock st True)
      | RecvEof \<Rightarrow> Inr (closeSocket sock, st, received)
      | RecvEINTR \<Rightarrow> tcp_recv_loop cb rs sock st received
      | RecvEAGAIN \<Rightarrow> Inr (sock, st, received)
      | RecvError \<Rightarrow> Inr (closeSocket sock, st, received))"

text \<open>
  The send loop.  The last component collects the bytes the kernel accepted.  A result \<open>Sent n\<close> with
  \<open>n > 0\<close> is a partial or complete write; \<open>SendFailed\<close> stands for \<open>n = 0\<close> and for any other error.
\<close>

datatype send_result = Sent nat | SendEINTR | SendEAGAIN | SendFailed

fun tcp_send_loop :: "send_result list \<Rightarrow> TCPSocket \<Rightarrow> byte list \<Rightarrow> TCPSocket \<times> byte list" where
  "tcp_send_loop [] sock wire = (sock, wire)"
| "tcp_send_loop (r # rs) sock wire =
     (if closed sock \<or> next_send_index sock \<ge> next_send_valid_index sock then (sock, wire)
      else case r of
        Sent n \<Rightarrow>
          tcp_send_loop rs (sock\<lparr>next_send_index := next_send_index sock + n\<rparr>)
            (wire @ take n (drop (next_send_index sock) (outbound_data sock)))
      | SendEINTR \<Rightarrow> tcp_send_loop rs sock wire
      | SendEAGAIN \<Rightarrow> (sock, wire)
      | SendFailed \<Rightarrow> (closeSocket sock, wire))"

definition tcp_sendAndRecv ::
  "'s recv_callback \<Rightarrow> recv_result list \<Rightarrow> send_result list \<Rightarrow> TCPSocket \<Rightarrow> 's \<Rightarrow>
   (TCPSocket \<times> 's \<times> byte list \<times> bool) res" where
  "tcp_sendAndRecv cb recvs sends sock st =
     (if closed sock \<or> socket_fd sock < 0 then Inr (sock, st, [], False)
      else
        rbind (tcp_recv_loop cb recvs sock st False) (\<lambda>(sock, st, received).
          let (sock, wire) = tcp_send_loop sends sock [];
              sock = (if next_send_index sock = next_send_valid_index sock
                      then sock\<lparr>next_send_index := 0, next_send_valid_index := 0\<rparr> else sock)
          in Inr (sock, st, wire, received)))"

section \<open>The TCP send stream\<close>

definition pending_out :: "TCPSocket \<Rightarrow> byte list" where
  "pending_out sock = drop (next_send_index sock) (take (next_send_valid_index sock) (outbound_data sock))"

definition tcp_ok :: "TCPSocket \<Rightarrow> bool" where
  "tcp_ok sock \<longleftrightarrow> next_send_index sock \<le> next_send_valid_index sock \<and>
     next_send_valid_index sock \<le> length (outbound_data sock) \<and>
     next_rcv_valid_index sock \<le> length (inbound_data sock)"

lemma tcp_send_pending:
  assumes "tcp_ok sock" and "\<not> closed sock" and "length (pending_out sock) + length dat \<le> length (outbound_data sock)"
  shows "\<exists>sock'. tcp_send dat sock = Inr sock' \<and> tcp_ok sock' \<and> \<not> closed sock' \<and> pending_out sock' = pending_out sock @ dat \<and>
     length (outbound_data sock') = length (outbound_data sock) \<and>
     inbound_data sock' = inbound_data sock \<and> next_rcv_valid_index sock' = next_rcv_valid_index sock"
proof -
  let ?i = "next_send_index sock" and ?v = "next_send_valid_index sock" and ?o = "outbound_data sock"
  have ok: "?i \<le> ?v" "?v \<le> length ?o" using assms(1) by (auto simp: tcp_ok_def)
  have pl: "length (pending_out sock) = ?v - ?i" using ok by (simp add: pending_out_def)
  show ?thesis
  proof (cases "?v + length dat > length ?o \<and> ?i > 0")
    case True
    have p: "take (?v - ?i) (drop ?i ?o) = pending_out sock" using ok by (simp add: pending_out_def drop_take)
    have len: "length (put_bytes 0 (pending_out sock) ?o) = length ?o" using ok pl by simp
    have "take (?v - ?i) (put_bytes 0 (pending_out sock) ?o) = pending_out sock"
      using take_put_bytes [of 0 "pending_out sock" ?o] pl ok by simp
    then have "take (?v - ?i + length dat) (put_bytes (?v - ?i) dat (put_bytes 0 (pending_out sock) ?o)) = pending_out sock @ dat"
      using take_put_bytes [of "?v - ?i" dat "put_bytes 0 (pending_out sock) ?o"] len assms(3) pl by simp
    then show ?thesis using True assms p pl len
      by (simp add: tcp_send_def Let_def tcp_ok_def pending_out_def [of "_\<lparr>next_send_valid_index := _\<rparr>"])
  next
    case False
    then have le: "?v + length dat \<le> length ?o" using assms(3) pl by auto
    have "pending_out (sock\<lparr>outbound_data := put_bytes ?v dat ?o, next_send_valid_index := ?v + length dat\<rparr>) = pending_out sock @ dat"
      using take_put_bytes [OF le] ok by (simp add: pending_out_def)
    then show ?thesis using False assms le by (auto simp: tcp_send_def Let_def tcp_ok_def)
  qed
qed

text \<open>A message sent in two parts, sequence number and body.\<close>

lemma tcp_send_parts:
  assumes "tcp_ok sock" and "\<not> closed sock" and "length (pending_out sock) + length m \<le> length (outbound_data sock)"
  shows "\<exists>sock' sock''. tcp_send (take k m) sock = Inr sock' \<and> tcp_send (drop k m) sock' = Inr sock'' \<and>
     tcp_ok sock'' \<and> \<not> closed sock'' \<and> pending_out sock'' = pending_out sock @ m \<and>
     length (outbound_data sock'') = length (outbound_data sock)"
proof -
  obtain s1 where s1: "tcp_send (take k m) sock = Inr s1" "tcp_ok s1" "\<not> closed s1"
    "pending_out s1 = pending_out sock @ take k m" "length (outbound_data s1) = length (outbound_data sock)"
    using tcp_send_pending [OF assms(1,2), of "take k m"] assms(3) by force
  have "length (pending_out s1) + length (drop k m) \<le> length (outbound_data s1)" using s1(4,5) assms(3) by auto
  then show ?thesis using tcp_send_pending [OF s1(2,3), of "drop k m"] s1 by auto
qed

text \<open>\<open>send()\<close> accepts at least one and at most as many bytes as it is offered.\<close>

fun sends_fit :: "send_result list \<Rightarrow> nat \<Rightarrow> bool" where
  "sends_fit [] k = True"
| "sends_fit (r # rs) k =
     (k = 0 \<or> (case r of Sent n \<Rightarrow> 0 < n \<and> n \<le> k \<and> sends_fit rs (k - n) | SendEINTR \<Rightarrow> sends_fit rs k | _ \<Rightarrow> True))"

lemma pending_closeSocket [simp]: "pending_out (closeSocket sock) = pending_out sock" "tcp_ok (closeSocket sock) = tcp_ok sock"
  by (simp_all add: closeSocket_def pending_out_def tcp_ok_def)

lemma length_pending: "tcp_ok sock \<Longrightarrow> length (pending_out sock) = next_send_valid_index sock - next_send_index sock"
  by (simp add: pending_out_def tcp_ok_def)

lemma tcp_send_loop_stream:
  assumes "tcp_send_loop rs sock wire = (sock', wire')" and "tcp_ok sock" and "sends_fit rs (length (pending_out sock))"
  shows "wire' @ pending_out sock' = wire @ pending_out sock \<and> tcp_ok sock'"
  using assms
proof (induction rs arbitrary: sock wire)
  case (Cons r rs)
  let ?i = "next_send_index sock" and ?v = "next_send_valid_index sock"
  show ?case
  proof (cases "closed sock \<or> ?i \<ge> ?v")
    case True
    then show ?thesis using Cons.prems by auto
  next
    case False
    then have k: "length (pending_out sock) \<noteq> 0" using length_pending [OF Cons.prems(2)] by simp
    show ?thesis
    proof (cases r)
      case (Sent n)
      let ?s = "sock\<lparr>next_send_index := ?i + n\<rparr>"
      have n: "0 < n" "n \<le> length (pending_out sock)" "sends_fit rs (length (pending_out sock) - n)"
        using Cons.prems(3) k Sent by auto
      have ok: "tcp_ok ?s" using Cons.prems(2) n(2) length_pending [OF Cons.prems(2)] by (auto simp: tcp_ok_def)
      have p: "pending_out ?s = drop n (pending_out sock)" by (simp add: pending_out_def add.commute)
      have t: "take n (drop ?i (outbound_data sock)) = take n (pending_out sock)"
        using n(2) length_pending [OF Cons.prems(2)] Cons.prems(2) by (simp add: pending_out_def drop_take tcp_ok_def min_def)
      have "tcp_send_loop rs ?s (wire @ take n (pending_out sock)) = (sock', wire')"
        using Cons.prems(1) False Sent t by simp
      then show ?thesis using Cons.IH [of ?s] ok n(3) p by simp
    qed (use Cons False k in auto)
  qed
qed simp

text \<open>A pass over a socket that receives nothing and on which no send fails.\<close>

lemma tcp_send_loop_open:
  assumes "tcp_send_loop rs sock wire = (sock', wire')" and "SendFailed \<notin> set rs"
  shows "closed sock' = closed sock \<and> outbound_data sock' = outbound_data sock"
  using assms by (induction rs arbitrary: sock wire) (auto split: if_splits send_result.splits)

lemma tcp_pump:
  assumes "tcp_ok sock" and "\<not> closed sock" and "0 \<le> socket_fd sock" and "sends_fit sends (length (pending_out sock))"
    and "SendFailed \<notin> set sends"
  shows "\<exists>sock' out. tcp_sendAndRecv cb [] sends sock st = Inr (sock', st, out, False) \<and> tcp_ok sock' \<and> \<not> closed sock' \<and>
     out @ pending_out sock' = pending_out sock \<and> length (outbound_data sock') = length (outbound_data sock)"
proof -
  obtain s1 out where l: "tcp_send_loop sends sock [] = (s1, out)" by fastforce
  have s1: "out @ pending_out s1 = pending_out sock" "tcp_ok s1" "\<not> closed s1" "outbound_data s1 = outbound_data sock"
    using tcp_send_loop_stream [OF l assms(1,4)] tcp_send_loop_open [OF l assms(5)] assms(2) by simp_all
  let ?s = "if next_send_index s1 = next_send_valid_index s1 then s1\<lparr>next_send_index := 0, next_send_valid_index := 0\<rparr> else s1"
  have "tcp_ok ?s" "\<not> closed ?s" "pending_out ?s = pending_out s1" "outbound_data ?s = outbound_data sock"
    using s1 by (auto simp: tcp_ok_def pending_out_def)
  then show ?thesis using l assms(2,3) s1(1) by (auto simp: tcp_sendAndRecv_def Let_def)
qed

definition keeps_out :: "'s recv_callback \<Rightarrow> bool" where
  "keeps_out cb \<longleftrightarrow>
     (\<forall>sock t st sock' st'. cb sock t st = Inr (sock', st') \<longrightarrow>
        outbound_data sock' = outbound_data sock \<and> next_send_index sock' = next_send_index sock \<and>
        next_send_valid_index sock' = next_send_valid_index sock \<and>
        next_rcv_valid_index sock' \<le> length (inbound_data sock') \<and> length (inbound_data sock') = length (inbound_data sock))"

lemma tcp_recv_loop_out:
  assumes "tcp_recv_loop cb rs sock st rcv = Inr (sock', st', rcv')" and "keeps_out cb" and "tcp_ok sock"
  shows "pending_out sock' = pending_out sock \<and> tcp_ok sock'"
  using assms(1,3)
proof (induction rs arbitrary: sock st rcv)
  case (Cons r rs)
  show ?case
  proof (cases "closed sock \<or> next_rcv_valid_index sock = length (inbound_data sock)")
    case False
    show ?thesis
    proof (cases r)
      case (RecvData bs t)
      let ?s = "sock\<lparr>inbound_data := put_bytes (next_rcv_valid_index sock) bs (inbound_data sock),
                     next_rcv_valid_index := next_rcv_valid_index sock + length bs\<rparr>"
      obtain s1 st1 where cb: "cb ?s t st = Inr (s1, st1)" "tcp_recv_loop cb rs s1 st1 True = Inr (sock', st', rcv')"
        using Cons.prems(1) False RecvData by (auto simp: rbind_eq_Inr_iff)
      have s1: "outbound_data s1 = outbound_data sock" "next_send_index s1 = next_send_index sock"
        "next_send_valid_index s1 = next_send_valid_index sock" "next_rcv_valid_index s1 \<le> length (inbound_data s1)"
        using assms(2) cb(1) unfolding keeps_out_def by fastforce+
      have "pending_out s1 = pending_out sock" "tcp_ok s1"
        using Cons.prems(2) s1 by (simp_all add: pending_out_def tcp_ok_def)
      then show ?thesis using Cons.IH [OF cb(2)] by simp
    qed (use Cons False in auto)
  qed (use Cons.prems in auto)
qed simp

text \<open>The life of a connection: \<open>sent\<close> is what was handed to \<open>send()\<close> while open, \<open>wire\<close> what the kernel took.\<close>

inductive tcp_life :: "'s recv_callback \<Rightarrow> nat \<Rightarrow> TCPSocket \<Rightarrow> 's \<Rightarrow> byte list \<Rightarrow> byte list \<Rightarrow> bool" for cb n where
  opened: "fd \<ge> 0 \<Longrightarrow> tcp_life cb n (tcp_connect fd (TCPSocket_new n)) st [] []"
| queue: "tcp_life cb n sock st wire sent \<Longrightarrow> \<not> closed sock \<Longrightarrow> tcp_send dat sock = Inr sock' \<Longrightarrow>
    tcp_life cb n sock' st wire (sent @ dat)"
| drop: "tcp_life cb n sock st wire sent \<Longrightarrow> closed sock \<Longrightarrow> tcp_send dat sock = Inr sock' \<Longrightarrow>
    tcp_life cb n sock' st wire sent"
| pump: "tcp_life cb n sock st wire sent \<Longrightarrow>
    tcp_sendAndRecv cb recvs sends sock st = Inr (sock', st', out, rcv) \<Longrightarrow>
    sends_fit sends (length (pending_out sock)) \<Longrightarrow> tcp_life cb n sock' st' (wire @ out) sent"

lemma tcp_send_result:
  assumes "tcp_ok sock" and "\<not> closed sock" and "tcp_send dat sock = Inr sock'"
  shows "tcp_ok sock' \<and> pending_out sock' = pending_out sock @ dat"
proof -
  have "length (pending_out sock) + length dat \<le> length (outbound_data sock)"
    using assms length_pending [OF assms(1)] by (auto simp: tcp_send_def Let_def tcp_ok_def ASSERT_def split: if_splits)
  then show ?thesis using tcp_send_pending [OF assms(1,2), of dat] assms(3) by auto
qed

lemma tcp_life_stream:
  assumes "tcp_life cb n sock st wire sent" and "keeps_out cb"
  shows "tcp_ok sock \<and> wire @ pending_out sock = sent"
  using assms(1)
proof induction
  case (opened fd st)
  then show ?case by (simp add: tcp_ok_def pending_out_def tcp_connect_def TCPSocket_new_def)
next
  case (queue sock st wire sent dat sock')
  then show ?case using tcp_send_result [of sock dat sock'] by auto
next
  case (drop sock st wire sent dat sock')
  then show ?case by (simp add: tcp_send_def)
next
  case (pump sock st wire sent recvs sends sock' st' out rcv)
  show ?case
  proof (cases "closed sock \<or> socket_fd sock < 0")
    case True
    then show ?thesis using pump by (simp add: tcp_sendAndRecv_def)
  next
    case False
    obtain s1 st1 r1 where r: "tcp_recv_loop cb recvs sock st False = Inr (s1, st1, r1)"
      using pump.hyps(2) False by (auto simp: tcp_sendAndRecv_def rbind_eq_Inr_iff)
    obtain s2 w where w: "tcp_send_loop sends s1 [] = (s2, w)" using prod.exhaust by blast
    have s: "tcp_recv_loop cb recvs sock st False = Inr (s1, st', rcv)" "tcp_send_loop sends s1 [] = (s2, out)"
      "sock' = (if next_send_index s2 = next_send_valid_index s2
                then s2\<lparr>next_send_index := 0, next_send_valid_index := 0\<rparr> else s2)"
      using pump.hyps(2) False r w by (auto simp: tcp_sendAndRecv_def Let_def)
    have 1: "pending_out s1 = pending_out sock \<and> tcp_ok s1"
      using tcp_recv_loop_out [OF s(1) assms(2)] pump.IH by simp
    then have "out @ pending_out s2 = pending_out s1 \<and> tcp_ok s2"
      using tcp_send_loop_stream [OF s(2)] pump.hyps(3) by simp
    moreover have "pending_out sock' = pending_out s2" "tcp_ok s2 \<Longrightarrow> tcp_ok sock'"
      using s(3) by (auto simp: pending_out_def tcp_ok_def)
    ultimately show ?thesis using 1 pump.IH by auto
  qed
qed

text \<open>
  C28: a TCP connection is a stream.  At every point of the life of a socket whose receive callback
  leaves the send buffer alone, the bytes the kernel has accepted followed by the bytes still in the
  send buffer are exactly the bytes handed to \<open>send()\<close> while the socket was open, in order, through any
  number of partial writes, interrupts and compactions of the buffer.
\<close>

theorem tcp_stream:
  assumes "tcp_life cb n sock st wire sent" and "keeps_out cb"
  shows "wire @ pending_out sock = sent"
  using tcp_life_stream [OF assms] by simp

definition sink :: "unit recv_callback" where
  "sink sock t st = Inr (sock\<lparr>next_rcv_valid_index := 0\<rparr>, st)"

theorem tcp_stream_witness:
  "\<exists>sock. tcp_life sink 4 sock () [7] [7, 8] \<and> [7] @ pending_out sock = [7, 8]"
proof -
  let ?s0 = "tcp_connect 3 (TCPSocket_new 4)"
  let ?s1 = "?s0\<lparr>outbound_data := [7, 8, 0, 0], next_send_valid_index := 2\<rparr>"
  have 1: "tcp_life sink 4 ?s1 () [] ([] @ [7, 8])"
    by (rule tcp_life.queue [OF tcp_life.opened [where fd = 3]])
      (simp_all add: tcp_connect_def TCPSocket_new_def tcp_send_def put_bytes_def Let_def numeral_eq_Suc)
  have 2: "tcp_life sink 4 (?s1\<lparr>next_send_index := 1\<rparr>) () ([] @ [7]) ([] @ [7, 8])"
    by (rule tcp_life.pump [OF 1, where recvs = "[]" and sends = "[Sent 1, SendEAGAIN]" and rcv = False])
      (simp_all add: tcp_sendAndRecv_def tcp_connect_def TCPSocket_new_def pending_out_def)
  have "keeps_out sink" by (simp add: keeps_out_def sink_def)
  from tcp_stream [OF 2 this] 2 show ?thesis by (intro exI [of _ "?s1\<lparr>next_send_index := 1\<rparr>"]) simp
qed


section \<open>Multicast\<close>

record McastSocket =
  mc_socket_fd :: int
  mc_outbound_data :: "byte list"
  mc_next_send_valid_index :: nat
  mc_inbound_data :: "byte list"
  mc_next_rcv_valid_index :: nat

definition McastSocket_new :: "nat \<Rightarrow> McastSocket" where
  "McastSocket_new McastBufferSize =
     \<lparr>mc_socket_fd = - 1, mc_outbound_data = replicate McastBufferSize 0, mc_next_send_valid_index = 0,
      mc_inbound_data = replicate McastBufferSize 0, mc_next_rcv_valid_index = 0\<rparr>"

definition mcast_init :: "int \<Rightarrow> McastSocket \<Rightarrow> McastSocket" where
  "mcast_init fd sock = sock\<lparr>mc_socket_fd := fd\<rparr>"

definition mcast_leave :: "McastSocket \<Rightarrow> McastSocket" where
  "mcast_leave sock = sock\<lparr>mc_socket_fd := - 1\<rparr>"

text \<open>The copy comes before the test of the capacity, so a message that does not fit is written past the buffer.\<close>

definition mcast_send :: "byte list \<Rightarrow> McastSocket \<Rightarrow> McastSocket res" where
  "mcast_send dat sock =
     (let v = mc_next_send_valid_index sock in
      if v + length dat > length (mc_outbound_data sock) then Inl BadIndex
      else
        rbind (ASSERT (v + length dat < length (mc_outbound_data sock))
                 ''Mcast socket buffer filled up and sendAndRecv() not called.'') (\<lambda>_.
        Inr (sock\<lparr>mc_outbound_data := put_bytes v dat (mc_outbound_data sock),
                  mc_next_send_valid_index := v + length dat\<rparr>)))"

type_synonym 's mcast_callback = "McastSocket \<Rightarrow> 's \<Rightarrow> (McastSocket \<times> 's) res"

text \<open>
  \<open>sendAndRecv()\<close>, given the bytes that \<open>recv()\<close> delivers (none when there is nothing to read).  The
  third component of the result is the datagram handed to the kernel.
\<close>

definition mcast_sendAndRecv ::
  "'s mcast_callback \<Rightarrow> byte list \<Rightarrow> McastSocket \<Rightarrow> 's \<Rightarrow> (McastSocket \<times> 's \<times> byte list \<times> bool) res" where
  "mcast_sendAndRecv cb rcv sock st =
     rbind (if rcv \<noteq> [] then
              cb (sock\<lparr>mc_inbound_data := put_bytes (mc_next_rcv_valid_index sock) rcv (mc_inbound_data sock),
                      mc_next_rcv_valid_index := mc_next_rcv_valid_index sock + length rcv\<rparr>) st
            else Inr (sock, st)) (\<lambda>(sock, st).
       Inr (sock\<lparr>mc_next_send_valid_index := 0\<rparr>, st,
            take (mc_next_send_valid_index sock) (mc_outbound_data sock), rcv \<noteq> []))"

lemma mcast_send_ok:
  assumes "mc_next_send_valid_index sock + length dat < length (mc_outbound_data sock)"
  shows "\<exists>sock'. mcast_send dat sock = Inr sock' \<and>
     take (mc_next_send_valid_index sock') (mc_outbound_data sock') =
       take (mc_next_send_valid_index sock) (mc_outbound_data sock) @ dat \<and>
     mc_next_send_valid_index sock' = mc_next_send_valid_index sock + length dat \<and>
     length (mc_outbound_data sock') = length (mc_outbound_data sock) \<and>
     mc_inbound_data sock' = mc_inbound_data sock \<and> mc_next_rcv_valid_index sock' = mc_next_rcv_valid_index sock"
  using assms take_put_bytes [of "mc_next_send_valid_index sock" dat "mc_outbound_data sock"]
  by (auto simp: mcast_send_def Let_def)

lemma mcast_send_all:
  assumes "mc_next_send_valid_index sock + length (concat ms) < length (mc_outbound_data sock)"
  shows "\<exists>sock'. rfold mcast_send ms sock = Inr sock' \<and>
     take (mc_next_send_valid_index sock') (mc_outbound_data sock') =
       take (mc_next_send_valid_index sock) (mc_outbound_data sock) @ concat ms \<and>
     mc_next_send_valid_index sock' = mc_next_send_valid_index sock + length (concat ms) \<and>
     length (mc_outbound_data sock') = length (mc_outbound_data sock) \<and>
     mc_inbound_data sock' = mc_inbound_data sock \<and> mc_next_rcv_valid_index sock' = mc_next_rcv_valid_index sock"
  using assms
proof (induction ms arbitrary: sock)
  case (Cons m ms)
  obtain s1 where s1: "mcast_send m sock = Inr s1"
    "take (mc_next_send_valid_index s1) (mc_outbound_data s1) = take (mc_next_send_valid_index sock) (mc_outbound_data sock) @ m"
    "mc_next_send_valid_index s1 = mc_next_send_valid_index sock + length m"
    "length (mc_outbound_data s1) = length (mc_outbound_data sock)"
    "mc_inbound_data s1 = mc_inbound_data sock" "mc_next_rcv_valid_index s1 = mc_next_rcv_valid_index sock"
    using mcast_send_ok [of sock m] Cons.prems by auto
  then show ?case using Cons.IH [of s1] Cons.prems by (simp add: add.assoc)
qed simp

text \<open>
  the messages given to a multicast socket between two calls of \<open>sendAndRecv()\<close>, as long as they
  stay below the size of the buffer, leave as one datagram that is their concatenation, and the send
  buffer is then empty.
\<close>

theorem mcast_datagram:
  assumes "mc_next_send_valid_index sock = 0" and "length (concat ms) < length (mc_outbound_data sock)"
  shows "\<exists>sock' sock''. rfold mcast_send ms sock = Inr sock' \<and>
     mcast_sendAndRecv cb [] sock' st = Inr (sock'', st, concat ms, False) \<and> mc_next_send_valid_index sock'' = 0"
  using mcast_send_all [of sock ms] assms by (auto simp: mcast_sendAndRecv_def)

theorem mcast_datagram_witness:
  "\<exists>sock' sock''. rfold mcast_send [[1, 2], [3]] (McastSocket_new 8) = Inr sock' \<and>
     mcast_sendAndRecv (\<lambda>sock st. Inr (sock, st)) [] sock' () = Inr (sock'', (), [1, 2, 3], False)"
  using mcast_datagram [of "McastSocket_new 8" "[[1, 2], [3]]" "\<lambda>sock st. Inr (sock, st)" "()"]
  by (auto simp: McastSocket_new_def)

section \<open>The TCP server\<close>

text \<open>
  Sockets are created on the heap; a pointer to one is its index.  The listening socket is number 0.
\<close>

record TCPServer =
  epoll_fd :: int
  tcp_sockets :: "nat \<Rightarrow> TCPSocket"
  num_sockets :: nat
  receive_sockets :: "nat list"
  send_sockets :: "nat list"

definition TCPServer_new :: "nat \<Rightarrow> TCPServer" where
  "TCPServer_new n =
     \<lparr>epoll_fd = - 1, tcp_sockets = (\<lambda>_. TCPSocket_new n), num_sockets = 1, receive_sockets = [], send_sockets = []\<rparr>"

text \<open>\<open>listen()\<close>, given the results of \<open>epoll_create()\<close>, \<open>createSocket()\<close> and \<open>epoll_ctl()\<close>.\<close>

definition tcp_listen :: "int \<Rightarrow> int \<Rightarrow> bool \<Rightarrow> TCPServer \<Rightarrow> TCPServer res" where
  "tcp_listen efd fd ctl_ok srv =
     rbind (ASSERT (efd \<ge> 0) ''epoll_create() failed'') (\<lambda>_.
     rbind (ASSERT (fd \<ge> 0) ''Listener socket failed to connect.'') (\<lambda>_.
     rbind (ASSERT ctl_ok ''epoll_ctl() failed.'') (\<lambda>_.
     Inr (srv\<lparr>epoll_fd := efd, tcp_sockets := (tcp_sockets srv)(0 := tcp_connect fd (tcp_sockets srv 0))\<rparr>))))"

definition push_new :: "nat \<Rightarrow> nat list \<Rightarrow> nat list" where
  "push_new x xs = (if x \<in> set xs then xs else xs @ [x])"

record epoll_event =
  ev_socket :: nat
  ev_in :: bool
  ev_out :: bool
  ev_err :: bool

text \<open>The body of the event loop of \<open>poll()\<close>: the flag says that the listener has a connection waiting.\<close>

definition poll_event :: "epoll_event \<Rightarrow> TCPServer \<times> bool \<Rightarrow> TCPServer \<times> bool" where
  "poll_event ev = (\<lambda>(srv, new).
     if ev_in ev \<and> ev_socket ev = 0 then (srv, True)
     else
       let srv = (if ev_in ev then srv\<lparr>receive_sockets := push_new (ev_socket ev) (receive_sockets srv)\<rparr> else srv);
           srv = (if ev_out ev then srv\<lparr>send_sockets := push_new (ev_socket ev) (send_sockets srv)\<rparr> else srv);
           srv = (if ev_err ev then srv\<lparr>receive_sockets := push_new (ev_socket ev) (receive_sockets srv)\<rparr> else srv)
       in (srv, new))"

text \<open>One accepted connection: its descriptor and whether the options and \<open>epoll_ctl()\<close> succeed.\<close>

definition accept_socket :: "nat \<Rightarrow> int \<times> bool \<times> bool \<Rightarrow> TCPServer \<Rightarrow> TCPServer res" where
  "accept_socket n = (\<lambda>(fd, opts_ok, ctl_ok) srv.
     rbind (ASSERT opts_ok ''Failed to set non-blocking or no-delay on socket'') (\<lambda>_.
       let s = num_sockets srv;
           srv = srv\<lparr>tcp_sockets := (tcp_sockets srv)(s := (TCPSocket_new n)\<lparr>socket_fd := fd\<rparr>), num_sockets := s + 1\<rparr>
       in
       rbind (ASSERT ctl_ok ''Unable to add socket.'') (\<lambda>_.
       Inr (srv\<lparr>receive_sockets := push_new s (receive_sockets srv)\<rparr>))))"

definition tcp_poll :: "nat \<Rightarrow> epoll_event list \<Rightarrow> (int \<times> bool \<times> bool) list \<Rightarrow> TCPServer \<Rightarrow> TCPServer res" where
  "tcp_poll n events accepts srv =
     (let (srv, have_new_connection) = fold poll_event events (srv, False) in
      if have_new_connection then rfold (accept_socket n) accepts srv else Inr srv)"

text \<open>
  \<open>sendAndRecv()\<close> of the server: \<open>recvs\<close> and \<open>sends\<close> are the kernel's answers per socket, for the
  receive sockets and then for the send sockets; \<open>wires\<close> collects what each socket sent.
\<close>

definition pump_socket ::
  "(nat \<Rightarrow> 's recv_callback) \<Rightarrow> (nat \<Rightarrow> recv_result list) \<Rightarrow> (nat \<Rightarrow> send_result list) \<Rightarrow> nat \<Rightarrow>
   TCPServer \<times> 's \<times> bool \<times> (nat \<Rightarrow> byte list) \<Rightarrow> (TCPServer \<times> 's \<times> bool \<times> (nat \<Rightarrow> byte list)) res" where
  "pump_socket cb recvs sends s = (\<lambda>(srv, st, recv, wires).
     rbind (tcp_sendAndRecv (cb s) (recvs s) (sends s) (tcp_sockets srv s) st) (\<lambda>(sock, st, out, r).
     Inr (srv\<lparr>tcp_sockets := (tcp_sockets srv)(s := sock)\<rparr>, st, recv \<or> r, wires(s := wires s @ out))))"

definition tcp_server_sendAndRecv ::
  "(nat \<Rightarrow> 's recv_callback) \<Rightarrow> ('s \<Rightarrow> 's res) \<Rightarrow> (nat \<Rightarrow> recv_result list) \<Rightarrow> (nat \<Rightarrow> send_result list) \<Rightarrow>
   (nat \<Rightarrow> recv_result list) \<Rightarrow> (nat \<Rightarrow> send_result list) \<Rightarrow> TCPServer \<Rightarrow> 's \<Rightarrow>
   (TCPServer \<times> 's \<times> (nat \<Rightarrow> byte list)) res" where
  "tcp_server_sendAndRecv cb finished recvs sends recvs' sends' srv st =
     rbind (rfold (pump_socket cb recvs sends) (receive_sockets srv) (srv, st, False, \<lambda>_. [])) (\<lambda>(srv, st, recv, wires).
     rbind (if recv then finished st else Inr st) (\<lambda>st.
     rbind (rfold (pump_socket cb recvs' sends') (send_sockets srv) (srv, st, False, wires)) (\<lambda>(srv, st, _, wires).
     Inr (srv, st, wires))))"

end
