(* ===== verification/Market_Data_Publisher.thy ===== *)
theory Market_Data_Publisher
  imports LF_Queue Sockets
begin

text \<open>
  \<open>Exchange::MarketDataPublisher\<close> (\<open>exchange/market_data/market_data_publisher.h\<close>,
  \<open>market_data_publisher.cpp\<close>): numbers the market updates of the matching engine, publishes them on
  the incremental multicast stream and hands them to the snapshot synthesizer.
\<close>

section \<open>State and operations\<close>

record MarketDataPublisher =
  next_inc_seq_num :: SeqNum
  pub_outgoing_md_updates :: "MEMarketUpdate LFQueue"
  snapshot_md_updates :: "MDPMarketUpdate LFQueue"
  incremental_socket :: McastSocket

definition MDPMarketUpdate_default :: MDPMarketUpdate where
  "MDPMarketUpdate_default = \<lparr>mdp_seq_num = 0, mdp_update = MEMarketUpdate_default\<rparr>"

text \<open>The constructor, given the descriptor that \<open>createSocket()\<close> returns.\<close>

definition MarketDataPublisher_new :: "Limits \<Rightarrow> nat \<Rightarrow> int \<Rightarrow> MEMarketUpdate LFQueue \<Rightarrow> MarketDataPublisher res" where
  "MarketDataPublisher_new limits McastBufferSize fd market_updates =
     rbind (ASSERT (fd \<ge> 0) ''Unable to create incremental mcast socket.'') (\<lambda>_.
     Inr \<lparr>next_inc_seq_num = 1, pub_outgoing_md_updates = market_updates,
          snapshot_md_updates = LFQueue_new (ME_MAX_MARKET_UPDATES limits) MDPMarketUpdate_default,
          incremental_socket = mcast_init fd (McastSocket_new McastBufferSize)\<rparr>)"

text \<open>
  The body of the loop over the updates, for the update in slot \<open>i\<close> of the queue.  The update is read
  a second time, for the synthesizer, after its slot was given back to the producer.
\<close>

definition publish_update :: "nat \<Rightarrow> MarketDataPublisher \<Rightarrow> MarketDataPublisher res" where
  "publish_update i p =
     (let seq = next_inc_seq_num p;
          msg = encode_update \<lparr>mdp_seq_num = seq, mdp_update = q_store (pub_outgoing_md_updates p) ! i\<rparr>
      in
      rbind (mcast_send (take 8 msg) (incremental_socket p)) (\<lambda>sock.
      rbind (mcast_send (drop 8 msg) sock) (\<lambda>sock.
      rbind (updateReadIndex (pub_outgoing_md_updates p)) (\<lambda>q.
      Inr (p\<lparr>incremental_socket := sock, pub_outgoing_md_updates := q,
             snapshot_md_updates :=
               lfq_push \<lparr>mdp_seq_num = seq, mdp_update = q_store q ! i\<rparr> (snapshot_md_updates p),
             next_inc_seq_num := seq + 1\<rparr>)))))"

text \<open>The loop; its first argument bounds the iterations by the number of updates in the queue.\<close>

fun publish_updates :: "nat \<Rightarrow> MarketDataPublisher \<Rightarrow> MarketDataPublisher res" where
  "publish_updates 0 p = Inr p"
| "publish_updates (Suc n) p =
     (case getNextToRead (pub_outgoing_md_updates p) of
        None \<Rightarrow> Inr p
      | Some i \<Rightarrow> rbind (publish_update i p) (publish_updates n))"

text \<open>A sending socket has no receive callback: calling the empty \<open>std::function\<close> ends the process.\<close>

definition no_callback :: "'s mcast_callback" where
  "no_callback sock st = Inl NullDeref"

text \<open>
  One iteration of \<open>run()\<close>; \<open>rcv\<close> is what \<open>recv()\<close> delivers.  The second component of the result is
  the datagram given to the kernel.
\<close>

definition publisher_run_once :: "byte list \<Rightarrow> MarketDataPublisher \<Rightarrow> (MarketDataPublisher \<times> byte list) res" where
  "publisher_run_once rcv p =
     rbind (publish_updates (lfq_size (pub_outgoing_md_updates p)) p) (\<lambda>p.
     rbind (mcast_sendAndRecv no_callback rcv (incremental_socket p) ()) (\<lambda>(sock, _, out, _).
     Inr (p\<lparr>incremental_socket := sock\<rparr>, out)))"

section \<open>What is published\<close>

definition mdp_numbered :: "SeqNum \<Rightarrow> MEMarketUpdate list \<Rightarrow> MDPMarketUpdate list" where
  "mdp_numbered k us = map (\<lambda>(i, u). \<lparr>mdp_seq_num = k + of_nat i, mdp_update = u\<rparr>) (enumerate 0 us)"

lemma mdp_numbered_Nil [simp]: "mdp_numbered k [] = []"
  by (simp add: mdp_numbered_def)

lemma mdp_numbered_Cons [simp]: "mdp_numbered k (u # us) = \<lparr>mdp_seq_num = k, mdp_update = u\<rparr> # mdp_numbered (k + 1) us"
  by (simp add: mdp_numbered_def enumerate_Suc_eq comp_def case_prod_unfold add.assoc add.commute)

lemma length_mdp_numbered [simp]: "length (mdp_numbered k us) = length us"
  by (simp add: mdp_numbered_def)

lemma updates_mdp_numbered [simp]: "map mdp_update (mdp_numbered k us) = us"
  by (induction us arbitrary: k) simp_all

lemma mdp_numbered_append: "mdp_numbered k (us @ vs) = mdp_numbered k us @ mdp_numbered (k + of_nat (length us)) vs"
  by (induction us arbitrary: k) (simp_all add: add.assoc)

text \<open>The bytes of a sequence of messages.\<close>

definition encode_all :: "MDPMarketUpdate list \<Rightarrow> byte list" where
  "encode_all ms = concat (map encode_update ms)"

lemma encode_all_simps [simp]:
  "encode_all [] = []" "encode_all (m # ms) = encode_update m @ encode_all ms"
  "encode_all (ms @ ns) = encode_all ms @ encode_all ns"
  by (simp_all add: encode_all_def)

lemma length_encode_all [simp]: "length (encode_all ms) = length ms * sizeof_MDPMarketUpdate"
  by (induction ms) simp_all

definition sent_bytes :: "McastSocket \<Rightarrow> byte list" where
  "sent_bytes sock = take (mc_next_send_valid_index sock) (mc_outbound_data sock)"

lemma two_sends:
  assumes "mc_next_send_valid_index sock + length m < length (mc_outbound_data sock)"
  obtains sock1 sock2 where "mcast_send (take 8 m) sock = Inr sock1" and "mcast_send (drop 8 m) sock1 = Inr sock2"
    and "sent_bytes sock2 = sent_bytes sock @ m" and "length (mc_outbound_data sock2) = length (mc_outbound_data sock)"
    and "mc_next_send_valid_index sock2 = mc_next_send_valid_index sock + length m"
proof -
  from mcast_send_all [of sock "[take 8 m, drop 8 m]"] assms
  obtain s2 where "rfold mcast_send [take 8 m, drop 8 m] sock = Inr s2" "sent_bytes s2 = sent_bytes sock @ m"
    "mc_next_send_valid_index s2 = mc_next_send_valid_index sock + length m"
    "length (mc_outbound_data s2) = length (mc_outbound_data sock)"
    by (auto simp: sent_bytes_def simp flip: length_append)
  then show ?thesis using that by (auto simp: rbind_eq_Inr_iff)
qed

lemma front_slot:
  assumes "lfq_inv q" and "lfq_items q = u # us"
  obtains i q' where "getNextToRead q = Some i" and "q_store q ! i = u" and "updateReadIndex q = Inr q'"
    and "lfq_inv q'" and "lfq_items q' = us" and "q_store q' = q_store q"
proof -
  obtain q' where q': "lfq_front q = Some u" "updateReadIndex q = Inr q'" "lfq_inv q'" "lfq_items q' = us"
    using lfq.front_pop [OF assms] by blast
  moreover have "q_store q' = q_store q"
    using q'(2) by (auto simp: updateReadIndex_def advance_read_def Let_def rbind_eq_Inr_iff)
  ultimately show ?thesis using that by (auto simp: lfq_front_def)
qed

lemma publish_update_ok:
  assumes "lfq_inv (pub_outgoing_md_updates p)" and "lfq_items (pub_outgoing_md_updates p) = u # us"
    and "lfq_inv (snapshot_md_updates p)" and "lfq_size (snapshot_md_updates p) < lfq_cap (snapshot_md_updates p)"
    and "mc_next_send_valid_index (incremental_socket p) + sizeof_MDPMarketUpdate < length (mc_outbound_data (incremental_socket p))"
  obtains i p' where "getNextToRead (pub_outgoing_md_updates p) = Some i" and "publish_update i p = Inr p'"
    and "lfq_inv (pub_outgoing_md_updates p')" and "lfq_items (pub_outgoing_md_updates p') = us"
    and "lfq_inv (snapshot_md_updates p')"
    and "lfq_items (snapshot_md_updates p') = lfq_items (snapshot_md_updates p) @ [\<lparr>mdp_seq_num = next_inc_seq_num p, mdp_update = u\<rparr>]"
    and "lfq_cap (snapshot_md_updates p') = lfq_cap (snapshot_md_updates p)"
    and "next_inc_seq_num p' = next_inc_seq_num p + 1"
    and "sent_bytes (incremental_socket p') =
      sent_bytes (incremental_socket p) @ encode_update \<lparr>mdp_seq_num = next_inc_seq_num p, mdp_update = u\<rparr>"
    and "length (mc_outbound_data (incremental_socket p')) = length (mc_outbound_data (incremental_socket p))"
    and "mc_next_send_valid_index (incremental_socket p') = mc_next_send_valid_index (incremental_socket p) + sizeof_MDPMarketUpdate"
proof -
  let ?m = "encode_update \<lparr>mdp_seq_num = next_inc_seq_num p, mdp_update = u\<rparr>"
  obtain i q' where q': "getNextToRead (pub_outgoing_md_updates p) = Some i" "q_store (pub_outgoing_md_updates p) ! i = u"
    "updateReadIndex (pub_outgoing_md_updates p) = Inr q'" "lfq_inv q'" "lfq_items q' = us"
    "q_store q' = q_store (pub_outgoing_md_updates p)"
    using front_slot [OF assms(1,2)] .
  obtain s1 s2 where s: "mcast_send (take 8 ?m) (incremental_socket p) = Inr s1" "mcast_send (drop 8 ?m) s1 = Inr s2"
    "sent_bytes s2 = sent_bytes (incremental_socket p) @ ?m"
    "length (mc_outbound_data s2) = length (mc_outbound_data (incremental_socket p))"
    "mc_next_send_valid_index s2 = mc_next_send_valid_index (incremental_socket p) + length ?m"
    using two_sends [of "incremental_socket p" ?m] assms(5) by auto
  let ?p = "p\<lparr>incremental_socket := s2, pub_outgoing_md_updates := q',
    snapshot_md_updates := lfq_push \<lparr>mdp_seq_num = next_inc_seq_num p, mdp_update = u\<rparr> (snapshot_md_updates p),
    next_inc_seq_num := next_inc_seq_num p + 1\<rparr>"
  show ?thesis
  proof (rule that [of i ?p])
    show "publish_update i p = Inr ?p" using q' s by (simp add: publish_update_def Let_def)
  qed (use q' s assms(3,4) in \<open>simp_all add: lfq.items_push lfq.ok_push lfq.cap_push\<close>)
qed

lemma publish_updates_ok:
  assumes "lfq_inv (pub_outgoing_md_updates p)" and "lfq_items (pub_outgoing_md_updates p) = us"
    and "lfq_inv (snapshot_md_updates p)"
    and "length (lfq_items (snapshot_md_updates p)) + length us \<le> lfq_cap (snapshot_md_updates p)"
    and "mc_next_send_valid_index (incremental_socket p) + length us * sizeof_MDPMarketUpdate
           < length (mc_outbound_data (incremental_socket p))"
  shows "\<exists>p'. publish_updates (length us) p = Inr p' \<and> lfq_items (pub_outgoing_md_updates p') = [] \<and>
     lfq_inv (pub_outgoing_md_updates p') \<and> lfq_inv (snapshot_md_updates p') \<and>
     lfq_items (snapshot_md_updates p') = lfq_items (snapshot_md_updates p) @ mdp_numbered (next_inc_seq_num p) us \<and>
     next_inc_seq_num p' = next_inc_seq_num p + of_nat (length us) \<and>
     sent_bytes (incremental_socket p') =
       sent_bytes (incremental_socket p) @ encode_all (mdp_numbered (next_inc_seq_num p) us)"
  using assms
proof (induction us arbitrary: p)
  case (Cons u us)
  have room: "lfq_size (snapshot_md_updates p) < lfq_cap (snapshot_md_updates p)"
    using Cons.prems(3,4) by (simp add: lfq.size_items)
  have space: "mc_next_send_valid_index (incremental_socket p) + sizeof_MDPMarketUpdate < length (mc_outbound_data (incremental_socket p))"
    using Cons.prems(5) by simp
  obtain i p1 where p1: "getNextToRead (pub_outgoing_md_updates p) = Some i" "publish_update i p = Inr p1"
    "lfq_inv (pub_outgoing_md_updates p1)" "lfq_items (pub_outgoing_md_updates p1) = us" "lfq_inv (snapshot_md_updates p1)"
    "lfq_items (snapshot_md_updates p1) = lfq_items (snapshot_md_updates p) @ [\<lparr>mdp_seq_num = next_inc_seq_num p, mdp_update = u\<rparr>]"
    "lfq_cap (snapshot_md_updates p1) = lfq_cap (snapshot_md_updates p)" "next_inc_seq_num p1 = next_inc_seq_num p + 1"
    "sent_bytes (incremental_socket p1) =
      sent_bytes (incremental_socket p) @ encode_update \<lparr>mdp_seq_num = next_inc_seq_num p, mdp_update = u\<rparr>"
    "length (mc_outbound_data (incremental_socket p1)) = length (mc_outbound_data (incremental_socket p))"
    "mc_next_send_valid_index (incremental_socket p1) = mc_next_send_valid_index (incremental_socket p) + sizeof_MDPMarketUpdate"
    using publish_update_ok [OF Cons.prems(1-3) room space] .
  show ?case using Cons.IH [of p1] Cons.prems(4,5) p1 by (auto simp: add.assoc)
qed simp

lemma publisher_pass:
  assumes "lfq_inv (pub_outgoing_md_updates p)" and "lfq_inv (snapshot_md_updates p)"
    and "us = lfq_items (pub_outgoing_md_updates p)"
    and "length (lfq_items (snapshot_md_updates p)) + length us \<le> lfq_cap (snapshot_md_updates p)"
    and "mc_next_send_valid_index (incremental_socket p) = 0"
    and "length us * sizeof_MDPMarketUpdate < length (mc_outbound_data (incremental_socket p))"
  shows "\<exists>p'. publisher_run_once [] p = Inr (p', encode_all (mdp_numbered (next_inc_seq_num p) us)) \<and>
     lfq_items (pub_outgoing_md_updates p') = [] \<and>
     lfq_items (snapshot_md_updates p') = lfq_items (snapshot_md_updates p) @ mdp_numbered (next_inc_seq_num p) us \<and>
     next_inc_seq_num p' = next_inc_seq_num p + of_nat (length us) \<and>
     mc_next_send_valid_index (incremental_socket p') = 0 \<and>
     lfq_inv (pub_outgoing_md_updates p') \<and> lfq_inv (snapshot_md_updates p')"
proof -
  have size: "lfq_size (pub_outgoing_md_updates p) = length us" using assms(1,3) by (simp add: lfq.size_items)
  obtain p1 where p1: "publish_updates (length us) p = Inr p1" "lfq_items (pub_outgoing_md_updates p1) = []"
    "lfq_items (snapshot_md_updates p1) = lfq_items (snapshot_md_updates p) @ mdp_numbered (next_inc_seq_num p) us"
    "next_inc_seq_num p1 = next_inc_seq_num p + of_nat (length us)"
    "sent_bytes (incremental_socket p1) = encode_all (mdp_numbered (next_inc_seq_num p) us)"
    "lfq_inv (pub_outgoing_md_updates p1)" "lfq_inv (snapshot_md_updates p1)"
    using publish_updates_ok [of p us] assms by (auto simp: sent_bytes_def)
  show ?thesis using p1 size by (simp add: publisher_run_once_def mcast_sendAndRecv_def sent_bytes_def)
qed

text \<open>
  the publisher turns the updates of the matching engine into one numbered stream.  An iteration of
  its loop empties the update queue, sends one datagram with every update under consecutive sequence
  numbers, and gives the snapshot synthesizer the same updates under the same numbers.
\<close>

theorem publisher_numbers_updates:
  assumes "lfq_inv (pub_outgoing_md_updates p)" and "lfq_inv (snapshot_md_updates p)"
    and "us = lfq_items (pub_outgoing_md_updates p)"
    and "length (lfq_items (snapshot_md_updates p)) + length us \<le> lfq_cap (snapshot_md_updates p)"
    and "mc_next_send_valid_index (incremental_socket p) = 0"
    and "length us * sizeof_MDPMarketUpdate < length (mc_outbound_data (incremental_socket p))"
  shows "\<exists>p'. publisher_run_once [] p = Inr (p', encode_all (mdp_numbered (next_inc_seq_num p) us)) \<and>
     lfq_items (pub_outgoing_md_updates p') = [] \<and>
     lfq_items (snapshot_md_updates p') = lfq_items (snapshot_md_updates p) @ mdp_numbered (next_inc_seq_num p) us \<and>
     next_inc_seq_num p' = next_inc_seq_num p + of_nat (length us) \<and>
     mc_next_send_valid_index (incremental_socket p') = 0"
  using publisher_pass [OF assms] by blast

definition an_update :: "MarketUpdateType \<Rightarrow> OrderId \<Rightarrow> Price \<Rightarrow> Qty \<Rightarrow> MEMarketUpdate" where
  "an_update typ oid price qty = \<lparr>upd_type = typ, upd_order_id = oid, upd_ticker_id = 0, upd_side = BUY,
     upd_price = price, upd_qty = qty, upd_priority = 1\<rparr>"

definition a_publisher :: MarketDataPublisher where
  "a_publisher = \<lparr>next_inc_seq_num = 1,
     pub_outgoing_md_updates = lfq_push (an_update ADD 1 10 5) (LFQueue_new 4 MEMarketUpdate_default),
     snapshot_md_updates = LFQueue_new 4 MDPMarketUpdate_default,
     incremental_socket = mcast_init 3 (McastSocket_new 100)\<rparr>"

theorem publisher_numbers_updates_witness:
  "\<exists>p'. publisher_run_once [] a_publisher =
       Inr (p', encode_update \<lparr>mdp_seq_num = 1, mdp_update = an_update ADD 1 10 5\<rparr>) \<and> next_inc_seq_num p' = 2"
proof -
  let ?q = "LFQueue_new 4 MEMarketUpdate_default"
  have q: "lfq_inv ?q" "lfq_inv (LFQueue_new 4 MDPMarketUpdate_default)" by (simp_all add: lfq_inv_new)
  have p: "lfq_inv (fold lfq_push [an_update ADD 1 10 5] ?q)" "lfq_items (fold lfq_push [an_update ADD 1 10 5] ?q) = [an_update ADD 1 10 5]"
    using lfq.push_all [OF q(1), of "[an_update ADD 1 10 5]"] by simp_all
  show ?thesis
    using publisher_numbers_updates [of a_publisher "[an_update ADD 1 10 5]"] p q
    by (auto simp: a_publisher_def mcast_init_def McastSocket_new_def sizeof_MDPMarketUpdate_def)
qed

end
