(* ===== verification/Snapshot_Synthesizer.thy ===== *)
theory Snapshot_Synthesizer
  imports Market_Data_Publisher Mem_Pool
begin

text \<open>
  \<open>Exchange::SnapshotSynthesizer\<close> (\<open>exchange/market_data/snapshot_synthesizer.h\<close>,
  \<open>snapshot_synthesizer.cpp\<close>): replays the incremental stream into a table of the live orders and
  publishes the table periodically as a snapshot cycle.  Shown is that the table is the result of the
  replay and that a cycle consists of exactly the orders of the table between its markers.
\<close>

section \<open>State\<close>

record SnapshotSynthesizer =
  syn_md_updates :: "MDPMarketUpdate LFQueue"
  snapshot_socket :: McastSocket
  ticker_orders :: "ptr arr arr"
  last_inc_seq_num :: SeqNum
  last_snapshot_time :: Nanos
  syn_order_pool :: "MEMarketUpdate MemPool"

definition SnapshotSynthesizer_new ::
  "Limits \<Rightarrow> nat \<Rightarrow> int \<Rightarrow> MDPMarketUpdate LFQueue \<Rightarrow> SnapshotSynthesizer res" where
  "SnapshotSynthesizer_new limits McastBufferSize fd market_updates =
     rbind (ASSERT (fd \<ge> 0) ''Unable to create snapshot mcast socket.'') (\<lambda>_.
     Inr \<lparr>syn_md_updates = market_updates, snapshot_socket = mcast_init fd (McastSocket_new McastBufferSize),
          ticker_orders = arr_fill (ME_MAX_TICKERS limits) (arr_fill (ME_MAX_ORDER_IDS limits) None),
          last_inc_seq_num = 0, last_snapshot_time = 0,
          syn_order_pool = MemPool_new (ME_MAX_ORDER_IDS limits) MEMarketUpdate_default\<rparr>)"

section \<open>Replaying the incremental stream\<close>

text \<open>\<open>orders->at(order_id) = p\<close> for the orders of ticker \<open>t\<close>.\<close>

definition put_order :: "nat \<Rightarrow> nat \<Rightarrow> ptr \<Rightarrow> SnapshotSynthesizer \<Rightarrow> SnapshotSynthesizer res" where
  "put_order t i p S =
     rbind (arr_at (ticker_orders S) t) (\<lambda>orders.
     rbind (arr_put i p orders) (\<lambda>orders.
     rbind (arr_put t orders (ticker_orders S)) (\<lambda>tos.
     Inr (S\<lparr>ticker_orders := tos\<rparr>))))"

text \<open>The existing order that a \<open>MODIFY\<close> or a \<open>CANCEL\<close> refers to, with the assertions on it.\<close>

definition existing_order :: "MEMarketUpdate \<Rightarrow> ptr arr \<Rightarrow> SnapshotSynthesizer \<Rightarrow> nat res" where
  "existing_order u orders S =
     rbind (arr_at orders (unat (upd_order_id u))) (\<lambda>order.
     case order of
       None \<Rightarrow> Inl (AssertFailed ''order does not exist.'')
     | Some a \<Rightarrow>
         rbind (ASSERT (upd_order_id (obj (syn_order_pool S) a) = upd_order_id u) ''Expecting existing order to match new one.'') (\<lambda>_.
         rbind (ASSERT (upd_side (obj (syn_order_pool S) a) = upd_side u) ''Expecting existing order to match new one.'') (\<lambda>_.
         Inr a)))"

definition addToSnapshot :: "MDPMarketUpdate \<Rightarrow> SnapshotSynthesizer \<Rightarrow> SnapshotSynthesizer res" where
  "addToSnapshot market_update S =
     (let u = mdp_update market_update; t = unat (upd_ticker_id u); i = unat (upd_order_id u) in
      rbind (arr_at (ticker_orders S) t) (\<lambda>orders.
      rbind
        (case upd_type u of
           ADD \<Rightarrow>
             rbind (arr_at orders i) (\<lambda>order.
             rbind (ASSERT (order = None) ''order already exists'') (\<lambda>_.
             rbind (allocate u (syn_order_pool S)) (\<lambda>(a, P).
             put_order t i (Some a) (S\<lparr>syn_order_pool := P\<rparr>))))
         | MODIFY \<Rightarrow>
             rbind (existing_order u orders S) (\<lambda>a.
             Inr (S\<lparr>syn_order_pool := pool_upd a (\<lambda>v. v\<lparr>upd_qty := upd_qty u, upd_price := upd_price u\<rparr>) (syn_order_pool S)\<rparr>))
         | CANCEL \<Rightarrow>
             rbind (existing_order u orders S) (\<lambda>a.
             rbind (deallocate (Some a) (syn_order_pool S)) (\<lambda>P.
             put_order t i None (S\<lparr>syn_order_pool := P\<rparr>)))
         | _ \<Rightarrow> Inr S) (\<lambda>S.
      rbind (ASSERT (mdp_seq_num market_update = last_inc_seq_num S + 1) ''Expected incremental seq_nums to increase.'') (\<lambda>_.
      Inr (S\<lparr>last_inc_seq_num := mdp_seq_num market_update\<rparr>)))))"

section \<open>Publishing a cycle\<close>

text \<open>
  The socket, the number of messages so far (\<open>snapshot_size\<close>) and the datagrams sent so far.  Nothing
  is received on the snapshot socket.
\<close>

type_synonym snapshot_cycle = "McastSocket \<times> SeqNum \<times> byte list list"

definition cycle_send :: "MEMarketUpdate \<Rightarrow> snapshot_cycle \<Rightarrow> snapshot_cycle res" where
  "cycle_send u = (\<lambda>(sock, n, outs).
     rbind (mcast_send (encode_update \<lparr>mdp_seq_num = n, mdp_update = u\<rparr>) sock) (\<lambda>sock. Inr (sock, n + 1, outs)))"

definition cycle_flush :: "snapshot_cycle \<Rightarrow> snapshot_cycle res" where
  "cycle_flush = (\<lambda>(sock, n, outs).
     rbind (mcast_sendAndRecv no_callback [] sock ()) (\<lambda>(sock, _, out, _). Inr (sock, n, outs @ [out])))"

definition clear_update :: "nat \<Rightarrow> MEMarketUpdate" where
  "clear_update t = MEMarketUpdate_default\<lparr>upd_type := CLEAR, upd_ticker_id := of_nat t\<rparr>"

definition marker_update :: "MarketUpdateType \<Rightarrow> SeqNum \<Rightarrow> MEMarketUpdate" where
  "marker_update typ seq = MEMarketUpdate_default\<lparr>upd_type := typ, upd_order_id := seq\<rparr>"

definition publish_order :: "SnapshotSynthesizer \<Rightarrow> ptr \<Rightarrow> snapshot_cycle \<Rightarrow> snapshot_cycle res" where
  "publish_order S order c =
     (case order of None \<Rightarrow> Inr c | Some a \<Rightarrow> rbind (cycle_send (obj (syn_order_pool S) a) c) cycle_flush)"

definition publish_ticker :: "SnapshotSynthesizer \<Rightarrow> nat \<Rightarrow> snapshot_cycle \<Rightarrow> snapshot_cycle res" where
  "publish_ticker S t c =
     (let orders = arr_get (ticker_orders S) t in
      rbind (cycle_send (clear_update t) c) (\<lambda>c.
      rfold (publish_order S) (map (arr_get orders) [0..<arr_size orders]) c))"

definition publishSnapshot :: "SnapshotSynthesizer \<Rightarrow> (SnapshotSynthesizer \<times> byte list list) res" where
  "publishSnapshot S =
     rbind (cycle_send (marker_update SNAPSHOT_START (last_inc_seq_num S)) (snapshot_socket S, 0, [])) (\<lambda>c.
     rbind (rfold (publish_ticker S) [0..<arr_size (ticker_orders S)] c) (\<lambda>c.
     rbind (cycle_send (marker_update SNAPSHOT_END (last_inc_seq_num S)) c) (\<lambda>c.
     rbind (cycle_flush c) (\<lambda>(sock, n, outs).
     Inr (S\<lparr>snapshot_socket := sock\<rparr>, outs)))))"

section \<open>The loop of the thread\<close>

fun process_updates :: "nat \<Rightarrow> SnapshotSynthesizer \<Rightarrow> SnapshotSynthesizer res" where
  "process_updates 0 S = Inr S"
| "process_updates (Suc n) S =
     (case lfq_front (syn_md_updates S) of
        None \<Rightarrow> Inr S
      | Some market_update \<Rightarrow>
          rbind (addToSnapshot market_update S) (\<lambda>S.
          rbind (updateReadIndex (syn_md_updates S)) (\<lambda>q.
          process_updates n (S\<lparr>syn_md_updates := q\<rparr>))))"

text \<open>One iteration of \<open>run()\<close>; \<open>now\<close> and \<open>now'\<close> are the results of the two calls of \<open>getCurrentNanos()\<close>.\<close>

definition synthesizer_run_once ::
  "Nanos \<Rightarrow> Nanos \<Rightarrow> SnapshotSynthesizer \<Rightarrow> (SnapshotSynthesizer \<times> byte list list) res" where
  "synthesizer_run_once now now' S =
     rbind (process_updates (lfq_size (syn_md_updates S)) S) (\<lambda>S.
     if now - last_snapshot_time S > 60 * 1000000000 then publishSnapshot (S\<lparr>last_snapshot_time := now'\<rparr>)
     else Inr (S, []))"

section \<open>The table of live orders\<close>

type_synonym order_table = "nat \<Rightarrow> nat \<Rightarrow> MEMarketUpdate option"

definition table_update :: "MEMarketUpdate \<Rightarrow> order_table \<Rightarrow> order_table" where
  "table_update u A =
     (let t = unat (upd_ticker_id u); i = unat (upd_order_id u) in
      case upd_type u of
        ADD \<Rightarrow> A(t := (A t)(i := Some u))
      | MODIFY \<Rightarrow> A(t := (A t)(i := map_option (\<lambda>v. v\<lparr>upd_qty := upd_qty u, upd_price := upd_price u\<rparr>) (A t i)))
      | CANCEL \<Rightarrow> A(t := (A t)(i := None))
      | _ \<Rightarrow> A)"

text \<open>An update the table can take: tickers and order ids in range, new orders new, others present.\<close>

definition update_ok :: "nat \<Rightarrow> nat \<Rightarrow> order_table \<Rightarrow> MEMarketUpdate \<Rightarrow> bool" where
  "update_ok T N A u \<longleftrightarrow>
     (let t = unat (upd_ticker_id u); i = unat (upd_order_id u) in
      t < T \<and>
      (case upd_type u of
         ADD \<Rightarrow> i < N \<and> A t i = None
       | MODIFY \<Rightarrow> i < N \<and> (case A t i of None \<Rightarrow> False | Some v \<Rightarrow> upd_side v = upd_side u)
       | CANCEL \<Rightarrow> i < N \<and> (case A t i of None \<Rightarrow> False | Some v \<Rightarrow> upd_side v = upd_side u)
       | _ \<Rightarrow> True))"

fun stream_ok :: "nat \<Rightarrow> nat \<Rightarrow> order_table \<Rightarrow> MEMarketUpdate list \<Rightarrow> bool" where
  "stream_ok T N A [] = True"
| "stream_ok T N A (u # us) = (update_ok T N A u \<and> stream_ok T N (table_update u A) us)"

definition slot :: "SnapshotSynthesizer \<Rightarrow> nat \<Rightarrow> nat \<Rightarrow> ptr" where
  "slot S t i = arr_get (arr_get (ticker_orders S) t) i"

definition syn_rel :: "nat \<Rightarrow> nat \<Rightarrow> SnapshotSynthesizer \<Rightarrow> order_table \<Rightarrow> bool" where
  "syn_rel T N S A \<longleftrightarrow>
     pool_inv (syn_order_pool S) \<and> arr_size (ticker_orders S) = T \<and>
     (\<forall>t<T. arr_size (arr_get (ticker_orders S) t) = N) \<and>
     (\<forall>t<T. \<forall>i<N. A t i = map_option (obj (syn_order_pool S)) (slot S t i)) \<and>
     (\<forall>t<T. \<forall>i<N. \<forall>a. slot S t i = Some a \<longrightarrow>
        a \<in> used (syn_order_pool S) \<and> unat (upd_order_id (obj (syn_order_pool S) a)) = i) \<and>
     (\<forall>t<T. \<forall>i<N. \<forall>t'<T. \<forall>i'<N. \<forall>a. slot S t i = Some a \<longrightarrow> slot S t' i' = Some a \<longrightarrow> t = t' \<and> i = i')"

lemma syn_relD:
  assumes "syn_rel T N S A"
  shows "pool_inv (syn_order_pool S)" and "arr_size (ticker_orders S) = T"
    and "t < T \<Longrightarrow> arr_size (arr_get (ticker_orders S) t) = N"
    and "t < T \<Longrightarrow> i < N \<Longrightarrow> A t i = map_option (obj (syn_order_pool S)) (slot S t i)"
    and "t < T \<Longrightarrow> i < N \<Longrightarrow> slot S t i = Some a \<Longrightarrow> a \<in> used (syn_order_pool S)"
    and "t < T \<Longrightarrow> i < N \<Longrightarrow> slot S t i = Some a \<Longrightarrow> unat (upd_order_id (obj (syn_order_pool S) a)) = i"
    and "t < T \<Longrightarrow> i < N \<Longrightarrow> t' < T \<Longrightarrow> i' < N \<Longrightarrow> slot S t i = Some a \<Longrightarrow> slot S t' i' = Some a \<Longrightarrow> t = t' \<and> i = i'"
  using assms unfolding syn_rel_def by blast+

definition set_slot :: "nat \<Rightarrow> nat \<Rightarrow> ptr \<Rightarrow> ptr arr arr \<Rightarrow> ptr arr arr" where
  "set_slot t i p tos = tos\<lparr>arr_get := (arr_get tos)(t := (arr_get tos t)\<lparr>arr_get := (arr_get (arr_get tos t))(i := p)\<rparr>)\<rparr>"

lemma set_slot_sel [simp]:
  "arr_size (set_slot t i p tos) = arr_size tos"
  "arr_size (arr_get (set_slot t i p tos) t') = arr_size (arr_get tos t')"
  "arr_get (arr_get (set_slot t i p tos) t') i' = (if t' = t \<and> i' = i then p else arr_get (arr_get tos t') i')"
  by (auto simp: set_slot_def)

lemma put_order_ok:
  "t < arr_size (ticker_orders S) \<Longrightarrow> i < arr_size (arr_get (ticker_orders S) t) \<Longrightarrow>
   put_order t i p S = Inr (S\<lparr>ticker_orders := set_slot t i p (ticker_orders S)\<rparr>)"
  by (simp add: put_order_def set_slot_def)

lemma addToSnapshot_add:
  assumes rel: "syn_rel T N S A" and ok: "update_ok T N A u" and ty: "upd_type u = ADD"
    and seq: "k = last_inc_seq_num S + 1" 
    and room: "\<exists>a<pool_size (syn_order_pool S). a \<noteq> next_free_index (syn_order_pool S) \<and> is_free (blocks (syn_order_pool S) a)"
  shows "\<exists>S'. addToSnapshot \<lparr>mdp_seq_num = k, mdp_update = u\<rparr> S = Inr S' \<and> syn_rel T N S' (table_update u A) \<and>
     last_inc_seq_num S' = k \<and> pool_size (syn_order_pool S') = pool_size (syn_order_pool S) \<and>
     card (used (syn_order_pool S')) \<le> card (used (syn_order_pool S)) + 1"
proof -
  let ?t = "unat (upd_ticker_id u)" and ?i = "unat (upd_order_id u)" and ?P = "syn_order_pool S"
  note D = syn_relD [OF rel]
  have b: "?t < T" "?i < N" "A ?t ?i = None" using ok ty by (auto simp: update_ok_def Let_def)
  have e: "slot S ?t ?i = None" using D(4) [OF b(1,2)] b(3) by simp
  obtain P' where P': "allocate u ?P = Inr (next_free_index ?P, P')" "pool_inv P'" "pool_size P' = pool_size ?P"
    "obj P' = (obj ?P)(next_free_index ?P := u)" "used P' = insert (next_free_index ?P) (used ?P)" "next_free_index ?P \<notin> used ?P"
    using allocate_fresh [OF D(1) room] .
  let ?S = "S\<lparr>syn_order_pool := P', ticker_orders := set_slot ?t ?i (Some (next_free_index ?P)) (ticker_orders S), last_inc_seq_num := k\<rparr>"
  have run: "addToSnapshot \<lparr>mdp_seq_num = k, mdp_update = u\<rparr> S = Inr ?S"
    using b D(2,3) e P'(1) ty seq by (simp add: addToSnapshot_def Let_def slot_def put_order_ok)
  have sl: "slot ?S t' i' = (if t' = ?t \<and> i' = ?i then Some (next_free_index ?P) else slot S t' i')" for t' i'
    by (simp add: slot_def)
  have ne: "t' < T \<Longrightarrow> i' < N \<Longrightarrow> slot S t' i' \<noteq> Some (next_free_index ?P)" for t' i' using D(5) P'(6) by blast
  have "syn_rel T N ?S (table_update u A)"
    unfolding syn_rel_def sl
  proof (intro conjI allI impI)
    fix t i assume "t < T" "i < N"
    then show "table_update u A t i = map_option (obj (syn_order_pool ?S)) (if t = ?t \<and> i = ?i then Some (next_free_index ?P) else slot S t i)"
      using D(4) [of t i] ne [of t i] ty P'(4) by (cases "slot S t i") (auto simp: table_update_def Let_def)
  next
    fix t i a assume *: "t < T" "i < N" "(if t = ?t \<and> i = ?i then Some (next_free_index ?P) else slot S t i) = Some a"
    show "a \<in> used (syn_order_pool ?S)" "unat (upd_order_id (obj (syn_order_pool ?S) a)) = i"
      using * D(5,6) [of t i a] ne [of t i] P'(4,5) by (auto split: if_splits)
  next
    fix t i t' i' a assume *: "t < T" "i < N" "t' < T" "i' < N"
      "(if t = ?t \<and> i = ?i then Some (next_free_index ?P) else slot S t i) = Some a"
      "(if t' = ?t \<and> i' = ?i then Some (next_free_index ?P) else slot S t' i') = Some a"
    show "t = t'" "i = i'" using * D(7) [of t i t' i' a] ne [of t i] ne [of t' i'] by (auto split: if_splits)
  qed (use D(2,3) P'(2) in simp_all)
  then show ?thesis using run P'(3,5,6) by (intro exI [of _ ?S]) simp
qed

lemma existing_order_ok:
  assumes "syn_rel T N S A" and "t = unat (upd_ticker_id u)" and "i = unat (upd_order_id u)" and "t < T" and "i < N"
    and "A t i = Some v" and "upd_side v = upd_side u"
  obtains a where "slot S t i = Some a" and "existing_order u (arr_get (ticker_orders S) t) S = Inr a" and "obj (syn_order_pool S) a = v"
proof -
  note D = syn_relD [OF assms(1)]
  obtain a where a: "slot S t i = Some a" "obj (syn_order_pool S) a = v" using D(4) [OF assms(4,5)] assms(6) by (cases "slot S t i") auto
  then have "upd_order_id v = upd_order_id u" using D(6) [OF assms(4,5) a(1)] assms(3) by (simp add: word_unat_eq_iff)
  then show ?thesis using a assms D(3) by (intro that [of a]) (auto simp: existing_order_def slot_def)
qed

lemma update_okE:
  assumes "update_ok T N A u" and "upd_type u = MODIFY \<or> upd_type u = CANCEL"
  obtains v where "unat (upd_ticker_id u) < T" and "unat (upd_order_id u) < N"
    and "A (unat (upd_ticker_id u)) (unat (upd_order_id u)) = Some v" and "upd_side v = upd_side u"
  using assms by (auto simp: update_ok_def Let_def split: option.splits)

lemma addToSnapshot_modify:
  assumes rel: "syn_rel T N S A" and ok: "update_ok T N A u" and ty: "upd_type u = MODIFY"
    and seq: "k = last_inc_seq_num S + 1"
  shows "\<exists>S'. addToSnapshot \<lparr>mdp_seq_num = k, mdp_update = u\<rparr> S = Inr S' \<and> syn_rel T N S' (table_update u A) \<and>
     last_inc_seq_num S' = k \<and> pool_size (syn_order_pool S') = pool_size (syn_order_pool S) \<and>
     used (syn_order_pool S') = used (syn_order_pool S)"
proof -
  let ?t = "unat (upd_ticker_id u)" and ?i = "unat (upd_order_id u)" and ?P = "syn_order_pool S"
  let ?f = "\<lambda>v. v\<lparr>upd_qty := upd_qty u, upd_price := upd_price u\<rparr>"
  note D = syn_relD [OF rel]
  obtain v where v: "?t < T" "?i < N" "A ?t ?i = Some v" "upd_side v = upd_side u" using update_okE [OF ok] ty by blast
  obtain a where a: "slot S ?t ?i = Some a" "existing_order u (arr_get (ticker_orders S) ?t) S = Inr a" "obj ?P a = v"
    using existing_order_ok [OF rel refl refl v] .
  let ?S = "S\<lparr>syn_order_pool := pool_upd a ?f ?P, last_inc_seq_num := k\<rparr>"
  have run: "addToSnapshot \<lparr>mdp_seq_num = k, mdp_update = u\<rparr> S = Inr ?S"
    using v D(2) a ty seq by (simp add: addToSnapshot_def Let_def)
  have sl: "slot ?S = slot S" by (simp add: slot_def fun_eq_iff)
  have other: "t < T \<Longrightarrow> i < N \<Longrightarrow> slot S t i = Some a \<Longrightarrow> t = ?t \<and> i = ?i" for t i using D(7) a(1) v(1,2) by blast
  have "syn_rel T N ?S (table_update u A)"
    unfolding syn_rel_def sl
  proof (intro conjI allI impI)
    fix t i assume ti: "t < T" "i < N"
    then show "table_update u A t i = map_option (obj (syn_order_pool ?S)) (slot S t i)"
      using D(4) [OF ti] other [OF ti] a v ty by (cases "slot S t i") (auto simp: table_update_def Let_def)
  next
    fix t i b assume *: "t < T" "i < N" "slot S t i = Some b"
    show "b \<in> used (syn_order_pool ?S)" "unat (upd_order_id (obj (syn_order_pool ?S) b)) = i"
      using D(5,6) [OF *] by (auto)
  next
    fix t i t' i' b assume "t < T" "i < N" "t' < T" "i' < N" "slot S t i = Some b" "slot S t' i' = Some b"
    then show "t = t'" "i = i'" using D(7) by blast+
  qed (use D(1-3) in simp_all)
  then show ?thesis using run by (intro exI [of _ ?S]) simp
qed

lemma addToSnapshot_cancel:
  assumes rel: "syn_rel T N S A" and ok: "update_ok T N A u" and ty: "upd_type u = CANCEL"
    and seq: "k = last_inc_seq_num S + 1"
  shows "\<exists>S'. addToSnapshot \<lparr>mdp_seq_num = k, mdp_update = u\<rparr> S = Inr S' \<and> syn_rel T N S' (table_update u A) \<and>
     last_inc_seq_num S' = k \<and> pool_size (syn_order_pool S') = pool_size (syn_order_pool S) \<and>
     used (syn_order_pool S') \<subseteq> used (syn_order_pool S)"
proof -
  let ?t = "unat (upd_ticker_id u)" and ?i = "unat (upd_order_id u)" and ?P = "syn_order_pool S"
  note D = syn_relD [OF rel]
  obtain v where v: "?t < T" "?i < N" "A ?t ?i = Some v" "upd_side v = upd_side u" using update_okE [OF ok] ty by blast
  obtain a where a: "slot S ?t ?i = Some a" "existing_order u (arr_get (ticker_orders S) ?t) S = Inr a" "obj ?P a = v"
    using existing_order_ok [OF rel refl refl v] .
  obtain P' where P': "deallocate (Some a) ?P = Inr P'" "pool_inv P'" "pool_size P' = pool_size ?P" "obj P' = obj ?P" "used P' = used ?P - {a}"
    using deallocate_used [OF D(1) D(5) [OF v(1,2) a(1)]] .
  let ?S = "S\<lparr>syn_order_pool := P', ticker_orders := set_slot ?t ?i None (ticker_orders S), last_inc_seq_num := k\<rparr>"
  have run: "addToSnapshot \<lparr>mdp_seq_num = k, mdp_update = u\<rparr> S = Inr ?S"
    using v D(2,3) a P'(1) ty seq by (simp add: addToSnapshot_def Let_def put_order_ok)
  have sl: "slot ?S t' i' = (if t' = ?t \<and> i' = ?i then None else slot S t' i')" for t' i' by (simp add: slot_def)
  have other: "t < T \<Longrightarrow> i < N \<Longrightarrow> slot S t i = Some a \<Longrightarrow> t = ?t \<and> i = ?i" for t i using D(7) a(1) v(1,2) by blast
  have "syn_rel T N ?S (table_update u A)"
    unfolding syn_rel_def sl
  proof (intro conjI allI impI)
    fix t i assume ti: "t < T" "i < N"
    then show "table_update u A t i = map_option (obj (syn_order_pool ?S)) (if t = ?t \<and> i = ?i then None else slot S t i)"
      using D(4) [OF ti] ty P'(4) by (auto simp: table_update_def Let_def)
  next
    fix t i b assume *: "t < T" "i < N" "(if t = ?t \<and> i = ?i then None else slot S t i) = Some b"
    then have "slot S t i = Some b" and ne: "\<not> (t = ?t \<and> i = ?i)" by (simp_all split: if_splits)
    moreover have "b \<noteq> a" using other [OF *(1,2)] calculation(1) ne by blast
    ultimately show "b \<in> used (syn_order_pool ?S)" "unat (upd_order_id (obj (syn_order_pool ?S) b)) = i"
      using D(5,6) [OF *(1,2)] P'(4,5) by auto
  next
    fix t i t' i' b assume *: "t < T" "i < N" "t' < T" "i' < N"
      "(if t = ?t \<and> i = ?i then None else slot S t i) = Some b" "(if t' = ?t \<and> i' = ?i then None else slot S t' i') = Some b"
    then have "slot S t i = Some b" "slot S t' i' = Some b" by (simp_all split: if_splits)
    from D(7) [OF *(1-4) this] show "t = t'" "i = i'" by blast+
  qed (use D(2,3) P'(2) in simp_all)
  then show ?thesis using run P'(3,5) by (intro exI [of _ ?S]) auto
qed

lemma addToSnapshot_other:
  assumes "syn_rel T N S A" and "update_ok T N A u" and o: "upd_type u \<notin> {ADD, MODIFY, CANCEL}" and "k = last_inc_seq_num S + 1"
  shows "\<exists>S'. addToSnapshot \<lparr>mdp_seq_num = k, mdp_update = u\<rparr> S = Inr S' \<and> syn_rel T N S' (table_update u A) \<and>
     last_inc_seq_num S' = k \<and> syn_order_pool S' = syn_order_pool S"
proof -
  have "unat (upd_ticker_id u) < T" using assms(2) by (simp add: update_ok_def Let_def)
  then have "addToSnapshot \<lparr>mdp_seq_num = k, mdp_update = u\<rparr> S = Inr (S\<lparr>last_inc_seq_num := k\<rparr>)"
    using o syn_relD(2) [OF assms(1)] assms(4) by (cases "upd_type u") (simp_all add: addToSnapshot_def Let_def)
  moreover have "table_update u A = A" using o by (cases "upd_type u") (simp_all add: table_update_def Let_def)
  moreover have "syn_rel T N (S\<lparr>last_inc_seq_num := k\<rparr>) A" using assms(1) by (simp add: syn_rel_def slot_def)
  ultimately show ?thesis by simp
qed

lemma addToSnapshot_refines:
  assumes "syn_rel T N S A" and "update_ok T N A u" and "k = last_inc_seq_num S + 1"
    and "card (used (syn_order_pool S)) + 2 \<le> pool_size (syn_order_pool S)"
  shows "\<exists>S'. addToSnapshot \<lparr>mdp_seq_num = k, mdp_update = u\<rparr> S = Inr S' \<and> syn_rel T N S' (table_update u A) \<and>
     last_inc_seq_num S' = k \<and> pool_size (syn_order_pool S') = pool_size (syn_order_pool S) \<and>
     card (used (syn_order_pool S')) \<le> card (used (syn_order_pool S)) + 1"
proof -
  consider "upd_type u = ADD" | "upd_type u = MODIFY" | "upd_type u = CANCEL"
    | (o) "upd_type u \<notin> {ADD, MODIFY, CANCEL}" by blast
  then show ?thesis
  proof cases
    case 3
    then obtain S' where "addToSnapshot \<lparr>mdp_seq_num = k, mdp_update = u\<rparr> S = Inr S'" "syn_rel T N S' (table_update u A)"
      "last_inc_seq_num S' = k" "pool_size (syn_order_pool S') = pool_size (syn_order_pool S)"
      "used (syn_order_pool S') \<subseteq> used (syn_order_pool S)"
      using addToSnapshot_cancel [OF assms(1,2) _ assms(3)] by blast
    moreover from this(5) have "card (used (syn_order_pool S')) \<le> card (used (syn_order_pool S))" by (intro card_mono) simp_all
    ultimately show ?thesis by (intro exI [of _ S']) simp
  next
    case o
    then show ?thesis using addToSnapshot_other [OF assms(1,2) _ assms(3)] by auto
  qed (use addToSnapshot_add [OF assms(1,2) _ assms(3) free_other_block [OF syn_relD(1) [OF assms(1)] assms(4)]] addToSnapshot_modify [OF assms(1,2) _ assms(3)] in auto)
qed

text \<open>
  C18: the snapshot is the replay of the incremental stream.  Feeding the synthesizer a stream of
  consecutively numbered updates that a table of live orders can take, with a pool large enough for
  them, succeeds and leaves the synthesizer with exactly the table that results from applying the
  updates in order, and with the number of the last update.
\<close>

theorem snapshot_replays_stream:
  assumes "syn_rel T N S A" and "stream_ok T N A us"
    and "card (used (syn_order_pool S)) + length us + 1 \<le> pool_size (syn_order_pool S)"
  shows "\<exists>S'. rfold addToSnapshot (mdp_numbered (last_inc_seq_num S + 1) us) S = Inr S' \<and>
     syn_rel T N S' (fold table_update us A) \<and> last_inc_seq_num S' = last_inc_seq_num S + of_nat (length us)"
  using assms
proof (induction us arbitrary: S A)
  case (Cons u us)
  let ?k = "last_inc_seq_num S + 1"
  obtain S1 where S1: "addToSnapshot \<lparr>mdp_seq_num = ?k, mdp_update = u\<rparr> S = Inr S1" "syn_rel T N S1 (table_update u A)"
    "last_inc_seq_num S1 = ?k" "pool_size (syn_order_pool S1) = pool_size (syn_order_pool S)"
    "card (used (syn_order_pool S1)) \<le> card (used (syn_order_pool S)) + 1"
    using addToSnapshot_refines [OF Cons.prems(1) _ refl, of u] Cons.prems(2,3) by auto
  show ?case using Cons.IH [OF S1(2)] Cons.prems(2,3) S1 by (auto simp: add.assoc)
qed simp

section \<open>What a cycle contains\<close>

definition table_orders :: "nat \<Rightarrow> order_table \<Rightarrow> nat \<Rightarrow> MEMarketUpdate list" where
  "table_orders N A t = List.map_filter (A t) [0..<N]"

definition cycle_body :: "nat \<Rightarrow> nat \<Rightarrow> order_table \<Rightarrow> MEMarketUpdate list" where
  "cycle_body T N A = concat (map (\<lambda>t. clear_update t # table_orders N A t) [0..<T])"

definition cycle_messages :: "nat \<Rightarrow> nat \<Rightarrow> SeqNum \<Rightarrow> order_table \<Rightarrow> MEMarketUpdate list" where
  "cycle_messages T N seq A = marker_update SNAPSHOT_START seq # cycle_body T N A @ [marker_update SNAPSHOT_END seq]"

text \<open>What is sent and buffered after the messages \<open>ms\<close>, with at most \<open>k\<close> of them in the buffer.\<close>

definition cycle_inv :: "nat \<Rightarrow> snapshot_cycle \<Rightarrow> MEMarketUpdate list \<Rightarrow> nat \<Rightarrow> bool" where
  "cycle_inv L = (\<lambda>(sock, n, outs) ms k.
     (\<exists>mss buf. outs = map encode_all mss \<and> sent_bytes sock = encode_all buf \<and> concat mss @ buf = mdp_numbered 0 ms \<and>
        length buf \<le> k \<and> mc_next_send_valid_index sock = length buf * sizeof_MDPMarketUpdate \<and>
        (\<forall>x\<in>set (buf # mss). length x * sizeof_MDPMarketUpdate \<le> L)) \<and>
     n = of_nat (length ms) \<and> length (mc_outbound_data sock) = L)"

lemma cycle_invI:
  "outs = map encode_all mss \<Longrightarrow> sent_bytes sock = encode_all buf \<Longrightarrow> concat mss @ buf = mdp_numbered 0 ms \<Longrightarrow>
   length buf \<le> k \<Longrightarrow> mc_next_send_valid_index sock = length buf * sizeof_MDPMarketUpdate \<Longrightarrow>
   \<forall>x\<in>set (buf # mss). length x * sizeof_MDPMarketUpdate \<le> L \<Longrightarrow>
   n = of_nat (length ms) \<Longrightarrow> length (mc_outbound_data sock) = L \<Longrightarrow> cycle_inv L (sock, n, outs) ms k"
  by (auto simp: cycle_inv_def)

lemma cycle_invE:
  assumes "cycle_inv L c ms k"
  obtains sock outs mss buf where "c = (sock, of_nat (length ms), outs)" and "outs = map encode_all mss" and "sent_bytes sock = encode_all buf"
    and "concat mss @ buf = mdp_numbered 0 ms" and "length buf \<le> k"
    and "mc_next_send_valid_index sock = length buf * sizeof_MDPMarketUpdate" and "length (mc_outbound_data sock) = L"
    and "\<forall>x\<in>set (buf # mss). length x * sizeof_MDPMarketUpdate \<le> L"
  using assms by (cases c) (auto simp: cycle_inv_def)

lemma cycle_send_ok:
  assumes "cycle_inv L c ms k" and "Suc k * sizeof_MDPMarketUpdate < L"
  shows "\<exists>c'. cycle_send u c = Inr c' \<and> cycle_inv L c' (ms @ [u]) (Suc k)"
proof -
  obtain sock outs mss buf where c: "c = (sock, of_nat (length ms), outs)" "outs = map encode_all mss" "sent_bytes sock = encode_all buf"
    "concat mss @ buf = mdp_numbered 0 ms" "length buf \<le> k"
    "mc_next_send_valid_index sock = length buf * sizeof_MDPMarketUpdate" "length (mc_outbound_data sock) = L"
    "\<forall>x\<in>set (buf # mss). length x * sizeof_MDPMarketUpdate \<le> L"
    using cycle_invE [OF assms(1)] .
  let ?m = "\<lparr>mdp_seq_num = of_nat (length ms), mdp_update = u\<rparr>"
  have "Suc (length buf) * sizeof_MDPMarketUpdate \<le> Suc k * sizeof_MDPMarketUpdate" using c(5) by (intro mult_le_mono1) simp
  then have room: "sizeof_MDPMarketUpdate + length buf * sizeof_MDPMarketUpdate < L"
    using assms(2) by (simp only: mult_Suc)
  then have "mc_next_send_valid_index sock + sizeof_MDPMarketUpdate < length (mc_outbound_data sock)"
    using c(6,7) by simp
  then obtain sock' where s: "mcast_send (encode_update ?m) sock = Inr sock'"
     "sent_bytes sock' = sent_bytes sock @ encode_update ?m"
     "mc_next_send_valid_index sock' = mc_next_send_valid_index sock + sizeof_MDPMarketUpdate"
     "length (mc_outbound_data sock') = length (mc_outbound_data sock)"
    using mcast_send_ok [of sock "encode_update ?m"] by (auto simp: sent_bytes_def)
  have "cycle_inv L (sock', of_nat (length ms) + 1, outs) (ms @ [u]) (Suc k)"
    by (rule cycle_invI [of _ mss _ "buf @ [?m]"])
      (use c s room in \<open>simp_all add: mdp_numbered_append flip: append_assoc\<close>)
  then show ?thesis using c(1) s(1) by (simp add: cycle_send_def)
qed

lemma cycle_flush_ok:
  assumes "cycle_inv L c ms k"
  shows "\<exists>c'. cycle_flush c = Inr c' \<and> cycle_inv L c' ms 0"
proof -
  obtain sock outs mss buf where c: "c = (sock, of_nat (length ms), outs)" "outs = map encode_all mss" "sent_bytes sock = encode_all buf"
    "concat mss @ buf = mdp_numbered 0 ms" "length buf \<le> k"
    "mc_next_send_valid_index sock = length buf * sizeof_MDPMarketUpdate" "length (mc_outbound_data sock) = L"
    "\<forall>x\<in>set (buf # mss). length x * sizeof_MDPMarketUpdate \<le> L"
    using cycle_invE [OF assms(1)] .
  have "cycle_inv L (sock\<lparr>mc_next_send_valid_index := 0\<rparr>, of_nat (length ms), outs @ [encode_all buf]) ms 0"
    by (rule cycle_invI [of _ "mss @ [buf]" _ "[]"]) (use c in \<open>simp_all add: sent_bytes_def\<close>)
  then show ?thesis using c(1,3) by (simp add: cycle_flush_def mcast_sendAndRecv_def sent_bytes_def)
qed

lemma cycle_inv_mono: "cycle_inv L c ms k \<Longrightarrow> k \<le> k' \<Longrightarrow> cycle_inv L c ms k'"
  by (cases c) (auto simp: cycle_inv_def intro: order_trans)

lemma publish_orders_ok:
  assumes "cycle_inv L c ms k" and "Suc k * sizeof_MDPMarketUpdate < L"
  shows "\<exists>c'. rfold (publish_order S) ps c = Inr c' \<and>
     cycle_inv L c' (ms @ map (obj (syn_order_pool S)) (List.map_filter id ps)) k"
  using assms(1)
proof (induction ps arbitrary: c ms)
  case (Cons p ps)
  show ?case
  proof (cases p)
    case None
    then show ?thesis using Cons by (simp add: publish_order_def)
  next
    case (Some a)
    let ?u = "obj (syn_order_pool S) a"
    obtain c1 where c1: "cycle_send ?u c = Inr c1" "cycle_inv L c1 (ms @ [?u]) (Suc k)"
      using cycle_send_ok [OF Cons.prems assms(2)] by blast
    obtain c2 where c2: "cycle_flush c1 = Inr c2" "cycle_inv L c2 (ms @ [?u]) k"
      using cycle_flush_ok [OF c1(2)] cycle_inv_mono by blast
    show ?thesis using Cons.IH [OF c2(2)] Some c1(1) c2(1) by (simp add: publish_order_def)
  qed
qed simp

lemma map_filter_map_option: "map f (List.map_filter g xs) = List.map_filter (\<lambda>x. map_option f (g x)) xs"
  by (induction xs) (auto simp: List.map_filter_simps split: option.splits)

lemma map_filter_cong: "(\<And>x. x \<in> set xs \<Longrightarrow> f x = g x) \<Longrightarrow> List.map_filter f xs = List.map_filter g xs"
  by (induction xs) (auto simp: List.map_filter_simps split: option.splits)

lemma map_filter_id_map: "List.map_filter id (map f xs) = List.map_filter f xs"
  by (induction xs) (auto simp: List.map_filter_simps split: option.splits)

lemma publish_ticker_ok:
  assumes "syn_rel T N S A" and "t < T" and "cycle_inv L c ms k" and "Suc (Suc k) * sizeof_MDPMarketUpdate < L"
  shows "\<exists>c'. publish_ticker S t c = Inr c' \<and> cycle_inv L c' (ms @ clear_update t # table_orders N A t) (Suc k)"
proof -
  note D = syn_relD [OF assms(1)]
  obtain c1 where c1: "cycle_send (clear_update t) c = Inr c1" "cycle_inv L c1 (ms @ [clear_update t]) (Suc k)"
    using cycle_send_ok [OF assms(3), of "clear_update t"] assms(4) by auto
  let ?o = "arr_get (ticker_orders S) t"
  have "map (obj (syn_order_pool S)) (List.map_filter id (map (arr_get ?o) [0..<arr_size ?o])) = table_orders N A t"
    unfolding table_orders_def map_filter_id_map map_filter_map_option D(3) [OF assms(2)]
    using D(4) [OF assms(2)] by (intro map_filter_cong) (simp add: slot_def)
  then show ?thesis using publish_orders_ok [OF c1(2) assms(4), of S "map (arr_get ?o) [0..<arr_size ?o]"] c1(1)
    by (simp add: publish_ticker_def Let_def)
qed

lemma publish_tickers_ok:
  assumes "syn_rel T N S A" and "set ts \<subseteq> {..<T}" and "cycle_inv L c ms k"
    and "(k + length ts + 1) * sizeof_MDPMarketUpdate < L"
  shows "\<exists>c'. rfold (publish_ticker S) ts c = Inr c' \<and>
     cycle_inv L c' (ms @ concat (map (\<lambda>t. clear_update t # table_orders N A t) ts)) (k + length ts)"
  using assms(2-)
proof (induction ts arbitrary: c ms k)
  case (Cons t ts)
  have "(k + 2) * sizeof_MDPMarketUpdate \<le> (k + length (t # ts) + 1) * sizeof_MDPMarketUpdate"
    by (intro mult_le_mono1) simp
  then have "Suc (Suc k) * sizeof_MDPMarketUpdate < L" using Cons.prems(3) by (simp only: add_2_eq_Suc')
  then obtain c1 where c1: "publish_ticker S t c = Inr c1" "cycle_inv L c1 (ms @ clear_update t # table_orders N A t) (Suc k)"
    using publish_ticker_ok [OF assms(1) _ Cons.prems(2)] Cons.prems(1) by force
  show ?case using Cons.IH [OF _ c1(2)] Cons.prems(1,3) c1(1) by simp
qed simp

lemma cycle_run:
  assumes "syn_rel T N S A" and "mc_next_send_valid_index (snapshot_socket S) = 0"
    and "(T + 2) * sizeof_MDPMarketUpdate < length (mc_outbound_data (snapshot_socket S))"
  shows "\<exists>S' mss. publishSnapshot S = Inr (S', map encode_all mss) \<and>
     concat mss = mdp_numbered 0 (cycle_messages T N (last_inc_seq_num S) A) \<and>
     (\<forall>ms\<in>set mss. length ms * sizeof_MDPMarketUpdate \<le> length (mc_outbound_data (snapshot_socket S)))"
proof -
  let ?L = "length (mc_outbound_data (snapshot_socket S))" and ?n = "last_inc_seq_num S"
  have T: "arr_size (ticker_orders S) = T" using syn_relD(2) [OF assms(1)] .
  have L: "Suc 0 * sizeof_MDPMarketUpdate < ?L" "(Suc 0 + T + 1) * sizeof_MDPMarketUpdate < ?L"
    "Suc (Suc 0 + T) * sizeof_MDPMarketUpdate < ?L" using assms(3) by (simp_all add: algebra_simps)
  have "cycle_inv ?L (snapshot_socket S, 0, []) [] 0" using assms(2) by (simp add: cycle_inv_def sent_bytes_def)
  then obtain c1 where c1: "cycle_send (marker_update SNAPSHOT_START ?n) (snapshot_socket S, 0, []) = Inr c1"
    "cycle_inv ?L c1 [marker_update SNAPSHOT_START ?n] (Suc 0)" using cycle_send_ok [OF _ L(1)] by fastforce
  obtain c2 where c2: "rfold (publish_ticker S) [0..<T] c1 = Inr c2"
    "cycle_inv ?L c2 (marker_update SNAPSHOT_START ?n # cycle_body T N A) (Suc 0 + T)"
    using publish_tickers_ok [OF assms(1) _ c1(2), of "[0..<T]"] L(2) by (auto simp: cycle_body_def atLeast0LessThan)
  obtain c3 where c3: "cycle_send (marker_update SNAPSHOT_END ?n) c2 = Inr c3"
    "cycle_inv ?L c3 (cycle_messages T N ?n A) (Suc (Suc 0 + T))"
    using cycle_send_ok [OF c2(2) L(3), of "marker_update SNAPSHOT_END ?n"] by (auto simp: cycle_messages_def)
  obtain sock n outs where c4: "cycle_flush c3 = Inr (sock, n, outs)" "cycle_inv ?L (sock, n, outs) (cycle_messages T N ?n A) 0"
    using cycle_flush_ok [OF c3(2)] by auto
  then obtain mss where "outs = map encode_all mss" "concat mss = mdp_numbered 0 (cycle_messages T N ?n A)"
    "\<forall>ms\<in>set mss. length ms * sizeof_MDPMarketUpdate \<le> ?L"
    by (auto simp: cycle_inv_def)
  then show ?thesis using c1(1) c2(1) c3(1) c4(1) T by (intro exI [of _ "S\<lparr>snapshot_socket := sock\<rparr>"] exI [of _ mss]) (simp add: publishSnapshot_def)
qed

text \<open>
  a snapshot cycle is complete.  With a send buffer for one message per ticker and two more, a
  cycle succeeds, and its datagrams carry whole messages, numbered from 0: the start marker
  with the number of the last incremental update, then for each ticker a \<open>CLEAR\<close> followed by exactly
  its live orders in the order of their ids, then the end marker.
\<close>

theorem snapshot_cycle_complete:
  assumes "syn_rel T N S A" and "mc_next_send_valid_index (snapshot_socket S) = 0"
    and "(T + 2) * sizeof_MDPMarketUpdate < length (mc_outbound_data (snapshot_socket S))"
  shows "\<exists>S' mss. publishSnapshot S = Inr (S', map encode_all mss) \<and>
     concat mss = mdp_numbered 0 (cycle_messages T N (last_inc_seq_num S) A)"
  using cycle_run [OF assms] by blast

section \<open>An example\<close>

definition a_synthesizer :: SnapshotSynthesizer where
  "a_synthesizer = \<lparr>syn_md_updates = LFQueue_new 4 MDPMarketUpdate_default,
     snapshot_socket = mcast_init 3 (McastSocket_new 200), ticker_orders = arr_fill 1 (arr_fill 8 None),
     last_inc_seq_num = 0, last_snapshot_time = 0, syn_order_pool = MemPool_new 8 MEMarketUpdate_default\<rparr>"

lemma a_synthesizer_rel: "syn_rel 1 8 a_synthesizer (\<lambda>_ _. None)"
  by (simp add: syn_rel_def a_synthesizer_def slot_def pool_inv_new)

lemma a_synthesizer_sel:
  "last_inc_seq_num a_synthesizer = 0" "used (syn_order_pool a_synthesizer) = {}" "pool_size (syn_order_pool a_synthesizer) = 8"
  by (simp_all add: a_synthesizer_def)

theorem snapshot_replays_stream_witness:
  "\<exists>S'. rfold addToSnapshot (mdp_numbered 1 [an_update ADD 1 10 5, an_update MODIFY 1 10 3]) a_synthesizer = Inr S' \<and>
     syn_rel 1 8 S' ((\<lambda>_ _. None)(0 := [1 \<mapsto> an_update ADD 1 10 3]))"
proof -
  let ?us = "[an_update ADD 1 10 5, an_update MODIFY 1 10 3]"
  have "stream_ok 1 8 (\<lambda>_ _. None) ?us" by (simp add: update_ok_def table_update_def an_update_def)
  moreover have "fold table_update ?us (\<lambda>_ _. None) = (\<lambda>_ _. None)(0 := [1 \<mapsto> an_update ADD 1 10 3])"
    by (simp add: table_update_def an_update_def fun_eq_iff)
  ultimately show ?thesis
    using snapshot_replays_stream [OF a_synthesizer_rel, of ?us] unfolding a_synthesizer_sel by auto
qed

theorem snapshot_cycle_complete_witness:
  "\<exists>S' mss. publishSnapshot a_synthesizer = Inr (S', map encode_all mss) \<and>
     concat mss = mdp_numbered 0 [marker_update SNAPSHOT_START 0, clear_update 0, marker_update SNAPSHOT_END 0]"
proof -
  have "cycle_messages 1 8 0 (\<lambda>_ _. None) = [marker_update SNAPSHOT_START 0, clear_update 0, marker_update SNAPSHOT_END 0]"
    by (simp add: cycle_messages_def cycle_body_def table_orders_def List.map_filter_def)
  then show ?thesis using snapshot_cycle_complete [OF a_synthesizer_rel]
    by (simp add: a_synthesizer_sel) (simp add: a_synthesizer_def mcast_init_def McastSocket_new_def sizeof_MDPMarketUpdate_def)
qed

end
