(* ===== verification/Market_Data_Consumer.thy ===== *)
theory Market_Data_Consumer
  imports Snapshot_Synthesizer
begin

text \<open>
  \<open>Trading::MarketDataConsumer\<close> (\<open>trading/market_data/market_data_consumer.h\<close>,
  \<open>market_data_consumer.cpp\<close>): forwards the incremental stream to the trade engine as long as its
  sequence numbers are consecutive, and otherwise recovers from a snapshot cycle and the incremental
  updates that follow it.
\<close>

section \<open>State\<close>

text \<open>A \<open>std::map\<close> keyed by sequence numbers is an association list in ascending order of its keys.\<close>

type_synonym queued_msgs = "(SeqNum \<times> MEMarketUpdate) list"

fun queue_put :: "SeqNum \<Rightarrow> MEMarketUpdate \<Rightarrow> queued_msgs \<Rightarrow> queued_msgs" where
  "queue_put k v [] = [(k, v)]"
| "queue_put k v ((l, w) # Q) =
     (if k < l then (k, v) # (l, w) # Q else if k = l then (k, v) # Q else (l, w) # queue_put k v Q)"

record MarketDataConsumer =
  next_exp_inc_seq_num :: SeqNum
  con_md_updates :: "MEMarketUpdate LFQueue"
  incremental_mcast_socket :: McastSocket
  snapshot_mcast_socket :: McastSocket
  in_recovery :: bool
  snapshot_queued_msgs :: queued_msgs
  incremental_queued_msgs :: queued_msgs

text \<open>The results of \<open>createSocket()\<close> and of joining the multicast group.\<close>

type_synonym subscription = "int \<times> bool"

definition MarketDataConsumer_new :: "nat \<Rightarrow> subscription \<Rightarrow> MEMarketUpdate LFQueue \<Rightarrow> MarketDataConsumer res" where
  "MarketDataConsumer_new McastBufferSize = (\<lambda>(fd, joined) market_updates.
     rbind (ASSERT (fd \<ge> 0) ''Unable to create incremental mcast socket.'') (\<lambda>_.
     rbind (ASSERT joined ''Join failed'') (\<lambda>_.
     Inr \<lparr>next_exp_inc_seq_num = 1, con_md_updates = market_updates,
          incremental_mcast_socket = mcast_init fd (McastSocket_new McastBufferSize),
          snapshot_mcast_socket = McastSocket_new McastBufferSize, in_recovery = False,
          snapshot_queued_msgs = [], incremental_queued_msgs = []\<rparr>)))"

section \<open>Recovery\<close>

definition startSnapshotSync :: "subscription \<Rightarrow> MarketDataConsumer \<Rightarrow> MarketDataConsumer res" where
  "startSnapshotSync = (\<lambda>(fd, joined) c.
     rbind (ASSERT (fd \<ge> 0) ''Unable to create snapshot mcast socket.'') (\<lambda>_.
     rbind (ASSERT joined ''Join failed'') (\<lambda>_.
     Inr (c\<lparr>snapshot_queued_msgs := [], incremental_queued_msgs := [],
            snapshot_mcast_socket := mcast_init fd (snapshot_mcast_socket c)\<rparr>))))"

definition is_marker :: "MEMarketUpdate \<Rightarrow> bool" where
  "is_marker u \<longleftrightarrow> upd_type u = SNAPSHOT_START \<or> upd_type u = SNAPSHOT_END"

text \<open>The loop over the queued snapshot messages: the events to forward, or nothing at a gap.\<close>

fun scan_snapshot :: "SeqNum \<Rightarrow> queued_msgs \<Rightarrow> MEMarketUpdate list option" where
  "scan_snapshot next_snapshot_seq [] = Some []"
| "scan_snapshot next_snapshot_seq ((k, u) # Q) =
     (if k \<noteq> next_snapshot_seq then None
      else map_option (\<lambda>events. if is_marker u then events else u # events) (scan_snapshot (next_snapshot_seq + 1) Q))"

text \<open>
  The loop over the queued incremental messages: whether they are complete, the number expected next
  and the events to forward.
\<close>

fun scan_incrementals :: "SeqNum \<Rightarrow> queued_msgs \<Rightarrow> bool \<times> SeqNum \<times> MEMarketUpdate list" where
  "scan_incrementals next_exp [] = (True, next_exp, [])"
| "scan_incrementals next_exp ((k, u) # Q) =
     (if k < next_exp then scan_incrementals next_exp Q
      else if k \<noteq> next_exp then (False, next_exp, [])
      else (case scan_incrementals (next_exp + 1) Q of
              (have_all, n, events) \<Rightarrow> (have_all, n, if is_marker u then events else u # events)))"

definition checkSnapshotSync :: "MarketDataConsumer \<Rightarrow> MarketDataConsumer" where
  "checkSnapshotSync c =
     (if snapshot_queued_msgs c = [] then c
      else if upd_type (snd (hd (snapshot_queued_msgs c))) \<noteq> SNAPSHOT_START then c\<lparr>snapshot_queued_msgs := []\<rparr>
      else case scan_snapshot 0 (snapshot_queued_msgs c) of
        None \<Rightarrow> c\<lparr>snapshot_queued_msgs := []\<rparr>
      | Some events \<Rightarrow>
          let last_snapshot_msg = snd (last (snapshot_queued_msgs c)) in
          if upd_type last_snapshot_msg \<noteq> SNAPSHOT_END then c
          else
            case scan_incrementals (upd_order_id last_snapshot_msg + 1) (incremental_queued_msgs c) of
              (have_all, n, incs) \<Rightarrow>
                if \<not> have_all then c\<lparr>next_exp_inc_seq_num := n, snapshot_queued_msgs := []\<rparr>
                else c\<lparr>next_exp_inc_seq_num := n, con_md_updates := fold lfq_push (events @ incs) (con_md_updates c),
                       snapshot_queued_msgs := [], incremental_queued_msgs := [], in_recovery := False,
                       snapshot_mcast_socket := mcast_leave (snapshot_mcast_socket c)\<rparr>)"

definition queueMessage :: "bool \<Rightarrow> MDPMarketUpdate \<Rightarrow> MarketDataConsumer \<Rightarrow> MarketDataConsumer" where
  "queueMessage is_snapshot request c =
     checkSnapshotSync
       (if is_snapshot then
          let Q = (if mdp_seq_num request \<in> fst ` set (snapshot_queued_msgs c) then [] else snapshot_queued_msgs c) in
          c\<lparr>snapshot_queued_msgs := queue_put (mdp_seq_num request) (mdp_update request) Q\<rparr>
        else
          c\<lparr>incremental_queued_msgs := queue_put (mdp_seq_num request) (mdp_update request) (incremental_queued_msgs c)\<rparr>)"

section \<open>Receiving\<close>

text \<open>The body of the loop of \<open>recvCallback()\<close> for one message.\<close>

definition handle_update :: "subscription \<Rightarrow> bool \<Rightarrow> MDPMarketUpdate \<Rightarrow> MarketDataConsumer \<Rightarrow> MarketDataConsumer res" where
  "handle_update sub is_snapshot request c =
     (let already_in_recovery = in_recovery c;
          c = c\<lparr>in_recovery := already_in_recovery \<or> mdp_seq_num request \<noteq> next_exp_inc_seq_num c\<rparr>
      in
      if in_recovery c then
        rbind (if \<not> already_in_recovery then startSnapshotSync sub c else Inr c) (\<lambda>c.
        Inr (queueMessage is_snapshot request c))
      else if \<not> is_snapshot then
        Inr (c\<lparr>next_exp_inc_seq_num := next_exp_inc_seq_num c + 1,
               con_md_updates := lfq_push (mdp_update request) (con_md_updates c)\<rparr>)
      else Inr c)"

text \<open>The socket a callback is called with: the snapshot socket or the incremental socket.\<close>

definition con_socket :: "bool \<Rightarrow> MarketDataConsumer \<Rightarrow> McastSocket" where
  "con_socket sn c = (if sn then snapshot_mcast_socket c else incremental_mcast_socket c)"

definition set_con_socket :: "bool \<Rightarrow> McastSocket \<Rightarrow> MarketDataConsumer \<Rightarrow> MarketDataConsumer" where
  "set_con_socket sn sock c = (if sn then c\<lparr>snapshot_mcast_socket := sock\<rparr> else c\<lparr>incremental_mcast_socket := sock\<rparr>)"

definition consumer_recvCallback :: "subscription \<Rightarrow> bool \<Rightarrow> MarketDataConsumer \<Rightarrow> MarketDataConsumer res" where
  "consumer_recvCallback sub sn c =
     (let sock = con_socket sn c; is_snapshot = (mc_socket_fd sock = mc_socket_fd (snapshot_mcast_socket c)) in
      if is_snapshot \<and> \<not> in_recovery c then Inr (set_con_socket sn (sock\<lparr>mc_next_rcv_valid_index := 0\<rparr>) c)
      else
        rbind (frames sizeof_MDPMarketUpdate (\<lambda>m. handle_update sub is_snapshot (decode_update m))
                 (take (mc_next_rcv_valid_index sock) (mc_inbound_data sock)) c) (\<lambda>(rest, c).
        Inr (set_con_socket sn ((con_socket sn c)\<lparr>mc_inbound_data := put_bytes 0 rest (mc_inbound_data sock),
                                                   mc_next_rcv_valid_index := length rest\<rparr>) c)))"

text \<open>\<open>sendAndRecv()\<close> of one of the sockets when \<open>recv()\<close> delivers \<open>rcv\<close>, and an iteration of \<open>run()\<close>.\<close>

definition consumer_recv :: "subscription \<Rightarrow> bool \<Rightarrow> byte list \<Rightarrow> MarketDataConsumer \<Rightarrow> MarketDataConsumer res" where
  "consumer_recv sub sn rcv c =
     rbind (mcast_sendAndRecv
              (\<lambda>sock c. rbind (consumer_recvCallback sub sn (set_con_socket sn sock c)) (\<lambda>c. Inr (con_socket sn c, c)))
              rcv (con_socket sn c) c) (\<lambda>(sock, c, _, _).
     Inr (set_con_socket sn sock c))"

definition consumer_run_once :: "subscription \<Rightarrow> byte list \<Rightarrow> byte list \<Rightarrow> MarketDataConsumer \<Rightarrow> MarketDataConsumer res" where
  "consumer_run_once sub rcv_incremental rcv_snapshot c =
     rbind (consumer_recv sub False rcv_incremental c) (consumer_recv sub True rcv_snapshot)"

section \<open>Whole messages\<close>

lemma con_socket_set [simp]:
  "con_socket sn (set_con_socket sn sock c) = sock" "con_socket (\<not> sn) (set_con_socket sn sock c) = con_socket (\<not> sn) c"
  "set_con_socket sn s (set_con_socket sn s' c) = set_con_socket sn s c" "set_con_socket sn (con_socket sn c) c = c"
  by (simp_all add: con_socket_def set_con_socket_def)

lemma set_con_socket_frame [simp]:
  "next_exp_inc_seq_num (set_con_socket sn s c) = next_exp_inc_seq_num c"
  "con_md_updates (set_con_socket sn s c) = con_md_updates c" "in_recovery (set_con_socket sn s c) = in_recovery c"
  "snapshot_queued_msgs (set_con_socket sn s c) = snapshot_queued_msgs c"
  "incremental_queued_msgs (set_con_socket sn s c) = incremental_queued_msgs c"
  by (simp_all add: set_con_socket_def)

definition wire_ok :: "MDPMarketUpdate list \<Rightarrow> bool" where
  "wire_ok ms \<longleftrightarrow> (\<forall>m\<in>set ms. is_int64 (upd_price (mdp_update m)))"

lemma wire_ok_numbered: "\<forall>u\<in>set us. is_int64 (upd_price u) \<Longrightarrow> wire_ok (mdp_numbered k us)"
  by (induction us arbitrary: k) (auto simp: wire_ok_def)

lemma frames_encode_all:
  assumes "wire_ok ms"
  shows "frames sizeof_MDPMarketUpdate (\<lambda>m. h (decode_update m)) (encode_all ms) c = rbind (rfold h ms c) (\<lambda>c. Inr ([], c))"
proof -
  have "rfold (\<lambda>m. h (decode_update m)) (map encode_update ms) c = rfold h ms c"
    using assms by (induction ms arbitrary: c) (auto simp: wire_ok_def decode_encode_update intro!: rbind_cong)
  then show ?thesis unfolding encode_all_def by (subst frames_messages) (simp_all add: sizeof_MDPMarketUpdate_def)
qed

text \<open>A socket whose buffer is empty and can take the datagram.\<close>

definition can_recv :: "McastSocket \<Rightarrow> nat \<Rightarrow> bool" where
  "can_recv sock n \<longleftrightarrow> mc_next_rcv_valid_index sock = 0 \<and> mc_next_send_valid_index sock = 0 \<and> n \<le> length (mc_inbound_data sock)"

lemma can_recv_mono: "can_recv sock n \<Longrightarrow> m \<le> n \<Longrightarrow> can_recv sock m"
  by (simp add: can_recv_def)

lemma consumer_recv_nothing: "mc_next_send_valid_index (con_socket sn c) = 0 \<Longrightarrow> consumer_recv sub sn [] c = Inr c"
proof -
  assume "mc_next_send_valid_index (con_socket sn c) = 0"
  then have "(con_socket sn c)\<lparr>mc_next_send_valid_index := 0\<rparr> = con_socket sn c" by simp
  then show ?thesis by (simp add: consumer_recv_def mcast_sendAndRecv_def)
qed

lemma consumer_recv_messages:
  assumes "ms \<noteq> []" and "wire_ok ms" and "can_recv (con_socket sn c) (length (encode_all ms))"
    and "is_snapshot = (mc_socket_fd (con_socket sn c) = mc_socket_fd (snapshot_mcast_socket c))" and "is_snapshot \<longrightarrow> in_recovery c"
    and s1: "s1 = (con_socket sn c)\<lparr>mc_inbound_data := put_bytes 0 (encode_all ms) (mc_inbound_data (con_socket sn c)),
               mc_next_rcv_valid_index := length (encode_all ms)\<rparr>"
    and "rfold (handle_update sub is_snapshot) ms (set_con_socket sn s1 c) = Inr d"
  shows "consumer_recv sub sn (encode_all ms) c =
     Inr (set_con_socket sn ((con_socket sn d)\<lparr>mc_inbound_data := mc_inbound_data s1, mc_next_rcv_valid_index := 0,
       mc_next_send_valid_index := 0\<rparr>) d)"
proof -
  let ?d = "set_con_socket sn s1 c"
  have ne: "encode_all ms \<noteq> []" using assms(1) by (cases ms) (auto simp: sizeof_MDPMarketUpdate_def simp flip: length_0_conv)
  have fd: "(mc_socket_fd s1 = mc_socket_fd (snapshot_mcast_socket ?d)) = is_snapshot"
    using assms(4) s1 by (auto simp: set_con_socket_def con_socket_def)
  have bytes: "take (mc_next_rcv_valid_index s1) (mc_inbound_data s1) = encode_all ms"
    using assms(3) take_put_bytes [of 0 "encode_all ms" "mc_inbound_data (con_socket sn c)"] by (simp add: s1 can_recv_def)
  have "consumer_recvCallback sub sn ?d = Inr (set_con_socket sn ((con_socket sn d)\<lparr>mc_inbound_data := mc_inbound_data s1,
      mc_next_rcv_valid_index := 0\<rparr>) d)"
    using frames_encode_all [OF assms(2), of "handle_update sub is_snapshot" ?d] assms(5,7) fd bytes
    by (auto simp: consumer_recvCallback_def Let_def put_bytes_def)
  moreover have "mc_next_rcv_valid_index (con_socket sn c) = 0" using assms(3) by (simp add: can_recv_def)
  ultimately show ?thesis using ne by (simp add: consumer_recv_def mcast_sendAndRecv_def del: length_encode_all flip: s1)
qed

section \<open>In-order updates\<close>

lemma handle_in_order:
  assumes "\<not> in_recovery c"
  shows "rfold (handle_update sub False) (mdp_numbered (next_exp_inc_seq_num c) us) c =
     Inr (c\<lparr>next_exp_inc_seq_num := next_exp_inc_seq_num c + of_nat (length us), con_md_updates := fold lfq_push us (con_md_updates c)\<rparr>)"
  using assms
proof (induction us arbitrary: c)
  case (Cons u us)
  let ?c = "c\<lparr>next_exp_inc_seq_num := next_exp_inc_seq_num c + 1, con_md_updates := lfq_push u (con_md_updates c)\<rparr>"
  have eq: "c\<lparr>in_recovery := False\<rparr> = c" using Cons.prems by (cases c) simp
  have "handle_update sub False \<lparr>mdp_seq_num = next_exp_inc_seq_num c, mdp_update = u\<rparr> c = Inr ?c"
    using Cons.prems by (simp add: handle_update_def Let_def eq)
  then show ?case using Cons.IH [of ?c] Cons.prems by (simp add: add.assoc)
qed simp

lemma forward_exact:
  assumes "\<not> in_recovery c" and "mc_socket_fd (incremental_mcast_socket c) \<noteq> mc_socket_fd (snapshot_mcast_socket c)"
    and "can_recv (incremental_mcast_socket c) (length us * sizeof_MDPMarketUpdate)" and "\<forall>u\<in>set us. is_int64 (upd_price u)"
  shows "\<exists>c'. consumer_recv sub False (encode_all (mdp_numbered (next_exp_inc_seq_num c) us)) c = Inr c' \<and>
     con_md_updates c' = fold lfq_push us (con_md_updates c) \<and>
     next_exp_inc_seq_num c' = next_exp_inc_seq_num c + of_nat (length us) \<and> \<not> in_recovery c' \<and>
     mc_next_rcv_valid_index (incremental_mcast_socket c') = 0 \<and> mc_next_send_valid_index (incremental_mcast_socket c') = 0 \<and>
     length (mc_inbound_data (incremental_mcast_socket c')) = length (mc_inbound_data (incremental_mcast_socket c)) \<and>
     mc_socket_fd (incremental_mcast_socket c') = mc_socket_fd (incremental_mcast_socket c) \<and> snapshot_mcast_socket c' = snapshot_mcast_socket c"
proof (cases "us = []")
  case True
  then show ?thesis using consumer_recv_nothing [of False c] assms(1,3) by (simp add: can_recv_def con_socket_def)
next
  case False
  let ?ms = "mdp_numbered (next_exp_inc_seq_num c) us"
  define s1 where s1: "s1 = (con_socket False c)\<lparr>mc_inbound_data := put_bytes 0 (encode_all ?ms) (mc_inbound_data (con_socket False c)),
    mc_next_rcv_valid_index := length (encode_all ?ms)\<rparr>"
  let ?d = "set_con_socket False s1 c"
  have ne: "?ms \<noteq> []" using False by (metis length_0_conv length_mdp_numbered)
  have w: "wire_ok ?ms" using assms(4) by (rule wire_ok_numbered)
  have r: "can_recv (con_socket False c) (length (encode_all ?ms))" using assms(3) by (simp add: con_socket_def)
  have f: "False = (mc_socket_fd (con_socket False c) = mc_socket_fd (snapshot_mcast_socket c))"
    using assms(2) by (simp add: con_socket_def)
  have h: "rfold (handle_update sub False) ?ms ?d = Inr (?d\<lparr>next_exp_inc_seq_num := next_exp_inc_seq_num c + of_nat (length us),
      con_md_updates := fold lfq_push us (con_md_updates c)\<rparr>)"
    using handle_in_order [of ?d sub us] assms(1) by simp
  have len: "length (mc_inbound_data s1) = length (mc_inbound_data (con_socket False c))" "mc_socket_fd s1 = mc_socket_fd (con_socket False c)"
    using r by (simp_all add: s1 can_recv_def)
  show ?thesis using consumer_recv_messages [OF ne w r f _ s1 h] assms(1) len
    by (simp add: set_con_socket_def con_socket_def)
qed

lemma forward_run:
  assumes "\<not> in_recovery c" and "mc_socket_fd (incremental_mcast_socket c) \<noteq> mc_socket_fd (snapshot_mcast_socket c)"
    and "can_recv (incremental_mcast_socket c) (length us * sizeof_MDPMarketUpdate)" and "\<forall>u\<in>set us. is_int64 (upd_price u)"
    and "lfq_inv (con_md_updates c)" and "length (lfq_items (con_md_updates c)) + length us \<le> lfq_cap (con_md_updates c)"
  shows "\<exists>c'. consumer_recv sub False (encode_all (mdp_numbered (next_exp_inc_seq_num c) us)) c = Inr c' \<and>
     lfq_items (con_md_updates c') = lfq_items (con_md_updates c) @ us \<and>
     next_exp_inc_seq_num c' = next_exp_inc_seq_num c + of_nat (length us) \<and> \<not> in_recovery c' \<and>
     can_recv (incremental_mcast_socket c') (length us * sizeof_MDPMarketUpdate)"
  using forward_exact [OF assms(1-4), of sub] lfq.push_all [OF assms(5,6)] assms(3) by (auto simp: can_recv_def)

text \<open>
  without a gap the consumer is transparent.  A datagram of the incremental stream whose messages
  are numbered consecutively from the number the consumer expects is forwarded to the trade engine
  completely and in order, and the consumer then expects the number after the last.
\<close>

theorem consumer_forwards_in_order:
  assumes "\<not> in_recovery c" and "mc_socket_fd (incremental_mcast_socket c) \<noteq> mc_socket_fd (snapshot_mcast_socket c)"
    and "can_recv (incremental_mcast_socket c) (length us * sizeof_MDPMarketUpdate)" and "\<forall>u\<in>set us. is_int64 (upd_price u)"
    and "lfq_inv (con_md_updates c)" and "length (lfq_items (con_md_updates c)) + length us \<le> lfq_cap (con_md_updates c)"
  shows "\<exists>c'. consumer_recv sub False (encode_all (mdp_numbered (next_exp_inc_seq_num c) us)) c = Inr c' \<and>
     lfq_items (con_md_updates c') = lfq_items (con_md_updates c) @ us \<and>
     next_exp_inc_seq_num c' = next_exp_inc_seq_num c + of_nat (length us) \<and> \<not> in_recovery c' \<and>
     can_recv (incremental_mcast_socket c') (length us * sizeof_MDPMarketUpdate)"
  using forward_run [OF assms] .

section \<open>Entering recovery\<close>

text \<open>
  a gap is noticed.  When an incremental message does not carry the expected number, nothing is
  forwarded, the consumer is in recovery, subscribes to the snapshot stream, drops what it had queued
  and keeps this message.
\<close>

theorem consumer_gap_starts_recovery:
  assumes "\<not> in_recovery c" and "mdp_seq_num m \<noteq> next_exp_inc_seq_num c" and "fd \<ge> 0"
  shows "handle_update (fd, True) False m c =
     Inr (c\<lparr>in_recovery := True, snapshot_queued_msgs := [], incremental_queued_msgs := [(mdp_seq_num m, mdp_update m)],
            snapshot_mcast_socket := mcast_init fd (snapshot_mcast_socket c)\<rparr>)"
  using assms by (simp add: handle_update_def Let_def startSnapshotSync_def queueMessage_def checkSnapshotSync_def)

section \<open>Recovering\<close>

definition qpairs :: "MDPMarketUpdate list \<Rightarrow> queued_msgs" where
  "qpairs ms = map (\<lambda>m. (mdp_seq_num m, mdp_update m)) ms"

lemma qpairs_simps [simp]:
  "qpairs [] = []" "qpairs (m # ms) = (mdp_seq_num m, mdp_update m) # qpairs ms" "qpairs (ms @ ns) = qpairs ms @ qpairs ns"
  "qpairs ms = [] \<longleftrightarrow> ms = []"
  by (simp_all add: qpairs_def)

lemma queue_put_last: "\<forall>x\<in>set Q. fst x < k \<Longrightarrow> queue_put k v Q = Q @ [(k, v)]"
  by (induction k v Q rule: queue_put.induct) auto

lemma seq_of_numbered: "m \<in> set (mdp_numbered 0 us) \<Longrightarrow> length us < 2 ^ 64 \<Longrightarrow> mdp_seq_num m < of_nat (length us)"
proof -
  assume *: "m \<in> set (mdp_numbered 0 us)" "length us < 2 ^ 64"
  then obtain i where i: "i < length us" "mdp_seq_num m = of_nat i"
    by (auto simp: mdp_numbered_def in_set_enumerate_eq)
  have "unat (of_nat i :: SeqNum) = i" "unat (of_nat (length us) :: SeqNum) = length us"
    using i(1) *(2) by (simp_all add: unat_of_nat take_bit_eq_mod)
  then show ?thesis using i by (simp add: word_less_nat_alt)
qed

lemma scan_snapshot_numbered: "scan_snapshot k (qpairs (mdp_numbered k us)) = Some (filter (\<lambda>u. \<not> is_marker u) us)"
  by (induction us arbitrary: k) simp_all

lemma scan_incrementals_old:
  assumes "\<forall>x\<in>set old. fst x \<le> n" and "unat n + 1 < 2 ^ 64"
  shows "scan_incrementals (n + 1) (old @ Q) = scan_incrementals (n + 1) Q"
proof -
  have "unat (n + 1) = unat n + 1" using assms(2) by (simp add: unat_word_ariths take_bit_eq_mod)
  then have "n < n + 1" by (simp add: word_less_nat_alt)
  then show ?thesis using assms(1) by (induction old) (auto intro: order.strict_trans1)
qed

lemma scan_incrementals_numbered:
  "scan_incrementals k (qpairs (mdp_numbered k us)) = (True, k + of_nat (length us), filter (\<lambda>u. \<not> is_marker u) us)"
  by (induction us arbitrary: k) (simp_all add: add.assoc)

text \<open>The part of a cycle before its end marker.\<close>

definition open_cycle :: "MEMarketUpdate list \<Rightarrow> bool" where
  "open_cycle us \<longleftrightarrow> us \<noteq> [] \<and> upd_type (hd us) = SNAPSHOT_START \<and> (\<forall>u\<in>set us. upd_type u \<noteq> SNAPSHOT_END)"

lemma open_cycle_append: "open_cycle (us @ vs) \<Longrightarrow> us \<noteq> [] \<Longrightarrow> open_cycle us"
  by (auto simp: open_cycle_def)

lemma queue_snapshot:
  assumes "snapshot_queued_msgs c = qpairs (mdp_numbered 0 us)" and "length us < 2 ^ 64"
  shows "queueMessage True \<lparr>mdp_seq_num = of_nat (length us), mdp_update = u\<rparr> c =
     checkSnapshotSync (c\<lparr>snapshot_queued_msgs := qpairs (mdp_numbered 0 (us @ [u]))\<rparr>)"
proof -
  have lt: "\<forall>x\<in>set (qpairs (mdp_numbered 0 us)). fst x < of_nat (length us)"
    using seq_of_numbered [OF _ assms(2)] by (auto simp: qpairs_def)
  then have "of_nat (length us) \<notin> fst ` set (qpairs (mdp_numbered 0 us))" by force
  then show ?thesis using assms(1) queue_put_last [OF lt] by (simp add: queueMessage_def mdp_numbered_append)
qed

lemma numbered_empty [simp]: "mdp_numbered k us = [] \<longleftrightarrow> us = []"
  by (cases us) auto

lemma last_numbered: "us \<noteq> [] \<Longrightarrow> snd (last (qpairs (mdp_numbered k us))) = last us"
  by (induction us arbitrary: k) auto

lemma hd_numbered: "us \<noteq> [] \<Longrightarrow> snd (hd (qpairs (mdp_numbered k us))) = hd us"
  by (cases us) auto

lemma check_open:
  assumes "snapshot_queued_msgs c = qpairs (mdp_numbered 0 us)" and "open_cycle us"
  shows "checkSnapshotSync c = c"
  using assms hd_numbered [of us 0] last_numbered [of us 0] scan_snapshot_numbered [of 0 us] last_in_set [of us]
  by (simp add: checkSnapshotSync_def open_cycle_def Let_def)

lemma handle_recovering: "in_recovery c \<Longrightarrow> handle_update sub sn m c = Inr (queueMessage sn m c)"
proof -
  assume r: "in_recovery c"
  then have eq: "c\<lparr>in_recovery := True\<rparr> = c" by (cases c) simp
  show ?thesis using r by (simp add: handle_update_def Let_def eq)
qed

lemma handle_snapshot_open:
  assumes "in_recovery c" and "snapshot_queued_msgs c = qpairs (mdp_numbered 0 us)" and "open_cycle (us @ vs)"
    and "length (us @ vs) < 2 ^ 64"
  shows "rfold (handle_update sub True) (mdp_numbered (of_nat (length us)) vs) c =
     Inr (c\<lparr>snapshot_queued_msgs := qpairs (mdp_numbered 0 (us @ vs))\<rparr>)"
  using assms
proof (induction vs arbitrary: us c)
  case Nil
  then show ?case by simp
next
  case (Cons v vs)
  let ?c = "c\<lparr>snapshot_queued_msgs := qpairs (mdp_numbered 0 (us @ [v]))\<rparr>"
  have "open_cycle (us @ [v])" using open_cycle_append [of "us @ [v]" vs] Cons.prems(3) by simp
  then have "checkSnapshotSync ?c = ?c" by (intro check_open) simp_all
  then have "handle_update sub True \<lparr>mdp_seq_num = of_nat (length us), mdp_update = v\<rparr> c = Inr ?c"
    using Cons.prems queue_snapshot [OF Cons.prems(2), of v] by (simp add: handle_recovering)
  moreover have "rfold (handle_update sub True) (mdp_numbered (of_nat (length (us @ [v]))) vs) ?c =
      Inr (?c\<lparr>snapshot_queued_msgs := qpairs (mdp_numbered 0 ((us @ [v]) @ vs))\<rparr>)"
    by (rule Cons.IH) (use Cons.prems in simp_all)
  ultimately show ?case by (simp add: add.commute)
qed

definition recovered :: "MEMarketUpdate list \<Rightarrow> SeqNum \<Rightarrow> MarketDataConsumer \<Rightarrow> MarketDataConsumer" where
  "recovered events n c = c\<lparr>next_exp_inc_seq_num := n, con_md_updates := fold lfq_push events (con_md_updates c),
     snapshot_queued_msgs := [], incremental_queued_msgs := [], in_recovery := False,
     snapshot_mcast_socket := mcast_leave (snapshot_mcast_socket c)\<rparr>"

lemma handle_snapshot_end:
  assumes "in_recovery c" and "snapshot_queued_msgs c = qpairs (mdp_numbered 0 us)" and "open_cycle us" and "length us < 2 ^ 64"
    and "upd_type e = SNAPSHOT_END"
    and "scan_incrementals (upd_order_id e + 1) (incremental_queued_msgs c) = (True, n, incs)"
  shows "handle_update sub True \<lparr>mdp_seq_num = of_nat (length us), mdp_update = e\<rparr> c =
     Inr (recovered (filter (\<lambda>u. \<not> is_marker u) us @ incs) n c)"
proof -
  let ?c = "c\<lparr>snapshot_queued_msgs := qpairs (mdp_numbered 0 (us @ [e]))\<rparr>"
  have "hd (us @ [e]) = hd us" using assms(3) by (simp add: open_cycle_def)
  then have "checkSnapshotSync ?c = recovered (filter (\<lambda>u. \<not> is_marker u) us @ incs) n c"
    using hd_numbered [of "us @ [e]" 0] last_numbered [of "us @ [e]" 0] scan_snapshot_numbered [of 0 "us @ [e]"] assms(3,5,6)
    by (simp add: checkSnapshotSync_def open_cycle_def Let_def is_marker_def [of e] recovered_def del: qpairs_simps(3))
  then show ?thesis using assms(1) queue_snapshot [OF assms(2,4), of e] by (simp add: handle_recovering)
qed

text \<open>
  The run over the datagrams of a cycle.  Between them the consumer has queued what it got; \<open>us\<close> is
  what was received before and \<open>vs\<close> what is still to come before the end marker \<open>e\<close>.
\<close>

lemma recv_open:
  assumes "in_recovery c" and "snapshot_queued_msgs c = qpairs (mdp_numbered 0 us)" and "open_cycle (us @ vs)"
    and "length (us @ vs) < 2 ^ 64" and "\<forall>v\<in>set vs. is_int64 (upd_price v)"
    and "can_recv (snapshot_mcast_socket c) (length vs * sizeof_MDPMarketUpdate)"
  shows "\<exists>sock. consumer_recv sub True (encode_all (mdp_numbered (of_nat (length us)) vs)) c =
      Inr (c\<lparr>snapshot_queued_msgs := qpairs (mdp_numbered 0 (us @ vs)), snapshot_mcast_socket := sock\<rparr>) \<and>
     (\<forall>n. can_recv sock n = can_recv (snapshot_mcast_socket c) n)"
proof (cases "vs = []")
  case True
  have "c\<lparr>snapshot_queued_msgs := qpairs (mdp_numbered 0 us), snapshot_mcast_socket := snapshot_mcast_socket c\<rparr> = c"
    using assms(2) by (cases c) simp
  then show ?thesis using True assms(2,6) consumer_recv_nothing [of True c]
    by (intro exI [of _ "snapshot_mcast_socket c"]) (simp add: can_recv_def con_socket_def)
next
  case False
  let ?ms = "mdp_numbered (of_nat (length us)) vs"
  define s1 where s1: "s1 = (con_socket True c)\<lparr>mc_inbound_data := put_bytes 0 (encode_all ?ms) (mc_inbound_data (con_socket True c)),
    mc_next_rcv_valid_index := length (encode_all ?ms)\<rparr>"
  let ?d = "set_con_socket True s1 c"
  have ne: "?ms \<noteq> []" using False by simp
  have w: "wire_ok ?ms" using assms(5) by (rule wire_ok_numbered)
  have r: "can_recv (con_socket True c) (length (encode_all ?ms))" using assms(6) by (simp add: con_socket_def)
  have t: "True = (mc_socket_fd (con_socket True c) = mc_socket_fd (snapshot_mcast_socket c))" by (simp add: con_socket_def)
  have h: "rfold (handle_update sub True) ?ms ?d = Inr (?d\<lparr>snapshot_queued_msgs := qpairs (mdp_numbered 0 (us @ vs))\<rparr>)"
    by (rule handle_snapshot_open) (use assms(1-4) in simp_all)
  have len: "length (mc_inbound_data s1) = length (mc_inbound_data (con_socket True c))" using r by (simp add: s1 can_recv_def)
  show ?thesis using consumer_recv_messages [OF ne w r t _ s1 h] assms(1,6) len
    by (auto simp: set_con_socket_def con_socket_def can_recv_def)
qed

lemma recv_end:
  assumes "in_recovery c" and "snapshot_queued_msgs c = qpairs (mdp_numbered 0 us)" and "open_cycle (us @ vs)"
    and "length (us @ vs) < 2 ^ 64" and "\<forall>v\<in>set (vs @ [e]). is_int64 (upd_price v)"
    and "can_recv (snapshot_mcast_socket c) (length (vs @ [e]) * sizeof_MDPMarketUpdate)" and "upd_type e = SNAPSHOT_END"
    and "scan_incrementals (upd_order_id e + 1) (incremental_queued_msgs c) = (True, n, incs)"
  shows "\<exists>sock. consumer_recv sub True (encode_all (mdp_numbered (of_nat (length us)) (vs @ [e]))) c =
     Inr ((recovered (filter (\<lambda>u. \<not> is_marker u) (us @ vs) @ incs) n c)\<lparr>snapshot_mcast_socket := sock\<rparr>) \<and>
     mc_next_send_valid_index sock = 0"
proof -
  let ?ms = "mdp_numbered (of_nat (length us)) (vs @ [e])"
  define s1 where s1: "s1 = (con_socket True c)\<lparr>mc_inbound_data := put_bytes 0 (encode_all ?ms) (mc_inbound_data (con_socket True c)),
    mc_next_rcv_valid_index := length (encode_all ?ms)\<rparr>"
  let ?d = "set_con_socket True s1 c"
  have ne: "?ms \<noteq> []" by simp
  have w: "wire_ok ?ms" using assms(5) by (rule wire_ok_numbered)
  have r: "can_recv (con_socket True c) (length (encode_all ?ms))" using assms(6) by (simp add: con_socket_def)
  have t: "True = (mc_socket_fd (con_socket True c) = mc_socket_fd (snapshot_mcast_socket c))" by (simp add: con_socket_def)
  let ?d1 = "?d\<lparr>snapshot_queued_msgs := qpairs (mdp_numbered 0 (us @ vs))\<rparr>"
  have h1: "rfold (handle_update sub True) (mdp_numbered (of_nat (length us)) vs) ?d = Inr ?d1"
    by (rule handle_snapshot_open) (use assms(1-4) in simp_all)
  have h2: "handle_update sub True \<lparr>mdp_seq_num = of_nat (length (us @ vs)), mdp_update = e\<rparr> ?d1 =
      Inr (recovered (filter (\<lambda>u. \<not> is_marker u) (us @ vs) @ incs) n ?d1)"
    by (rule handle_snapshot_end) (use assms in simp_all)
  have h: "rfold (handle_update sub True) ?ms ?d = Inr (recovered (filter (\<lambda>u. \<not> is_marker u) (us @ vs) @ incs) n ?d1)"
    using h1 h2 by (simp add: mdp_numbered_append rfold_append)
  show ?thesis using consumer_recv_messages [OF ne w r t _ s1 h] assms(1)
    by (auto simp: set_con_socket_def recovered_def)
qed

lemma numbered_split:
  assumes "xs @ ys = mdp_numbered k ws"
  obtains ws1 ws2 where "ws = ws1 @ ws2" and "xs = mdp_numbered k ws1" and "ys = mdp_numbered (k + of_nat (length ws1)) ws2"
proof -
  have len: "length xs \<le> length ws" using arg_cong [OF assms, of length] by simp
  have "xs @ ys = mdp_numbered k (take (length xs) ws) @ mdp_numbered (k + of_nat (length xs)) (drop (length xs) ws)"
    using assms mdp_numbered_append [of k "take (length xs) ws" "drop (length xs) ws"] len by simp
  then show ?thesis using len that [of "take (length xs) ws" "drop (length xs) ws"] by (simp add: append_eq_append_conv)
qed

lemma recv_empty_datagrams:
  "concat mss = [] \<Longrightarrow> mc_next_send_valid_index (snapshot_mcast_socket c) = 0 \<Longrightarrow>
   rfold (\<lambda>ms. consumer_recv sub True (encode_all ms)) mss c = Inr c"
proof (induction mss)
  case (Cons m mss)
  then show ?case using consumer_recv_nothing [of True c sub] by (simp add: con_socket_def)
qed simp

lemma recv_cycle:
  assumes "concat mss = mdp_numbered (of_nat (length us)) (vs @ [e])"
    and "\<forall>ms\<in>set mss. can_recv (snapshot_mcast_socket c) (length ms * sizeof_MDPMarketUpdate)"
    and "in_recovery c" and "snapshot_queued_msgs c = qpairs (mdp_numbered 0 us)" and "open_cycle (us @ vs)"
    and "length (us @ vs) < 2 ^ 64" and "\<forall>v\<in>set (vs @ [e]). is_int64 (upd_price v)" and "upd_type e = SNAPSHOT_END"
    and "scan_incrementals (upd_order_id e + 1) (incremental_queued_msgs c) = (True, n, incs)"
  shows "\<exists>c'. rfold (\<lambda>ms. consumer_recv sub True (encode_all ms)) mss c = Inr c' \<and>
     con_md_updates c' = fold lfq_push (filter (\<lambda>u. \<not> is_marker u) (us @ vs) @ incs) (con_md_updates c) \<and>
     next_exp_inc_seq_num c' = n \<and> \<not> in_recovery c'"
  using assms
proof (induction mss arbitrary: us vs c)
  case Nil
  then have "vs @ [e] = []" by (metis concat.simps(1) numbered_empty)
  then show ?case by simp
next
  case (Cons m mss)
  have "m @ concat mss = mdp_numbered (of_nat (length us)) (vs @ [e])" using Cons.prems(1) by simp
  then obtain ws1 ws2 where ws: "vs @ [e] = ws1 @ ws2" "m = mdp_numbered (of_nat (length us)) ws1"
    "concat mss = mdp_numbered (of_nat (length us) + of_nat (length ws1)) ws2" using numbered_split by blast
  show ?case
  proof (cases ws2 rule: rev_cases)
    case Nil
    have "can_recv (snapshot_mcast_socket c) (length (vs @ [e]) * sizeof_MDPMarketUpdate)" using Cons.prems(2) ws Nil by simp
    then obtain sock where c1: "consumer_recv sub True (encode_all m) c =
        Inr ((recovered (filter (\<lambda>u. \<not> is_marker u) (us @ vs) @ incs) n c)\<lparr>snapshot_mcast_socket := sock\<rparr>)"
        "mc_next_send_valid_index sock = 0"
      using recv_end [OF Cons.prems(3-7) _ Cons.prems(8,9), of sub] ws(1,2) Nil by auto
    show ?thesis using recv_empty_datagrams [of mss _ sub] c1 ws(3) Nil by (simp add: recovered_def)
  next
    case (snoc ws3 e')
    then have e: "e' = e" "vs = ws1 @ ws3" using ws(1) by simp_all
    have o: "open_cycle (us @ ws1)" if "us @ ws1 \<noteq> []" using open_cycle_append [of "us @ ws1" ws3] Cons.prems(5) e(2) that by simp
    let ?cs = "\<lambda>sock. c\<lparr>snapshot_queued_msgs := qpairs (mdp_numbered 0 (us @ ws1)), snapshot_mcast_socket := sock\<rparr>"
    obtain sock where c1: "consumer_recv sub True (encode_all m) c = Inr (?cs sock)"
      "\<forall>k. can_recv sock k = can_recv (snapshot_mcast_socket c) k"
    proof (cases "us @ ws1 = []")
      case True
      then have "can_recv (snapshot_mcast_socket c) 0" using Cons.prems(2) ws(2) by simp
      then have "mc_next_send_valid_index (con_socket True c) = 0" by (simp add: con_socket_def can_recv_def)
      then show ?thesis using consumer_recv_nothing [of True c sub] True ws(2) Cons.prems(4)
        by (intro that [of "snapshot_mcast_socket c"]) simp_all
    next
      case False
      have "\<exists>sock. consumer_recv sub True (encode_all (mdp_numbered (of_nat (length us)) ws1)) c = Inr (?cs sock) \<and>
          (\<forall>k. can_recv sock k = can_recv (snapshot_mcast_socket c) k)"
        by (rule recv_open) (use Cons.prems o [OF False] ws(2) e in simp_all)
      then show ?thesis using that ws(2) by blast
    qed
    have "\<exists>c'. rfold (\<lambda>ms. consumer_recv sub True (encode_all ms)) mss (?cs sock) = Inr c' \<and>
       con_md_updates c' = fold lfq_push (filter (\<lambda>u. \<not> is_marker u) ((us @ ws1) @ ws3) @ incs) (con_md_updates (?cs sock)) \<and>
       next_exp_inc_seq_num c' = n \<and> \<not> in_recovery c'"
      by (rule Cons.IH) (use Cons.prems ws(3) snoc e c1(2) in simp_all)
    then show ?thesis using c1(1) e(2) by simp
  qed
qed

lemma recover_run:
  assumes "in_recovery c" and "snapshot_queued_msgs c = []"
    and "concat mss = mdp_numbered 0 (marker_update SNAPSHOT_START n # body @ [marker_update SNAPSHOT_END n])"
    and "\<forall>ms\<in>set mss. can_recv (snapshot_mcast_socket c) (length ms * sizeof_MDPMarketUpdate)"
    and "incremental_queued_msgs c = old @ qpairs (mdp_numbered (n + 1) us)" and "\<forall>x\<in>set old. fst x \<le> n"
    and "\<forall>u\<in>set (body @ us). \<not> is_marker u \<and> is_int64 (upd_price u)" and "unat n + 1 < 2 ^ 64" and "length body + 1 < 2 ^ 64"
    and "lfq_inv (con_md_updates c)" and "length (lfq_items (con_md_updates c)) + length body + length us \<le> lfq_cap (con_md_updates c)"
  shows "\<exists>c'. rfold (\<lambda>ms. consumer_recv sub True (encode_all ms)) mss c = Inr c' \<and>
     lfq_items (con_md_updates c') = lfq_items (con_md_updates c) @ body @ us \<and>
     next_exp_inc_seq_num c' = n + 1 + of_nat (length us) \<and> \<not> in_recovery c'"
proof -
  let ?s = "marker_update SNAPSHOT_START n" and ?e = "marker_update SNAPSHOT_END n"
  have m: "upd_type ?s = SNAPSHOT_START" "upd_type ?e = SNAPSHOT_END" "upd_order_id ?e = n"
    "is_int64 (upd_price ?s)" "is_int64 (upd_price ?e)" "is_marker ?s"
    by (simp_all add: marker_update_def is_marker_def MEMarketUpdate_default_def is_int64_def Price_INVALID_def)
  have f: "filter (\<lambda>u. \<not> is_marker u) body = body" "filter (\<lambda>u. \<not> is_marker u) us = us"
    using assms(7) by (auto simp: filter_id_conv)
  have sc: "scan_incrementals (upd_order_id ?e + 1) (incremental_queued_msgs c) = (True, n + 1 + of_nat (length us), us)"
    using scan_incrementals_old [OF assms(6,8)] scan_incrementals_numbered [of "n + 1" us] assms(5) m(3) f(2) by simp
  have op: "open_cycle ([] @ ?s # body)" using m(1) assms(7) by (auto simp: open_cycle_def is_marker_def)
  have "\<exists>c'. rfold (\<lambda>ms. consumer_recv sub True (encode_all ms)) mss c = Inr c' \<and>
     con_md_updates c' = fold lfq_push (filter (\<lambda>u. \<not> is_marker u) ([] @ ?s # body) @ us) (con_md_updates c) \<and>
     next_exp_inc_seq_num c' = n + 1 + of_nat (length us) \<and> \<not> in_recovery c'"
    by (rule recv_cycle [OF _ _ assms(1) _ op _ _ m(2) sc]) (use assms m in auto)
  then show ?thesis using lfq.push_all [OF assms(10), of "body @ us"] assms(11) m(6) f(1) by auto
qed

text \<open>
  recovery reconstructs the stream.  A consumer in recovery that receives a complete snapshot
  cycle, cut into datagrams in any way that respects the messages, and has queued the incremental
  updates that follow the snapshot without a gap (besides older ones), forwards exactly the body of
  the cycle followed by those updates, leaves recovery, and expects the number after the last of them.
\<close>

theorem consumer_recovers:
  assumes "in_recovery c" and "snapshot_queued_msgs c = []"
    and "concat mss = mdp_numbered 0 (marker_update SNAPSHOT_START n # body @ [marker_update SNAPSHOT_END n])"
    and "\<forall>ms\<in>set mss. can_recv (snapshot_mcast_socket c) (length ms * sizeof_MDPMarketUpdate)"
    and "incremental_queued_msgs c = old @ qpairs (mdp_numbered (n + 1) us)" and "\<forall>x\<in>set old. fst x \<le> n"
    and "\<forall>u\<in>set (body @ us). \<not> is_marker u \<and> is_int64 (upd_price u)" and "unat n + 1 < 2 ^ 64" and "length body + 1 < 2 ^ 64"
    and "lfq_inv (con_md_updates c)" and "length (lfq_items (con_md_updates c)) + length body + length us \<le> lfq_cap (con_md_updates c)"
  shows "\<exists>c'. rfold (\<lambda>ms. consumer_recv sub True (encode_all ms)) mss c = Inr c' \<and>
     lfq_items (con_md_updates c') = lfq_items (con_md_updates c) @ body @ us \<and>
     next_exp_inc_seq_num c' = n + 1 + of_nat (length us) \<and> \<not> in_recovery c'"
  using recover_run [OF assms] .

section \<open>Examples\<close>

definition a_consumer :: MarketDataConsumer where
  "a_consumer = \<lparr>next_exp_inc_seq_num = 1, con_md_updates = LFQueue_new 8 MEMarketUpdate_default,
     incremental_mcast_socket = mcast_init 3 (McastSocket_new 100), snapshot_mcast_socket = McastSocket_new 100,
     in_recovery = False, snapshot_queued_msgs = [], incremental_queued_msgs = []\<rparr>"

lemma an_update_price [simp]: "upd_price (an_update ty oid p q) = p" "is_int64 10"
  by (simp_all add: an_update_def is_int64_def)

theorem consumer_forwards_in_order_witness:
  "\<exists>c'. consumer_recv (4, True) False (encode_all (mdp_numbered 1 [an_update ADD 1 10 5])) a_consumer = Inr c' \<and>
     lfq_items (con_md_updates c') = [an_update ADD 1 10 5]"
  using consumer_forwards_in_order [of a_consumer "[an_update ADD 1 10 5]" "(4, True)"]
  by (auto simp: a_consumer_def can_recv_def mcast_init_def McastSocket_new_def sizeof_MDPMarketUpdate_def lfq_inv_new)

theorem consumer_gap_starts_recovery_witness:
  "\<exists>c'. handle_update (4, True) False \<lparr>mdp_seq_num = 3, mdp_update = an_update ADD 1 10 5\<rparr> a_consumer = Inr c' \<and>
     in_recovery c' \<and> incremental_queued_msgs c' = [(3, an_update ADD 1 10 5)]"
  using consumer_gap_starts_recovery [of a_consumer "\<lparr>mdp_seq_num = 3, mdp_update = an_update ADD 1 10 5\<rparr>" 4]
  by (simp add: a_consumer_def)

definition a_recovering_consumer :: MarketDataConsumer where
  "a_recovering_consumer = a_consumer\<lparr>in_recovery := True, incremental_queued_msgs := [(3, an_update MODIFY 1 10 2)]\<rparr>"

theorem consumer_recovers_witness:
  "\<exists>c'. rfold (\<lambda>ms. consumer_recv (4, True) True (encode_all ms))
       (map (\<lambda>m. [m]) (mdp_numbered 0 [marker_update SNAPSHOT_START 2, clear_update 0, an_update ADD 1 10 5, marker_update SNAPSHOT_END 2]))
       a_recovering_consumer = Inr c' \<and>
     lfq_items (con_md_updates c') = [clear_update 0, an_update ADD 1 10 5, an_update MODIFY 1 10 2] \<and> \<not> in_recovery c'"
  using consumer_recovers [of a_recovering_consumer
      "map (\<lambda>m. [m]) (mdp_numbered 0 [marker_update SNAPSHOT_START 2, clear_update 0, an_update ADD 1 10 5, marker_update SNAPSHOT_END 2])"
      2 "[clear_update 0, an_update ADD 1 10 5]" "[]" "[an_update MODIFY 1 10 2]" "(4, True)"]
  by (auto simp: a_recovering_consumer_def a_consumer_def can_recv_def mcast_init_def McastSocket_new_def
      sizeof_MDPMarketUpdate_def lfq_inv_new is_marker_def clear_update_def an_update_def MEMarketUpdate_default_def
      is_int64_def Price_INVALID_def)

end
