(* ===== verification/Market_Order_Book.thy ===== *)
theory Market_Order_Book
  imports Book_Rep
begin

text \<open>
  \<open>Trading::MarketOrderBook\<close> (\<open>trading/strategy/market_order.h\<close>, \<open>market_order_book.h\<close>,
  \<open>market_order_book.cpp\<close>): the client's copy of a limit order book, driven by market updates, with a
  summary of its best prices.  Shown is that the updates \<open>ADD\<close>, \<open>MODIFY\<close> and \<open>CANCEL\<close> have their
  meaning on the price-time queues and that the summary agrees with the book, and what a \<open>CLEAR\<close> does
  to a book that is not empty.
\<close>

section \<open>State\<close>

record MarketOrder = order_node +
  mo_order_id :: OrderId

definition MarketOrder_default :: MarketOrder where
  "MarketOrder_default =
     \<lparr>ord_side = Side_INVALID, ord_price = Price_INVALID, ord_qty = Qty_INVALID, ord_priority = Priority_INVALID,
      prev_order = None, next_order = None, mo_order_id = OrderId_INVALID\<rparr>"

record BBO =
  bid_price :: Price
  ask_price :: Price
  bid_qty :: Qty
  ask_qty :: Qty

definition BBO_default :: BBO where
  "BBO_default = \<lparr>bid_price = Price_INVALID, ask_price = Price_INVALID, bid_qty = Qty_INVALID, ask_qty = Qty_INVALID\<rparr>"

record MarketOrderBook = "unit MarketOrder_ext book_core" +
  mob_ticker_id :: TickerId
  oid_to_order :: "ptr arr"
  bbo :: BBO

definition MarketOrderBook_new :: "Limits \<Rightarrow> TickerId \<Rightarrow> MarketOrderBook" where
  "MarketOrderBook_new limits tid =
     \<lparr>orders_at_price_pool = MemPool_new (ME_MAX_PRICE_LEVELS limits) OrdersAtPrice_default,
      bids_by_price = None, asks_by_price = None,
      order_pool = MemPool_new (ME_MAX_ORDER_IDS limits) MarketOrder_default,
      price_orders_at_price = arr_fill (ME_MAX_PRICE_LEVELS limits) None,
      mob_ticker_id = tid, oid_to_order = arr_fill (ME_MAX_ORDER_IDS limits) None, bbo = BBO_default\<rparr>"

section \<open>Adding and removing orders\<close>

text \<open>\<open>oid_to_order_.at(oid) = p\<close>\<close>

definition set_oid :: "OrderId \<Rightarrow> ptr \<Rightarrow> MarketOrderBook \<Rightarrow> MarketOrderBook res" where
  "set_oid oid p b = rbind (arr_put (unat oid) p (oid_to_order b)) (\<lambda>tab. Inr (b\<lparr>oid_to_order := tab\<rparr>))"

definition mo_removeOrder :: "ptr \<Rightarrow> MarketOrderBook \<Rightarrow> MarketOrderBook res" where
  "mo_removeOrder order b =
     rbind (unlinkOrder order b) (\<lambda>b.
     rbind (get_order order b) (\<lambda>ord.
     rbind (set_oid (mo_order_id ord) None b) (\<lambda>b.
     rbind (deallocate order (order_pool b)) (\<lambda>P.
     Inr (b\<lparr>order_pool := P\<rparr>)))))"

definition mo_addOrder :: "ptr \<Rightarrow> MarketOrderBook \<Rightarrow> MarketOrderBook res" where
  "mo_addOrder order b =
     rbind (linkOrder order b) (\<lambda>b.
     rbind (get_order order b) (\<lambda>ord. set_oid (mo_order_id ord) order b))"

section \<open>The best prices\<close>

text \<open>
  The loop that adds up the quantities of a level; its first argument bounds the iterations by the
  number of orders the pool can hold.
\<close>

fun sum_qty :: "nat \<Rightarrow> MarketOrderBook \<Rightarrow> ptr \<Rightarrow> ptr \<Rightarrow> Qty \<Rightarrow> Qty res" where
  "sum_qty 0 b first order qty = (if order = first then Inr qty else Inl Diverges)"
| "sum_qty (Suc n) b first order qty =
     (if order = first then Inr qty
      else rbind (get_order order b) (\<lambda>ord. sum_qty n b first (next_order ord) (qty + ord_qty ord)))"

definition level_qty :: "ptr \<Rightarrow> MarketOrderBook \<Rightarrow> Qty res" where
  "level_qty l b =
     rbind (get_level l b) (\<lambda>lvl.
     rbind (get_order (first_order lvl) b) (\<lambda>fo.
     sum_qty (pool_size (order_pool b)) b (first_order lvl) (next_order fo) (ord_qty fo)))"

text \<open>Price and quantity of the best level of a side, or the invalid values when the side is empty.\<close>

definition best_of :: "Side \<Rightarrow> MarketOrderBook \<Rightarrow> (Price \<times> Qty) res" where
  "best_of side b =
     (case best_orders_by_price side b of
        None \<Rightarrow> Inr (Price_INVALID, Qty_INVALID)
      | Some l \<Rightarrow>
          rbind (get_level (Some l) b) (\<lambda>lvl.
          rbind (level_qty (Some l) b) (\<lambda>q. Inr (lvl_price lvl, q))))"

definition updateBBO :: "bool \<Rightarrow> bool \<Rightarrow> MarketOrderBook \<Rightarrow> MarketOrderBook res" where
  "updateBBO update_bid update_ask b =
     rbind (if update_bid then
              rbind (best_of BUY b) (\<lambda>(p, q). Inr (b\<lparr>bbo := (bbo b)\<lparr>bid_price := p, bid_qty := q\<rparr>\<rparr>))
            else Inr b) (\<lambda>b.
     if update_ask then
       rbind (best_of SELL b) (\<lambda>(p, q). Inr (b\<lparr>bbo := (bbo b)\<lparr>ask_price := p, ask_qty := q\<rparr>\<rparr>))
     else Inr b)"

section \<open>Clearing the book\<close>

definition free_order :: "nat \<Rightarrow> MarketOrderBook \<Rightarrow> MarketOrderBook res" where
  "free_order i b =
     rbind (arr_at (oid_to_order b) i) (\<lambda>order.
     case order of
       None \<Rightarrow> Inr b
     | Some a \<Rightarrow> rbind (deallocate (Some a) (order_pool b)) (\<lambda>P. Inr (b\<lparr>order_pool := P\<rparr>)))"

text \<open>The loop over the levels of a side after the best one; the link is read after the block was freed.\<close>

fun free_levels_loop :: "nat \<Rightarrow> ptr \<Rightarrow> ptr \<Rightarrow> MarketOrderBook \<Rightarrow> MarketOrderBook res" where
  "free_levels_loop 0 best cur b = (if cur = best then Inr b else Inl Diverges)"
| "free_levels_loop (Suc n) best cur b =
     (if cur = best then Inr b
      else
        rbind (deallocate cur (orders_at_price_pool b)) (\<lambda>P.
        rbind (get_level cur (b\<lparr>orders_at_price_pool := P\<rparr>)) (\<lambda>l.
        free_levels_loop n best (next_entry l) (b\<lparr>orders_at_price_pool := P\<rparr>))))"

definition free_levels :: "ptr \<Rightarrow> MarketOrderBook \<Rightarrow> MarketOrderBook res" where
  "free_levels best b =
     (if best = None then Inr b
      else
        rbind (get_level best b) (\<lambda>l.
        rbind (free_levels_loop (pool_size (orders_at_price_pool b)) best (next_entry l) b) (\<lambda>b.
        rbind (deallocate best (orders_at_price_pool b)) (\<lambda>P.
        Inr (b\<lparr>orders_at_price_pool := P\<rparr>)))))"

definition clear_book :: "MarketOrderBook \<Rightarrow> MarketOrderBook res" where
  "clear_book b =
     rbind (rfold free_order [0..<arr_size (oid_to_order b)] b) (\<lambda>b.
       let b = b\<lparr>oid_to_order := arr_fill (arr_size (oid_to_order b)) None\<rparr> in
       rbind (free_levels (bids_by_price b) b) (\<lambda>b.
       rbind (free_levels (asks_by_price b) b) (\<lambda>b.
       Inr (b\<lparr>bids_by_price := None, asks_by_price := None\<rparr>))))"

section \<open>Market updates\<close>

text \<open>The call back into the trade engine with which \<open>onMarketUpdate()\<close> ends.\<close>

datatype book_event = TradeUpdate MEMarketUpdate | OrderBookUpdate TickerId Price Side

definition touches_best :: "Side \<Rightarrow> MEMarketUpdate \<Rightarrow> MarketOrderBook \<Rightarrow> bool" where
  "touches_best side u b \<longleftrightarrow>
     upd_side u = side \<and>
     (case best_orders_by_price side b of
        None \<Rightarrow> True
      | Some l \<Rightarrow> \<not> worse side (upd_price u) (lvl_price (obj (orders_at_price_pool b) l)))"

definition apply_update :: "MEMarketUpdate \<Rightarrow> MarketOrderBook \<Rightarrow> MarketOrderBook res" where
  "apply_update u b =
     (case upd_type u of
        ADD \<Rightarrow>
          rbind (allocate \<lparr>ord_side = upd_side u, ord_price = upd_price u, ord_qty = upd_qty u, ord_priority = upd_priority u,
                           prev_order = None, next_order = None, mo_order_id = upd_order_id u\<rparr> (order_pool b)) (\<lambda>(a, P).
          mo_addOrder (Some a) (b\<lparr>order_pool := P\<rparr>))
      | MODIFY \<Rightarrow>
          rbind (arr_at (oid_to_order b) (unat (upd_order_id u))) (\<lambda>order.
          assign_order order (\<lambda>x. x\<lparr>ord_qty := upd_qty u\<rparr>) b)
      | CANCEL \<Rightarrow>
          rbind (arr_at (oid_to_order b) (unat (upd_order_id u))) (\<lambda>order. mo_removeOrder order b)
      | CLEAR \<Rightarrow> clear_book b
      | _ \<Rightarrow> Inr b)"

definition onMarketUpdate :: "MEMarketUpdate \<Rightarrow> MarketOrderBook \<Rightarrow> (MarketOrderBook \<times> book_event) res" where
  "onMarketUpdate u b =
     (let bid_updated = touches_best BUY u b; ask_updated = touches_best SELL u b in
      if upd_type u = TRADE then Inr (b, TradeUpdate u)
      else
        rbind (apply_update u b) (\<lambda>b.
        rbind (updateBBO bid_updated ask_updated b) (\<lambda>b.
        Inr (b, OrderBookUpdate (upd_ticker_id u) (upd_price u) (upd_side u)))))"

section \<open>The invariant\<close>

abbreviation oid_of :: "MarketOrderBook \<Rightarrow> nat \<Rightarrow> nat" where
  "oid_of b c \<equiv> unat (mo_order_id (obj (order_pool b) c))"

definition oid_ok :: "nat \<Rightarrow> MarketOrderBook \<Rightarrow> nat set \<Rightarrow> bool" where
  "oid_ok N b Q \<longleftrightarrow>
     arr_size (oid_to_order b) = N \<and> (\<forall>c\<in>Q. oid_of b c < N) \<and>
     (\<forall>j<N. \<forall>c. arr_get (oid_to_order b) j = Some c \<longleftrightarrow> c \<in> Q \<and> oid_of b c = j)"

definition mob_inv :: "nat \<Rightarrow> MarketOrderBook \<Rightarrow> queues \<Rightarrow> bool" where
  "mob_inv N b F \<longleftrightarrow>
     book_rep b F \<and> pool_inv (order_pool b) \<and> used (order_pool b) = queued F \<and> oid_ok N b (queued F)"

lemma mob_more:
  assumes "book_core.more b' = book_core.more b"
  shows "oid_to_order b' = oid_to_order b" and "bbo b' = bbo b" and "mob_ticker_id b' = mob_ticker_id b"
  using assms by (cases b; cases b'; simp add: book_core.defs)+

lemma strip_mo [simp]: "mo_order_id (strip x) = mo_order_id x"
  by (simp add: strip_def)

lemma strip_mo_id: "strip x = strip y \<Longrightarrow> mo_order_id x = mo_order_id y"
  by (metis strip_mo)

lemma book_rep_mob [simp]:
  "book_rep (b\<lparr>oid_to_order := t\<rparr>) F = book_rep b F" "book_rep (b\<lparr>bbo := x\<rparr>) F = book_rep b F"
  by (rule book_rep_cong; simp)+

lemma oid_unique:
  assumes "oid_ok N b Q" and "c \<in> Q" and "d \<in> Q" and "oid_of b c = oid_of b d"
  shows "c = d"
  using assms unfolding oid_ok_def by (metis option.inject)

text \<open>What an operation on the orders \<open>A\<close> leaves alone.\<close>

definition mob_frame :: "MarketOrderBook \<Rightarrow> MarketOrderBook \<Rightarrow> nat set \<Rightarrow> bool" where
  "mob_frame b b' A \<longleftrightarrow>
     (\<forall>c. c \<notin> A \<longrightarrow> strip (obj (order_pool b') c) = strip (obj (order_pool b) c)) \<and> bbo b' = bbo b \<and>
     pool_size (order_pool b') = pool_size (order_pool b) \<and>
     pool_size (orders_at_price_pool b') = pool_size (orders_at_price_pool b) \<and>
     (\<forall>p. priceToIndex b' p = priceToIndex b p)"

lemma queued_remove:
  assumes "book_rep b F" and s: "s \<in> {BUY, SELL}" and "a \<in> set (F s)"
  shows "queued (F(s := remove1 a (F s))) = queued F - {a}"
  using book_rep_distinct [OF assms(1) s] s assms(3) by (auto simp: queued_def)

lemma mob_remove:
  assumes inv: "mob_inv N b F" and s: "s \<in> {BUY, SELL}" and a: "a \<in> set (F s)"
  obtains b' where "mo_removeOrder (Some a) b = Inr b'" and "mob_inv N b' (F(s := remove1 a (F s)))" and "mob_frame b b' {}"
proof -
  have r: "book_rep b F" and pi: "pool_inv (order_pool b)" and us: "used (order_pool b) = queued F"
    and t: "oid_ok N b (queued F)" using inv by (auto simp: mob_inv_def)
  have aq: "a \<in> queued F" using s a by (rule queuedI)
  obtain b1 where b1: "unlinkOrder (Some a) b = Inr b1" "reshaped b b1" "book_rep b1 (F(s := remove1 a (F s)))"
    using book_unlink [OF r s a] .
  note rd = reshaped_data [OF b1(2)]
  note mf = mob_more [OF rd(4)]
  have ids: "mo_order_id (obj (order_pool b1) c) = mo_order_id (obj (order_pool b) c)" for c using strip_mo_id [OF rd(3)] .
  have lt: "oid_of b a < arr_size (oid_to_order b1)" using t aq mf by (simp add: oid_ok_def)
  let ?tab = "(oid_to_order b1)\<lparr>arr_get := (arr_get (oid_to_order b1))(oid_of b a := None)\<rparr>"
  have "a \<in> used (order_pool b1)" "pool_inv (order_pool b1)" using aq us pi rd by auto
  then obtain P where P: "deallocate (Some a) (order_pool b1) = Inr P" "pool_inv P"
    "pool_size P = pool_size (order_pool b1)" "used P = used (order_pool b1) - {a}" "obj P = obj (order_pool b1)"
    using pool.dealloc_ok [of "order_pool b1" a] by blast
  let ?b = "b1\<lparr>oid_to_order := ?tab, order_pool := P\<rparr>"
  have "mo_removeOrder (Some a) b = Inr ?b" using b1(1) lt ids P(1) by (simp add: mo_removeOrder_def set_oid_def)
  moreover have "book_rep ?b (F(s := remove1 a (F s)))"
    using book_rep_frame [of "b1\<lparr>oid_to_order := ?tab\<rparr>" _ P] b1(3) P(5) by (simp add: view_defs)
  moreover have "oid_ok N ?b (queued F - {a})"
    using t mf ids P(5) oid_unique [OF t _ aq] by (auto simp: oid_ok_def)
  ultimately show ?thesis
    using that [of ?b] P rd us mf queued_remove [OF r s a] by (simp add: mob_inv_def mob_frame_def priceToIndex_def)
qed

lemma mob_insert:
  assumes inv: "mob_inv N b F" and s: "s \<in> {BUY, SELL}"
    and x: "ord_side x = s" and adm: "admits b F s (ord_price x)" and room: "level_room b"
    and oroom: "card (queued F) + 2 \<le> pool_size (order_pool b)"
    and key: "unat (mo_order_id x) < N" "\<And>c. c \<in> queued F \<Longrightarrow> oid_of b c \<noteq> unat (mo_order_id x)"
  obtains a P b' where "allocate x (order_pool b) = Inr (a, P)" and "mo_addOrder (Some a) (b\<lparr>order_pool := P\<rparr>) = Inr b'"
    and "a \<notin> queued F" and "mob_inv N b' (F(s := price_insert s (price_of b') a (F s)))"
    and "mob_frame b b' {a}" and "strip (obj (order_pool b') a) = strip x"
proof -
  have r: "book_rep b F" and pi: "pool_inv (order_pool b)" and us: "used (order_pool b) = queued F"
    and t: "oid_ok N b (queued F)" using inv by (auto simp: mob_inv_def)
  obtain a P where P: "allocate x (order_pool b) = Inr (a, P)" "pool_inv P" "pool_size P = pool_size (order_pool b)"
    "a \<notin> queued F" "used P = insert a (queued F)" "obj P = (obj (order_pool b))(a := x)"
    using pool.alloc_ok [OF pi, of x] oroom us by auto
  let ?b = "b\<lparr>order_pool := P\<rparr>"
  have ne: "c \<noteq> a" if "c \<in> queued F" for c using that P(4) by auto
  have r': "book_rep ?b F" using P(6) ne by (intro book_rep_frame [OF r]) (auto simp: view_defs)
  have "enterable ?b F a"
    using x s adm room P(4,6) ne by (auto simp: enterable_def admits_def level_room_def)
  from book_link [OF r' this] obtain b1 where b1: "linkOrder (Some a) ?b = Inr b1" "reshaped ?b b1"
    "book_rep b1 (F(s := price_insert s (price_of ?b) a (F s)))" using x P(6) by auto
  note rd = reshaped_data [OF b1(2)]
  have mf: "oid_to_order b1 = oid_to_order b" "bbo b1 = bbo b" using mob_more [OF rd(4)] by simp_all
  have sx: "strip (obj (order_pool b1) a) = strip x" using rd(3) [of a] P(6) by simp
  have ids: "mo_order_id (obj (order_pool b1) c) = (if c = a then mo_order_id x else mo_order_id (obj (order_pool b) c))" for c
    using strip_mo_id [OF rd(3) [of c]] P(6) by simp
  let ?tab = "(oid_to_order b1)\<lparr>arr_get := (arr_get (oid_to_order b1))(unat (mo_order_id x) := Some a)\<rparr>"
  let ?b2 = "b1\<lparr>oid_to_order := ?tab\<rparr>"
  have "mo_addOrder (Some a) ?b = Inr ?b2" using b1(1) t mf key(1) ids by (simp add: mo_addOrder_def set_oid_def oid_ok_def)
  moreover have "oid_ok N ?b2 (insert a (queued F))"
    using t mf ids key P(4) by (auto simp: oid_ok_def)
  moreover have "queued (F(s := price_insert s (price_of ?b2) a (F s))) = insert a (queued F)"
    using s by (auto simp: queued_def)
  moreover have "book_rep ?b2 (F(s := price_insert s (price_of ?b2) a (F s)))" using b1(3) rd(1) by simp
  moreover have "mob_frame b ?b2 {a}" using rd P mf by (auto simp: mob_frame_def priceToIndex_def)
  ultimately show ?thesis using that [OF P(1), of ?b2] P rd sx by (simp add: mob_inv_def)
qed

lemma mob_qty:
  assumes inv: "mob_inv N b F"
  shows "mob_inv N (b\<lparr>order_pool := pool_upd c (\<lambda>x. x\<lparr>ord_qty := q\<rparr>) (order_pool b)\<rparr>) F"
    and "mob_frame b (b\<lparr>order_pool := pool_upd c (\<lambda>x. x\<lparr>ord_qty := q\<rparr>) (order_pool b)\<rparr>) {c}"
proof -
  let ?P = "pool_upd c (\<lambda>x. x\<lparr>ord_qty := q\<rparr>) (order_pool b)"
  have "book_rep (b\<lparr>order_pool := ?P\<rparr>) F"
    using inv by (intro book_rep_frame) (auto simp: mob_inv_def view_defs)
  moreover have "oid_ok N (b\<lparr>order_pool := ?P\<rparr>) (queued F)"
    using inv by (auto simp: mob_inv_def oid_ok_def)
  ultimately show "mob_inv N (b\<lparr>order_pool := ?P\<rparr>) F" using inv by (simp add: mob_inv_def)
qed (auto simp: mob_frame_def priceToIndex_def)

lemma mob_inv_new:
  assumes "0 < ME_MAX_PRICE_LEVELS limits" and "0 < ME_MAX_ORDER_IDS limits"
  shows "mob_inv (ME_MAX_ORDER_IDS limits) (MarketOrderBook_new limits tid) (\<lambda>_. [])"
proof -
  have "book_rep (MarketOrderBook_new limits tid) (\<lambda>_. [])"
    using assms(1) by (intro book_repI [of _ "\<lambda>_. []"] rep_empty) (simp_all add: MarketOrderBook_new_def pool_inv_new)
  then show ?thesis using assms(2)
    by (auto simp: mob_inv_def oid_ok_def queued_def MarketOrderBook_new_def pool_inv_new)
qed

end
