(* ===== verification/Market_Book_Refine.thy ===== *)
theory Market_Book_Refine
  imports Market_Order_Book
begin

text \<open>
  What the market updates mean for a book: on each side a list of orders in price-time order, and the
  best prices computed from it.  The code of \<open>Market_Order_Book\<close> refines this view.
\<close>

section \<open>The best level of a side\<close>

lemma book_rep_best_level:
  assumes "book_rep b F" and s: "s \<in> {BUY, SELL}" and F: "F s = c # cs"
  obtains l os where "best_orders_by_price s b = Some l" and "first_order (obj (orders_at_price_pool b) l) = Some c"
    and "lvl_price (obj (orders_at_price_pool b) l) = price_of b c"
    and "c # os = filter (\<lambda>d. price_of b d = price_of b c) (F s)" and "cdll (nextO (order_pool b)) (prevO (order_pool b)) (c # os)"
proof -
  obtain L where L: "rep b L" "\<And>s. s \<in> {BUY, SELL} \<Longrightarrow> F s = flat (L s)" using assms(1) by (auto elim: book_repE)
  note ok = rep_side [OF L(1) s]
  obtain x xs where X: "L s = x # xs" using L(2) [OF s] F by (cases "L s") auto
  have lv: "level_ok (orders_at_price_pool b) (order_pool b) s x" using side_ok_level [OF ok] X by simp
  then have x: "snd x = c # tl (snd x)" "first_order (obj (orders_at_price_pool b) (fst x)) = Some c"
    using L(2) [OF s] F X by (cases "snd x"; auto simp: level_ok_def)+
  have p: "price_of b d = lprice (orders_at_price_pool b) y" if "y \<in> set (L s)" "d \<in> set (snd y)" for y d
    using rep_order_level(1) [OF L(1) s that] .
  have pc: "price_of b c = lprice (orders_at_price_pool b) x" using p [of x c] X x(1) by (metis list.set_intros(1))
  have "price_of b d \<noteq> price_of b c" if d: "d \<in> set (flat xs)" for d
  proof -
    obtain y where y: "y \<in> set xs" "d \<in> set (snd y)" using d by (auto simp: set_flat)
    then have "worse s (lprice (orders_at_price_pool b) y) (lprice (orders_at_price_pool b) x)"
      using rep_sorted [OF L(1) s] X by auto
    then show ?thesis using p [of y d] y X pc by auto
  qed
  then have "filter (\<lambda>d. price_of b d = price_of b c) (F s) = snd x"
    using L(2) [OF s] X p [of x] pc by (auto simp: filter_empty_conv intro!: filter_True)
  moreover have "best_orders_by_price s b = Some (fst x)" using ok X by (simp add: side_ok_def head_ptr_def)
  ultimately show ?thesis using that [of "fst x" "tl (snd x)"] x lv pc by (auto simp: level_ok_def lprice_def)
qed

lemma sum_qty_walk:
  assumes "cdll (nextO (order_pool b)) (prevO (order_pool b)) (c # us @ vs)" and "length vs \<le> fuel"
  shows "sum_qty fuel b (Some c) (Some (hd (vs @ [c]))) q = Inr (q + sum_list (map (\<lambda>d. ord_qty (obj (order_pool b) d)) vs))"
  using assms
proof (induction vs arbitrary: us q fuel)
  case Nil
  then show ?case by (cases fuel) simp_all
next
  case (Cons v vs)
  obtain f where f: "fuel = Suc f" using Cons.prems(2) by (cases fuel) auto
  have "v \<noteq> c" using cdll_distinct [OF Cons.prems(1)] by auto
  moreover have "next_order (obj (order_pool b) v) = Some (hd (vs @ [c]))"
    using cdll_next [of _ _ "c # us" v vs] Cons.prems(1) by (cases vs) (auto simp: view_defs)
  ultimately show ?case using Cons.IH [of "us @ [v]" f] Cons.prems f by (simp add: add.assoc)
qed

definition best_spec :: "MarketOrder list \<Rightarrow> Price \<times> Qty" where
  "best_spec xs =
     (case xs of [] \<Rightarrow> (Price_INVALID, Qty_INVALID)
      | x # _ \<Rightarrow> (ord_price x, sum_list (map ord_qty (filter (\<lambda>y. ord_price y = ord_price x) xs))))"

definition mobq :: "MarketOrderBook \<Rightarrow> queues \<Rightarrow> Side \<Rightarrow> MarketOrder list" where
  "mobq b F s = map (\<lambda>c. strip (obj (order_pool b) c)) (F s)"

lemma best_of_ok:
  assumes inv: "mob_inv N b F" and s: "s \<in> {BUY, SELL}"
  shows "best_of s b = Inr (best_spec (mobq b F s))"
proof (cases "F s")
  case Nil
  have "best_orders_by_price s b = None"
    using book_rep_best [of b F s] inv s Nil by (auto simp: mob_inv_def)
  then show ?thesis using Nil by (simp add: best_of_def best_spec_def mobq_def)
next
  case (Cons c cs)
  obtain l os where l: "best_orders_by_price s b = Some l" "first_order (obj (orders_at_price_pool b) l) = Some c"
    "lvl_price (obj (orders_at_price_pool b) l) = price_of b c"
    "c # os = filter (\<lambda>d. price_of b d = price_of b c) (F s)" "cdll (nextO (order_pool b)) (prevO (order_pool b)) (c # os)"
    using book_rep_best_level [of b F s c cs] inv s Cons by (auto simp: mob_inv_def)
  have "distinct (c # os)" using cdll_distinct [OF l(5)] .
  moreover have "set (c # os) \<subseteq> used (order_pool b)" using l(4) inv s by (auto simp: mob_inv_def queued_def)
  then have "set (c # os) \<subseteq> {..<pool_size (order_pool b)}" by (auto dest: used_less)
  ultimately have len: "length os \<le> pool_size (order_pool b)"
    using card_mono [of "{..<pool_size (order_pool b)}" "set (c # os)"] distinct_card [of "c # os"] by simp
  have "next_order (obj (order_pool b) c) = Some (hd (os @ [c]))"
    using cdll_next [of _ _ "[]" c os] l(5) by (simp add: view_defs)
  then have "level_qty (Some l) b = Inr (ord_qty (obj (order_pool b) c) + sum_list (map (\<lambda>d. ord_qty (obj (order_pool b) d)) os))"
    using sum_qty_walk [of b c "[]" os] l(2,5) len by (simp add: level_qty_def)
  moreover have "filter (\<lambda>y. ord_price y = price_of b c) (mobq b F s) = map (\<lambda>d. strip (obj (order_pool b) d)) (c # os)"
    unfolding l(4) by (simp add: mobq_def filter_map comp_def)
  ultimately show ?thesis using l(1,3) Cons by (simp add: best_of_def best_spec_def mobq_def comp_def)
qed

section \<open>The specification\<close>

type_synonym mkt_book = "Side \<Rightarrow> MarketOrder list"

definition mkt_orders :: "mkt_book \<Rightarrow> MarketOrder list" where
  "mkt_orders A = A BUY @ A SELL"

definition bbo_of :: "mkt_book \<Rightarrow> BBO" where
  "bbo_of A = \<lparr>bid_price = fst (best_spec (A BUY)), ask_price = fst (best_spec (A SELL)),
               bid_qty = snd (best_spec (A BUY)), ask_qty = snd (best_spec (A SELL))\<rparr>"

definition mkt_order :: "MEMarketUpdate \<Rightarrow> MarketOrder" where
  "mkt_order u = \<lparr>ord_side = upd_side u, ord_price = upd_price u, ord_qty = upd_qty u, ord_priority = upd_priority u,
     prev_order = None, next_order = None, mo_order_id = upd_order_id u\<rparr>"

definition mkt_apply :: "MEMarketUpdate \<Rightarrow> mkt_book \<Rightarrow> mkt_book" where
  "mkt_apply u A =
     (case upd_type u of
        ADD \<Rightarrow> A(upd_side u := price_insert (upd_side u) ord_price (mkt_order u) (A (upd_side u)))
      | MODIFY \<Rightarrow> (\<lambda>s. map (\<lambda>x. if mo_order_id x = upd_order_id u then x\<lparr>ord_qty := upd_qty u\<rparr> else x) (A s))
      | CANCEL \<Rightarrow> (\<lambda>s. filter (\<lambda>x. mo_order_id x \<noteq> upd_order_id u) (A s))
      | _ \<Rightarrow> A)"

text \<open>
  The updates a book can take.  A new order needs a fresh identifier within the table, no live order
  with another price (or the other side) under the same price index, and room in both pools; a
  changed or cancelled order must be in the book, with the side and the price the update carries.
\<close>

definition mkt_ok :: "nat \<Rightarrow> MarketOrderBook \<Rightarrow> mkt_book \<Rightarrow> MEMarketUpdate \<Rightarrow> bool" where
  "mkt_ok N b A u \<longleftrightarrow>
     (case upd_type u of
        ADD \<Rightarrow>
          upd_side u \<in> {BUY, SELL} \<and> unat (upd_order_id u) < N \<and>
          (\<forall>x\<in>set (mkt_orders A). mo_order_id x \<noteq> upd_order_id u \<and>
             (priceToIndex b (ord_price x) = priceToIndex b (upd_price u) \<longrightarrow>
                ord_price x = upd_price u \<and> ord_side x = upd_side u)) \<and>
          card (ord_price ` set (mkt_orders A)) + 2 \<le> pool_size (orders_at_price_pool b) \<and>
          length (mkt_orders A) + 2 \<le> pool_size (order_pool b)
      | MODIFY \<Rightarrow> (\<exists>x\<in>set (mkt_orders A). mo_order_id x = upd_order_id u \<and> ord_side x = upd_side u \<and> ord_price x = upd_price u)
      | CANCEL \<Rightarrow> (\<exists>x\<in>set (mkt_orders A). mo_order_id x = upd_order_id u \<and> ord_side x = upd_side u \<and> ord_price x = upd_price u)
      | CLEAR \<Rightarrow> mkt_orders A = []
      | _ \<Rightarrow> True)"

definition mob_rel :: "nat \<Rightarrow> MarketOrderBook \<Rightarrow> mkt_book \<Rightarrow> bool" where
  "mob_rel N b A \<longleftrightarrow> (\<exists>F. mob_inv N b F \<and> (\<forall>s\<in>{BUY, SELL}. A s = mobq b F s)) \<and> bbo b = bbo_of A"

section \<open>Orders and identifiers\<close>

lemma mobq_side:
  assumes "mob_inv N b F" and "s \<in> {BUY, SELL}" and "x \<in> set (mobq b F s)"
  shows "ord_side x = s"
  using assms book_rep_side [of b F s] by (auto simp: mobq_def mob_inv_def)

lemma mobq_id_unique:
  assumes inv: "mob_inv N b F" and "s \<in> {BUY, SELL}" "t \<in> {BUY, SELL}" and "c \<in> set (F s)" "d \<in> set (F t)"
    and "mo_order_id (obj (order_pool b) c) = mo_order_id (obj (order_pool b) d)"
  shows "c = d" and "s = t"
proof -
  have "oid_ok N b (queued F)" "c \<in> queued F" "d \<in> queued F" using inv assms(2-5) by (auto simp: mob_inv_def intro: queuedI)
  then show cd: "c = d" using oid_unique assms(6) by metis
  then show "s = t" using mobq_side [OF inv assms(2), of "strip (obj (order_pool b) c)"]
      mobq_side [OF inv assms(3), of "strip (obj (order_pool b) c)"] assms(4,5) by (auto simp: mobq_def)
qed

lemma mobq_ids:
  assumes "mob_inv N b F" and "s \<in> {BUY, SELL}" "t \<in> {BUY, SELL}" and "x \<in> set (mobq b F s)" "y \<in> set (mobq b F t)"
    and "mo_order_id x = mo_order_id y"
  shows "x = y" and "s = t"
proof -
  obtain c d where cd: "c \<in> set (F s)" "d \<in> set (F t)" "x = strip (obj (order_pool b) c)" "y = strip (obj (order_pool b) d)"
    using assms(4,5) by (auto simp: mobq_def)
  then have "mo_order_id (obj (order_pool b) c) = mo_order_id (obj (order_pool b) d)" using assms(6) by simp
  from mobq_id_unique [OF assms(1-3) cd(1,2) this] show "x = y" "s = t" using cd(3,4) by simp_all
qed

lemma lookup_oid:
  assumes inv: "mob_inv N b F" and s: "s \<in> {BUY, SELL}" and x: "x \<in> set (mobq b F s)" and i: "mo_order_id x = oid"
  obtains c where "c \<in> set (F s)" and "arr_at (oid_to_order b) (unat oid) = Inr (Some c)"
    and "mo_order_id (obj (order_pool b) c) = oid"
proof -
  obtain c where c: "c \<in> set (F s)" "mo_order_id (obj (order_pool b) c) = oid" using x i by (auto simp: mobq_def)
  then have "c \<in> queued F" using s by (auto simp: queued_def)
  then show ?thesis using inv c that [of c] by (auto simp: mob_inv_def oid_ok_def)
qed

section \<open>Each kind of update\<close>

text \<open>What \<open>apply_update\<close> does to the queues, the best prices still being those of before.\<close>

definition applied :: "nat \<Rightarrow> MarketOrderBook \<Rightarrow> MarketOrderBook \<Rightarrow> mkt_book \<Rightarrow> bool" where
  "applied N b b' A' \<longleftrightarrow>
     (\<exists>F. mob_inv N b' F \<and> (\<forall>s\<in>{BUY, SELL}. A' s = mobq b' F s)) \<and> bbo b' = bbo b \<and>
     pool_size (order_pool b') = pool_size (order_pool b) \<and>
     pool_size (orders_at_price_pool b') = pool_size (orders_at_price_pool b) \<and>
     (\<forall>p. priceToIndex b' p = priceToIndex b p)"

lemma appliedI:
  "mob_inv N b' F \<Longrightarrow> mob_frame b b' X \<Longrightarrow> (\<And>s. s \<in> {BUY, SELL} \<Longrightarrow> A' s = mobq b' F s) \<Longrightarrow> applied N b b' A'"
  by (auto simp: applied_def mob_frame_def)

lemma mobq_frame: "mob_frame b b' X \<Longrightarrow> X \<inter> set (F s) = {} \<Longrightarrow> mobq b' F s = mobq b F s"
  by (auto simp: mobq_def mob_frame_def)

lemma mobq_orders:
  assumes "\<And>s. s \<in> {BUY, SELL} \<Longrightarrow> A s = mobq b F s"
  shows "set (mkt_orders A) = (\<lambda>c. strip (obj (order_pool b) c)) ` queued F" and "card (queued F) \<le> length (mkt_orders A)"
    and "ord_price ` set (mkt_orders A) = price_of b ` queued F"
proof -
  show 1: "set (mkt_orders A) = (\<lambda>c. strip (obj (order_pool b) c)) ` queued F"
    using assms by (auto simp: mkt_orders_def mobq_def queued_def)
  show "card (queued F) \<le> length (mkt_orders A)"
    using assms card_length [of "F BUY @ F SELL"] by (simp add: mkt_orders_def mobq_def queued_def)
  show "ord_price ` set (mkt_orders A) = price_of b ` queued F" unfolding 1 by (simp add: image_image)
qed

lemma apply_add:
  assumes inv: "mob_inv N b F" and A: "\<And>s. s \<in> {BUY, SELL} \<Longrightarrow> A s = mobq b F s"
    and ok: "mkt_ok N b A u" and ty: "upd_type u = ADD"
  shows "\<exists>b'. apply_update u b = Inr b' \<and> applied N b b' (mkt_apply u A)"
proof -
  let ?s = "upd_side u" and ?x = "mkt_order u"
  note O = mobq_orders [of A b F, OF A]
  have k: "?s \<in> {BUY, SELL}" "unat (upd_order_id u) < N"
    "\<And>x. x \<in> set (mkt_orders A) \<Longrightarrow> mo_order_id x \<noteq> upd_order_id u"
    "\<And>x. x \<in> set (mkt_orders A) \<Longrightarrow> priceToIndex b (ord_price x) = priceToIndex b (upd_price u) \<Longrightarrow>
       ord_price x = upd_price u \<and> ord_side x = ?s"
    "card (price_of b ` queued F) + 2 \<le> pool_size (orders_at_price_pool b)" "length (mkt_orders A) + 2 \<le> pool_size (order_pool b)"
    using ok ty O(3) by (auto simp: mkt_ok_def)
  have r: "book_rep b F" using inv by (simp add: mob_inv_def)
  have m: "strip (obj (order_pool b) c) \<in> set (mkt_orders A)" if "c \<in> queued F" for c using that O(1) by blast
  have adm: "admits b F ?s (ord_price ?x)"
    unfolding admits_def using k(4) [OF m] by (auto simp: mkt_order_def)
  have fresh: "oid_of b c \<noteq> unat (mo_order_id ?x)" if "c \<in> queued F" for c
    using k(3) [OF m [OF that]] by (simp add: mkt_order_def word_unat_eq_iff)
  have room: "level_room b" using k(5) book_rep_level_count [OF r] by (simp add: level_room_def)
  obtain a P b' where b': "allocate ?x (order_pool b) = Inr (a, P)" "mo_addOrder (Some a) (b\<lparr>order_pool := P\<rparr>) = Inr b'"
    "a \<notin> queued F" "mob_inv N b' (F(?s := price_insert ?s (price_of b') a (F ?s)))"
    "mob_frame b b' {a}" "strip (obj (order_pool b') a) = strip ?x"
    using mob_insert [OF inv k(1) _ adm room _ _ fresh] k(2,6) O(2) by (auto simp: mkt_order_def)
  let ?F = "F(?s := price_insert ?s (price_of b') a (F ?s))"
  have sx: "strip ?x = ?x" by (simp add: strip_def mkt_order_def)
  have old: "mobq b' F s = A s" if "s \<in> {BUY, SELL}" for s
    using mobq_frame [OF b'(5), of F s] b'(3) that A by (auto simp: queued_def)
  have "mobq b' ?F s = mkt_apply u A s" if s: "s \<in> {BUY, SELL}" for s
    using old [OF s] old [OF k(1)] map_price_insert [of "\<lambda>c. strip (obj (order_pool b') c)" ?s ord_price a "F ?s"] b'(6) sx ty
    by (auto simp: mobq_def mkt_apply_def)
  then have "applied N b b' (mkt_apply u A)" by (intro appliedI [OF b'(4,5)]) simp
  moreover have "apply_update u b = Inr b'" using ty b'(1,2) by (simp add: apply_update_def mkt_order_def)
  ultimately show ?thesis by blast
qed

lemma mkt_okE:
  assumes "mkt_ok N b A u" and "upd_type u = MODIFY \<or> upd_type u = CANCEL"
    and inv: "mob_inv N b F" and A: "\<And>s. s \<in> {BUY, SELL} \<Longrightarrow> A s = mobq b F s"
  obtains x where "upd_side u \<in> {BUY, SELL}" and "x \<in> set (mobq b F (upd_side u))" and "mo_order_id x = upd_order_id u"
    and "ord_price x = upd_price u"
proof -
  obtain x where x: "x \<in> set (mkt_orders A)" "mo_order_id x = upd_order_id u" "ord_side x = upd_side u" "ord_price x = upd_price u"
    using assms(1,2) by (auto simp: mkt_ok_def)
  then obtain s where s: "s \<in> {BUY, SELL}" "x \<in> set (mobq b F s)" using A by (auto simp: mkt_orders_def)
  then show ?thesis using that mobq_side [OF inv s] x by metis
qed

lemma apply_modify:
  assumes inv: "mob_inv N b F" and A: "\<And>s. s \<in> {BUY, SELL} \<Longrightarrow> A s = mobq b F s"
    and ok: "mkt_ok N b A u" and ty: "upd_type u = MODIFY"
  shows "\<exists>b'. apply_update u b = Inr b' \<and> applied N b b' (mkt_apply u A)"
proof -
  let ?s = "upd_side u" and ?i = "upd_order_id u"
  obtain x where x: "?s \<in> {BUY, SELL}" "x \<in> set (mobq b F ?s)" "mo_order_id x = ?i"
    using mkt_okE [OF ok _ inv A] ty by metis
  obtain c where c: "c \<in> set (F ?s)" "arr_at (oid_to_order b) (unat ?i) = Inr (Some c)" "mo_order_id (obj (order_pool b) c) = ?i"
    using lookup_oid [OF inv x] .
  let ?b = "b\<lparr>order_pool := pool_upd c (\<lambda>x. x\<lparr>ord_qty := upd_qty u\<rparr>) (order_pool b)\<rparr>"
  have eq: "mo_order_id (obj (order_pool b) d) = ?i \<longleftrightarrow> d = c" if "s \<in> {BUY, SELL}" "d \<in> set (F s)" for s d
    using mobq_id_unique [OF inv that(1) x(1) that(2) c(1)] c(3) by auto
  have "mobq ?b F s = mkt_apply u A s" if s: "s \<in> {BUY, SELL}" for s
    using A [OF s] eq [OF s] ty by (auto simp: mobq_def mkt_apply_def strip_def)
  then have "applied N b ?b (mkt_apply u A)" by (intro appliedI [OF mob_qty [OF inv]]) simp
  then show ?thesis using c(2) ty by (simp add: apply_update_def)
qed

lemma apply_cancel:
  assumes inv: "mob_inv N b F" and A: "\<And>s. s \<in> {BUY, SELL} \<Longrightarrow> A s = mobq b F s"
    and ok: "mkt_ok N b A u" and ty: "upd_type u = CANCEL"
  shows "\<exists>b'. apply_update u b = Inr b' \<and> applied N b b' (mkt_apply u A)"
proof -
  let ?s = "upd_side u" and ?i = "upd_order_id u"
  obtain x where x: "?s \<in> {BUY, SELL}" "x \<in> set (mobq b F ?s)" "mo_order_id x = ?i"
    using mkt_okE [OF ok _ inv A] ty by metis
  obtain c where c: "c \<in> set (F ?s)" "arr_at (oid_to_order b) (unat ?i) = Inr (Some c)" "mo_order_id (obj (order_pool b) c) = ?i"
    using lookup_oid [OF inv x] .
  obtain b' where b': "mo_removeOrder (Some c) b = Inr b'" "mob_inv N b' (F(?s := remove1 c (F ?s)))" "mob_frame b b' {}"
    using mob_remove [OF inv x(1) c(1)] .
  have r: "book_rep b F" using inv by (simp add: mob_inv_def)
  have eq: "mo_order_id (obj (order_pool b) d) = ?i \<longleftrightarrow> d = c" if "s \<in> {BUY, SELL}" "d \<in> set (F s)" for s d
    using mobq_id_unique [OF inv that(1) x(1) that(2) c(1)] c(3) by auto
  have fl: "filter (\<lambda>x. mo_order_id x \<noteq> ?i) (mobq b F s) = map (\<lambda>d. strip (obj (order_pool b) d)) (filter (\<lambda>d. d \<noteq> c) (F s))"
    if s: "s \<in> {BUY, SELL}" for s
    using eq [OF s] by (auto simp: mobq_def filter_map comp_def cong: filter_cong)
  have rm: "filter (\<lambda>d. d \<noteq> c) (F s) = (F(?s := remove1 c (F ?s))) s" if s: "s \<in> {BUY, SELL}" for s
  proof (cases "s = ?s")
    case True
    then show ?thesis using distinct_remove1_removeAll [OF book_rep_distinct(1) [OF r x(1)], of c]
      by (simp add: removeAll_filter_not_eq eq_commute)
  next
    case False
    then have "c \<notin> set (F s)" using mobq_id_unique(2) [OF inv s x(1) _ c(1) refl] by blast
    then have "filter (\<lambda>d. d \<noteq> c) (F s) = F s" by (auto simp: filter_id_conv)
    then show ?thesis using False by simp
  qed
  have "mobq b' (F(?s := remove1 c (F ?s))) s = mkt_apply u A s" if s: "s \<in> {BUY, SELL}" for s
    using mobq_frame [OF b'(3)] fl [OF s] rm [OF s] A [OF s] ty by (simp add: mkt_apply_def mobq_def)
  then have "applied N b b' (mkt_apply u A)" by (intro appliedI [OF b'(2,3)]) simp
  then show ?thesis using c(2) b'(1) ty by (simp add: apply_update_def)
qed

lemma apply_other:
  assumes inv: "mob_inv N b F" and A: "\<And>s. s \<in> {BUY, SELL} \<Longrightarrow> A s = mobq b F s"
    and ok: "mkt_ok N b A u" and ty: "upd_type u \<notin> {ADD, MODIFY, CANCEL}"
  shows "\<exists>b'. apply_update u b = Inr b' \<and> applied N b b' (mkt_apply u A)"
proof (cases "upd_type u = CLEAR")
  case True
  have q: "queued F = {}" using ok A True by (auto simp: mkt_ok_def mkt_orders_def mobq_def queued_def)
  have t: "arr_size (oid_to_order b) = N" "\<And>j. j < N \<Longrightarrow> arr_get (oid_to_order b) j = None"
    using inv q by (auto simp: mob_inv_def oid_ok_def)
  have "rfold free_order xs b = Inr b" if "set xs \<subseteq> {..<N}" for xs
    using that t by (induction xs) (auto simp: free_order_def)
  then have f: "rfold free_order [0..<arr_size (oid_to_order b)] b = Inr b" using t(1) by (auto simp: subset_iff)
  have e: "bids_by_price b = None" "asks_by_price b = None"
    using book_rep_best [of b F BUY] book_rep_best [of b F SELL] inv q by (auto simp: mob_inv_def queued_def best_orders_by_price_def)
  let ?b = "b\<lparr>oid_to_order := arr_fill N None\<rparr>"
  have "?b\<lparr>bids_by_price := None, asks_by_price := None\<rparr> = ?b" using e by (cases b) simp
  then have run: "apply_update u b = Inr ?b" using True f t(1) e by (simp add: apply_update_def clear_book_def free_levels_def)
  have "mob_inv N ?b F" using inv q by (auto simp: mob_inv_def oid_ok_def)
  moreover have "mob_frame b ?b {}" by (simp add: mob_frame_def priceToIndex_def)
  ultimately have "applied N b ?b (mkt_apply u A)"
    by (rule appliedI) (use A True in \<open>simp_all add: mobq_def mkt_apply_def\<close>)
  then show ?thesis using run by blast
next
  case False
  then have "apply_update u b = Inr b" "mkt_apply u A = A"
    using ty by (cases "upd_type u"; simp add: apply_update_def mkt_apply_def)+
  then show ?thesis using appliedI [OF inv, of b "{}" A] A by (simp add: mob_frame_def)
qed

lemma apply_update_ok:
  assumes "mob_inv N b F" and "\<And>s. s \<in> {BUY, SELL} \<Longrightarrow> A s = mobq b F s" and "mkt_ok N b A u"
  shows "\<exists>b'. apply_update u b = Inr b' \<and> applied N b b' (mkt_apply u A)"
  using apply_add [OF assms] apply_modify [OF assms] apply_cancel [OF assms] apply_other [OF assms] by blast

section \<open>The best prices\<close>

lemma filter_price_insert: "\<not> P a \<Longrightarrow> filter P (price_insert s f a xs) = filter P xs"
  using filter_append [of P "takeWhile (\<lambda>c. \<not> worse s (f c) (f a)) xs" "dropWhile (\<lambda>c. \<not> worse s (f c) (f a)) xs"]
  by (simp add: price_insert_def)

lemma best_spec_alt:
  "xs \<noteq> [] \<Longrightarrow> best_spec xs = (ord_price (hd xs), sum_list (map ord_qty (filter (\<lambda>y. ord_price y = ord_price (hd xs)) xs)))"
  by (cases xs) (simp_all add: best_spec_def)

lemma best_spec_insert:
  assumes "xs \<noteq> []" and "worse s (ord_price x) (ord_price (hd xs))"
  shows "best_spec (price_insert s ord_price x xs) = best_spec xs"
proof -
  obtain y ys where xs: "xs = y # ys" using assms(1) by (cases xs) auto
  have "\<not> worse s (ord_price y) (ord_price x)" "ord_price x \<noteq> ord_price y" using assms(2) xs worse_asym by auto
  then have "\<exists>zs. price_insert s ord_price x xs = y # zs"
    "filter (\<lambda>z. ord_price z = ord_price y) (price_insert s ord_price x xs) = filter (\<lambda>z. ord_price z = ord_price y) xs"
    by (simp_all add: filter_price_insert) (simp add: price_insert_def xs)
  then show ?thesis using xs unfolding best_spec_def by auto
qed

lemma best_spec_modify:
  assumes "\<forall>y\<in>set xs. mo_order_id y = i \<longrightarrow> ord_price y \<noteq> ord_price (hd xs)"
  shows "best_spec (map (\<lambda>x. if mo_order_id x = i then x\<lparr>ord_qty := q\<rparr> else x) xs) = best_spec xs"
proof (cases xs)
  case (Cons y ys)
  let ?f = "\<lambda>x. if mo_order_id x = i then x\<lparr>ord_qty := q\<rparr> else x"
  have "ord_price (?f z) = ord_price z" for z by simp
  then have "filter (\<lambda>z. ord_price z = ord_price y) (map ?f xs) = map ?f (filter (\<lambda>z. ord_price z = ord_price y) xs)"
    by (simp add: filter_map comp_def)
  also have "\<dots> = filter (\<lambda>z. ord_price z = ord_price y) xs" using assms Cons by (intro map_idI) auto
  finally have "filter (\<lambda>z. ord_price z = ord_price y) (map ?f xs) = filter (\<lambda>z. ord_price z = ord_price y) xs" .
  moreover have "ord_price (hd (map ?f xs)) = ord_price y" using Cons by simp
  moreover have "xs \<noteq> []" "map ?f xs \<noteq> []" "hd xs = y" using Cons by simp_all
  ultimately show ?thesis using best_spec_alt [of xs] best_spec_alt [of "map ?f xs"] by presburger
qed (simp add: best_spec_def)

lemma best_spec_cancel:
  assumes "\<forall>y\<in>set xs. mo_order_id y = i \<longrightarrow> ord_price y \<noteq> ord_price (hd xs)"
  shows "best_spec (filter (\<lambda>x. mo_order_id x \<noteq> i) xs) = best_spec xs"
proof (cases xs)
  case (Cons y ys)
  have "filter (\<lambda>z. ord_price z = ord_price y) (filter (\<lambda>x. mo_order_id x \<noteq> i) xs) = filter (\<lambda>z. ord_price z = ord_price y) xs"
    using assms Cons by (auto simp: filter_filter intro!: filter_cong)
  then show ?thesis using assms Cons by (simp add: best_spec_def)
qed (simp add: best_spec_def)

lemma not_touches_best:
  assumes "mob_inv N b F" and s: "s \<in> {BUY, SELL}" and "\<not> touches_best s u b"
  shows "upd_side u \<noteq> s \<or> mobq b F s \<noteq> [] \<and> worse s (upd_price u) (ord_price (hd (mobq b F s)))"
proof (cases "F s")
  case Nil
  then have "best_orders_by_price s b = None" using book_rep_best [of b F s] assms(1) s by (auto simp: mob_inv_def)
  then show ?thesis using assms(3) by (simp add: touches_best_def)
next
  case (Cons c cs)
  obtain l where "best_orders_by_price s b = Some l" "lvl_price (obj (orders_at_price_pool b) l) = price_of b c"
    using book_rep_best_level [of b F s c cs] assms(1) s Cons by (auto simp: mob_inv_def)
  then show ?thesis using assms(3) Cons by (auto simp: touches_best_def mobq_def)
qed

lemma best_unchanged:
  assumes inv: "mob_inv N b F" and A: "\<And>s. s \<in> {BUY, SELL} \<Longrightarrow> A s = mobq b F s" and ok: "mkt_ok N b A u"
    and s: "s \<in> {BUY, SELL}" and nt: "\<not> touches_best s u b"
  shows "best_spec (mkt_apply u A s) = best_spec (A s)"
proof -
  have c: "upd_side u \<noteq> s \<or> A s \<noteq> [] \<and> worse s (upd_price u) (ord_price (hd (A s)))"
    using not_touches_best [OF inv s nt] A [OF s] by simp
  have away: "\<forall>y\<in>set (A s). mo_order_id y = upd_order_id u \<longrightarrow> ord_price y \<noteq> ord_price (hd (A s))"
    if ty: "upd_type u = MODIFY \<or> upd_type u = CANCEL"
  proof (intro ballI impI)
    fix y assume y: "y \<in> set (A s)" "mo_order_id y = upd_order_id u"
    obtain x where x: "upd_side u \<in> {BUY, SELL}" "x \<in> set (mobq b F (upd_side u))" "mo_order_id x = upd_order_id u"
      "ord_price x = upd_price u" using mkt_okE [OF ok ty inv A] by metis
    have "y = x" "s = upd_side u" using mobq_ids [OF inv s x(1) _ x(2)] y A [OF s] x(3) by auto
    then show "ord_price y \<noteq> ord_price (hd (A s))" using c x(4) by auto
  qed
  show ?thesis
  proof (cases "upd_type u")
    case ADD
    then show ?thesis using c best_spec_insert [of "A s" s "mkt_order u"] by (auto simp: mkt_apply_def mkt_order_def)
  next
    case MODIFY
    then show ?thesis using best_spec_modify away by (simp add: mkt_apply_def)
  next
    case CANCEL
    then show ?thesis using best_spec_cancel away by (simp add: mkt_apply_def)
  qed (simp_all add: mkt_apply_def)
qed

lemma bbo_eqI: "bid_price x = bid_price y \<Longrightarrow> ask_price x = ask_price y \<Longrightarrow> bid_qty x = bid_qty y \<Longrightarrow> ask_qty x = ask_qty y \<Longrightarrow> x = (y :: BBO)"
  by simp

lemma mob_inv_bbo [simp]: "mob_inv N (b\<lparr>bbo := x\<rparr>) F = mob_inv N b F"
  by (simp add: mob_inv_def oid_ok_def)

lemma updateBBO_ok:
  assumes inv: "mob_inv N b F" and A: "\<And>s. s \<in> {BUY, SELL} \<Longrightarrow> A s = mobq b F s"
    and bid: "\<not> ub \<Longrightarrow> (bid_price (bbo b), bid_qty (bbo b)) = best_spec (A BUY)"
    and ask: "\<not> ua \<Longrightarrow> (ask_price (bbo b), ask_qty (bbo b)) = best_spec (A SELL)"
  shows "updateBBO ub ua b = Inr (b\<lparr>bbo := bbo_of A\<rparr>)"
proof -
  let ?b1 = "if ub then b\<lparr>bbo := (bbo b)\<lparr>bid_price := fst (best_spec (A BUY)), bid_qty := snd (best_spec (A BUY))\<rparr>\<rparr> else b"
  have 1: "best_of BUY b = Inr (best_spec (A BUY))" using best_of_ok [OF inv, of BUY] A by simp
  have m: "mobq ?b1 F SELL = A SELL" using A by (simp add: mobq_def)
  have 2: "best_of SELL ?b1 = Inr (best_spec (A SELL))"
    using best_of_ok [of N ?b1 F SELL] inv m by (cases ub) simp_all
  have "updateBBO ub ua b = Inr (if ua then ?b1\<lparr>bbo := (bbo ?b1)\<lparr>ask_price := fst (best_spec (A SELL)), ask_qty := snd (best_spec (A SELL))\<rparr>\<rparr> else ?b1)"
    using 1 2 by (cases ub; cases ua) (simp_all add: updateBBO_def case_prod_unfold)
  moreover have "b\<lparr>bbo := bbo b\<rparr> = b" by simp
  ultimately show ?thesis using bid ask
    by (cases ub; cases ua) (auto simp: bbo_of_def prod_eq_iff intro!: arg_cong [where f = "\<lambda>x. b\<lparr>bbo := x\<rparr>"] bbo_eqI)
qed

section \<open>The refinement\<close>

lemma market_update_run:
  assumes "mob_rel N b A" and "mkt_ok N b A u" and "upd_type u \<noteq> TRADE"
  shows "\<exists>b'. onMarketUpdate u b = Inr (b', OrderBookUpdate (upd_ticker_id u) (upd_price u) (upd_side u)) \<and>
     mob_rel N b' (mkt_apply u A) \<and> pool_size (order_pool b') = pool_size (order_pool b) \<and>
     pool_size (orders_at_price_pool b') = pool_size (orders_at_price_pool b) \<and> (\<forall>p. priceToIndex b' p = priceToIndex b p)"
proof -
  obtain F where F: "mob_inv N b F" "\<And>s. s \<in> {BUY, SELL} \<Longrightarrow> A s = mobq b F s" and bb: "bbo b = bbo_of A"
    using assms(1) by (auto simp: mob_rel_def)
  obtain b1 where b1: "apply_update u b = Inr b1" "applied N b b1 (mkt_apply u A)" using apply_update_ok [OF F assms(2)] by blast
  then obtain F1 where F1: "mob_inv N b1 F1" "\<And>s. s \<in> {BUY, SELL} \<Longrightarrow> mkt_apply u A s = mobq b1 F1 s" and e: "bbo b1 = bbo b"
    and z: "pool_size (order_pool b1) = pool_size (order_pool b)" "pool_size (orders_at_price_pool b1) = pool_size (orders_at_price_pool b)"
      "\<And>p. priceToIndex b1 p = priceToIndex b p"
    by (auto simp: applied_def)
  have "updateBBO (touches_best BUY u b) (touches_best SELL u b) b1 = Inr (b1\<lparr>bbo := bbo_of (mkt_apply u A)\<rparr>)"
    using best_unchanged [OF F assms(2)] bb e by (intro updateBBO_ok [OF F1]) (simp_all add: bbo_of_def)
  moreover have "mob_rel N (b1\<lparr>bbo := bbo_of (mkt_apply u A)\<rparr>) (mkt_apply u A)"
    using F1 by (auto simp: mob_rel_def mobq_def)
  ultimately show ?thesis using b1(1) assms(3) z by (simp add: onMarketUpdate_def Let_def priceToIndex_def)
qed

text \<open>
  C17: the client's book follows the market.  An update that the book can take is processed without an
  error; afterwards the linked book holds exactly the orders of the specification in price-time order,
  its summary shows the best price of each side and the total quantity there, and the trade engine is
  told about the change.
\<close>

theorem market_update_refines:
  assumes "mob_rel N b A" and "mkt_ok N b A u" and "upd_type u \<noteq> TRADE"
  shows "\<exists>b'. onMarketUpdate u b = Inr (b', OrderBookUpdate (upd_ticker_id u) (upd_price u) (upd_side u)) \<and>
     mob_rel N b' (mkt_apply u A)"
  using market_update_run [OF assms] by blast

text \<open>A small book with one bid of 5 at price 10.\<close>

definition tiny_limits :: Limits where
  "tiny_limits = \<lparr>ME_MAX_TICKERS = 2, ME_MAX_CLIENT_UPDATES = 8, ME_MAX_MARKET_UPDATES = 8,
     ME_MAX_NUM_CLIENTS = 4, ME_MAX_ORDER_IDS = 4, ME_MAX_PRICE_LEVELS = 4\<rparr>"

definition bid_update :: "MarketUpdateType \<Rightarrow> OrderId \<Rightarrow> Price \<Rightarrow> Qty \<Rightarrow> MEMarketUpdate" where
  "bid_update ty oid price qty = \<lparr>upd_type = ty, upd_order_id = oid, upd_ticker_id = 0, upd_side = BUY, upd_price = price,
     upd_qty = qty, upd_priority = 1\<rparr>"

definition clear_update0 :: MEMarketUpdate where
  "clear_update0 = MEMarketUpdate_default\<lparr>upd_type := CLEAR, upd_ticker_id := 0\<rparr>"

lemma mob_rel_new:
  assumes "0 < ME_MAX_PRICE_LEVELS limits" and "0 < ME_MAX_ORDER_IDS limits"
  shows "mob_rel (ME_MAX_ORDER_IDS limits) (MarketOrderBook_new limits tid) (\<lambda>_. [])"
proof -
  have "bbo (MarketOrderBook_new limits tid) = bbo_of (\<lambda>_. [])"
    by (simp add: MarketOrderBook_new_def bbo_of_def best_spec_def BBO_default_def)
  then show ?thesis using mob_inv_new [OF assms] by (auto simp: mob_rel_def mobq_def intro!: exI [of _ "\<lambda>_. []"])
qed

theorem market_update_refines_witness:
  "\<exists>b'. onMarketUpdate (bid_update ADD 1 10 5) (MarketOrderBook_new tiny_limits 0) = Inr (b', OrderBookUpdate 0 10 BUY) \<and>
     mob_rel 4 b' ((\<lambda>_. [])(BUY := [mkt_order (bid_update ADD 1 10 5)])) \<and>
     bid_price (bbo b') = 10 \<and> bid_qty (bbo b') = 5"
proof -
  let ?u = "bid_update ADD 1 10 5"
  have r: "mob_rel 4 (MarketOrderBook_new tiny_limits 0) (\<lambda>_. [])"
    using mob_rel_new [of tiny_limits 0] by (simp add: tiny_limits_def)
  have ok: "mkt_ok 4 (MarketOrderBook_new tiny_limits 0) (\<lambda>_. []) ?u"
    by (simp add: mkt_ok_def bid_update_def mkt_orders_def MarketOrderBook_new_def tiny_limits_def)
  have a: "mkt_apply ?u (\<lambda>_. []) = (\<lambda>_. [])(BUY := [mkt_order ?u])"
    by (simp add: mkt_apply_def bid_update_def price_insert_def)
  have "upd_type ?u \<noteq> TRADE" by (simp add: bid_update_def)
  from market_update_refines [OF r ok this] obtain b' where
    b': "onMarketUpdate ?u (MarketOrderBook_new tiny_limits 0) = Inr (b', OrderBookUpdate 0 10 BUY)"
    "mob_rel 4 b' ((\<lambda>_. [])(BUY := [mkt_order ?u]))" unfolding a by (auto simp: bid_update_def)
  moreover from b'(2) have "bbo b' = bbo_of ((\<lambda>_. [])(BUY := [mkt_order ?u]))" by (simp add: mob_rel_def)
  ultimately show ?thesis by (simp add: bbo_of_def best_spec_def mkt_order_def bid_update_def)
qed

section \<open>Clearing\<close>


end
