(* ===== verification/Replication.thy ===== *)
theory Replication
  imports Matching_Engine ME_Book_Props Market_Book_Refine
begin

text \<open>
  The order book of the exchange and the order book of the trading client side by side.  The client
  applies the market updates that the exchange's book sends while it serves a request; the theorem is
  that the client's book then shows the resting orders of the exchange's book, order by order and in the
  same priority.
\<close>

section \<open>What a client sees of a book\<close>

definition mkt_view :: "MEOrder \<Rightarrow> MarketOrder" where
  "mkt_view x = \<lparr>ord_side = ord_side x, ord_price = ord_price x, ord_qty = ord_qty x, ord_priority = ord_priority x,
     prev_order = None, next_order = None, mo_order_id = ord_market_order_id x\<rparr>"

definition book_view :: "abs_book \<Rightarrow> mkt_book" where
  "book_view A = (\<lambda>s. map mkt_view (ab_queue A s))"

lemma mkt_view_sel [simp]:
  "ord_side (mkt_view x) = ord_side x" "ord_price (mkt_view x) = ord_price x" "ord_qty (mkt_view x) = ord_qty x"
  "mo_order_id (mkt_view x) = ord_market_order_id x" "mkt_view (x\<lparr>ord_qty := q\<rparr>) = (mkt_view x)\<lparr>ord_qty := q\<rparr>"
  by (simp_all add: mkt_view_def)

text \<open>The client processes an update: the notification of the trade engine is not of interest here.\<close>

definition client_apply :: "MEMarketUpdate \<Rightarrow> MarketOrderBook \<Rightarrow> MarketOrderBook res" where
  "client_apply u mb = rbind (onMarketUpdate u mb) (\<lambda>(mb, ev). Inr mb)"

definition same_room :: "MarketOrderBook \<Rightarrow> MarketOrderBook \<Rightarrow> bool" where
  "same_room b b' \<longleftrightarrow> pool_size (order_pool b') = pool_size (order_pool b) \<and>
     pool_size (orders_at_price_pool b') = pool_size (orders_at_price_pool b) \<and> (\<forall>p. priceToIndex b' p = priceToIndex b p)"

lemma same_room_refl [simp]: "same_room b b"
  by (simp add: same_room_def)

lemma same_room_trans: "same_room b b' \<Longrightarrow> same_room b' b'' \<Longrightarrow> same_room b b''"
  by (simp add: same_room_def)

lemma client_apply_ok:
  assumes "mob_rel K mb B" and "mkt_ok K mb B u"
  shows "\<exists>mb'. client_apply u mb = Inr mb' \<and> mob_rel K mb' (mkt_apply u B) \<and> same_room mb mb'"
proof (cases "upd_type u = TRADE")
  case True
  then show ?thesis using assms(1) by (simp add: client_apply_def onMarketUpdate_def mkt_apply_def Let_def)
next
  case False
  then show ?thesis using market_update_run [OF assms] by (auto simp: client_apply_def same_room_def)
qed

section \<open>Identifiers of a client's book\<close>

lemma mob_rel_ids:
  assumes "mob_rel K mb B"
  shows "distinct (map mo_order_id (mkt_orders B))"
proof -
  obtain F where F: "mob_inv K mb F" "\<And>s. s \<in> {BUY, SELL} \<Longrightarrow> B s = mobq mb F s"
    using assms by (auto simp: mob_rel_def)
  let ?id = "\<lambda>c. mo_order_id (obj (order_pool mb) c)"
  have r: "book_rep mb F" using F(1) by (simp add: mob_inv_def)
  have "map mo_order_id (mkt_orders B) = map ?id (F BUY @ F SELL)" using F(2) by (simp add: mkt_orders_def mobq_def)
  moreover have "distinct (F BUY @ F SELL)" using book_rep_distinct [OF r, of BUY] book_rep_distinct [OF r, of SELL] by auto
  moreover have "inj_on ?id (set (F BUY @ F SELL))"
    by (rule inj_onI) (use mobq_id_unique(1) [OF F(1)] in auto)
  ultimately show ?thesis by (metis distinct_map)
qed

lemma mob_rel_cong:
  assumes "mob_rel K mb B" and "\<And>s. s \<in> {BUY, SELL} \<Longrightarrow> B' s = B s"
  shows "mob_rel K mb B'"
  using assms by (auto simp: mob_rel_def bbo_of_def)

lemma mob_rel_side: "mob_rel K mb B \<Longrightarrow> s \<in> {BUY, SELL} \<Longrightarrow> x \<in> set (B s) \<Longrightarrow> ord_side x = s"
  by (auto simp: mob_rel_def dest: mobq_side)

lemma filter_other_ids:
  assumes "distinct (map mo_order_id (mkt_orders B))" and "side \<in> {BUY, SELL}" and "B (opp side) = y # ys"
  shows "filter (\<lambda>x. mo_order_id x \<noteq> mo_order_id y) (B (opp side)) = ys"
    and "filter (\<lambda>x. mo_order_id x \<noteq> mo_order_id y) (B side) = B side"
    and "map (\<lambda>x. if mo_order_id x = mo_order_id y then f x else x) (B (opp side)) = f y # ys"
    and "map (\<lambda>x. if mo_order_id x = mo_order_id y then f x else x) (B side) = B side"
proof -
  have "\<forall>x\<in>set ys. mo_order_id x \<noteq> mo_order_id y" "\<forall>x\<in>set (B side). mo_order_id x \<noteq> mo_order_id y"
    using assms(1,2) unfolding mkt_orders_def by (auto simp: assms(3) [symmetric]) (use assms(3) in \<open>auto dest: sym\<close>)
  then show "filter (\<lambda>x. mo_order_id x \<noteq> mo_order_id y) (B (opp side)) = ys"
    "filter (\<lambda>x. mo_order_id x \<noteq> mo_order_id y) (B side) = B side"
    "map (\<lambda>x. if mo_order_id x = mo_order_id y then f x else x) (B (opp side)) = f y # ys"
    "map (\<lambda>x. if mo_order_id x = mo_order_id y then f x else x) (B side) = B side"
    using assms(3) by (auto intro!: map_idI filter_True)
qed

section \<open>Fills\<close>

lemma updates_of_append [simp]: "updates_of (xs @ ys) = updates_of xs @ updates_of ys"
  by (simp add: updates_of_def)

lemma mkt_ok_trade: "upd_type u = TRADE \<Longrightarrow> mkt_ok K mb B u \<and> mkt_apply u B = B"
  by (simp add: mkt_ok_def mkt_apply_def)

lemma client_trade: "upd_type u = TRADE \<Longrightarrow> client_apply u mb = Inr mb"
  by (simp add: client_apply_def onMarketUpdate_def Let_def)

text \<open>One fill of the order at the head of the other side: complete, or in part.\<close>

lemma replica_fill:
  assumes rel: "mob_rel K mb B" and side: "side \<in> {BUY, SELL}" and q: "B (opp side) = mkt_view x # ys"
    and fill_def: "fill = min leaves (ord_qty x)"
  shows "\<exists>mb' B'. rfold client_apply (updates_of (match_events tid cid side coid moid leaves x)) mb = Inr mb' \<and> mob_rel K mb' B' \<and>
     same_room mb mb' \<and> B' side = B side \<and>
     B' (opp side) = (if ord_qty x = fill then ys else (mkt_view x)\<lparr>ord_qty := ord_qty x - fill\<rparr> # ys)"
proof -
  let ?us = "updates_of (match_events tid cid side coid moid leaves x)"
  obtain t u where us: "?us = [t, u]" "upd_type t = TRADE" "upd_order_id u = ord_market_order_id x" "upd_side u = ord_side x"
    "upd_price u = ord_price x" "upd_type u = (if ord_qty x = fill then CANCEL else MODIFY)"
    "ord_qty x \<noteq> fill \<Longrightarrow> upd_qty u = ord_qty x - fill"
    by (cases "ord_qty x = min leaves (ord_qty x)") (simp_all add: match_events_def Let_def fill_def)
  have osd: "opp side \<in> {BUY, SELL}" "mkt_view x \<in> set (mkt_orders B)" using side q by (auto simp: mkt_orders_def)
  have ok: "mkt_ok K mb B u" using osd(2) us(3-6) by (auto simp: mkt_ok_def intro!: bexI [of _ "mkt_view x"])
  obtain mb' where m: "client_apply u mb = Inr mb'" "mob_rel K mb' (mkt_apply u B)" "same_room mb mb'"
    using client_apply_ok [OF rel ok] by blast
  note ids = filter_other_ids [OF mob_rel_ids [OF rel] side q]
  have "mkt_apply u B side = B side"
    using us(3,6) ids(2) ids(4) [of "\<lambda>z. z\<lparr>ord_qty := upd_qty u\<rparr>"] by (auto simp: mkt_apply_def)
  moreover have "mkt_apply u B (opp side) = (if ord_qty x = fill then ys else (mkt_view x)\<lparr>ord_qty := ord_qty x - fill\<rparr> # ys)"
    using us(3,6,7) ids(1) ids(3) [of "\<lambda>z. z\<lparr>ord_qty := upd_qty u\<rparr>"] by (auto simp: mkt_apply_def)
  ultimately show ?thesis using us(1,2) m client_trade by auto
qed

lemma replica_match:
  assumes "spec_match tid cid side coid moid price leaves xs = (l, ys, ev)" and "side \<in> {BUY, SELL}"
    and "mob_rel K mb B" and "B (opp side) = map mkt_view xs"
  shows "\<exists>mb' B'. rfold client_apply (updates_of ev) mb = Inr mb' \<and> mob_rel K mb' B' \<and> same_room mb mb' \<and>
     B' side = B side \<and> B' (opp side) = map mkt_view ys"
  using assms
proof (induction xs arbitrary: leaves l ys ev mb B)
  case (Cons x xs)
  let ?fill = "min leaves (ord_qty x)"
  show ?case
  proof (cases "leaves = 0 \<or> passes side price (ord_price x)")
    case True
    then show ?thesis using Cons.prems by auto
  next
    case False
    obtain mb1 B1 where b1: "rfold client_apply (updates_of (match_events tid cid side coid moid leaves x)) mb = Inr mb1"
      "mob_rel K mb1 B1" "same_room mb mb1" "B1 side = B side"
      "B1 (opp side) = (if ord_qty x = ?fill then map mkt_view xs else (mkt_view x)\<lparr>ord_qty := ord_qty x - ?fill\<rparr> # map mkt_view xs)"
      using replica_fill [OF Cons.prems(3,2), of x "map mkt_view xs" ?fill leaves tid cid coid moid] Cons.prems(4) by auto
    show ?thesis
    proof (cases "ord_qty x = ?fill")
      case True
      obtain l' ys' ev' where r: "spec_match tid cid side coid moid price (leaves - ?fill) xs = (l', ys', ev')"
        using prod_cases3 by blast
      then have e: "ys = ys'" "ev = match_events tid cid side coid moid leaves x @ ev'"
        using Cons.prems(1) False True by (auto simp: Let_def)
      obtain mb' B' where "rfold client_apply (updates_of ev') mb1 = Inr mb'" "mob_rel K mb' B'" "same_room mb1 mb'"
        "B' side = B1 side" "B' (opp side) = map mkt_view ys'"
        using Cons.IH [OF r Cons.prems(2) b1(2)] b1(5) True by auto
      then show ?thesis using b1 e same_room_trans by (fastforce simp: rfold_append)
    next
      case nf: False
      then have "ys = x\<lparr>ord_qty := ord_qty x - ?fill\<rparr> # xs" "ev = match_events tid cid side coid moid leaves x"
        using Cons.prems(1) False by (auto simp: Let_def)
      then show ?thesis using b1 nf by auto
    qed
  qed
qed auto

section \<open>Requests\<close>

text \<open>
  Room in the client's book for a new order, in terms of the exchange's book: its identifier is in the
  client's table and fresh, no resting order has another price with the same index, and the pools have
  room.
\<close>

definition client_room :: "nat \<Rightarrow> MarketOrderBook \<Rightarrow> abs_book \<Rightarrow> Price \<Rightarrow> bool" where
  "client_room K mb A price \<longleftrightarrow>
     unat (ab_next A) < K \<and>
     (\<forall>x\<in>set (ab_orders A). ord_market_order_id x \<noteq> ab_next A \<and>
        (priceToIndex mb (ord_price x) = priceToIndex mb price \<longrightarrow> ord_price x = price)) \<and>
     card (ord_price ` set (ab_orders A)) + 2 \<le> pool_size (orders_at_price_pool mb) \<and>
     length (ab_orders A) + 2 \<le> pool_size (order_pool mb)"

lemma spec_match_shorter:
  assumes "spec_match tid cid side coid moid price leaves xs = (l, ys, ev)"
  shows "length ys \<le> length xs" and "ord_price ` set ys \<subseteq> ord_price ` set xs"
proof -
  obtain zs us where *: "xs = zs @ us" "ys = us \<or> (\<exists>x vs q. us = x # vs \<and> ys = x\<lparr>ord_qty := q\<rparr> # vs)"
    using spec_match_suffix [OF assms] by blast
  then show "length ys \<le> length xs" by auto
  show "ord_price ` set ys \<subseteq> ord_price ` set xs" using * by auto
qed

lemma book_view_side: "mob_rel K mb (book_view A) \<Longrightarrow> s \<in> {BUY, SELL} \<Longrightarrow> x \<in> set (ab_queue A s) \<Longrightarrow> ord_side x = s"
  using mob_rel_side [of K mb "book_view A" s "mkt_view x"] by (simp add: book_view_def)

text \<open>After the fills, the rest of the order is queued.\<close>

lemma add_room:
  assumes room: "client_room K mb A price" and side: "side \<in> {BUY, SELL}"
    and m: "spec_match tid cid side coid moid price qty (ab_queue A (opp side)) = (l, ys, ev)" and l: "l \<noteq> 0"
    and srt: "sorted_wrt (\<lambda>x y. \<not> worse (opp side) (ord_price x) (ord_price y)) (ab_queue A (opp side))"
    and B: "B side = map mkt_view (ab_queue A side)" "B (opp side) = map mkt_view ys"
    and sides: "\<And>x. x \<in> set (ab_queue A side) \<Longrightarrow> ord_side x = side" and mb: "same_room mb mb'"
    and u: "upd_type u = ADD" "upd_order_id u = ab_next A" "upd_side u = side" "upd_price u = price"
  shows "mkt_ok K mb' B u"
proof -
  have fits: "set (mkt_orders B) \<subseteq> mkt_view ` (set (ab_queue A side) \<union> set ys)" "length (mkt_orders B) = length (ab_queue A side) + length ys"
    using side B by (auto simp: mkt_orders_def)
  have far: "passes side price (ord_price y)" if "y \<in> set ys" for y
    using spec_match_stops [OF m side srt] l that by blast
  have prices: "ord_price ` set (mkt_orders B) \<subseteq> ord_price ` set (ab_orders A)"
    using fits(1) spec_match_shorter(2) [OF m] side by (fastforce simp: ab_orders_def)
  then have "card (ord_price ` set (mkt_orders B)) \<le> card (ord_price ` set (ab_orders A))" by (intro card_mono) auto
  moreover have "length (mkt_orders B) \<le> length (ab_orders A)"
    using fits(2) spec_match_shorter(1) [OF m] side by (auto simp: ab_orders_def)
  moreover have "mo_order_id z \<noteq> ab_next A \<and> (priceToIndex mb (ord_price z) = priceToIndex mb price \<longrightarrow> ord_price z = price \<and> ord_side z = side)"
    if z: "z \<in> set (mkt_orders B)" for z
  proof -
    obtain x where x: "z = mkt_view x" "x \<in> set (ab_queue A side) \<or> x \<in> set ys" using z fits(1) by auto
    have "ord_market_order_id x \<noteq> ab_next A \<and> (priceToIndex mb (ord_price x) = priceToIndex mb price \<longrightarrow> ord_price x = price)"
    proof (cases "x \<in> set ys")
      case True
      then obtain x' q where "x' \<in> set (ab_queue A (opp side))" "x = x'\<lparr>ord_qty := q\<rparr>" using spec_match_orders [OF m] by blast
      then show ?thesis using room side by (auto simp: client_room_def ab_orders_def)
    next
      case False
      then show ?thesis using x(2) room side by (auto simp: client_room_def ab_orders_def)
    qed
    moreover have "ord_price x = price \<Longrightarrow> x \<notin> set ys" using far [of x] side by (auto simp: passes_def)
    ultimately show ?thesis using x sides by auto
  qed
  ultimately show ?thesis using room side mb u by (auto simp: mkt_ok_def client_room_def same_room_def)
qed

lemma mkt_view_insert:
  "map mkt_view (price_insert side ord_price x xs) = price_insert side ord_price (mkt_view x) (map mkt_view xs)"
  by (simp add: price_insert_def takeWhile_map dropWhile_map comp_def)

lemma replica_add:
  assumes rel: "mob_rel K mb (book_view A)" and room: "client_room K mb A price" and side: "side \<in> {BUY, SELL}"
    and srt: "sorted_wrt (\<lambda>x y. \<not> worse (opp side) (ord_price x) (ord_price y)) (ab_queue A (opp side))"
  shows "\<exists>mb'. rfold client_apply (updates_of (snd (spec_add cid coid tid side price qty A))) mb = Inr mb' \<and>
     mob_rel K mb' (book_view (fst (spec_add cid coid tid side price qty A))) \<and> same_room mb mb'"
proof -
  have os: "opp side \<noteq> side" using side by auto
  obtain l ys ev where m: "spec_match tid cid side coid (fill_id (ab_next A)) price qty (ab_queue A (opp side)) = (l, ys, ev)"
    using prod_cases3 by blast
  obtain mb1 B1 where b1: "rfold client_apply (updates_of ev) mb = Inr mb1" "mob_rel K mb1 B1" "same_room mb mb1"
    "B1 side = map mkt_view (ab_queue A side)" "B1 (opp side) = map mkt_view ys"
    using replica_match [OF m side rel] by (auto simp: book_view_def)
  show ?thesis
  proof (cases "l = 0")
    case True
    have "mob_rel K mb1 (book_view (fst (spec_add cid coid tid side price qty A)))"
      by (rule mob_rel_cong [OF b1(2)]) (use m True b1(4,5) side in \<open>auto simp: spec_add_def book_view_def\<close>)
    then show ?thesis using b1(1,3) m True by (simp add: spec_add_def)
  next
    case False
    let ?prio = "next_priority price (ab_queue A side)"
    let ?u = "\<lparr>upd_type = ADD, upd_order_id = ab_next A, upd_ticker_id = tid, upd_side = side, upd_price = price, upd_qty = l, upd_priority = ?prio\<rparr>"
    have "mkt_ok K mb1 B1 ?u"
      using add_room [OF room side m False srt b1(4,5) book_view_side [OF rel side] b1(3), of ?u] by simp
    then obtain mb2 where b2: "client_apply ?u mb1 = Inr mb2" "mob_rel K mb2 (mkt_apply ?u B1)" "same_room mb1 mb2"
      using client_apply_ok [OF b1(2)] by blast
    have "mob_rel K mb2 (book_view (fst (spec_add cid coid tid side price qty A)))"
      by (rule mob_rel_cong [OF b2(2)])
        (use m False b1(4,5) side in \<open>auto simp: spec_add_def Let_def book_view_def mkt_apply_def mkt_view_insert mkt_order_def mkt_view_def\<close>)
    then show ?thesis using b1(1) b2(1) same_room_trans [OF b1(3) b2(3)] m False by (simp add: spec_add_def Let_def rfold_append)
  qed
qed

lemma me_rel_key:
  assumes "me_rel N M b A" and "x \<in> set (ab_orders A)" "y \<in> set (ab_orders A)" and "has_key cid oid x" "has_key cid oid y"
  shows "x = y"
proof -
  obtain F where inv: "me_inv N M b F" and A: "\<And>s. s \<in> {BUY, SELL} \<Longrightarrow> ab_queue A s = absq b F s"
    using assms(1) by (auto simp: me_rel_def)
  obtain c d where cd: "c \<in> queued F" "d \<in> queued F" "x = strip (obj (order_pool b) c)" "y = strip (obj (order_pool b) d)"
    using assms(2,3) ab_orders_absq [OF A] by auto
  have t: "tab_ok N M b (queued F)" using inv by (simp add: me_inv_def)
  have "cid_of b c = unat cid" "coid_of b c = unat oid" "cid_of b d = unat cid" "coid_of b d = unat oid"
    using assms(4,5) cd(3,4) by (simp_all add: has_key_def)
  then have "tab_get b (unat cid) (unat oid) = Some c" "tab_get b (unat cid) (unat oid) = Some d"
    using t cd(1,2) unfolding tab_ok_def by metis+
  then show ?thesis using cd(3,4) by simp
qed

lemma replica_cancel:
  assumes rel: "mob_rel K mb (book_view A)" and me: "me_rel N M b A"
  shows "\<exists>mb'. rfold client_apply (updates_of (snd (spec_cancel cid oid tid A))) mb = Inr mb' \<and>
     mob_rel K mb' (book_view (fst (spec_cancel cid oid tid A))) \<and> same_room mb mb'"
proof (cases "find (has_key cid oid) (ab_orders A)")
  case None
  then show ?thesis using rel by (simp add: spec_cancel_def)
next
  case (Some x)
  then have x: "x \<in> set (ab_orders A)" "has_key cid oid x" by (auto simp: find_Some_iff)
  let ?u = "\<lparr>upd_type = CANCEL, upd_order_id = ord_market_order_id x, upd_ticker_id = tid, upd_side = ord_side x,
     upd_price = ord_price x, upd_qty = 0, upd_priority = ord_priority x\<rparr>"
  have orders: "mkt_orders (book_view A) = map mkt_view (ab_orders A)" by (simp add: mkt_orders_def book_view_def ab_orders_def)
  have "mkt_ok K mb (book_view A) ?u" using x(1) orders by (auto simp: mkt_ok_def)
  then obtain mb' where m: "client_apply ?u mb = Inr mb'" "mob_rel K mb' (mkt_apply ?u (book_view A))" "same_room mb mb'"
    using client_apply_ok [OF rel] by blast
  have d: "distinct (map ord_market_order_id (ab_orders A))" using mob_rel_ids [OF rel] orders by (simp add: comp_def)
  have "ord_market_order_id y = ord_market_order_id x \<longleftrightarrow> has_key cid oid y" if "y \<in> set (ab_orders A)" for y
    using that x d me_rel_key [OF me] by (auto simp: distinct_map dest: inj_onD)
  then have "filter (\<lambda>y. ord_market_order_id y \<noteq> ord_market_order_id x) (ab_queue A s) = filter (\<lambda>y. \<not> has_key cid oid y) (ab_queue A s)"
    if "s \<in> {BUY, SELL}" for s using that by (intro filter_cong) (auto simp: ab_orders_def)
  then have "mob_rel K mb' (book_view (fst (spec_cancel cid oid tid A)))"
    by (intro mob_rel_cong [OF m(2)]) (auto simp: spec_cancel_def Some mkt_apply_def book_view_def filter_map comp_def)
  then show ?thesis using m(1,3) Some by (simp add: spec_cancel_def)
qed

lemma replica_request:
  fixes r :: MEClientRequest
  assumes "me_rel N M b A" and "mob_rel K mb (book_view A)"
    and "req_type r = Request_NEW \<Longrightarrow> req_side r \<in> {BUY, SELL} \<and> client_room K mb A (req_price r)"
  shows "\<exists>mb'. rfold client_apply (updates_of (snd (spec_request r A))) mb = Inr mb' \<and> mob_rel K mb' (book_view (fst (spec_request r A))) \<and>
     same_room mb mb'"
proof (cases "req_type r = Request_NEW")
  case True
  then have sd: "req_side r \<in> {BUY, SELL}" and room: "client_room K mb A (req_price r)" using assms(3) by auto
  have "sorted_wrt (\<lambda>x y. \<not> worse (opp (req_side r)) (ord_price x) (ord_price y)) (ab_queue A (opp (req_side r)))"
    using assms(1) opp_in [OF sd] absq_sorted by (auto simp: me_rel_def)
  from replica_add [OF assms(2) room sd this, of "req_client_id r" "req_order_id r" "req_ticker_id r" "req_qty r"]
  show ?thesis using True by (auto simp: spec_request_def simp del: insert_iff)
next
  case False
  then show ?thesis using replica_cancel [OF assms(2,1)] by (simp add: spec_request_def)
qed

text \<open>
  C10: the client's book is a replica of the exchange's.  When the exchange's book serves a new order or a
  cancel, and a client whose book showed the exchange's book before applies the market updates sent, in
  order, then the client processes all of them without an error and its book shows the exchange's book
  again: the same orders with the same identifiers, prices, priorities and remaining quantities in the
  same order, through any number of fills, and its best bid and offer are those of the exchange.
\<close>

theorem book_replicated:
  fixes r :: MEClientRequest
  assumes "me_rel N M b A" and "mob_rel K mb (book_view A)" and "req_type r \<noteq> Request_INVALID"
    and "req_type r = Request_NEW \<Longrightarrow>
       can_add N M b A (req_client_id r) (req_order_id r) (req_side r) (req_price r) \<and> client_room K mb A (req_price r)"
    and "req_type r = Request_CANCEL \<Longrightarrow> unat (req_client_id r) < N \<longrightarrow> unat (req_order_id r) < M"
  shows "\<exists>b' ev mb' A'. (if req_type r = Request_NEW
      then add (req_client_id r) (req_order_id r) (req_ticker_id r) (req_side r) (req_price r) (req_qty r) b
      else cancel (req_client_id r) (req_order_id r) (req_ticker_id r) b) = Inr (b', ev) \<and>
     rfold client_apply (updates_of ev) mb = Inr mb' \<and> me_rel N M b' A' \<and> mob_rel K mb' (book_view A')"
proof -
  obtain b' where b': "(if req_type r = Request_NEW
      then add (req_client_id r) (req_order_id r) (req_ticker_id r) (req_side r) (req_price r) (req_qty r) b
      else cancel (req_client_id r) (req_order_id r) (req_ticker_id r) b) = Inr (b', snd (spec_request r A))"
    "me_rel N M b' (fst (spec_request r A))"
    using spec_request_run [OF assms(1,3)] assms(4,5) by blast
  have "req_type r = Request_NEW \<Longrightarrow> req_side r \<in> {BUY, SELL} \<and> client_room K mb A (req_price r)"
    using assms(4) by (auto simp: can_add_def)
  from replica_request [OF assms(1,2) this] b' show ?thesis by blast
qed

text \<open>The client's book of an exchange with one offer, while a buy order takes part of the offer.\<close>

lemma offer_view:
  obtains mb where "mob_rel 8 mb (book_view offer_book)" and "client_room 8 mb offer_book 12"
proof -
  let ?mb = "MarketOrderBook_new small_limits 0"
  have e: "mob_rel 8 ?mb (book_view empty_book)"
    using mob_rel_new [of small_limits 0] by (simp add: small_limits_def book_view_def empty_book_def)
  have room: "client_room 8 ?mb empty_book 10"
    by (simp add: client_room_def empty_book_def ab_orders_def MarketOrderBook_new_def small_limits_def)
  have q: "sorted_wrt (\<lambda>x y. \<not> worse (opp SELL) (ord_price x) (ord_price y)) (ab_queue empty_book (opp SELL))"
    by (simp add: empty_book_def)
  obtain mb where mb: "rfold client_apply (updates_of (snd (spec_add 1 2 0 SELL 10 5 empty_book))) ?mb = Inr mb"
    "mob_rel 8 mb (book_view offer_book)" and room: "same_room ?mb mb"
    using replica_add [OF e room _ q, of 1 2 0 5] by (auto simp: offer_book_def)
  have "client_room 8 ?mb offer_book 12"
    by (simp add: client_room_def ab_orders_def offer_book_queues MarketOrderBook_new_def small_limits_def priceToIndex_def)
  then show ?thesis using that [OF mb(2)] room by (simp add: client_room_def same_room_def)
qed

theorem book_replicated_witness:
  "\<exists>b b' ev mb mb' A'. me_rel 4 8 b offer_book \<and> mob_rel 8 mb (book_view offer_book) \<and>
     add 3 4 0 BUY 12 3 b = Inr (b', ev) \<and> rfold client_apply (updates_of ev) mb = Inr mb' \<and>
     me_rel 4 8 b' A' \<and> mob_rel 8 mb' (book_view A')"
proof (rule offer_rel, rule offer_view)
  fix b mb
  assume b: "me_rel 4 8 b offer_book" "can_add 4 8 b offer_book 3 4 BUY 12" and mb: "mob_rel 8 mb (book_view offer_book)" "client_room 8 mb offer_book 12"
  let ?r = "\<lparr>req_type = Request_NEW, req_client_id = 3, req_ticker_id = 0, req_order_id = 4, req_side = BUY, req_price = 12, req_qty = 3\<rparr>"
  have "\<exists>b' ev mb' A'. add 3 4 0 BUY 12 3 b = Inr (b', ev) \<and> rfold client_apply (updates_of ev) mb = Inr mb' \<and>
     me_rel 4 8 b' A' \<and> mob_rel 8 mb' (book_view A')"
    using book_replicated [OF b(1) mb(1), of ?r] b(2) mb(2) by simp
  then show ?thesis using b(1) mb(1) by blast
qed

end
