(* ===== verification/Position_Keeper.thy ===== *)
theory Position_Keeper
  imports Market_Order_Book
begin

text \<open>
  \<open>Trading::PositionInfo\<close>, \<open>PositionKeeper\<close> (\<open>trading/strategy/position_keeper.h\<close>), \<open>RiskInfo\<close> and
  \<open>RiskManager\<close> (\<open>trading/strategy/risk_manager.h\<close>, \<open>risk_manager.cpp\<close>): positions, profit and loss, and
  the check before an order is sent.  The \<open>double\<close> members are real numbers, so the theorems are about
  exact arithmetic; the 32-bit position is a word read as a signed number, and a signed product or sum
  that leaves 32 bits is an error value.
\<close>

definition int32_checked :: "int \<Rightarrow> int res" where
  "int32_checked v = (if - (2 ^ 31) \<le> v \<and> v < 2 ^ 31 then Inr v else Inl SignedOverflow)"

definition abs32 :: "32 word \<Rightarrow> int res" where
  "abs32 w = int32_checked \<bar>sint w\<bar>"

section \<open>Positions\<close>

text \<open>The pointer \<open>bbo_\<close> is only printed, and is left out.\<close>

record PositionInfo =
  position :: "32 word"
  real_pnl :: real
  unreal_pnl :: real
  total_pnl :: real
  open_vwap :: "nat \<Rightarrow> real"
  volume :: Qty

text \<open>\<open>open_vwap_\<close> has no initialiser: \<open>mem\<close> is what the memory holds.\<close>

definition PositionInfo_new :: "(nat \<Rightarrow> real) \<Rightarrow> PositionInfo" where
  "PositionInfo_new mem = \<lparr>position = 0, real_pnl = 0, unreal_pnl = 0, total_pnl = 0, open_vwap = mem, volume = 0\<rparr>"

text \<open>The part of \<open>addFill()\<close> for a fill against an open position of the other sign.\<close>

definition decrease_position :: "MEClientResponse \<Rightarrow> 32 word \<Rightarrow> PositionInfo \<Rightarrow> PositionInfo res" where
  "decrease_position r old_position p =
     (let side_index = sideToIndex (rsp_side r);
          opp_side_index = sideToIndex (if rsp_side r = BUY then SELL else BUY)
      in
      rbind (abs32 old_position) (\<lambda>abs_old.
      rbind (abs32 (position p)) (\<lambda>abs_new.
      let opp_side_vwap = open_vwap p opp_side_index / real_of_int abs_old;
          p = p\<lparr>open_vwap := (open_vwap p)(opp_side_index := opp_side_vwap * real_of_int abs_new),
                real_pnl := real_pnl p + real_of_int (min (sint (rsp_exec_qty r)) abs_old) *
                  (opp_side_vwap - real_of_int (rsp_price r)) * real_of_int (sideToValue (rsp_side r))\<rparr>
      in
      rbind (int32_checked (sint (position p) * sint old_position)) (\<lambda>v.
      Inr (if v < 0 then p\<lparr>open_vwap := (open_vwap p)(side_index := real_of_int (rsp_price r * abs_new),
                                                  opp_side_index := 0)\<rparr>
           else p)))))"

text \<open>The unrealised profit of an open position at a price.\<close>

definition unreal_at :: "real \<Rightarrow> PositionInfo \<Rightarrow> real res" where
  "unreal_at price p =
     rbind (abs32 (position p)) (\<lambda>a.
      let n = real_of_int a in
      Inr (if sint (position p) > 0 then (price - open_vwap p (sideToIndex BUY) / n) * n
           else (open_vwap p (sideToIndex SELL) / n - price) * n))"

definition addFill :: "MEClientResponse \<Rightarrow> PositionInfo \<Rightarrow> PositionInfo res" where
  "addFill r p =
     (let old_position = position p;
          side_index = sideToIndex (rsp_side r);
          p = p\<lparr>position := position p + rsp_exec_qty r * of_int (sideToValue (rsp_side r)),
                volume := volume p + rsp_exec_qty r\<rparr>
      in
      rbind (int32_checked (sint old_position * sideToValue (rsp_side r))) (\<lambda>direction.
      rbind (if direction \<ge> 0 then
               Inr (p\<lparr>open_vwap := (open_vwap p)(side_index :=
                      open_vwap p side_index + real_of_int (rsp_price r * uint (rsp_exec_qty r)))\<rparr>)
             else decrease_position r old_position p) (\<lambda>p.
      rbind (if position p = 0 then
               Inr (p\<lparr>open_vwap := (open_vwap p)(sideToIndex BUY := 0, sideToIndex SELL := 0), unreal_pnl := 0\<rparr>)
             else rbind (unreal_at (real_of_int (rsp_price r)) p) (\<lambda>u. Inr (p\<lparr>unreal_pnl := u\<rparr>))) (\<lambda>p.
      Inr (p\<lparr>total_pnl := unreal_pnl p + real_pnl p\<rparr>)))))"

definition pos_updateBBO :: "BBO \<Rightarrow> PositionInfo \<Rightarrow> PositionInfo res" where
  "pos_updateBBO x p =
     (if position p \<noteq> 0 \<and> bid_price x \<noteq> Price_INVALID \<and> ask_price x \<noteq> Price_INVALID then
        let mid_price = real_of_int (bid_price x + ask_price x) * (1 / 2) in
        rbind (unreal_at mid_price p) (\<lambda>u.
        let p = p\<lparr>unreal_pnl := u\<rparr> in
        Inr (p\<lparr>total_pnl := unreal_pnl p + real_pnl p\<rparr>))
      else Inr p)"

section \<open>The position keeper\<close>

type_synonym PositionKeeper = "PositionInfo arr"

definition PositionKeeper_new :: "Limits \<Rightarrow> (nat \<Rightarrow> nat \<Rightarrow> real) \<Rightarrow> PositionKeeper" where
  "PositionKeeper_new limits mem = \<lparr>arr_size = ME_MAX_TICKERS limits, arr_get = (\<lambda>t. PositionInfo_new (mem t))\<rparr>"

definition keeper_addFill :: "MEClientResponse \<Rightarrow> PositionKeeper \<Rightarrow> PositionKeeper res" where
  "keeper_addFill r k =
     rbind (arr_at k (unat (rsp_ticker_id r))) (\<lambda>p.
     rbind (addFill r p) (\<lambda>p. arr_put (unat (rsp_ticker_id r)) p k))"

definition keeper_updateBBO :: "TickerId \<Rightarrow> BBO \<Rightarrow> PositionKeeper \<Rightarrow> PositionKeeper res" where
  "keeper_updateBBO tid x k =
     rbind (arr_at k (unat tid)) (\<lambda>p.
     rbind (pos_updateBBO x p) (\<lambda>p. arr_put (unat tid) p k))"

definition getPositionInfo :: "TickerId \<Rightarrow> PositionKeeper \<Rightarrow> PositionInfo res" where
  "getPositionInfo tid k = arr_at k (unat tid)"

section \<open>Risk checks\<close>

datatype RiskCheckResult = Risk_INVALID | ORDER_TOO_LARGE | POSITION_TOO_LARGE | LOSS_TOO_LARGE | ALLOWED

definition riskCheckResultToString :: "RiskCheckResult \<Rightarrow> string" where
  "riskCheckResultToString r =
     (case r of Risk_INVALID \<Rightarrow> ''INVALID'' | ORDER_TOO_LARGE \<Rightarrow> ''ORDER_TOO_LARGE''
      | POSITION_TOO_LARGE \<Rightarrow> ''POSITION_TOO_LARGE'' | LOSS_TOO_LARGE \<Rightarrow> ''LOSS_TOO_LARGE'' | ALLOWED \<Rightarrow> ''ALLOWED'')"

text \<open>\<open>RiskInfo::checkPreTradeRisk()\<close>; \<open>static_cast<int32_t>\<close> reads a word as a signed number.\<close>

definition risk_check :: "RiskCfg \<Rightarrow> PositionInfo \<Rightarrow> Side \<Rightarrow> Qty \<Rightarrow> RiskCheckResult res" where
  "risk_check cfg p side qty =
     (if qty > max_order_size cfg then Inr ORDER_TOO_LARGE
      else
        rbind (int32_checked (sideToValue side * sint qty)) (\<lambda>d.
        rbind (int32_checked (sint (position p) + d)) (\<lambda>v.
        rbind (int32_checked \<bar>v\<bar>) (\<lambda>v.
        if v > sint (max_position cfg) then Inr POSITION_TOO_LARGE
        else if total_pnl p < max_loss cfg then Inr LOSS_TOO_LARGE
        else Inr ALLOWED))))"

text \<open>The risk manager: a configuration per instrument; the positions are those of the position keeper.\<close>

type_synonym RiskManager = "RiskCfg arr"

definition RiskManager_new :: "Limits \<Rightarrow> TradeEngineCfg arr \<Rightarrow> RiskManager" where
  "RiskManager_new limits ticker_cfg =
     \<lparr>arr_size = ME_MAX_TICKERS limits, arr_get = (\<lambda>i. risk_cfg (arr_get ticker_cfg i))\<rparr>"

definition checkPreTradeRisk :: "RiskManager \<Rightarrow> PositionKeeper \<Rightarrow> TickerId \<Rightarrow> Side \<Rightarrow> Qty \<Rightarrow> RiskCheckResult res" where
  "checkPreTradeRisk rm k tid side qty =
     rbind (arr_at rm (unat tid)) (\<lambda>cfg.
     rbind (getPositionInfo tid k) (\<lambda>p. risk_check cfg p side qty))"

section \<open>Profit and loss\<close>

lemma sint_of_int32: "- (2 ^ 31) \<le> v \<Longrightarrow> v < 2 ^ 31 \<Longrightarrow> sint (of_int v :: 32 word) = v"
  by (simp add: signed_of_int signed_take_bit_int_eq_self)

lemma position_add:
  assumes "- (2 ^ 31) \<le> sint pos + v * uint q" and "sint pos + v * uint q < 2 ^ 31"
  shows "sint (pos + q * of_int v :: 32 word) = sint pos + v * uint q"
proof -
  have "pos + q * of_int v = (of_int (sint pos + v * uint q) :: 32 word)" by (simp add: mult.commute)
  then show ?thesis using sint_of_int32 [OF assms] by (simp only:)
qed

lemma sint_eq_0 [simp]: "sint (w :: 32 word) = 0 \<longleftrightarrow> w = 0"
  by (simp add: signed_eq_0_iff)

lemma sint_uint: "uint (q :: 32 word) < 2 ^ 31 \<Longrightarrow> sint q = uint q"
proof -
  assume "uint q < 2 ^ 31"
  moreover have "- (2 ^ 31) \<le> uint q" by (rule order_trans [of _ 0]) simp_all
  ultimately have "sint (of_int (uint q) :: 32 word) = uint q" by (intro sint_of_int32)
  then show "sint q = uint q" by simp
qed

text \<open>Below, a word is read as an integer first and as a real number from there.\<close>

declare of_int_sint [simp del] of_int_uint [simp del]

text \<open>The cash that changed hands, and the cost of the open position that the keeper remembers.\<close>

definition cash_of :: "MEClientResponse \<Rightarrow> real" where
  "cash_of r = - real_of_int (sideToValue (rsp_side r) * uint (rsp_exec_qty r) * rsp_price r)"

definition open_cost :: "PositionInfo \<Rightarrow> real" where
  "open_cost p =
     (if sint (position p) > 0 then open_vwap p (sideToIndex BUY)
      else if sint (position p) < 0 then - open_vwap p (sideToIndex SELL) else 0)"

definition pnl_inv :: "real \<Rightarrow> PositionInfo \<Rightarrow> bool" where
  "pnl_inv cash p \<longleftrightarrow>
     real_pnl p - open_cost p = cash \<and>
     (position p = 0 \<longrightarrow> open_vwap p (sideToIndex BUY) = 0 \<and> open_vwap p (sideToIndex SELL) = 0)"

text \<open>
  The largest position for which the products of two positions fit into 32 bits, and fills that stay
  below it.
\<close>

definition max_abs_position :: int where
  "max_abs_position = 46340"

definition fill_ok :: "int \<Rightarrow> MEClientResponse \<Rightarrow> bool" where
  "fill_ok pos r \<longleftrightarrow>
     rsp_side r \<in> {BUY, SELL} \<and> uint (rsp_exec_qty r) < 2 ^ 31 \<and>
     \<bar>pos\<bar> \<le> max_abs_position \<and> \<bar>pos + sideToValue (rsp_side r) * uint (rsp_exec_qty r)\<bar> \<le> max_abs_position"

lemma product_checked:
  assumes "\<bar>a\<bar> \<le> max_abs_position" and "\<bar>b\<bar> \<le> max_abs_position"
  shows "int32_checked (a * b) = Inr (a * b)"
proof -
  have "\<bar>a * b\<bar> \<le> 46340 * 46340" using mult_mono [of "\<bar>a\<bar>" 46340 "\<bar>b\<bar>" 46340] assms by (simp add: abs_mult max_abs_position_def)
  then show ?thesis by (simp add: int32_checked_def abs_le_iff)
qed

lemma abs32_ok: "\<bar>sint w\<bar> \<le> max_abs_position \<Longrightarrow> abs32 w = Inr \<bar>sint w\<bar>"
  by (simp add: abs32_def int32_checked_def max_abs_position_def)

lemma abs32_Inr: "abs32 w = Inr a \<Longrightarrow> a = \<bar>sint w\<bar>"
  by (simp add: abs32_def int32_checked_def split: if_splits)

text \<open>The realised part of a fill, before the unrealised part is computed.\<close>

definition fill_core :: "MEClientResponse \<Rightarrow> PositionInfo \<Rightarrow> PositionInfo res" where
  "fill_core r p =
     (let p' = p\<lparr>position := position p + rsp_exec_qty r * of_int (sideToValue (rsp_side r)), volume := volume p + rsp_exec_qty r\<rparr> in
      rbind (int32_checked (sint (position p) * sideToValue (rsp_side r))) (\<lambda>direction.
      if direction \<ge> 0 then
        Inr (p'\<lparr>open_vwap := (open_vwap p')(sideToIndex (rsp_side r) :=
              open_vwap p' (sideToIndex (rsp_side r)) + real_of_int (rsp_price r * uint (rsp_exec_qty r)))\<rparr>)
      else decrease_position r (position p) p'))"

lemma addFill_core:
  "addFill r p = rbind (fill_core r p) (\<lambda>p.
     rbind (if position p = 0 then
              Inr (p\<lparr>open_vwap := (open_vwap p)(sideToIndex BUY := 0, sideToIndex SELL := 0), unreal_pnl := 0\<rparr>)
            else rbind (unreal_at (real_of_int (rsp_price r)) p) (\<lambda>u. Inr (p\<lparr>unreal_pnl := u\<rparr>))) (\<lambda>p.
     Inr (p\<lparr>total_pnl := unreal_pnl p + real_pnl p\<rparr>)))"
  by (simp add: addFill_def fill_core_def Let_def rbind_assoc)

text \<open>
  A fill against the open position, with \<open>w\<close> the average price of the position: what is closed turns into
  realised profit, and what remains or is reversed keeps its cost.
\<close>

lemma decrease_pnl:
  assumes side: "rsp_side r = BUY \<and> a < 0 \<and> a \<le> m \<or> rsp_side r = SELL \<and> 0 < a \<and> m \<le> a"
    and old: "sint old_position = a" and new: "sint (position p) = m"
    and bnd: "\<bar>a\<bar> \<le> max_abs_position" "\<bar>m\<bar> \<le> max_abs_position"
    and n: "sint (rsp_exec_qty r) = sideToValue (rsp_side r) * (m - a)" 
    and w: "open_vwap p (sideToIndex (if rsp_side r = BUY then SELL else BUY)) = w * real_of_int \<bar>a\<bar>"
  shows "\<exists>p'. decrease_position r old_position p = Inr p' \<and> position p' = position p \<and>
     real_pnl p' - open_cost p' = real_pnl p - w * real_of_int a - real_of_int (m - a) * real_of_int (rsp_price r)"
proof -
  note chk = product_checked [OF bnd(2,1)]
  have abs: "abs32 old_position = Inr \<bar>a\<bar>" "abs32 (position p) = Inr \<bar>m\<bar>"
    using abs32_ok [of old_position] abs32_ok [of "position p"] bnd old new by simp_all
  have "m < 0 \<or> m = 0 \<or> m > 0" by linarith
  then show ?thesis using side
  proof (elim disjE conjE)
  qed (use chk w in
      \<open>auto simp: abs old new n decrease_position_def Let_def open_cost_def mult_less_0_iff min_def
        diff_divide_distrib algebra_simps\<close>)
qed

lemma fill_core_pnl:
  assumes inv: "pnl_inv cash p" and ok: "fill_ok (sint (position p)) r"
  shows "\<exists>p'. fill_core r p = Inr p' \<and> sint (position p') = sint (position p) + sideToValue (rsp_side r) * uint (rsp_exec_qty r) \<and>
     real_pnl p' - open_cost p' = cash + cash_of r"
proof -
  let ?q = "uint (rsp_exec_qty r)" and ?v = "sideToValue (rsp_side r)" and ?o = "sint (position p)"
  obtain n where n: "?q = n" "0 \<le> n" by simp
  let ?P = "position p + rsp_exec_qty r * of_int ?v"
  have s: "rsp_side r = BUY \<or> rsp_side r = SELL" and q: "0 \<le> ?q" "?q < 2 ^ 31" "sint (rsp_exec_qty r) = ?q"
    using ok sint_uint by (auto simp: fill_ok_def)
  have b: "\<bar>?o\<bar> \<le> max_abs_position" "\<bar>?o + ?v * ?q\<bar> \<le> max_abs_position" using ok by (auto simp: fill_ok_def)
  have pos: "sint ?P = ?o + ?v * ?q" using b(2) by (intro position_add) (auto simp: max_abs_position_def)
  have dir: "int32_checked (?o * ?v) = Inr (?o * ?v)"
    using b(1) s by (auto simp: int32_checked_def max_abs_position_def)
  have c: "real_pnl p - open_cost p = cash" "?o = 0 \<Longrightarrow> open_vwap p (sideToIndex BUY) = 0 \<and> open_vwap p (sideToIndex SELL) = 0"
    using inv by (auto simp: pnl_inv_def)
  show ?thesis
  proof (cases "?o * ?v \<ge> 0")
    case True
    let ?p1 = "p\<lparr>position := ?P, volume := volume p + rsp_exec_qty r,
      open_vwap := (open_vwap p)(sideToIndex (rsp_side r) := open_vwap p (sideToIndex (rsp_side r)) + real_of_int (rsp_price r * ?q))\<rparr>"
    have "fill_core r p = Inr ?p1" using True by (simp add: fill_core_def Let_def dir)
    moreover have "real_pnl ?p1 - open_cost ?p1 = cash + cash_of r"
      using True s pos c n(2)
      by (auto simp: n(1) open_cost_def cash_of_def mult_le_0_iff zero_le_mult_iff algebra_simps)
    ultimately show ?thesis using pos by auto
  next
    case False
    let ?p1 = "p\<lparr>position := ?P, volume := volume p + rsp_exec_qty r\<rparr>"
      and ?w = "open_vwap p (sideToIndex (if rsp_side r = BUY then SELL else BUY)) / real_of_int \<bar>?o\<bar>"
    have core: "fill_core r p = decrease_position r (position p) ?p1"
      using False by (simp add: fill_core_def Let_def dir)
    have side: "rsp_side r = BUY \<and> ?o < 0 \<and> ?o \<le> ?o + ?v * ?q \<or> rsp_side r = SELL \<and> 0 < ?o \<and> ?o + ?v * ?q \<le> ?o"
      using s False n by (auto simp: not_le)
    have n': "sint (rsp_exec_qty r) = ?v * (?o + ?v * ?q - ?o)" using s q(3) by auto
    obtain p' where p': "decrease_position r (position p) ?p1 = Inr p'" "position p' = ?P"
      "real_pnl p' - open_cost p' = real_pnl p - ?w * real_of_int ?o - real_of_int (?o + ?v * ?q - ?o) * real_of_int (rsp_price r)"
    proof -
      have "sint (position ?p1) = ?o + ?v * ?q" using pos by simp
      moreover have "open_vwap ?p1 (sideToIndex (if rsp_side r = BUY then SELL else BUY)) = ?w * real_of_int \<bar>?o\<bar>"
        using side by auto
      ultimately show ?thesis using decrease_pnl [OF side refl _ b n', of ?p1 ?w] that by fastforce
    qed
    moreover have "?w * real_of_int ?o = open_cost p" using side by (auto simp: open_cost_def)
    ultimately have "real_pnl p' - open_cost p' = cash + cash_of r" using c(1) by (simp add: cash_of_def)
    then show ?thesis using core p'(1,2) pos by auto
  qed
qed

lemma unreal_open_cost:
  assumes "position p \<noteq> 0" and "\<bar>sint (position p)\<bar> \<le> max_abs_position"
  shows "unreal_at x p = Inr (x * real_of_int (sint (position p)) - open_cost p)"
proof -
  have "sint (position p) \<noteq> 0" using assms(1) by simp
  then show ?thesis using abs32_ok [OF assms(2)] by (auto simp: unreal_at_def open_cost_def Let_def field_simps)
qed

lemma addFill_pnl:
  assumes inv: "pnl_inv cash p" and ok: "fill_ok (sint (position p)) r"
  shows "\<exists>p'. addFill r p = Inr p' \<and> sint (position p') = sint (position p) + sideToValue (rsp_side r) * uint (rsp_exec_qty r) \<and>
     pnl_inv (cash + cash_of r) p' \<and>
     total_pnl p' = cash + cash_of r + real_of_int (sint (position p')) * real_of_int (rsp_price r)"
proof -
  obtain p1 where p1: "fill_core r p = Inr p1" "sint (position p1) = sint (position p) + sideToValue (rsp_side r) * uint (rsp_exec_qty r)"
    "real_pnl p1 - open_cost p1 = cash + cash_of r" using fill_core_pnl [OF assms] by blast
  show ?thesis
  proof (cases "position p1 = 0")
    case True
    then have "sint (position p1) = 0" "open_cost p1 = 0" by (simp_all add: open_cost_def)
    then show ?thesis using p1 True by (simp add: addFill_core Let_def pnl_inv_def open_cost_def)
  next
    case False
    have "\<bar>sint (position p1)\<bar> \<le> max_abs_position" using p1(2) ok by (simp add: fill_ok_def)
    then show ?thesis using p1 False unreal_open_cost [OF False, of "real_of_int (rsp_price r)"]
      by (simp add: addFill_core Let_def pnl_inv_def open_cost_def algebra_simps)
  qed
qed

fun fills_ok :: "int \<Rightarrow> MEClientResponse list \<Rightarrow> bool" where
  "fills_ok pos [] = True"
| "fills_ok pos (r # rs) = (fill_ok pos r \<and> fills_ok (pos + sideToValue (rsp_side r) * uint (rsp_exec_qty r)) rs)"

definition net_position :: "MEClientResponse list \<Rightarrow> int" where
  "net_position rs = sum_list (map (\<lambda>r. sideToValue (rsp_side r) * uint (rsp_exec_qty r)) rs)"

lemma fills_pnl:
  assumes "pnl_inv cash p" and "fills_ok (sint (position p)) rs"
  shows "\<exists>p'. rfold addFill rs p = Inr p' \<and> pnl_inv (cash + sum_list (map cash_of rs)) p' \<and>
     sint (position p') = sint (position p) + net_position rs \<and>
     (rs \<noteq> [] \<longrightarrow> total_pnl p' = cash + sum_list (map cash_of rs) + real_of_int (sint (position p')) * real_of_int (rsp_price (last rs)))"
  using assms
proof (induction rs arbitrary: cash p)
  case (Cons r rs)
  obtain p1 where p1: "addFill r p = Inr p1" "sint (position p1) = sint (position p) + sideToValue (rsp_side r) * uint (rsp_exec_qty r)"
    "pnl_inv (cash + cash_of r) p1" "total_pnl p1 = cash + cash_of r + real_of_int (sint (position p1)) * real_of_int (rsp_price r)"
    using addFill_pnl [OF Cons.prems(1), of r] Cons.prems(2) by (meson fills_ok.simps(2))
  show ?case using Cons.IH [OF p1(3)] Cons.prems(2) p1 by (cases rs) (auto simp: net_position_def add.assoc)
qed (simp add: net_position_def)


definition a_fill :: "Side \<Rightarrow> Price \<Rightarrow> Qty \<Rightarrow> MEClientResponse" where
  "a_fill side price qty = \<lparr>rsp_type = FILLED, rsp_client_id = 1, rsp_ticker_id = 0, rsp_client_order_id = 1,
     rsp_market_order_id = 1, rsp_side = side, rsp_price = price, rsp_exec_qty = qty, rsp_leaves_qty = 0\<rparr>"


text \<open>
  the product of the old and the new position is computed in 32 bits.  For a long position of
  50000 a sale of one leads to a signed overflow, which is undefined.
\<close>

theorem large_position_overflow:
  "addFill (a_fill SELL 90 1) ((PositionInfo_new (\<lambda>_. 0))\<lparr>position := 50000\<rparr>) = Inl SignedOverflow"
proof -
  have "sint (50000 :: 32 word) = 50000" "sint (49999 :: 32 word) = 49999" by simp_all
  then show ?thesis
    by (simp add: addFill_core fill_core_def Let_def a_fill_def PositionInfo_new_def decrease_position_def abs32_def int32_checked_def)
qed

section \<open>What the risk check guarantees\<close>

lemma decrease_position_keeps: "decrease_position r old_position p = Inr p' \<Longrightarrow> position p' = position p"
  by (simp add: decrease_position_def Let_def rbind_eq_Inr_iff) (auto split: if_splits)

lemma fill_core_position:
  assumes "fill_core r p = Inr p'"
  shows "position p' = position p + rsp_exec_qty r * of_int (sideToValue (rsp_side r))"
proof (cases "int32_checked (sint (position p) * sideToValue (rsp_side r))")
  case (Inr d)
  then show ?thesis using assms by (cases "0 \<le> d") (auto simp: fill_core_def Let_def dest: decrease_position_keeps)
qed (use assms in \<open>simp add: fill_core_def Let_def\<close>)

lemma addFill_position:
  assumes "addFill r p = Inr p'"
  shows "position p' = position p + rsp_exec_qty r * of_int (sideToValue (rsp_side r))"
proof (cases "fill_core r p")
  case (Inr p1)
  then have "position p' = position p1"
    using assms by (cases "position p1 = 0") (auto simp: addFill_core rbind_eq_Inr_iff)
  then show ?thesis using fill_core_position [OF Inr] by simp
qed (use assms in \<open>simp add: addFill_core\<close>)

text \<open>
  an allowed order cannot break the limits.  When the check allows an order, its size is within
  the configured maximum, the loss limit has not been reached, and if the order is then filled, in
  part or completely, the position stays within the configured bound or the bound it had before.
\<close>

theorem allowed_order_respects_limits:
  assumes "risk_check cfg p side qty = Inr ALLOWED" and "side \<in> {BUY, SELL}" and "rsp_side r = side"
    and "rsp_exec_qty r \<le> qty" and "uint (max_order_size cfg) < 2 ^ 31" and "addFill r p = Inr p'"
  shows "qty \<le> max_order_size cfg \<and> total_pnl p \<ge> max_loss cfg \<and>
     \<bar>sint (position p')\<bar> \<le> max \<bar>sint (position p)\<bar> (sint (max_position cfg))"
proof -
  let ?v = "sideToValue side"
  have le: "\<not> qty > max_order_size cfg" using assms(1) by (auto simp: risk_check_def)
  then have qm: "uint qty \<le> uint (max_order_size cfg)" by (simp add: word_less_def)
  then have q: "sint qty = uint qty" using assms(5) by (intro sint_uint) simp
  have e: "uint (rsp_exec_qty r) \<le> uint qty" "0 \<le> uint (rsp_exec_qty r)" using assms(4) by (simp_all add: word_le_def)
  have bound: "\<bar>x\<bar> \<le> max \<bar>u\<bar> b" if "\<bar>y\<bar> \<le> b" and "u \<le> x \<and> x \<le> y \<or> y \<le> x \<and> x \<le> u" for u x y b :: int
    using that by (auto simp: abs_le_iff)
  have a: "\<not> total_pnl p < max_loss cfg" "\<bar>sint (position p) + ?v * uint qty\<bar> \<le> sint (max_position cfg)"
    "- (2 ^ 31) \<le> sint (position p) + ?v * uint qty" "sint (position p) + ?v * uint qty < 2 ^ 31"
    using assms(1) le q by (auto simp: risk_check_def int32_checked_def rbind_eq_Inr_iff split: if_splits)
  have po: "- (2 ^ 31) \<le> sint (position p)" "sint (position p) < 2 ^ 31"
    using sint_greater_eq [of "position p"] sint_less [of "position p"] by simp_all
  have "position p' = position p + rsp_exec_qty r * of_int (sideToValue (rsp_side r))"
    using addFill_position [OF assms(6)] .
  moreover have "sint (position p + rsp_exec_qty r * of_int ?v) = sint (position p) + ?v * uint (rsp_exec_qty r)"
    using a(3,4) po e(1) assms(2) uint_ge_0 [of "rsp_exec_qty r"] by (intro position_add; elim insertE emptyE; hypsubst; unfold sideToValue_simps; linarith)
  ultimately have "sint (position p') = sint (position p) + ?v * uint (rsp_exec_qty r)" using assms(3) by simp
  moreover have "\<bar>sint (position p) + ?v * uint (rsp_exec_qty r)\<bar> \<le> max \<bar>sint (position p)\<bar> (sint (max_position cfg))"
    by (rule bound [OF a(2)]) (use e assms(2) in auto)
  ultimately show ?thesis using le a(1) by auto
qed

definition a_risk_cfg :: RiskCfg where
  "a_risk_cfg = \<lparr>max_order_size = 10, max_position = 20, max_loss = - 100\<rparr>"

theorem allowed_order_respects_limits_witness:
  "\<exists>p'. addFill (a_fill BUY 100 4) (PositionInfo_new (\<lambda>_. 0)) = Inr p' \<and>
     risk_check a_risk_cfg (PositionInfo_new (\<lambda>_. 0)) BUY 5 = Inr ALLOWED \<and> \<bar>sint (position p')\<bar> \<le> 20"
proof -
  let ?p = "PositionInfo_new (\<lambda>_. 0)"
  have r: "risk_check a_risk_cfg ?p BUY 5 = Inr ALLOWED"
    by (simp add: risk_check_def a_risk_cfg_def PositionInfo_new_def int32_checked_def)
  have "pnl_inv 0 ?p" "fill_ok (sint (position ?p)) (a_fill BUY 100 4)"
    by (simp_all add: pnl_inv_def PositionInfo_new_def open_cost_def fill_ok_def a_fill_def max_abs_position_def)
  then obtain p' where p': "addFill (a_fill BUY 100 4) ?p = Inr p'" using addFill_pnl by blast
  show ?thesis using allowed_order_respects_limits [OF r, of "a_fill BUY 100 4" p'] p' r
    by (simp add: a_fill_def a_risk_cfg_def PositionInfo_new_def)
qed

end
