(* ===== verification/Order_Manager.thy ===== *)
theory Order_Manager
  imports Position_Keeper
begin

text \<open>
  \<open>Trading::OMOrder\<close> (\<open>trading/strategy/om_order.h\<close>) and \<open>OrderManager\<close> (\<open>trading/strategy/order_manager.h\<close>,
  \<open>order_manager.cpp\<close>): one order per instrument and side, moved to the price the strategy asks for.  A
  pointer to an order is the instrument and the side of its slot.  The operations return the client
  requests they hand to the trade engine, in order.
\<close>

section \<open>Orders\<close>

datatype OMOrderState = OM_INVALID | PENDING_NEW | LIVE | PENDING_CANCEL | DEAD

definition OMOrderStateToString :: "OMOrderState \<Rightarrow> string" where
  "OMOrderStateToString s =
     (case s of PENDING_NEW \<Rightarrow> ''PENDING_NEW'' | LIVE \<Rightarrow> ''LIVE'' | PENDING_CANCEL \<Rightarrow> ''PENDING_CANCEL''
      | DEAD \<Rightarrow> ''DEAD'' | OM_INVALID \<Rightarrow> ''INVALID'')"

record OMOrder =
  om_ticker_id :: TickerId
  om_order_id :: OrderId
  om_side :: Side
  om_price :: Price
  om_qty :: Qty
  om_state :: OMOrderState

definition OMOrder_default :: OMOrder where
  "OMOrder_default = \<lparr>om_ticker_id = TickerId_INVALID, om_order_id = OrderId_INVALID, om_side = Side_INVALID,
     om_price = Price_INVALID, om_qty = Qty_INVALID, om_state = OM_INVALID\<rparr>"

section \<open>The order manager\<close>

record OrderManager =
  ticker_side_order :: "OMOrder arr arr"
  next_order_id :: OrderId

definition OrderManager_new :: "Limits \<Rightarrow> OrderManager" where
  "OrderManager_new limits =
     \<lparr>ticker_side_order = arr_fill (ME_MAX_TICKERS limits) (arr_fill (sideToIndex Side_MAX + 1) OMOrder_default),
      next_order_id = 1\<rparr>"

type_synonym om_ptr = "TickerId \<times> Side"

definition om_get :: "om_ptr \<Rightarrow> OrderManager \<Rightarrow> OMOrder res" where
  "om_get q om = rbind (arr_at (ticker_side_order om) (unat (fst q))) (\<lambda>sides. arr_at sides (sideToIndex (snd q)))"

definition om_put :: "om_ptr \<Rightarrow> OMOrder \<Rightarrow> OrderManager \<Rightarrow> OrderManager res" where
  "om_put q ord om =
     rbind (arr_at (ticker_side_order om) (unat (fst q))) (\<lambda>sides.
     rbind (arr_put (sideToIndex (snd q)) ord sides) (\<lambda>sides.
     rbind (arr_put (unat (fst q)) sides (ticker_side_order om)) (\<lambda>t. Inr (om\<lparr>ticker_side_order := t\<rparr>))))"

definition order_after :: "MEClientResponse \<Rightarrow> OMOrder \<Rightarrow> OMOrder" where
  "order_after r ord =
     (case rsp_type r of
        ACCEPTED \<Rightarrow> ord\<lparr>om_state := LIVE\<rparr>
      | CANCELED \<Rightarrow> ord\<lparr>om_state := DEAD\<rparr>
      | FILLED \<Rightarrow>
          (let ord = ord\<lparr>om_qty := rsp_leaves_qty r\<rparr> in if om_qty ord = 0 then ord\<lparr>om_state := DEAD\<rparr> else ord)
      | CANCEL_REJECTED \<Rightarrow> ord
      | Response_INVALID \<Rightarrow> ord)"

definition onOrderUpdate :: "MEClientResponse \<Rightarrow> OrderManager \<Rightarrow> OrderManager res" where
  "onOrderUpdate r om =
     (let q = (rsp_ticker_id r, rsp_side r) in
      rbind (om_get q om) (\<lambda>ord. om_put q (order_after r ord) om))"

definition newOrder ::
  "ClientId \<Rightarrow> om_ptr \<Rightarrow> TickerId \<Rightarrow> Price \<Rightarrow> Side \<Rightarrow> Qty \<Rightarrow> OrderManager \<Rightarrow> (OrderManager \<times> MEClientRequest list) res" where
  "newOrder cid q tid price side qty om =
     (let new_request = \<lparr>req_type = Request_NEW, req_client_id = cid, req_ticker_id = tid, req_order_id = next_order_id om,
            req_side = side, req_price = price, req_qty = qty\<rparr>;
          ord = \<lparr>om_ticker_id = tid, om_order_id = next_order_id om, om_side = side, om_price = price, om_qty = qty,
            om_state = PENDING_NEW\<rparr>
      in
      rbind (om_put q ord om) (\<lambda>om. Inr (om\<lparr>next_order_id := next_order_id om + 1\<rparr>, [new_request])))"

definition cancelOrder :: "ClientId \<Rightarrow> om_ptr \<Rightarrow> OrderManager \<Rightarrow> (OrderManager \<times> MEClientRequest list) res" where
  "cancelOrder cid q om =
     rbind (om_get q om) (\<lambda>ord.
      let cancel_request = \<lparr>req_type = Request_CANCEL, req_client_id = cid, req_ticker_id = om_ticker_id ord,
            req_order_id = om_order_id ord, req_side = om_side ord, req_price = om_price ord, req_qty = om_qty ord\<rparr>
      in
      rbind (om_put q (ord\<lparr>om_state := PENDING_CANCEL\<rparr>) om) (\<lambda>om. Inr (om, [cancel_request])))"

text \<open>\<open>check\<close> is the risk manager's \<open>checkPreTradeRisk()\<close>.\<close>

definition moveOrder ::
  "(TickerId \<Rightarrow> Side \<Rightarrow> Qty \<Rightarrow> RiskCheckResult res) \<Rightarrow> ClientId \<Rightarrow> om_ptr \<Rightarrow> TickerId \<Rightarrow> Price \<Rightarrow> Side \<Rightarrow> Qty \<Rightarrow>
   OrderManager \<Rightarrow> (OrderManager \<times> MEClientRequest list) res" where
  "moveOrder check cid q tid price side qty om =
     rbind (om_get q om) (\<lambda>ord.
     if om_state ord = LIVE then
       if om_price ord \<noteq> price then cancelOrder cid q om else Inr (om, [])
     else if om_state ord = OM_INVALID \<or> om_state ord = DEAD then
       if price \<noteq> Price_INVALID then
         rbind (check tid side qty) (\<lambda>risk_result.
         if risk_result = ALLOWED then newOrder cid q tid price side qty om else Inr (om, []))
       else Inr (om, [])
     else Inr (om, []))"

definition moveOrders ::
  "(TickerId \<Rightarrow> Side \<Rightarrow> Qty \<Rightarrow> RiskCheckResult res) \<Rightarrow> ClientId \<Rightarrow> TickerId \<Rightarrow> Price \<Rightarrow> Price \<Rightarrow> Qty \<Rightarrow>
   OrderManager \<Rightarrow> (OrderManager \<times> MEClientRequest list) res" where
  "moveOrders check cid tid bid ask qty om =
     rbind (moveOrder check cid (tid, BUY) tid bid BUY qty om) (\<lambda>(om, bids).
     rbind (moveOrder check cid (tid, SELL) tid ask SELL qty om) (\<lambda>(om, asks).
     Inr (om, bids @ asks)))"

definition getOMOrderSideHashMap :: "TickerId \<Rightarrow> OrderManager \<Rightarrow> OMOrder arr res" where
  "getOMOrderSideHashMap tid om = arr_at (ticker_side_order om) (unat tid)"

section \<open>Slots\<close>

text \<open>The shape of the table, the order of a slot, and the table with one slot replaced.\<close>

definition om_shape :: "nat \<Rightarrow> OrderManager \<Rightarrow> bool" where
  "om_shape n om \<longleftrightarrow> arr_size (ticker_side_order om) = n \<and>
     (\<forall>t<n. arr_size (arr_get (ticker_side_order om) t) = sideToIndex Side_MAX + 1)"

definition slot :: "OrderManager \<Rightarrow> nat \<Rightarrow> Side \<Rightarrow> OMOrder" where
  "slot om t s = arr_get (arr_get (ticker_side_order om) t) (sideToIndex s)"

lemma om_get_slot: "om_shape n om \<Longrightarrow> unat (fst q) < n \<Longrightarrow> om_get q om = Inr (slot om (unat (fst q)) (snd q))"
  using sideToIndex_bound [of "snd q"] by (simp add: om_get_def om_shape_def slot_def)

lemma om_put_slot:
  assumes "om_shape n om" and "unat (fst q) < n"
  shows "\<exists>om'. om_put q ord om = Inr om' \<and> om_shape n om' \<and> next_order_id om' = next_order_id om \<and>
     (\<forall>t s. slot om' t s = (if t = unat (fst q) \<and> s = snd q then ord else slot om t s))"
  using assms sideToIndex_bound [of "snd q"]
  by (auto simp: om_put_def om_shape_def slot_def sideToIndex_inject)

lemma OrderManager_new_shape:
  "om_shape (ME_MAX_TICKERS limits) (OrderManager_new limits)" "slot (OrderManager_new limits) t s = OMOrder_default"
  by (simp_all add: OrderManager_new_def om_shape_def slot_def)

section \<open>Exposure\<close>

text \<open>
  What an order can still trade, from the point of view of the client, and the bound on the position
  that results if everything outstanding on one side trades.
\<close>

definition out_qty :: "OMOrder \<Rightarrow> int" where
  "out_qty ord = (if om_state ord \<in> {PENDING_NEW, LIVE, PENDING_CANCEL} then uint (om_qty ord) else 0)"

definition exposure_ok :: "int \<Rightarrow> int \<Rightarrow> OMOrder \<Rightarrow> OMOrder \<Rightarrow> bool" where
  "exposure_ok bound pos bid ask \<longleftrightarrow> pos + out_qty bid \<le> bound \<and> - bound \<le> pos - out_qty ask"

text \<open>The responses an exchange sends for the order of a slot.\<close>

definition expected_response :: "OMOrder \<Rightarrow> MEClientResponse \<Rightarrow> bool" where
  "expected_response ord r \<longleftrightarrow>
     (case rsp_type r of
        ACCEPTED \<Rightarrow> om_state ord = PENDING_NEW
      | CANCELED \<Rightarrow> om_state ord = PENDING_CANCEL
      | FILLED \<Rightarrow> om_state ord \<in> {LIVE, PENDING_CANCEL} \<and> rsp_side r \<in> {BUY, SELL} \<and>
                  uint (rsp_exec_qty r) + uint (rsp_leaves_qty r) = uint (om_qty ord)
      | CANCEL_REJECTED \<Rightarrow> True
      | Response_INVALID \<Rightarrow> True)"

lemma out_qty_nonneg: "0 \<le> out_qty ord"
  by (simp add: out_qty_def)

lemma exposure_position: "exposure_ok bound pos bid ask \<Longrightarrow> \<bar>pos\<bar> \<le> bound"
  using out_qty_nonneg [of bid] out_qty_nonneg [of ask] unfolding exposure_ok_def by linarith

lemma out_qty_filled:
  assumes "expected_response ord r" and "rsp_type r = FILLED"
  shows "out_qty (order_after r ord) = out_qty ord - uint (rsp_exec_qty r)"
proof -
  have s: "om_state ord = LIVE \<or> om_state ord = PENDING_CANCEL"
    and q: "uint (rsp_exec_qty r) + uint (rsp_leaves_qty r) = uint (om_qty ord)"
    using assms by (simp_all add: expected_response_def)
  have "out_qty (order_after r ord) = uint (rsp_leaves_qty r)"
    using s assms(2) by (auto simp: order_after_def out_qty_def Let_def)
  moreover have "out_qty ord = uint (om_qty ord)" using s by (auto simp: out_qty_def)
  ultimately show ?thesis using q by simp
qed

lemma out_qty_after:
  assumes "expected_response ord r"
  shows "out_qty (order_after r ord) \<le> out_qty ord"
proof (cases "rsp_type r = FILLED")
  case True
  then show ?thesis using out_qty_filled [OF assms True] by simp
next
  case False
  then show ?thesis using assms
    by (cases "rsp_type r") (simp_all add: expected_response_def order_after_def out_qty_def)
qed

text \<open>What moving an order does to its slot: nothing, a cancel of a live order, or a new order that was allowed.\<close>

definition pending_order :: "TickerId \<Rightarrow> OrderId \<Rightarrow> Side \<Rightarrow> Price \<Rightarrow> Qty \<Rightarrow> OMOrder" where
  "pending_order tid oid side price qty = \<lparr>om_ticker_id = tid, om_order_id = oid, om_side = side, om_price = price,
     om_qty = qty, om_state = PENDING_NEW\<rparr>"

definition moved_slot :: "RiskCheckResult \<Rightarrow> TickerId \<Rightarrow> OrderId \<Rightarrow> Price \<Rightarrow> Side \<Rightarrow> Qty \<Rightarrow> OMOrder \<Rightarrow> OMOrder" where
  "moved_slot rr tid oid price side qty ord =
     (if om_state ord = LIVE \<and> om_price ord \<noteq> price then ord\<lparr>om_state := PENDING_CANCEL\<rparr>
      else if (om_state ord = OM_INVALID \<or> om_state ord = DEAD) \<and> price \<noteq> Price_INVALID \<and> rr = ALLOWED
      then pending_order tid oid side price qty
      else ord)"

definition moved_requests ::
  "RiskCheckResult \<Rightarrow> ClientId \<Rightarrow> TickerId \<Rightarrow> OrderId \<Rightarrow> Price \<Rightarrow> Side \<Rightarrow> Qty \<Rightarrow> OMOrder \<Rightarrow> MEClientRequest list" where
  "moved_requests rr cid tid oid price side qty ord =
     (if om_state ord = LIVE \<and> om_price ord \<noteq> price then
        [\<lparr>req_type = Request_CANCEL, req_client_id = cid, req_ticker_id = om_ticker_id ord, req_order_id = om_order_id ord,
          req_side = om_side ord, req_price = om_price ord, req_qty = om_qty ord\<rparr>]
      else if (om_state ord = OM_INVALID \<or> om_state ord = DEAD) \<and> price \<noteq> Price_INVALID \<and> rr = ALLOWED
      then [\<lparr>req_type = Request_NEW, req_client_id = cid, req_ticker_id = tid, req_order_id = oid, req_side = side,
             req_price = price, req_qty = qty\<rparr>]
      else [])"

definition new_count :: "MEClientRequest list \<Rightarrow> nat" where
  "new_count reqs = length (filter (\<lambda>r. req_type r = Request_NEW) reqs)"

lemma moveOrder_slot:
  assumes sh: "om_shape n om" and t: "unat tid < n" and chk: "check tid side qty = Inr rr"
  shows "\<exists>om' reqs. moveOrder check cid (tid, side) tid price side qty om = Inr (om', reqs) \<and> om_shape n om' \<and>
     reqs = moved_requests rr cid tid (next_order_id om) price side qty (slot om (unat tid) side) \<and>
     next_order_id om' = next_order_id om + of_nat (new_count reqs) \<and>
     (\<forall>t s. slot om' t s = (if t = unat tid \<and> s = side then moved_slot rr tid (next_order_id om) price side qty (slot om t s) else slot om t s))"
proof -
  let ?q = "(tid, side)" and ?ord = "slot om (unat tid) side"
  have get: "om_get ?q om = Inr ?ord" using om_get_slot [OF sh, of ?q] t by simp
  have put: "\<exists>om'. om_put ?q ord om = Inr om' \<and> om_shape n om' \<and> next_order_id om' = next_order_id om \<and>
     (\<forall>t s. slot om' t s = (if t = unat tid \<and> s = side then ord else slot om t s))" for ord
    using om_put_slot [OF sh, of ?q ord] t by simp
  obtain om1 where om1: "om_put ?q (?ord\<lparr>om_state := PENDING_CANCEL\<rparr>) om = Inr om1" "om_shape n om1" "next_order_id om1 = next_order_id om"
    "\<forall>t s. slot om1 t s = (if t = unat tid \<and> s = side then ?ord\<lparr>om_state := PENDING_CANCEL\<rparr> else slot om t s)"
    using put by blast
  obtain om2 where om2: "om_put ?q (pending_order tid (next_order_id om) side price qty) om = Inr om2" "om_shape n om2"
    "next_order_id om2 = next_order_id om"
    "\<forall>t s. slot om2 t s = (if t = unat tid \<and> s = side then pending_order tid (next_order_id om) side price qty else slot om t s)"
    using put by blast
  have sh3: "om_shape n (om2\<lparr>next_order_id := next_order_id om + 1\<rparr>)"
    "slot (om2\<lparr>next_order_id := next_order_id om + 1\<rparr>) t s = slot om2 t s" for t s
    using om2(2) by (simp_all add: om_shape_def slot_def)
  note defs = moveOrder_def moved_requests_def moved_slot_def new_count_def get
  show ?thesis
  proof (cases "om_state ?ord = LIVE \<and> om_price ?ord \<noteq> price")
    case True
    then show ?thesis using om1 by (auto simp: defs cancelOrder_def)
  next
    case False
    show ?thesis
    proof (cases "(om_state ?ord = OM_INVALID \<or> om_state ?ord = DEAD) \<and> price \<noteq> Price_INVALID \<and> rr = ALLOWED")
      case True
      then show ?thesis using om2 sh3 chk by (auto simp: defs newOrder_def Let_def pending_order_def [symmetric])
    next
      case no: False
      then have "moveOrder check cid ?q tid price side qty om = Inr (om, [])"
        using False chk by (cases "om_state ?ord") (auto simp: defs)
      then show ?thesis using sh False no by (auto simp: moved_requests_def moved_slot_def new_count_def)
    qed
  qed
qed

lemma moveOrder_exposure:
  assumes sh: "om_shape n om" and t: "unat tid < n" and side: "side \<in> {BUY, SELL}" and chk: "check tid side qty = Inr rr"
    and safe: "rr = ALLOWED \<Longrightarrow> \<bar>pos + sideToValue side * uint qty\<bar> \<le> bound"
    and ex: "exposure_ok bound pos (slot om (unat tid) BUY) (slot om (unat tid) SELL)"
  shows "\<exists>om' reqs. moveOrder check cid (tid, side) tid price side qty om = Inr (om', reqs) \<and> om_shape n om' \<and>
     exposure_ok bound pos (slot om' (unat tid) BUY) (slot om' (unat tid) SELL) \<and>
     (\<forall>t s. t \<noteq> unat tid \<longrightarrow> slot om' t s = slot om t s)"
proof -
  let ?ord = "slot om (unat tid) side"
  let ?new = "moved_slot rr tid (next_order_id om) price side qty ?ord"
  obtain om' reqs where m: "moveOrder check cid (tid, side) tid price side qty om = Inr (om', reqs)" "om_shape n om'"
    "\<forall>t s. slot om' t s = (if t = unat tid \<and> s = side then moved_slot rr tid (next_order_id om) price side qty (slot om t s) else slot om t s)"
    using moveOrder_slot [OF sh t, of check side qty rr cid price] chk by blast
  have "out_qty ?new \<le> out_qty ?ord \<or> out_qty ?new = uint qty \<and> rr = ALLOWED"
    by (auto simp: moved_slot_def out_qty_def pending_order_def)
  then have "exposure_ok bound pos (slot om' (unat tid) BUY) (slot om' (unat tid) SELL)"
    using m(3) ex safe side by (auto simp: exposure_ok_def)
  then show ?thesis using m by auto
qed

lemma moveOrders_exposure:
  assumes sh: "om_shape n om" and t: "unat tid < n" and chk: "check tid BUY qty = Inr bb" "check tid SELL qty = Inr ss"
    and safe: "bb = ALLOWED \<Longrightarrow> \<bar>pos + uint qty\<bar> \<le> bound" "ss = ALLOWED \<Longrightarrow> \<bar>pos - uint qty\<bar> \<le> bound"
    and ex: "exposure_ok bound pos (slot om (unat tid) BUY) (slot om (unat tid) SELL)"
  shows "\<exists>om' reqs. moveOrders check cid tid bid ask qty om = Inr (om', reqs) \<and> om_shape n om' \<and>
     exposure_ok bound pos (slot om' (unat tid) BUY) (slot om' (unat tid) SELL) \<and>
     (\<forall>t s. t \<noteq> unat tid \<longrightarrow> slot om' t s = slot om t s)"
proof -
  obtain om1 bids where b: "moveOrder check cid (tid, BUY) tid bid BUY qty om = Inr (om1, bids)" "om_shape n om1"
    "exposure_ok bound pos (slot om1 (unat tid) BUY) (slot om1 (unat tid) SELL)" "\<forall>t s. t \<noteq> unat tid \<longrightarrow> slot om1 t s = slot om t s"
    using moveOrder_exposure [OF sh t, of BUY check qty bb pos bound cid bid] chk safe ex by auto
  obtain om2 asks where a: "moveOrder check cid (tid, SELL) tid ask SELL qty om1 = Inr (om2, asks)" "om_shape n om2"
    "exposure_ok bound pos (slot om2 (unat tid) BUY) (slot om2 (unat tid) SELL)" "\<forall>t s. t \<noteq> unat tid \<longrightarrow> slot om2 t s = slot om1 t s"
    using moveOrder_exposure [OF b(2) t, of SELL check qty ss pos bound cid ask] chk safe b(3) by auto
  show ?thesis using a b by (auto simp: moveOrders_def)
qed

lemma moveOrders_requests:
  assumes sh: "om_shape n om" and t: "unat tid < n" and chk: "check tid BUY qty = Inr bb" "check tid SELL qty = Inr ss"
  shows "\<exists>om' oid. moveOrders check cid tid bid ask qty om = Inr (om',
     moved_requests bb cid tid (next_order_id om) bid BUY qty (slot om (unat tid) BUY) @
     moved_requests ss cid tid oid ask SELL qty (slot om (unat tid) SELL))"
proof -
  obtain om1 where b: "moveOrder check cid (tid, BUY) tid bid BUY qty om =
      Inr (om1, moved_requests bb cid tid (next_order_id om) bid BUY qty (slot om (unat tid) BUY))" "om_shape n om1"
    "slot om1 (unat tid) SELL = slot om (unat tid) SELL"
    using moveOrder_slot [OF sh t, of check BUY qty bb cid bid] chk by auto
  then show ?thesis using moveOrder_slot [OF b(2) t, of check SELL qty ss cid ask] chk by (auto simp: moveOrders_def)
qed

lemma onOrderUpdate_slot:
  assumes "om_shape n om" and "unat (rsp_ticker_id r) < n"
  shows "\<exists>om'. onOrderUpdate r om = Inr om' \<and> om_shape n om' \<and> next_order_id om' = next_order_id om \<and>
     (\<forall>t s. slot om' t s = (if t = unat (rsp_ticker_id r) \<and> s = rsp_side r then order_after r (slot om t s) else slot om t s))"
  using om_get_slot [OF assms(1), of "(rsp_ticker_id r, rsp_side r)"]
    om_put_slot [OF assms(1), of "(rsp_ticker_id r, rsp_side r)" "order_after r (slot om (unat (rsp_ticker_id r)) (rsp_side r))"] assms(2)
  by (auto simp: onOrderUpdate_def Let_def)

text \<open>The position after a response.\<close>

definition pos_after :: "MEClientResponse \<Rightarrow> int \<Rightarrow> int" where
  "pos_after r pos = (if rsp_type r = FILLED then pos + sideToValue (rsp_side r) * uint (rsp_exec_qty r) else pos)"

lemma response_exposure:
  assumes "exposure_ok bound pos bid ask" and "rsp_side r = BUY \<Longrightarrow> expected_response bid r"
    and "rsp_side r = SELL \<Longrightarrow> expected_response ask r" and "rsp_type r = FILLED \<Longrightarrow> rsp_side r \<in> {BUY, SELL}"
  shows "exposure_ok bound (pos_after r pos) (if rsp_side r = BUY then order_after r bid else bid)
     (if rsp_side r = SELL then order_after r ask else ask)"
proof -
  obtain e where e: "uint (rsp_exec_qty r) = e" "0 \<le> e" by simp
  consider (buy) "rsp_side r = BUY" | (sell) "rsp_side r = SELL" | (other) "rsp_side r \<noteq> BUY" "rsp_side r \<noteq> SELL" by blast
  then show ?thesis
  proof cases
    case buy
    show ?thesis
    proof (cases "rsp_type r = FILLED")
      case True
      then show ?thesis using buy assms(1) out_qty_filled [OF assms(2) [OF buy] True] e(2)
        unfolding exposure_ok_def pos_after_def by (simp add: e(1))
    next
      case False
      then show ?thesis using buy assms(1) out_qty_after [OF assms(2) [OF buy]]
        unfolding exposure_ok_def pos_after_def by simp
    qed
  next
    case sell
    show ?thesis
    proof (cases "rsp_type r = FILLED")
      case True
      then show ?thesis using sell assms(1) out_qty_filled [OF assms(3) [OF sell] True] e(2)
        unfolding exposure_ok_def pos_after_def by (simp add: e(1))
    next
      case False
      then show ?thesis using sell assms(1) out_qty_after [OF assms(3) [OF sell]]
        unfolding exposure_ok_def pos_after_def by simp
    qed
  next
    case other
    then show ?thesis using assms(1,4) by (auto simp: exposure_ok_def pos_after_def)
  qed
qed

section \<open>Following the strategy\<close>

lemma moveOrder_idle:
  assumes "om_shape n om" and "unat tid < n"
    and "om_state (slot om (unat tid) side) \<in> {PENDING_NEW, PENDING_CANCEL} \<or>
         om_state (slot om (unat tid) side) = LIVE \<and> om_price (slot om (unat tid) side) = price"
  shows "moveOrder check cid (tid, side) tid price side qty om = Inr (om, [])"
  using om_get_slot [OF assms(1), of "(tid, side)"] assms(2,3) by (auto simp: moveOrder_def)

text \<open>
  C25: the order manager follows the strategy.  When the order of a slot is live at another price than the
  one asked for, the first call of \<open>moveOrder()\<close> sends a cancel of exactly that order and nothing else; while
  the cancel is pending a second call sends nothing; once the exchange has confirmed the cancel, the next
  call sends, if the risk check allows it, a new order at the price and quantity asked for under a fresh
  identifier, and after its acceptance the slot holds that order, live, and a further call sends nothing.
\<close>

theorem move_order_converges:
  assumes "om_shape n om" and "unat tid < n" and "check tid side qty = Inr ALLOWED" and "price \<noteq> Price_INVALID"
    and "om_state (slot om (unat tid) side) = LIVE" and "om_price (slot om (unat tid) side) \<noteq> price"
    and "rsp_type canceled = CANCELED" "rsp_ticker_id canceled = tid" "rsp_side canceled = side"
    and "rsp_type accepted = ACCEPTED" "rsp_ticker_id accepted = tid" "rsp_side accepted = side"
  shows "\<exists>om1 om2 om3 om4 c a.
     moveOrder check cid (tid, side) tid price side qty om = Inr (om1, [c]) \<and>
     req_type c = Request_CANCEL \<and> req_order_id c = om_order_id (slot om (unat tid) side) \<and>
     moveOrder check cid (tid, side) tid price side qty om1 = Inr (om1, []) \<and>
     onOrderUpdate canceled om1 = Inr om2 \<and>
     moveOrder check cid (tid, side) tid price side qty om2 = Inr (om3, [a]) \<and>
     a = \<lparr>req_type = Request_NEW, req_client_id = cid, req_ticker_id = tid, req_order_id = next_order_id om, req_side = side,
          req_price = price, req_qty = qty\<rparr> \<and>
     onOrderUpdate accepted om3 = Inr om4 \<and>
     slot om4 (unat tid) side = (pending_order tid (next_order_id om) side price qty)\<lparr>om_state := LIVE\<rparr> \<and>
     moveOrder check cid (tid, side) tid price side qty om4 = Inr (om4, [])"
proof -
  let ?t = "unat tid"
  obtain om1 where o1: "moveOrder check cid (tid, side) tid price side qty om =
      Inr (om1, moved_requests ALLOWED cid tid (next_order_id om) price side qty (slot om ?t side))" "om_shape n om1"
    "next_order_id om1 = next_order_id om" "slot om1 ?t side = (slot om ?t side)\<lparr>om_state := PENDING_CANCEL\<rparr>"
    using moveOrder_slot [OF assms(1,2), of check side qty ALLOWED cid price] assms(3,5,6) by (auto simp: moved_slot_def moved_requests_def new_count_def)
  obtain om2 where o2: "onOrderUpdate canceled om1 = Inr om2" "om_shape n om2" "next_order_id om2 = next_order_id om"
    "slot om2 ?t side = (slot om ?t side)\<lparr>om_state := DEAD\<rparr>"
    using onOrderUpdate_slot [OF o1(2), of canceled] o1(3,4) assms(2,7-9) by (auto simp: order_after_def)
  obtain om3 where o3: "moveOrder check cid (tid, side) tid price side qty om2 =
      Inr (om3, moved_requests ALLOWED cid tid (next_order_id om) price side qty (slot om2 ?t side))" "om_shape n om3"
    "slot om3 ?t side = pending_order tid (next_order_id om) side price qty"
    using moveOrder_slot [OF o2(2) assms(2), of check side qty ALLOWED cid price] o2(3,4) assms(3,4) by (auto simp: moved_slot_def)
  obtain om4 where o4: "onOrderUpdate accepted om3 = Inr om4" "om_shape n om4"
    "slot om4 ?t side = (pending_order tid (next_order_id om) side price qty)\<lparr>om_state := LIVE\<rparr>"
    using onOrderUpdate_slot [OF o3(2), of accepted] o3(3) assms(2,10-12) by (auto simp: order_after_def)
  have i1: "moveOrder check cid (tid, side) tid price side qty om1 = Inr (om1, [])"
    by (rule moveOrder_idle [OF o1(2) assms(2)]) (simp add: o1(4))
  have i4: "moveOrder check cid (tid, side) tid price side qty om4 = Inr (om4, [])"
    by (rule moveOrder_idle [OF o4(2) assms(2)]) (simp add: o4(3) pending_order_def)
  show ?thesis using o1 i1 o2 o3 o4 i4 assms(4-6) by (auto simp: moved_requests_def)
qed

definition a_check :: "TickerId \<Rightarrow> Side \<Rightarrow> Qty \<Rightarrow> RiskCheckResult res" where
  "a_check tid side qty = Inr ALLOWED"

definition a_live_manager :: OrderManager where
  "a_live_manager = \<lparr>ticker_side_order = arr_fill 2 (arr_fill 4 ((pending_order 1 7 BUY 99 10)\<lparr>om_state := LIVE\<rparr>)), next_order_id = 8\<rparr>"

definition a_status :: "ClientResponseType \<Rightarrow> MEClientResponse" where
  "a_status ty = \<lparr>rsp_type = ty, rsp_client_id = 3, rsp_ticker_id = 1, rsp_client_order_id = 7, rsp_market_order_id = 1,
     rsp_side = BUY, rsp_price = 99, rsp_exec_qty = 0, rsp_leaves_qty = 10\<rparr>"

theorem move_order_converges_witness:
  "\<exists>om1 om2 om3 om4 c a.
     moveOrder a_check 3 (1, BUY) 1 100 BUY 5 a_live_manager = Inr (om1, [c]) \<and> req_order_id c = 7 \<and>
     onOrderUpdate (a_status CANCELED) om1 = Inr om2 \<and> moveOrder a_check 3 (1, BUY) 1 100 BUY 5 om2 = Inr (om3, [a]) \<and>
     req_order_id a = 8 \<and> onOrderUpdate (a_status ACCEPTED) om3 = Inr om4 \<and> om_state (slot om4 1 BUY) = LIVE"
proof -
  have "om_shape 2 a_live_manager" "slot a_live_manager t s = (pending_order 1 7 BUY 99 10)\<lparr>om_state := LIVE\<rparr>"
    "next_order_id a_live_manager = 8" for t s
    by (simp_all add: a_live_manager_def om_shape_def slot_def)
  then show ?thesis
    using move_order_converges [of 2 a_live_manager 1 a_check BUY 5 100 "a_status CANCELED" "a_status ACCEPTED" 3]
    by (auto simp: a_check_def Price_INVALID_def a_status_def pending_order_def)
qed

end
