(* ===== verification/Strategies.thy ===== *)
theory Strategies
  imports Order_Manager
begin

text \<open>
  The feature engine (\<open>trading/strategy/feature_engine.h\<close>) and the two trading algorithms, \<open>MarketMaker\<close>
  (\<open>market_maker.h\<close>, \<open>market_maker.cpp\<close>) and \<open>LiquidityTaker\<close> (\<open>liquidity_taker.h\<close>, \<open>liquidity_taker.cpp\<close>).
  A \<open>double\<close> is a real number or one of the values that are not numbers of IEEE 754 arithmetic; rounding
  is not modelled.
\<close>

section \<open>Floating point values\<close>

datatype dbl = NaN | PInf | NInf | Fin real

definition dbl_div :: "real \<Rightarrow> real \<Rightarrow> dbl" where
  "dbl_div a b =
     (if b = 0 then (if a = 0 then NaN else if a > 0 then PInf else NInf) else Fin (a / b))"

definition dbl_minus :: "dbl \<Rightarrow> real \<Rightarrow> dbl" where
  "dbl_minus x a = (case x of Fin y \<Rightarrow> Fin (y - a) | _ \<Rightarrow> x)"

definition dbl_minus_from :: "real \<Rightarrow> dbl \<Rightarrow> dbl" where
  "dbl_minus_from a x = (case x of Fin y \<Rightarrow> Fin (a - y) | PInf \<Rightarrow> NInf | NInf \<Rightarrow> PInf | NaN \<Rightarrow> NaN)"

definition dbl_ge :: "dbl \<Rightarrow> real \<Rightarrow> bool" where
  "dbl_ge x a = (case x of Fin y \<Rightarrow> y \<ge> a | PInf \<Rightarrow> True | NInf \<Rightarrow> False | NaN \<Rightarrow> False)"

text \<open>A value that is not a number differs from every value, from itself too.\<close>

definition dbl_ne :: "dbl \<Rightarrow> dbl \<Rightarrow> bool" where
  "dbl_ne x y \<longleftrightarrow> x = NaN \<or> y = NaN \<or> x \<noteq> y"

definition Feature_INVALID :: dbl where
  "Feature_INVALID = NaN"

section \<open>The feature engine\<close>

record FeatureEngine =
  mkt_price :: dbl
  agg_trade_qty_ratio :: dbl

definition FeatureEngine_new :: FeatureEngine where
  "FeatureEngine_new = \<lparr>mkt_price = Feature_INVALID, agg_trade_qty_ratio = Feature_INVALID\<rparr>"

text \<open>Both sides have a price.  The sum of the two quantities is computed in 32 bits.\<close>

definition two_sided :: "BBO \<Rightarrow> bool" where
  "two_sided x \<longleftrightarrow> bid_price x \<noteq> Price_INVALID \<and> ask_price x \<noteq> Price_INVALID"

definition fe_onOrderBookUpdate :: "BBO \<Rightarrow> FeatureEngine \<Rightarrow> FeatureEngine" where
  "fe_onOrderBookUpdate x fe =
     (if two_sided x then
        fe\<lparr>mkt_price := dbl_div (real_of_int (bid_price x * uint (ask_qty x) + ask_price x * uint (bid_qty x)))
             (real_of_int (uint (bid_qty x + ask_qty x)))\<rparr>
      else fe)"

definition fe_onTradeUpdate :: "MEMarketUpdate \<Rightarrow> BBO \<Rightarrow> FeatureEngine \<Rightarrow> FeatureEngine" where
  "fe_onTradeUpdate u x fe =
     (if two_sided x then
        fe\<lparr>agg_trade_qty_ratio := dbl_div (real_of_int (uint (upd_qty u)))
             (real_of_int (uint (if upd_side u = BUY then ask_qty x else bid_qty x)))\<rparr>
      else fe)"

section \<open>The market maker\<close>

type_synonym checker = "TickerId \<Rightarrow> Side \<Rightarrow> Qty \<Rightarrow> RiskCheckResult res"

definition mm_prices :: "real \<Rightarrow> dbl \<Rightarrow> BBO \<Rightarrow> Price \<times> Price" where
  "mm_prices limit fair_price x =
     (bid_price x - (if dbl_ge (dbl_minus fair_price (real_of_int (bid_price x))) limit then 0 else 1),
      ask_price x + (if dbl_ge (dbl_minus_from (real_of_int (ask_price x)) fair_price) limit then 0 else 1))"

definition mm_onOrderBookUpdate ::
  "checker \<Rightarrow> ClientId \<Rightarrow> TradeEngineCfg arr \<Rightarrow> FeatureEngine \<Rightarrow> TickerId \<Rightarrow> BBO \<Rightarrow> OrderManager \<Rightarrow>
   (OrderManager \<times> MEClientRequest list) res" where
  "mm_onOrderBookUpdate check cid ticker_cfg fe tid x om =
     (if two_sided x \<and> dbl_ne (mkt_price fe) Feature_INVALID then
        rbind (arr_at ticker_cfg (unat tid)) (\<lambda>cfg.
        let (bid, ask) = mm_prices (threshold cfg) (mkt_price fe) x in
        moveOrders check cid tid bid ask (clip cfg) om)
      else Inr (om, []))"

definition mm_onTradeUpdate :: "OrderManager \<Rightarrow> (OrderManager \<times> MEClientRequest list) res" where
  "mm_onTradeUpdate om = Inr (om, [])"

definition mm_onOrderUpdate :: "MEClientResponse \<Rightarrow> OrderManager \<Rightarrow> OrderManager res" where
  "mm_onOrderUpdate r om = onOrderUpdate r om"

section \<open>The liquidity taker\<close>

definition lt_onOrderBookUpdate :: "OrderManager \<Rightarrow> (OrderManager \<times> MEClientRequest list) res" where
  "lt_onOrderBookUpdate om = Inr (om, [])"

definition lt_onTradeUpdate ::
  "checker \<Rightarrow> ClientId \<Rightarrow> TradeEngineCfg arr \<Rightarrow> FeatureEngine \<Rightarrow> MEMarketUpdate \<Rightarrow> BBO \<Rightarrow> OrderManager \<Rightarrow>
   (OrderManager \<times> MEClientRequest list) res" where
  "lt_onTradeUpdate check cid ticker_cfg fe u x om =
     (if two_sided x \<and> dbl_ne (agg_trade_qty_ratio fe) Feature_INVALID then
        rbind (arr_at ticker_cfg (unat (upd_ticker_id u))) (\<lambda>cfg.
        if dbl_ge (agg_trade_qty_ratio fe) (threshold cfg) then
          if upd_side u = BUY
          then moveOrders check cid (upd_ticker_id u) (ask_price x) Price_INVALID (clip cfg) om
          else moveOrders check cid (upd_ticker_id u) Price_INVALID (bid_price x) (clip cfg) om
        else Inr (om, []))
      else Inr (om, []))"

definition lt_onOrderUpdate :: "MEClientResponse \<Rightarrow> OrderManager \<Rightarrow> OrderManager res" where
  "lt_onOrderUpdate r om = onOrderUpdate r om"

section \<open>The fair price\<close>

lemma weighted_mean:
  fixes a b u v :: real
  assumes "b \<le> a" and "0 \<le> u" and "0 \<le> v" and "0 < u + v"
  shows "b \<le> (b * v + a * u) / (u + v) \<and> (b * v + a * u) / (u + v) \<le> a \<and>
     ((b * v + a * u) / (u + v) - b) * v = (a - (b * v + a * u) / (u + v)) * u"
proof -
  have "b * u \<le> a * u" "b * v \<le> a * v" using assms by (simp_all add: mult_right_mono)
  then show ?thesis using assms(4) by (simp add: field_simps)
qed


definition a_bbo :: "Price \<Rightarrow> Price \<Rightarrow> Qty \<Rightarrow> Qty \<Rightarrow> BBO" where
  "a_bbo b a bq aq = \<lparr>bid_price = b, ask_price = a, bid_qty = bq, ask_qty = aq\<rparr>"


text \<open>
  the sum of the two quantities wraps.  With \<open>2 ^ 31\<close> on either side it is zero, and the fair price is
  infinite.
\<close>

theorem fair_price_wraps:
  "mkt_price (fe_onOrderBookUpdate (a_bbo 100 104 (2 ^ 31) (2 ^ 31)) FeatureEngine_new) = PInf"
  by (simp add: fe_onOrderBookUpdate_def a_bbo_def two_sided_def Price_INVALID_def dbl_div_def)

section \<open>What the algorithms send\<close>

lemma moveOrder_new:
  assumes "moveOrder check cid q tid price side qty om = Inr (om', reqs)" and "r \<in> set reqs" and "req_type r = Request_NEW"
  shows "req_ticker_id r = tid \<and> req_side r = side \<and> req_price r = price \<and> req_qty r = qty \<and>
     price \<noteq> Price_INVALID \<and> check tid side qty = Inr ALLOWED"
  using assms
  by (auto simp: moveOrder_def cancelOrder_def newOrder_def rbind_eq_Inr_iff Let_def split: if_splits)

lemma moveOrders_new:
  assumes "moveOrders check cid tid bid ask qty om = Inr (om', reqs)" and "r \<in> set reqs" and "req_type r = Request_NEW"
  shows "req_ticker_id r = tid \<and> req_qty r = qty \<and> check tid (req_side r) qty = Inr ALLOWED \<and> req_price r \<noteq> Price_INVALID \<and>
     (req_side r = BUY \<and> req_price r = bid \<or> req_side r = SELL \<and> req_price r = ask)"
proof -
  obtain om1 bids asks where m: "moveOrder check cid (tid, BUY) tid bid BUY qty om = Inr (om1, bids)"
    "moveOrder check cid (tid, SELL) tid ask SELL qty om1 = Inr (om', asks)" "reqs = bids @ asks"
    using assms(1) by (auto simp: moveOrders_def rbind_eq_Inr_iff)
  then show ?thesis using moveOrder_new [OF m(1), of r] moveOrder_new [OF m(2), of r] assms(2,3) by auto
qed

text \<open>
  C38: the market maker only quotes passively.  Every new order it sends was allowed by the risk check, has
  the configured size, and is a bid at the best bid or one below it, or an offer at the best offer or one
  above it; in a book that is not crossed no new order can trade on arrival.
\<close>

theorem maker_quotes_passively:
  assumes "mm_onOrderBookUpdate check cid ticker_cfg fe tid x om = Inr (om', reqs)"
    and "r \<in> set reqs" and "req_type r = Request_NEW" and "bid_price x < ask_price x"
  shows "check tid (req_side r) (req_qty r) = Inr ALLOWED \<and> req_qty r = clip (arr_get ticker_cfg (unat tid)) \<and>
     (req_side r = BUY \<and> req_price r \<in> {bid_price x - 1, bid_price x} \<and> req_price r < ask_price x \<or>
      req_side r = SELL \<and> req_price r \<in> {ask_price x, ask_price x + 1} \<and> bid_price x < req_price r)"
proof -
  let ?cfg = "arr_get ticker_cfg (unat tid)"
  let ?p = "mm_prices (threshold ?cfg) (mkt_price fe) x"
  have "moveOrders check cid tid (fst ?p) (snd ?p) (clip ?cfg) om = Inr (om', reqs)"
    using assms(1,2) by (auto simp: mm_onOrderBookUpdate_def arr_at_def case_prod_beta split: if_splits)
  moreover have "fst ?p \<in> {bid_price x - 1, bid_price x}" "snd ?p \<in> {ask_price x, ask_price x + 1}"
    by (simp_all add: mm_prices_def)
  ultimately show ?thesis using moveOrders_new assms(2-4) by fastforce
qed

definition a_trading_cfg :: TradeEngineCfg where
  "a_trading_cfg = \<lparr>clip = 5, threshold = 1, risk_cfg = a_risk_cfg\<rparr>"

theorem maker_quotes_passively_witness:
  "\<exists>om' reqs. mm_onOrderBookUpdate a_check 3 (arr_fill 2 a_trading_cfg) \<lparr>mkt_price = Fin 103, agg_trade_qty_ratio = NaN\<rparr> 1
      (a_bbo 100 104 30 10) (OrderManager_new default_limits) = Inr (om', reqs) \<and> length reqs = 2 \<and>
     (\<forall>r\<in>set reqs. req_side r = BUY \<and> req_price r \<in> {99, 100} \<or> req_side r = SELL \<and> req_price r \<in> {104, 105})"
proof -
  let ?run = "mm_onOrderBookUpdate a_check 3 (arr_fill 2 a_trading_cfg) \<lparr>mkt_price = Fin 103, agg_trade_qty_ratio = NaN\<rparr> 1
      (a_bbo 100 104 30 10) (OrderManager_new default_limits)"
  obtain om' reqs where run: "?run = Inr (om', reqs)" "length reqs = 2" "\<forall>r\<in>set reqs. req_type r = Request_NEW"
  proof -
    have "om_shape 8 (OrderManager_new default_limits)"
      using OrderManager_new_shape(1) [of default_limits] by (simp add: default_limits_def)
    then show ?thesis
      using that moveOrders_requests [of 8 "OrderManager_new default_limits" 1 a_check 5 ALLOWED ALLOWED 3 100 104]
      by (auto simp: a_check_def mm_onOrderBookUpdate_def mm_prices_def a_bbo_def two_sided_def Price_INVALID_def dbl_ne_def
          Feature_INVALID_def dbl_ge_def dbl_minus_def dbl_minus_from_def a_trading_cfg_def OrderManager_new_shape(2)
          moved_requests_def OMOrder_default_def)
  qed
  show ?thesis using run maker_quotes_passively [OF run(1)] by (fastforce simp: a_bbo_def)
qed

text \<open>
  the liquidity taker only follows the aggressor.  A new order is sent only when the traded quantity
  reached the configured fraction of the quantity it traded against; after a buy trade it is a bid at the
  best offer, after any other trade an offer at the best bid, of the configured size and allowed by the
  risk check.
\<close>

theorem taker_follows_aggressor:
  assumes "lt_onTradeUpdate check cid ticker_cfg fe u x om = Inr (om', reqs)" and "r \<in> set reqs" and "req_type r = Request_NEW"
  shows "dbl_ge (agg_trade_qty_ratio fe) (threshold (arr_get ticker_cfg (unat (upd_ticker_id u)))) \<and>
     req_ticker_id r = upd_ticker_id u \<and> req_qty r = clip (arr_get ticker_cfg (unat (upd_ticker_id u))) \<and>
     check (upd_ticker_id u) (req_side r) (req_qty r) = Inr ALLOWED \<and>
     (if upd_side u = BUY then req_side r = BUY \<and> req_price r = ask_price x
      else req_side r = SELL \<and> req_price r = bid_price x)"
proof -
  let ?tid = "upd_ticker_id u"
  let ?cfg = "arr_get ticker_cfg (unat ?tid)"
  have ge: "dbl_ge (agg_trade_qty_ratio fe) (threshold ?cfg)"
    and run: "(if upd_side u = BUY then moveOrders check cid ?tid (ask_price x) Price_INVALID (clip ?cfg) om
      else moveOrders check cid ?tid Price_INVALID (bid_price x) (clip ?cfg) om) = Inr (om', reqs)"
    using assms(1,2) by (auto simp: lt_onTradeUpdate_def arr_at_def split: if_splits)
  show ?thesis
  proof (cases "upd_side u = BUY")
    case True
    then show ?thesis using ge run moveOrders_new [of check cid ?tid "ask_price x" Price_INVALID "clip ?cfg" om om' reqs r] assms(2,3) by auto
  next
    case False
    then show ?thesis using ge run moveOrders_new [of check cid ?tid Price_INVALID "bid_price x" "clip ?cfg" om om' reqs r] assms(2,3) by auto
  qed
qed

definition a_trade :: MEMarketUpdate where
  "a_trade = MEMarketUpdate_default\<lparr>upd_type := TRADE, upd_ticker_id := 1, upd_side := BUY, upd_price := 104, upd_qty := 9\<rparr>"

theorem taker_follows_aggressor_witness:
  "\<exists>om' r. lt_onTradeUpdate a_check 3 (arr_fill 2 (a_trading_cfg\<lparr>threshold := 1 / 2\<rparr>)) \<lparr>mkt_price = Fin 103, agg_trade_qty_ratio = Fin (9 / 10)\<rparr>
      a_trade (a_bbo 100 104 30 10) (OrderManager_new default_limits) = Inr (om', [r]) \<and> req_side r = BUY \<and> req_price r = 104"
proof -
  let ?run = "lt_onTradeUpdate a_check 3 (arr_fill 2 (a_trading_cfg\<lparr>threshold := 1 / 2\<rparr>)) \<lparr>mkt_price = Fin 103, agg_trade_qty_ratio = Fin (9 / 10)\<rparr>
      a_trade (a_bbo 100 104 30 10) (OrderManager_new default_limits)"
  have "om_shape 8 (OrderManager_new default_limits)"
    using OrderManager_new_shape(1) [of default_limits] by (simp add: default_limits_def)
  then obtain om' r where run: "?run = Inr (om', [r])" "req_type r = Request_NEW"
    using moveOrders_requests [of 8 "OrderManager_new default_limits" 1 a_check 5 ALLOWED ALLOWED 3 104 Price_INVALID]
    by (auto simp: a_check_def lt_onTradeUpdate_def a_bbo_def two_sided_def Price_INVALID_def dbl_ne_def a_trade_def
        Feature_INVALID_def dbl_ge_def a_trading_cfg_def OrderManager_new_shape(2) moved_requests_def OMOrder_default_def)
  show ?thesis using run taker_follows_aggressor [OF run(1), of r] by (simp add: a_trade_def a_bbo_def)
qed

end
