(* ===== verification/Trade_Engine.thy ===== *)
theory Trade_Engine
  imports Strategies LF_Queue
begin

text \<open>
  \<open>Trading::TradeEngine\<close> (\<open>trading/strategy/trade_engine.h\<close>, \<open>trade_engine.cpp\<close>): owns the books, the feature
  engine, the positions, the risk manager, the order manager and one trading algorithm, and connects
  them to the queues of the market data consumer and of the order gateway.  The function objects that
  dispatch to the algorithm are a case distinction on its type.  The clock is an argument.
\<close>

section \<open>State and operations\<close>

record TradeEngine =
  te_client_id :: ClientId
  te_algo :: AlgoType
  te_cfg :: "TradeEngineCfg arr"
  te_books :: "MarketOrderBook arr"
  outgoing_ogw_requests :: "MEClientRequest LFQueue"
  incoming_ogw_responses :: "MEClientResponse LFQueue"
  te_incoming_md_updates :: "MEMarketUpdate LFQueue"
  last_event_time :: Nanos
  feature_engine :: FeatureEngine
  position_keeper :: PositionKeeper
  risk_manager :: RiskManager
  order_manager :: OrderManager

definition TradeEngine_new ::
  "Limits \<Rightarrow> ClientId \<Rightarrow> AlgoType \<Rightarrow> TradeEngineCfg arr \<Rightarrow> (nat \<Rightarrow> nat \<Rightarrow> real) \<Rightarrow> MEClientRequest LFQueue \<Rightarrow>
   MEClientResponse LFQueue \<Rightarrow> MEMarketUpdate LFQueue \<Rightarrow> TradeEngine" where
  "TradeEngine_new limits cid algo ticker_cfg mem client_requests client_responses market_updates =
     \<lparr>te_client_id = cid, te_algo = algo, te_cfg = ticker_cfg,
      te_books = \<lparr>arr_size = ME_MAX_TICKERS limits, arr_get = (\<lambda>i. MarketOrderBook_new limits (of_nat i))\<rparr>,
      outgoing_ogw_requests = client_requests, incoming_ogw_responses = client_responses,
      te_incoming_md_updates = market_updates, last_event_time = 0, feature_engine = FeatureEngine_new,
      position_keeper = PositionKeeper_new limits mem, risk_manager = RiskManager_new limits ticker_cfg,
      order_manager = OrderManager_new limits\<rparr>"

definition sendClientRequest :: "MEClientRequest \<Rightarrow> TradeEngine \<Rightarrow> TradeEngine" where
  "sendClientRequest client_request te =
     te\<lparr>outgoing_ogw_requests := lfq_push client_request (outgoing_ogw_requests te)\<rparr>"

text \<open>A call into the order manager, whose requests the engine sends in the order they are made.\<close>

definition with_manager ::
  "(checker \<Rightarrow> OrderManager \<Rightarrow> (OrderManager \<times> MEClientRequest list) res) \<Rightarrow> TradeEngine \<Rightarrow> TradeEngine res" where
  "with_manager f te =
     rbind (f (checkPreTradeRisk (risk_manager te) (position_keeper te)) (order_manager te)) (\<lambda>(om, reqs).
     Inr (fold sendClientRequest reqs (te\<lparr>order_manager := om\<rparr>)))"

definition algoOnOrderBookUpdate :: "TickerId \<Rightarrow> BBO \<Rightarrow> TradeEngine \<Rightarrow> TradeEngine res" where
  "algoOnOrderBookUpdate tid x te =
     (case te_algo te of
        MAKER \<Rightarrow> with_manager (\<lambda>check. mm_onOrderBookUpdate check (te_client_id te) (te_cfg te) (feature_engine te) tid x) te
      | TAKER \<Rightarrow> with_manager (\<lambda>check. lt_onOrderBookUpdate) te
      | _ \<Rightarrow> Inr te)"

definition algoOnTradeUpdate :: "MEMarketUpdate \<Rightarrow> BBO \<Rightarrow> TradeEngine \<Rightarrow> TradeEngine res" where
  "algoOnTradeUpdate u x te =
     (case te_algo te of
        MAKER \<Rightarrow> with_manager (\<lambda>check. mm_onTradeUpdate) te
      | TAKER \<Rightarrow> with_manager (\<lambda>check. lt_onTradeUpdate check (te_client_id te) (te_cfg te) (feature_engine te) u x) te
      | _ \<Rightarrow> Inr te)"

definition algoOnOrderUpdate :: "MEClientResponse \<Rightarrow> TradeEngine \<Rightarrow> TradeEngine res" where
  "algoOnOrderUpdate r te =
     (case te_algo te of
        MAKER \<Rightarrow> rbind (mm_onOrderUpdate r (order_manager te)) (\<lambda>om. Inr (te\<lparr>order_manager := om\<rparr>))
      | TAKER \<Rightarrow> rbind (lt_onOrderUpdate r (order_manager te)) (\<lambda>om. Inr (te\<lparr>order_manager := om\<rparr>))
      | _ \<Rightarrow> Inr te)"

definition te_onOrderBookUpdate :: "TickerId \<Rightarrow> BBO \<Rightarrow> TradeEngine \<Rightarrow> TradeEngine res" where
  "te_onOrderBookUpdate tid x te =
     rbind (keeper_updateBBO tid x (position_keeper te)) (\<lambda>k.
     algoOnOrderBookUpdate tid x
       (te\<lparr>position_keeper := k, feature_engine := fe_onOrderBookUpdate x (feature_engine te)\<rparr>))"

definition te_onTradeUpdate :: "MEMarketUpdate \<Rightarrow> BBO \<Rightarrow> TradeEngine \<Rightarrow> TradeEngine res" where
  "te_onTradeUpdate u x te =
     algoOnTradeUpdate u x (te\<lparr>feature_engine := fe_onTradeUpdate u x (feature_engine te)\<rparr>)"

definition te_onOrderUpdate :: "MEClientResponse \<Rightarrow> TradeEngine \<Rightarrow> TradeEngine res" where
  "te_onOrderUpdate r te =
     rbind (if rsp_type r = FILLED then keeper_addFill r (position_keeper te) else Inr (position_keeper te)) (\<lambda>k.
     algoOnOrderUpdate r (te\<lparr>position_keeper := k\<rparr>))"

definition processMarketUpdate :: "Nanos \<Rightarrow> MEMarketUpdate \<Rightarrow> TradeEngine \<Rightarrow> TradeEngine res" where
  "processMarketUpdate now u te =
     (let t = unat (upd_ticker_id u) in
      rbind (ASSERT (t < arr_size (te_books te)) ''Unknown ticker-id on update:'') (\<lambda>_.
      rbind (arr_index (te_books te) t) (\<lambda>book.
      rbind (onMarketUpdate u book) (\<lambda>(book, ev).
      rbind (arr_store t book (te_books te)) (\<lambda>books.
      let te = te\<lparr>te_books := books\<rparr>; x = bbo book in
      rbind (case ev of
               TradeUpdate u \<Rightarrow> te_onTradeUpdate u x te
             | OrderBookUpdate tid price side \<Rightarrow> te_onOrderBookUpdate tid x te) (\<lambda>te.
      Inr (te\<lparr>last_event_time := now\<rparr>)))))))"

text \<open>The two inner loops of \<open>run()\<close>; the first argument bounds the iterations by the size of the queue.\<close>

fun te_responses :: "nat \<Rightarrow> Nanos \<Rightarrow> TradeEngine \<Rightarrow> TradeEngine res" where
  "te_responses 0 now te = Inr te"
| "te_responses (Suc n) now te =
     (case lfq_front (incoming_ogw_responses te) of
        None \<Rightarrow> Inr te
      | Some client_response \<Rightarrow>
          rbind (te_onOrderUpdate client_response te) (\<lambda>te.
          rbind (updateReadIndex (incoming_ogw_responses te)) (\<lambda>q.
          te_responses n now (te\<lparr>incoming_ogw_responses := q, last_event_time := now\<rparr>))))"

fun te_updates :: "nat \<Rightarrow> Nanos \<Rightarrow> TradeEngine \<Rightarrow> TradeEngine res" where
  "te_updates 0 now te = Inr te"
| "te_updates (Suc n) now te =
     (case lfq_front (te_incoming_md_updates te) of
        None \<Rightarrow> Inr te
      | Some market_update \<Rightarrow>
          rbind (processMarketUpdate now market_update te) (\<lambda>te.
          rbind (updateReadIndex (te_incoming_md_updates te)) (\<lambda>q.
          te_updates n now (te\<lparr>te_incoming_md_updates := q\<rparr>))))"

definition te_run_once :: "Nanos \<Rightarrow> TradeEngine \<Rightarrow> TradeEngine res" where
  "te_run_once now te =
     rbind (te_responses (lfq_size (incoming_ogw_responses te)) now te) (\<lambda>te.
     te_updates (lfq_size (te_incoming_md_updates te)) now te)"

definition initLastEventTime :: "Nanos \<Rightarrow> TradeEngine \<Rightarrow> TradeEngine" where
  "initLastEventTime now te = te\<lparr>last_event_time := now\<rparr>"

definition NANOS_TO_SECS :: int where "NANOS_TO_SECS = 1000000000"

definition silentSeconds :: "Nanos \<Rightarrow> TradeEngine \<Rightarrow> int" where
  "silentSeconds now te = (let d = now - last_event_time te in sgn d * (\<bar>d\<bar> div NANOS_TO_SECS))"

end
