(* ===== verification/Trade_Engine_Props.thy ===== *)
theory Trade_Engine_Props
  imports Trade_Engine
begin

text \<open>
  The position limit as an invariant of the trade engine: whatever market data arrives and whatever the
  exchange answers to the orders of the engine, the position of every instrument stays within its
  configured bound.
\<close>

section \<open>Operations that cannot fail\<close>

text \<open>Limits for which the 32-bit arithmetic of the risk check and of the fills is exact.\<close>

definition cfg_ok :: "RiskCfg \<Rightarrow> bool" where
  "cfg_ok cfg \<longleftrightarrow> uint (max_position cfg) \<le> max_abs_position \<and> uint (max_order_size cfg) < 2 ^ 30"

lemma cfg_ok_sint: "cfg_ok cfg \<Longrightarrow> sint (max_position cfg) = uint (max_position cfg)"
  by (intro sint_uint) (simp add: cfg_ok_def max_abs_position_def)

lemma risk_check_total:
  assumes "cfg_ok cfg" and "\<bar>sint (position p)\<bar> \<le> sint (max_position cfg)" and "side \<in> {BUY, SELL}"
  shows "\<exists>rr. risk_check cfg p side qty = Inr rr \<and>
     (rr = ALLOWED \<longrightarrow> \<bar>sint (position p) + sideToValue side * uint qty\<bar> \<le> sint (max_position cfg))"
proof (cases "qty > max_order_size cfg")
  case True
  then show ?thesis by (simp add: risk_check_def)
next
  case False
  obtain q where q: "uint qty = q" "0 \<le> q" by simp
  have "uint qty \<le> uint (max_order_size cfg)" using False by (simp add: word_less_def)
  then have qb: "uint qty < 2 ^ 30" using assms(1) by (simp add: cfg_ok_def)
  then have qs: "sint qty = q" using sint_uint [of qty] q by simp
  let ?v = "sideToValue side * q"
  have b: "\<bar>sint (position p)\<bar> \<le> 46340" using assms(1,2) cfg_ok_sint by (simp add: cfg_ok_def max_abs_position_def)
  have "int32_checked ?v = Inr ?v" "int32_checked (sint (position p) + ?v) = Inr (sint (position p) + ?v)"
    "int32_checked \<bar>sint (position p) + ?v\<bar> = Inr \<bar>sint (position p) + ?v\<bar>"
    using assms(3) qb q(2) b unfolding q(1) by (auto simp: int32_checked_def)
  then show ?thesis using False by (auto simp: risk_check_def qs q(1))
qed

lemma decrease_total:
  assumes "\<bar>sint old_position\<bar> \<le> max_abs_position" and "\<bar>sint (position p)\<bar> \<le> max_abs_position"
  shows "\<exists>p'. decrease_position r old_position p = Inr p'"
  using abs32_ok [OF assms(1)] abs32_ok [OF assms(2)] product_checked [OF assms(2,1)]
  by (simp add: decrease_position_def Let_def)

lemma unreal_total: "\<bar>sint (position p)\<bar> \<le> max_abs_position \<Longrightarrow> \<exists>u. unreal_at x p = Inr u"
  by (simp add: unreal_at_def abs32_ok Let_def)

lemma addFill_total:
  assumes "fill_ok (sint (position p)) r"
  shows "\<exists>p'. addFill r p = Inr p' \<and> sint (position p') = sint (position p) + sideToValue (rsp_side r) * uint (rsp_exec_qty r)"
proof -
  let ?P = "position p + rsp_exec_qty r * of_int (sideToValue (rsp_side r))"
  have b: "\<bar>sint (position p)\<bar> \<le> max_abs_position"
    "\<bar>sint (position p) + sideToValue (rsp_side r) * uint (rsp_exec_qty r)\<bar> \<le> max_abs_position"
    "rsp_side r \<in> {BUY, SELL}" using assms by (simp_all add: fill_ok_def)
  have pos: "sint ?P = sint (position p) + sideToValue (rsp_side r) * uint (rsp_exec_qty r)"
    using b(2) by (intro position_add) (auto simp: max_abs_position_def)
  have dir: "int32_checked (sint (position p) * sideToValue (rsp_side r)) = Inr (sint (position p) * sideToValue (rsp_side r))"
    using b(1,3) by (auto simp: int32_checked_def max_abs_position_def)
  have "\<exists>p1. fill_core r p = Inr p1"
    using decrease_total [OF b(1), of "p\<lparr>position := ?P, volume := volume p + rsp_exec_qty r\<rparr>" r] b(2) pos
    by (simp add: fill_core_def Let_def dir)
  then obtain p1 where p1: "fill_core r p = Inr p1" by blast
  then have pp: "position p1 = ?P" by (rule fill_core_position)
  have "\<exists>p'. addFill r p = Inr p'"
    using unreal_total [of p1 "real_of_int (rsp_price r)"] b(2) pos pp p1 by (auto simp: addFill_core)
  then show ?thesis using addFill_position pos by fastforce
qed

lemma pos_updateBBO_total:
  assumes "\<bar>sint (position p)\<bar> \<le> max_abs_position"
  shows "\<exists>p'. pos_updateBBO x p = Inr p' \<and> position p' = position p"
proof -
  obtain u where "unreal_at (real_of_int (bid_price x + ask_price x) * (1 / 2)) p = Inr u" using unreal_total [OF assms] by blast
  then show ?thesis by (auto simp: pos_updateBBO_def Let_def)
qed

section \<open>The invariant\<close>

definition te_inv :: "nat \<Rightarrow> TradeEngine \<Rightarrow> bool" where
  "te_inv n te \<longleftrightarrow>
     om_shape n (order_manager te) \<and> arr_size (position_keeper te) = n \<and> arr_size (risk_manager te) = n \<and>
     arr_size (te_cfg te) = n \<and> arr_size (te_books te) = n \<and> (\<forall>t<n. cfg_ok (arr_get (risk_manager te) t)) \<and>
     (\<forall>t<n. exposure_ok (sint (max_position (arr_get (risk_manager te) t))) (sint (position (arr_get (position_keeper te) t)))
        (slot (order_manager te) t BUY) (slot (order_manager te) t SELL))"

lemma te_inv_position:
  assumes "te_inv n te" and "t < n"
  shows "\<bar>sint (position (arr_get (position_keeper te) t))\<bar> \<le> sint (max_position (arr_get (risk_manager te) t))"
    and "\<bar>sint (position (arr_get (position_keeper te) t))\<bar> \<le> max_abs_position"
proof -
  show b: "\<bar>sint (position (arr_get (position_keeper te) t))\<bar> \<le> sint (max_position (arr_get (risk_manager te) t))"
    using assms by (auto simp: te_inv_def intro: exposure_position)
  have "cfg_ok (arr_get (risk_manager te) t)" using assms by (simp add: te_inv_def)
  then show "\<bar>sint (position (arr_get (position_keeper te) t))\<bar> \<le> max_abs_position"
    using b cfg_ok_sint [of "arr_get (risk_manager te) t"] by (simp add: cfg_ok_def)
qed

lemma send_requests_same:
  "fold sendClientRequest reqs te = te\<lparr>outgoing_ogw_requests := fold lfq_push reqs (outgoing_ogw_requests te)\<rparr>"
  by (induction reqs arbitrary: te) (simp_all add: sendClientRequest_def)

lemma te_inv_cong:
  "te_inv n (te\<lparr>outgoing_ogw_requests := q\<rparr>) = te_inv n te" "te_inv n (te\<lparr>last_event_time := now\<rparr>) = te_inv n te"
  "te_inv n (te\<lparr>feature_engine := fe\<rparr>) = te_inv n te" "te_inv n (te\<lparr>incoming_ogw_responses := rq\<rparr>) = te_inv n te"
  "te_inv n (te\<lparr>te_incoming_md_updates := uq\<rparr>) = te_inv n te"
  by (simp_all add: te_inv_def)

text \<open>A call of \<open>moveOrders()\<close> with the engine's own risk check keeps the invariant.\<close>

lemma quote_inv:
  assumes inv: "te_inv n te" and t: "unat tid < n"
  shows "\<exists>om reqs. moveOrders (checkPreTradeRisk (risk_manager te) (position_keeper te)) cid tid bid ask qty (order_manager te) = Inr (om, reqs) \<and>
     te_inv n (te\<lparr>order_manager := om\<rparr>)"
proof -
  let ?rm = "risk_manager te" and ?k = "position_keeper te" and ?t = "unat tid"
  let ?p = "arr_get ?k ?t" and ?c = "arr_get ?rm ?t"
  have sz: "arr_size ?rm = n" "arr_size ?k = n" "om_shape n (order_manager te)" "cfg_ok ?c"
    and ex: "exposure_ok (sint (max_position ?c)) (sint (position ?p)) (slot (order_manager te) ?t BUY) (slot (order_manager te) ?t SELL)"
    using inv t by (auto simp: te_inv_def)
  have chk: "checkPreTradeRisk ?rm ?k tid side q = risk_check ?c ?p side q" for side q
    using sz t by (simp add: checkPreTradeRisk_def getPositionInfo_def)
  obtain bb where bb: "checkPreTradeRisk ?rm ?k tid BUY qty = Inr bb" "bb = ALLOWED \<Longrightarrow> \<bar>sint (position ?p) + uint qty\<bar> \<le> sint (max_position ?c)"
    using risk_check_total [OF sz(4) te_inv_position(1) [OF inv t], of BUY qty] by (auto simp: chk)
  obtain ss where ss: "checkPreTradeRisk ?rm ?k tid SELL qty = Inr ss" "ss = ALLOWED \<Longrightarrow> \<bar>sint (position ?p) - uint qty\<bar> \<le> sint (max_position ?c)"
    using risk_check_total [OF sz(4) te_inv_position(1) [OF inv t], of SELL qty] by (auto simp: chk)
  obtain om reqs where m: "moveOrders (checkPreTradeRisk ?rm ?k) cid tid bid ask qty (order_manager te) = Inr (om, reqs)" "om_shape n om"
    "exposure_ok (sint (max_position ?c)) (sint (position ?p)) (slot om ?t BUY) (slot om ?t SELL)"
    "\<forall>t s. t \<noteq> ?t \<longrightarrow> slot om t s = slot (order_manager te) t s"
    using moveOrders_exposure [OF sz(3) t, of "checkPreTradeRisk ?rm ?k" qty bb ss "sint (position ?p)" "sint (max_position ?c)" cid bid ask]
      bb ss ex by blast
  have "te_inv n (te\<lparr>order_manager := om\<rparr>)" using inv m(2,3,4) unfolding te_inv_def by (simp, metis)
  then show ?thesis using m(1) by blast
qed

lemma with_manager_inv:
  assumes "te_inv n te" and "f (checkPreTradeRisk (risk_manager te) (position_keeper te)) (order_manager te) = Inr (om, reqs)"
    and "te_inv n (te\<lparr>order_manager := om\<rparr>)"
  shows "\<exists>te'. with_manager f te = Inr te' \<and> te_inv n te'"
  using assms by (simp add: with_manager_def send_requests_same te_inv_cong)

lemma te_inv_same_manager: "te_inv n (te\<lparr>order_manager := order_manager te\<rparr>) = te_inv n te"
  by (simp add: te_inv_def)

lemma maker_inv:
  assumes inv: "te_inv n te" and t: "unat tid < n"
  shows "\<exists>te'. with_manager (\<lambda>check. mm_onOrderBookUpdate check (te_client_id te) (te_cfg te) (feature_engine te) tid x) te = Inr te' \<and> te_inv n te'"
proof (cases "two_sided x \<and> dbl_ne (mkt_price (feature_engine te)) Feature_INVALID")
  case True
  let ?cfg = "arr_get (te_cfg te) (unat tid)"
  let ?p = "mm_prices (threshold ?cfg) (mkt_price (feature_engine te)) x"
  have c: "arr_at (te_cfg te) (unat tid) = Inr ?cfg" using inv t by (simp add: te_inv_def)
  obtain om reqs where m: "moveOrders (checkPreTradeRisk (risk_manager te) (position_keeper te)) (te_client_id te) tid
      (fst ?p) (snd ?p) (clip ?cfg) (order_manager te) = Inr (om, reqs)" "te_inv n (te\<lparr>order_manager := om\<rparr>)"
    using quote_inv [OF inv t] by blast
  show ?thesis
    by (rule with_manager_inv [OF inv _ m(2), of _ reqs]) (use True c m(1) in \<open>simp add: mm_onOrderBookUpdate_def case_prod_beta\<close>)
next
  case False
  show ?thesis
    by (rule with_manager_inv [OF inv, of _ "order_manager te" "[]"])
      (use False inv in \<open>auto simp: mm_onOrderBookUpdate_def te_inv_same_manager\<close>)
qed

lemma taker_inv:
  assumes inv: "te_inv n te" and t: "unat (upd_ticker_id u) < n"
  shows "\<exists>te'. with_manager (\<lambda>check. lt_onTradeUpdate check (te_client_id te) (te_cfg te) (feature_engine te) u x) te = Inr te' \<and> te_inv n te'"
proof -
  let ?cfg = "arr_get (te_cfg te) (unat (upd_ticker_id u))"
  let ?bid = "if upd_side u = BUY then ask_price x else Price_INVALID"
  let ?ask = "if upd_side u = BUY then Price_INVALID else bid_price x"
  have c: "arr_at (te_cfg te) (unat (upd_ticker_id u)) = Inr ?cfg" using inv t by (simp add: te_inv_def)
  obtain om reqs where m: "moveOrders (checkPreTradeRisk (risk_manager te) (position_keeper te)) (te_client_id te) (upd_ticker_id u)
      ?bid ?ask (clip ?cfg) (order_manager te) = Inr (om, reqs)" "te_inv n (te\<lparr>order_manager := om\<rparr>)"
    using quote_inv [OF inv t] by blast
  show ?thesis
  proof (cases "two_sided x \<and> dbl_ne (agg_trade_qty_ratio (feature_engine te)) Feature_INVALID \<and>
      dbl_ge (agg_trade_qty_ratio (feature_engine te)) (threshold ?cfg)")
    case True
    show ?thesis
      by (rule with_manager_inv [OF inv _ m(2), of _ reqs]) (use True c m(1) in \<open>auto simp: lt_onTradeUpdate_def\<close>)
  next
    case False
    show ?thesis
      by (rule with_manager_inv [OF inv, of _ "order_manager te" "[]"])
        (use False inv c in \<open>auto simp: lt_onTradeUpdate_def te_inv_same_manager\<close>)
  qed
qed

lemma algoOnOrderBookUpdate_inv:
  assumes "te_inv n te" and "unat tid < n"
  shows "\<exists>te'. algoOnOrderBookUpdate tid x te = Inr te' \<and> te_inv n te'"
  using maker_inv [OF assms] with_manager_inv [OF assms(1), of "\<lambda>check. lt_onOrderBookUpdate" "order_manager te" "[]"] assms(1)
  by (cases "te_algo te") (simp_all add: algoOnOrderBookUpdate_def lt_onOrderBookUpdate_def te_inv_same_manager)

lemma algoOnTradeUpdate_inv:
  assumes "te_inv n te" and "unat (upd_ticker_id u) < n"
  shows "\<exists>te'. algoOnTradeUpdate u x te = Inr te' \<and> te_inv n te'"
  using taker_inv [OF assms] with_manager_inv [OF assms(1), of "\<lambda>check. mm_onTradeUpdate" "order_manager te" "[]"] assms(1)
  by (cases "te_algo te") (simp_all add: algoOnTradeUpdate_def mm_onTradeUpdate_def te_inv_same_manager)

lemma te_onOrderBookUpdate_inv:
  assumes inv: "te_inv n te" and t: "unat tid < n"
  shows "\<exists>te'. te_onOrderBookUpdate tid x te = Inr te' \<and> te_inv n te'"
proof -
  let ?k = "position_keeper te"
  obtain p where p: "pos_updateBBO x (arr_get ?k (unat tid)) = Inr p" "position p = position (arr_get ?k (unat tid))"
    using pos_updateBBO_total [OF te_inv_position(2) [OF inv t]] by blast
  let ?k' = "?k\<lparr>arr_get := (arr_get ?k)(unat tid := p)\<rparr>"
  have k: "keeper_updateBBO tid x ?k = Inr ?k'" using inv t p(1) by (simp add: keeper_updateBBO_def te_inv_def)
  have "te_inv n (te\<lparr>position_keeper := ?k'\<rparr>)" using inv p(2) by (simp add: te_inv_def)
  then have "te_inv n (te\<lparr>position_keeper := ?k', feature_engine := fe_onOrderBookUpdate x (feature_engine te)\<rparr>)"
    by (simp add: te_inv_def)
  from algoOnOrderBookUpdate_inv [OF this t] show ?thesis by (simp add: te_onOrderBookUpdate_def k)
qed

lemma te_onTradeUpdate_inv:
  assumes "te_inv n te" and "unat (upd_ticker_id u) < n"
  shows "\<exists>te'. te_onTradeUpdate u x te = Inr te' \<and> te_inv n te'"
  using algoOnTradeUpdate_inv [of n "te\<lparr>feature_engine := fe_onTradeUpdate u x (feature_engine te)\<rparr>" u x] assms
  by (simp add: te_onTradeUpdate_def te_inv_cong)

lemma algoOnOrderUpdate_slot:
  assumes "om_shape n (order_manager te)" and "unat (rsp_ticker_id r) < n"
  shows "\<exists>om. algoOnOrderUpdate r te = Inr (te\<lparr>order_manager := om\<rparr>) \<and> om_shape n om \<and>
     (\<forall>t s. slot om t s = (if te_algo te \<in> {MAKER, TAKER} \<and> t = unat (rsp_ticker_id r) \<and> s = rsp_side r
        then order_after r (slot (order_manager te) t s) else slot (order_manager te) t s))"
proof (cases "te_algo te \<in> {MAKER, TAKER}")
  case True
  then show ?thesis using onOrderUpdate_slot [OF assms]
    by (auto simp: algoOnOrderUpdate_def mm_onOrderUpdate_def lt_onOrderUpdate_def)
next
  case False
  then have "algoOnOrderUpdate r te = Inr (te\<lparr>order_manager := order_manager te\<rparr>)"
    by (cases "te_algo te") (simp_all add: algoOnOrderUpdate_def)
  then show ?thesis using assms(1) False by (intro exI [of _ "order_manager te"]) auto
qed

lemma expected_filled_side: "expected_response ord r \<Longrightarrow> rsp_type r = FILLED \<Longrightarrow> rsp_side r \<in> {BUY, SELL}"
  by (simp add: expected_response_def)

text \<open>Without an algorithm no order is ever sent, so that no response can change a slot.\<close>

definition idle_ok :: "TradeEngine \<Rightarrow> bool" where
  "idle_ok te \<longleftrightarrow> te_algo te \<notin> {MAKER, TAKER} \<longrightarrow> (\<forall>t s. om_state (slot (order_manager te) t s) = OM_INVALID)"

lemma keeper_response:
  assumes inv: "te_inv n te" and t: "unat (rsp_ticker_id r) < n"
    and ex: "expected_response (slot (order_manager te) (unat (rsp_ticker_id r)) (rsp_side r)) r"
  shows "\<exists>p. (if rsp_type r = FILLED then keeper_addFill r (position_keeper te) else Inr (position_keeper te)) =
       Inr ((position_keeper te)\<lparr>arr_get := (arr_get (position_keeper te))(unat (rsp_ticker_id r) := p)\<rparr>) \<and>
     sint (position p) = pos_after r (sint (position (arr_get (position_keeper te) (unat (rsp_ticker_id r)))))"
proof (cases "rsp_type r = FILLED")
  case True
  let ?t = "unat (rsp_ticker_id r)" and ?k = "position_keeper te"
  let ?p = "arr_get ?k ?t" and ?b = "sint (max_position (arr_get (risk_manager te) ?t))"
  obtain e where e: "uint (rsp_exec_qty r) = e" "0 \<le> e" by simp
  have s: "rsp_side r = BUY \<or> rsp_side r = SELL" using ex True by (auto simp: expected_response_def)
  have x: "exposure_ok ?b (sint (position ?p)) (slot (order_manager te) ?t BUY) (slot (order_manager te) ?t SELL)"
    and c: "cfg_ok (arr_get (risk_manager te) ?t)" using inv t by (auto simp: te_inv_def)
  have bm: "?b \<le> max_abs_position" using c cfg_ok_sint [OF c] by (simp add: cfg_ok_def)
  have x': "exposure_ok ?b (pos_after r (sint (position ?p))) (if rsp_side r = BUY then order_after r (slot (order_manager te) ?t BUY) else slot (order_manager te) ?t BUY)
     (if rsp_side r = SELL then order_after r (slot (order_manager te) ?t SELL) else slot (order_manager te) ?t SELL)"
    using response_exposure [OF x, of r] ex s by auto
  have b: "\<bar>sint (position ?p)\<bar> \<le> ?b" "\<bar>sint (position ?p) + sideToValue (rsp_side r) * uint (rsp_exec_qty r)\<bar> \<le> ?b"
    using exposure_position [OF x] exposure_position [OF x'] True by (simp_all add: pos_after_def)
  then have "e < 2 ^ 31" using s bm e by (auto simp: max_abs_position_def)
  then have "fill_ok (sint (position ?p)) r" using b bm s e(1) by (auto simp: fill_ok_def)
  from addFill_total [OF this] show ?thesis using True inv t by (auto simp: keeper_addFill_def te_inv_def pos_after_def)
next
  case False
  then show ?thesis by (intro exI [of _ "arr_get (position_keeper te) (unat (rsp_ticker_id r))"]) (simp add: pos_after_def)
qed

lemma te_onOrderUpdate_inv:
  assumes inv: "te_inv n te" and idle: "idle_ok te" and t: "unat (rsp_ticker_id r) < n"
    and ex: "expected_response (slot (order_manager te) (unat (rsp_ticker_id r)) (rsp_side r)) r"
  shows "\<exists>te'. te_onOrderUpdate r te = Inr te' \<and> te_inv n te'"
proof -
  let ?t = "unat (rsp_ticker_id r)" and ?om = "order_manager te"
  obtain p where p: "(if rsp_type r = FILLED then keeper_addFill r (position_keeper te) else Inr (position_keeper te)) =
       Inr ((position_keeper te)\<lparr>arr_get := (arr_get (position_keeper te))(?t := p)\<rparr>)"
     "sint (position p) = pos_after r (sint (position (arr_get (position_keeper te) ?t)))"
    using keeper_response [OF inv t ex] by blast
  let ?te = "te\<lparr>position_keeper := (position_keeper te)\<lparr>arr_get := (arr_get (position_keeper te))(?t := p)\<rparr>\<rparr>"
  obtain om where om: "algoOnOrderUpdate r ?te = Inr (?te\<lparr>order_manager := om\<rparr>)" "om_shape n om"
    "\<forall>t s. slot om t s = (if te_algo te \<in> {MAKER, TAKER} \<and> t = ?t \<and> s = rsp_side r then order_after r (slot ?om t s) else slot ?om t s)"
    using algoOnOrderUpdate_slot [of n ?te r] inv t by (auto simp: te_inv_def)
  have same: "order_after r (slot ?om ?t (rsp_side r)) = slot ?om ?t (rsp_side r)" if "te_algo te \<notin> {MAKER, TAKER}"
    using that idle ex by (cases "rsp_type r") (auto simp: idle_ok_def expected_response_def order_after_def)
  have slots: "slot om ?t s = (if s = rsp_side r then order_after r (slot ?om ?t s) else slot ?om ?t s)" for s
    using om(3) same by auto
  have "exposure_ok (sint (max_position (arr_get (risk_manager te) ?t))) (sint (position p)) (slot om ?t BUY) (slot om ?t SELL)"
  proof -
    have "exposure_ok (sint (max_position (arr_get (risk_manager te) ?t))) (sint (position (arr_get (position_keeper te) ?t)))
        (slot ?om ?t BUY) (slot ?om ?t SELL)" using inv t by (simp add: te_inv_def)
    from response_exposure [OF this, of r] show ?thesis
      using ex expected_filled_side [OF ex] p(2) by (cases "rsp_side r") (auto simp: slots)
  qed
  then have "te_inv n (?te\<lparr>order_manager := om\<rparr>)" using inv om(2,3) by (auto simp: te_inv_def)
  then show ?thesis using p(1) om(1) by (simp add: te_onOrderUpdate_def)
qed

lemma onMarketUpdate_event:
  "onMarketUpdate u b = Inr (b', ev) \<Longrightarrow> ev = TradeUpdate u \<or> ev = OrderBookUpdate (upd_ticker_id u) (upd_price u) (upd_side u)"
  by (auto simp: onMarketUpdate_def Let_def rbind_eq_Inr_iff split: if_splits)

lemma processMarketUpdate_inv:
  assumes inv: "te_inv n te" and t: "unat (upd_ticker_id u) < n"
    and b: "onMarketUpdate u (arr_get (te_books te) (unat (upd_ticker_id u))) = Inr (book, ev)"
  shows "\<exists>te'. processMarketUpdate now u te = Inr te' \<and> te_inv n te'"
proof -
  let ?t = "unat (upd_ticker_id u)"
  let ?te = "te\<lparr>te_books := (te_books te)\<lparr>arr_get := (arr_get (te_books te))(?t := book)\<rparr>\<rparr>"
  have i: "te_inv n ?te" and sz: "?t < arr_size (te_books te)" using inv t by (simp_all add: te_inv_def)
  have "\<exists>te'. (case ev of TradeUpdate u \<Rightarrow> te_onTradeUpdate u (bbo book) ?te
      | OrderBookUpdate tid price side \<Rightarrow> te_onOrderBookUpdate tid (bbo book) ?te) = Inr te' \<and> te_inv n te'"
    using onMarketUpdate_event [OF b] te_onTradeUpdate_inv [OF i t] te_onOrderBookUpdate_inv [OF i t] by auto
  then show ?thesis using sz b by (auto simp: processMarketUpdate_def Let_def te_inv_cong)
qed

section \<open>What the handlers leave alone\<close>

definition te_frame :: "TradeEngine \<Rightarrow> TradeEngine \<Rightarrow> bool" where
  "te_frame te te' \<longleftrightarrow> risk_manager te' = risk_manager te \<and> te_algo te' = te_algo te \<and>
     (te_algo te \<notin> {MAKER, TAKER} \<longrightarrow> order_manager te' = order_manager te)"

lemma with_manager_frame: "with_manager f te = Inr te' \<Longrightarrow> te_algo te \<in> {MAKER, TAKER} \<Longrightarrow> te_frame te te'"
  by (auto simp: with_manager_def rbind_eq_Inr_iff send_requests_same te_frame_def)

lemma algoOnOrderBookUpdate_frame: "algoOnOrderBookUpdate tid x te = Inr te' \<Longrightarrow> te_frame te te'"
  by (cases "te_algo te") (auto simp: algoOnOrderBookUpdate_def te_frame_def dest: with_manager_frame)

lemma algoOnTradeUpdate_frame: "algoOnTradeUpdate u x te = Inr te' \<Longrightarrow> te_frame te te'"
  by (cases "te_algo te") (auto simp: algoOnTradeUpdate_def te_frame_def dest: with_manager_frame)

lemma te_onOrderUpdate_frame: "te_onOrderUpdate r te = Inr te' \<Longrightarrow> te_frame te te'"
  by (cases "te_algo te") (auto simp: te_onOrderUpdate_def algoOnOrderUpdate_def rbind_eq_Inr_iff te_frame_def)

lemma processMarketUpdate_frame:
  assumes "processMarketUpdate now u te = Inr te'"
  shows "te_frame te te'"
proof -
  obtain books x ev te2 where e: "(case ev of TradeUpdate u \<Rightarrow> te_onTradeUpdate u x (te\<lparr>te_books := books\<rparr>)
      | OrderBookUpdate tid price side \<Rightarrow> te_onOrderBookUpdate tid x (te\<lparr>te_books := books\<rparr>)) = Inr te2"
    "te' = te2\<lparr>last_event_time := now\<rparr>"
    using assms by (auto simp: processMarketUpdate_def Let_def rbind_eq_Inr_iff)
  then have "te_frame te te2"
    by (cases ev) (auto simp: te_onTradeUpdate_def te_onOrderBookUpdate_def rbind_eq_Inr_iff te_frame_def
        dest!: algoOnTradeUpdate_frame algoOnOrderBookUpdate_frame)
  then show ?thesis using e(2) by (simp add: te_frame_def)
qed

section \<open>All runs\<close>

text \<open>
  The runs of a trade engine: it processes any market update its book can take, and any response that an
  exchange can send for the order the engine has in that slot.
\<close>

inductive te_step :: "TradeEngine \<Rightarrow> TradeEngine \<Rightarrow> bool" where
  market: "processMarketUpdate now u te = Inr te' \<Longrightarrow> te_step te te'"
| response: "unat (rsp_ticker_id r) < arr_size (te_books te) \<Longrightarrow>
    expected_response (slot (order_manager te) (unat (rsp_ticker_id r)) (rsp_side r)) r \<Longrightarrow>
    te_onOrderUpdate r te = Inr te' \<Longrightarrow> te_step te te'"

inductive te_reachable :: "TradeEngine \<Rightarrow> TradeEngine \<Rightarrow> bool" for e0 where
  init: "te_reachable e0 e0"
| step: "te_reachable e0 te \<Longrightarrow> te_step te te' \<Longrightarrow> te_reachable e0 te'"

definition te_good :: "nat \<Rightarrow> TradeEngine \<Rightarrow> TradeEngine \<Rightarrow> bool" where
  "te_good n e0 te \<longleftrightarrow> te_inv n te \<and> idle_ok te \<and> risk_manager te = risk_manager e0"

lemma processMarketUpdate_succeeded:
  assumes "te_inv n te" and "processMarketUpdate now u te = Inr te'"
  shows "te_inv n te'"
proof -
  have "unat (upd_ticker_id u) < arr_size (te_books te)"
    using assms(2) by (auto simp: processMarketUpdate_def Let_def rbind_eq_Inr_iff)
  moreover from this have "\<exists>y. onMarketUpdate u (arr_get (te_books te) (unat (upd_ticker_id u))) = Inr y"
    using assms(2) by (cases "onMarketUpdate u (arr_get (te_books te) (unat (upd_ticker_id u)))")
      (simp_all add: processMarketUpdate_def Let_def)
  moreover have "arr_size (te_books te) = n" using assms(1) by (simp add: te_inv_def)
  ultimately show ?thesis using processMarketUpdate_inv [OF assms(1), of u _ _ now] assms(2) by fastforce
qed

lemma te_step_good:
  assumes "te_good n e0 te" and "te_step te te'"
  shows "te_good n e0 te'"
  using assms(2)
proof cases
  case (market now u)
  then show ?thesis using assms(1) processMarketUpdate_succeeded [of n te now u te'] processMarketUpdate_frame [of now u te te']
    by (auto simp: te_good_def te_frame_def idle_ok_def)
next
  case (response r)
  then have "te_inv n te'" using assms(1) te_onOrderUpdate_inv [of n te r] by (fastforce simp: te_good_def te_inv_def)
  then show ?thesis using assms(1) te_onOrderUpdate_frame [OF response(3)] by (auto simp: te_good_def te_frame_def idle_ok_def)
qed

lemma te_reachable_good: "te_reachable e0 te \<Longrightarrow> te_good n e0 e0 \<Longrightarrow> te_good n e0 te"
  by (induction rule: te_reachable.induct) (auto intro: te_step_good)

text \<open>The runs in executable form.\<close>

datatype te_input = Market Nanos MEMarketUpdate | Reply MEClientResponse

definition te_accept :: "te_input \<Rightarrow> TradeEngine \<Rightarrow> TradeEngine option" where
  "te_accept inp te =
     (case inp of
        Market now u \<Rightarrow> (case processMarketUpdate now u te of Inr te' \<Rightarrow> Some te' | Inl _ \<Rightarrow> None)
      | Reply r \<Rightarrow>
          if unat (rsp_ticker_id r) < arr_size (te_books te) \<and>
             expected_response (slot (order_manager te) (unat (rsp_ticker_id r)) (rsp_side r)) r
          then (case te_onOrderUpdate r te of Inr te' \<Rightarrow> Some te' | Inl _ \<Rightarrow> None)
          else None)"

fun te_drive :: "te_input list \<Rightarrow> TradeEngine \<Rightarrow> TradeEngine option" where
  "te_drive [] te = Some te"
| "te_drive (inp # ins) te = Option.bind (te_accept inp te) (te_drive ins)"

lemma te_accept_step: "te_accept inp te = Some te' \<Longrightarrow> te_step te te'"
  by (auto simp: te_accept_def split: te_input.splits sum.splits if_splits intro: te_step.intros)

lemma te_drive_reachable: "te_drive ins te = Some te' \<Longrightarrow> te_reachable e0 te \<Longrightarrow> te_reachable e0 te'"
  by (induction ins arbitrary: te) (auto simp: bind_eq_Some_conv dest!: te_accept_step intro: te_reachable.step)

lemma te_good_new:
  assumes "arr_size ticker_cfg = ME_MAX_TICKERS limits" and "\<forall>t<ME_MAX_TICKERS limits. cfg_ok (risk_cfg (arr_get ticker_cfg t))"
  shows "te_good (ME_MAX_TICKERS limits) (TradeEngine_new limits cid algo ticker_cfg mem rq rs mu) (TradeEngine_new limits cid algo ticker_cfg mem rq rs mu)"
  using assms OrderManager_new_shape(1) [of limits]
  by (auto simp: te_good_def te_inv_def idle_ok_def TradeEngine_new_def OrderManager_new_shape(2) OMOrder_default_def
      PositionKeeper_new_def PositionInfo_new_def RiskManager_new_def exposure_ok_def out_qty_def cfg_ok_sint)


definition two_tickers :: Limits where
  "two_tickers = \<lparr>ME_MAX_TICKERS = 2, ME_MAX_CLIENT_UPDATES = 8, ME_MAX_MARKET_UPDATES = 8,
     ME_MAX_NUM_CLIENTS = 4, ME_MAX_ORDER_IDS = 4, ME_MAX_PRICE_LEVELS = 4\<rparr>"

definition a_quote :: "Side \<Rightarrow> OrderId \<Rightarrow> Price \<Rightarrow> MEMarketUpdate" where
  "a_quote side oid price = \<lparr>upd_type = ADD, upd_order_id = oid, upd_ticker_id = 0, upd_side = side, upd_price = price,
     upd_qty = 5, upd_priority = 1\<rparr>"

definition a_reply :: "ClientResponseType \<Rightarrow> Qty \<Rightarrow> Qty \<Rightarrow> MEClientResponse" where
  "a_reply ty exec leaves = \<lparr>rsp_type = ty, rsp_client_id = 3, rsp_ticker_id = 0, rsp_client_order_id = 1, rsp_market_order_id = 1,
     rsp_side = BUY, rsp_price = 10, rsp_exec_qty = exec, rsp_leaves_qty = leaves\<rparr>"

definition an_engine :: TradeEngine where
  "an_engine = TradeEngine_new two_tickers 3 MAKER (arr_fill 2 a_trading_cfg) (\<lambda>_ _. 0)
     (LFQueue_new 8 \<lparr>req_type = Request_INVALID, req_client_id = 0, req_ticker_id = 0, req_order_id = 0, req_side = BUY,
        req_price = 0, req_qty = 0\<rparr>)
     (LFQueue_new 8 (a_reply ACCEPTED 0 0)) (LFQueue_new 8 MEMarketUpdate_default)"

definition an_input :: "te_input list" where
  "an_input = [Market 1 (a_quote BUY 1 10), Market 2 (a_quote SELL 2 13), Reply (a_reply ACCEPTED 0 5), Reply (a_reply FILLED 3 2)]"

text \<open>A market maker sees a bid and an offer, quotes, and buys three: its position is 3, with 2 more outstanding.\<close>

lemma an_input_runs:
  "map_option (\<lambda>te. (sint (position (arr_get (position_keeper te) 0)), out_qty (slot (order_manager te) 0 BUY))) (te_drive an_input an_engine) =
     Some (3, 2)"
  by code_simp

lemma a_trading_cfg_ok: "\<forall>t<2. cfg_ok (risk_cfg (arr_get (arr_fill 2 a_trading_cfg) t))"
  by (simp add: cfg_ok_def a_trading_cfg_def a_risk_cfg_def max_abs_position_def)

lemma an_input_reaches:
  obtains te where "te_reachable an_engine te" and "sint (position (arr_get (position_keeper te) 0)) = 3"
    and "out_qty (slot (order_manager te) 0 BUY) = 2"
  using an_input_runs te_drive_reachable [OF _ te_reachable.init] by auto




end
