(* ===== verification/FIFO_Sequencer.thy ===== *)
theory FIFO_Sequencer
  imports Order_Types LF_Queue
begin

text \<open>
  \<open>Exchange::FIFOSequencer\<close> (\<open>exchange/order_server/fifo_sequencer.h\<close>): collects the requests read from
  all connections in one round and publishes them to the matching engine by receive time.  It sorts
  with \<open>std::sort\<close>, of which only the documented contract is used: the result is an ordered
  permutation, and nothing is said about elements that compare equal.
\<close>

record RecvTimeClientRequest =
  recv_time :: Nanos
  rt_request :: MEClientRequest

record FIFOSequencer =
  seq_incoming_requests :: "MEClientRequest LFQueue"
  pending_client_requests :: "RecvTimeClientRequest arr"
  pending_size :: nat

definition FIFOSequencer_new :: "nat \<Rightarrow> RecvTimeClientRequest \<Rightarrow> MEClientRequest LFQueue \<Rightarrow> FIFOSequencer" where
  "FIFOSequencer_new max_pending d client_requests =
     \<lparr>seq_incoming_requests = client_requests, pending_client_requests = arr_fill max_pending d, pending_size = 0\<rparr>"

definition addClientRequest :: "Nanos \<Rightarrow> MEClientRequest \<Rightarrow> FIFOSequencer \<Rightarrow> FIFOSequencer res" where
  "addClientRequest rx_time request f =
     (if pending_size f \<ge> arr_size (pending_client_requests f) then FATAL ''Too many pending requests''
      else
        rbind (arr_put (pending_size f) \<lparr>recv_time = rx_time, rt_request = request\<rparr> (pending_client_requests f)) (\<lambda>a.
        Inr (f\<lparr>pending_client_requests := a, pending_size := pending_size f + 1\<rparr>)))"

text \<open>The pending requests, and the contract of \<open>std::sort\<close> with \<open>operator<\<close> on the receive time.\<close>

definition pending :: "FIFOSequencer \<Rightarrow> RecvTimeClientRequest list" where
  "pending f = map (arr_get (pending_client_requests f)) [0..<pending_size f]"

type_synonym sorter = "RecvTimeClientRequest list \<Rightarrow> RecvTimeClientRequest list"

definition std_sort :: "sorter \<Rightarrow> bool" where
  "std_sort srt \<longleftrightarrow> (\<forall>xs. mset (srt xs) = mset xs \<and> sorted (map recv_time (srt xs)))"

definition sequenceAndPublish :: "sorter \<Rightarrow> FIFOSequencer \<Rightarrow> FIFOSequencer" where
  "sequenceAndPublish srt f =
     (if pending_size f = 0 then f
      else
        let sorted_requests = srt (pending f) in
        f\<lparr>pending_client_requests := (pending_client_requests f)\<lparr>arr_get := (\<lambda>i.
             if i < pending_size f then sorted_requests ! i else arr_get (pending_client_requests f) i)\<rparr>,
          seq_incoming_requests :=
            fold (\<lambda>client_request. lfq_push (rt_request client_request)) sorted_requests (seq_incoming_requests f),
          pending_size := 0\<rparr>)"

section \<open>Behaviour\<close>

lemma addClientRequest_ok:
  assumes "pending_size f < arr_size (pending_client_requests f)"
  obtains f' where "addClientRequest t r f = Inr f'" and "pending f' = pending f @ [\<lparr>recv_time = t, rt_request = r\<rparr>]"
    and "seq_incoming_requests f' = seq_incoming_requests f"
    and "arr_size (pending_client_requests f') = arr_size (pending_client_requests f)"
    and "pending_size f' = pending_size f + 1"
proof (rule that)
  let ?a = "(pending_client_requests f)\<lparr>arr_get := (arr_get (pending_client_requests f))
    (pending_size f := \<lparr>recv_time = t, rt_request = r\<rparr>)\<rparr>"
  show "addClientRequest t r f = Inr (f\<lparr>pending_client_requests := ?a, pending_size := pending_size f + 1\<rparr>)"
    using assms by (simp add: addClientRequest_def)
qed (auto simp: pending_def)

definition add_all :: "(Nanos \<times> MEClientRequest) list \<Rightarrow> FIFOSequencer \<Rightarrow> FIFOSequencer res" where
  "add_all rs f = rfold (\<lambda>(t, r). addClientRequest t r) rs f"

lemma add_all_ok:
  assumes "pending_size f + length rs \<le> arr_size (pending_client_requests f)"
  shows "\<exists>f'. add_all rs f = Inr f' \<and> pending f' = pending f @ map (\<lambda>(t, r). \<lparr>recv_time = t, rt_request = r\<rparr>) rs \<and>
     seq_incoming_requests f' = seq_incoming_requests f \<and> pending_size f' = pending_size f + length rs"
  using assms
proof (induction rs arbitrary: f)
  case (Cons x rs)
  obtain t r where x: "x = (t, r)" by (cases x)
  obtain f1 where f1: "addClientRequest t r f = Inr f1" "pending f1 = pending f @ [\<lparr>recv_time = t, rt_request = r\<rparr>]"
    "seq_incoming_requests f1 = seq_incoming_requests f"
    "arr_size (pending_client_requests f1) = arr_size (pending_client_requests f)" "pending_size f1 = pending_size f + 1"
    using addClientRequest_ok [of f t r] Cons.prems by auto
  show ?case using Cons.IH [of f1] Cons.prems f1 x by (auto simp: add_all_def)
qed (simp add: add_all_def)

lemma publish_fold: "fold (\<lambda>c. lfq_push (rt_request c)) xs q = fold lfq_push (map rt_request xs) q"
  by (induction xs arbitrary: q) simp_all

lemma sequenceAndPublish_items:
  assumes srt: "std_sort srt" and inv: "lfq_inv (seq_incoming_requests f)"
    and room: "length (lfq_items (seq_incoming_requests f)) + pending_size f \<le> lfq_cap (seq_incoming_requests f)"
  shows "\<exists>xs. mset xs = mset (pending f) \<and> sorted (map recv_time xs) \<and> pending_size (sequenceAndPublish srt f) = 0 \<and>
     lfq_items (seq_incoming_requests (sequenceAndPublish srt f)) =
       lfq_items (seq_incoming_requests f) @ map rt_request xs"
proof (cases "pending_size f = 0")
  case True
  then show ?thesis by (intro exI [of _ "[]"]) (simp add: sequenceAndPublish_def pending_def)
next
  case False
  let ?xs = "srt (pending f)"
  have m: "mset ?xs = mset (pending f)" and s: "sorted (map recv_time ?xs)" using srt by (auto simp: std_sort_def)
  from arg_cong [OF m, of size] have "length ?xs = pending_size f" by (simp add: pending_def)
  then have "length (lfq_items (seq_incoming_requests f)) + length (map rt_request ?xs) \<le> lfq_cap (seq_incoming_requests f)"
    using room by simp
  from lfq.push_all [OF inv this] show ?thesis using False m s
    by (intro exI [of _ ?xs]) (simp add: sequenceAndPublish_def Let_def publish_fold)
qed

text \<open>A single request is published as it is, however the sort breaks ties.\<close>

lemma publish_single:
  assumes "std_sort srt" and "pending f = [x]"
  shows "seq_incoming_requests (sequenceAndPublish srt f) = lfq_push (rt_request x) (seq_incoming_requests f)"
proof -
  have "mset (srt [x]) = mset [x]" using assms(1) unfolding std_sort_def by blast
  then have "srt [x] = [x]" by simp
  moreover have "pending_size f \<noteq> 0" using assms(2) by (cases "pending_size f") (simp_all add: pending_def)
  ultimately show ?thesis using assms(2) by (simp add: sequenceAndPublish_def)
qed

text \<open>
  C29: the sequencer publishes what it collected, ordered by receive time.  A batch that fits its buffer
  and the queue is appended to the matching engine's queue as a permutation of the batch whose receive
  times ascend, and nothing stays pending.
\<close>

theorem sequencer_orders_by_time:
  assumes "std_sort srt" and "lfq_inv (seq_incoming_requests f)" and "pending_size f = 0"
    and "length rs \<le> arr_size (pending_client_requests f)"
    and "length (lfq_items (seq_incoming_requests f)) + length rs \<le> lfq_cap (seq_incoming_requests f)"
  shows "\<exists>f' xs. add_all rs f = Inr f' \<and> mset xs = mset rs \<and> sorted (map fst xs) \<and>
     pending_size (sequenceAndPublish srt f') = 0 \<and>
     lfq_items (seq_incoming_requests (sequenceAndPublish srt f')) = lfq_items (seq_incoming_requests f) @ map snd xs"
proof -
  let ?m = "\<lambda>(t, r). \<lparr>recv_time = t, rt_request = r\<rparr>" and ?u = "\<lambda>x. (recv_time x, rt_request x)"
  obtain f' where f': "add_all rs f = Inr f'" "pending f' = map ?m rs"
    "seq_incoming_requests f' = seq_incoming_requests f" "pending_size f' = length rs"
    using add_all_ok [of f rs] assms(3,4) by (auto simp: pending_def)
  obtain ys where ys: "mset ys = mset (pending f')" "sorted (map recv_time ys)"
    "pending_size (sequenceAndPublish srt f') = 0"
    "lfq_items (seq_incoming_requests (sequenceAndPublish srt f')) = lfq_items (seq_incoming_requests f) @ map rt_request ys"
    using sequenceAndPublish_items [OF assms(1), of f'] assms(2,5) f'(3,4) by auto
  have "mset (map ?u ys) = image_mset ?u (mset (pending f'))" using ys(1) by simp
  also have "\<dots> = mset (map ?u (map ?m rs))" by (simp only: f'(2) mset_map)
  also have "map ?u (map ?m rs) = rs" by (induction rs) auto
  finally show ?thesis using f'(1) ys by (intro exI [of _ f'] exI [of _ "map ?u ys"]) (simp add: comp_def)
qed

definition a_request :: "OrderId \<Rightarrow> MEClientRequest" where
  "a_request oid = \<lparr>req_type = Request_NEW, req_client_id = 1, req_ticker_id = 0, req_order_id = oid, req_side = BUY,
     req_price = 10, req_qty = 5\<rparr>"

definition a_sequencer :: FIFOSequencer where
  "a_sequencer = FIFOSequencer_new 4 \<lparr>recv_time = 0, rt_request = a_request 0\<rparr> (LFQueue_new 4 (a_request 0))"

lemma a_sequencer_facts:
  "pending_size a_sequencer = 0" "pending a_sequencer = []" "arr_size (pending_client_requests a_sequencer) = 4"
  "seq_incoming_requests a_sequencer = LFQueue_new 4 (a_request 0)"
  by (simp_all add: a_sequencer_def FIFOSequencer_new_def pending_def)

lemma std_sort_key: "std_sort (sort_key recv_time)"
  by (simp add: std_sort_def)

theorem sequencer_orders_by_time_witness:
  "\<exists>f' xs. add_all [(9, a_request 1), (4, a_request 2)] a_sequencer = Inr f' \<and>
     mset xs = mset [(9 :: Nanos, a_request 1), (4, a_request 2)] \<and> sorted (map fst xs) \<and>
     lfq_items (seq_incoming_requests (sequenceAndPublish (sort_key recv_time) f')) = map snd xs"
proof -
  let ?rs = "[(9, a_request 1), (4, a_request 2)] :: (Nanos \<times> MEClientRequest) list"
  have "lfq_inv (seq_incoming_requests a_sequencer)" by (simp add: a_sequencer_facts lfq_inv_new)
  from sequencer_orders_by_time [OF std_sort_key this, of ?rs] show ?thesis
    unfolding a_sequencer_facts by simp blast
qed

text \<open>
  requests of one read share their receive time, and \<open>std::sort\<close> may permute them: there is a sort
  function that meets its contract and with which two requests received in the order 1, 2 reach the
  matching engine in the order 2, 1.
\<close>

theorem sequencer_may_reorder:
  "\<exists>srt f'. std_sort srt \<and> add_all [(7, a_request 1), (7, a_request 2)] a_sequencer = Inr f' \<and>
     lfq_items (seq_incoming_requests (sequenceAndPublish srt f')) = [a_request 2, a_request 1]"
proof -
  let ?srt = "\<lambda>xs. sort_key recv_time (rev xs)"
  have srt: "std_sort ?srt" by (simp add: std_sort_def)
  let ?m = "\<lambda>(t, r). \<lparr>recv_time = t, rt_request = r\<rparr>"
  obtain f' where f': "add_all [(7, a_request 1), (7, a_request 2)] a_sequencer = Inr f'"
    "pending f' = map ?m [(7, a_request 1), (7, a_request 2)]"
    "seq_incoming_requests f' = seq_incoming_requests a_sequencer" "pending_size f' = 2"
    using add_all_ok [of a_sequencer "[(7, a_request 1), (7, a_request 2)]"] unfolding a_sequencer_facts by auto
  have q: "lfq_inv (LFQueue_new 4 (a_request 0))" by (simp add: lfq_inv_new)
  have "lfq_items (seq_incoming_requests (sequenceAndPublish ?srt f')) =
      lfq_items (fold lfq_push [a_request 2, a_request 1] (LFQueue_new 4 (a_request 0)))"
    using f'(2-4) by (simp add: sequenceAndPublish_def a_sequencer_facts)
  also have "\<dots> = [a_request 2, a_request 1]"
    using lfq.push_all [OF q, of "[a_request 2, a_request 1]"] by simp
  finally show ?thesis using srt f'(1) by blast
qed

end
