(* ===== verification/Order_Server.thy ===== *)
theory Order_Server
  imports FIFO_Sequencer Sockets
begin

text \<open>
  \<open>Exchange::OrderServer\<close> (\<open>exchange/order_server/order_server.h\<close>, \<open>order_server.cpp\<close>): reads client
  requests from the TCP connections, checks the connection and the sequence number of each, hands them
  to the FIFO sequencer, and sends the responses of the matching engine back with sequence numbers of
  their own.
\<close>

section \<open>State and operations\<close>

record OrderServer =
  outgoing_responses :: "MEClientResponse LFQueue"
  cid_next_outgoing_seq_num :: "SeqNum arr"
  cid_next_exp_seq_num :: "SeqNum arr"
  cid_tcp_socket :: "ptr arr"
  tcp_server :: TCPServer
  fifo_sequencer :: FIFOSequencer

definition OrderServer_new ::
  "Limits \<Rightarrow> nat \<Rightarrow> FIFOSequencer \<Rightarrow> MEClientResponse LFQueue \<Rightarrow> OrderServer" where
  "OrderServer_new limits TCPBufferSize sequencer client_responses =
     \<lparr>outgoing_responses = client_responses, cid_next_outgoing_seq_num = arr_fill (ME_MAX_NUM_CLIENTS limits) 1,
      cid_next_exp_seq_num = arr_fill (ME_MAX_NUM_CLIENTS limits) 1,
      cid_tcp_socket = arr_fill (ME_MAX_NUM_CLIENTS limits) None,
      tcp_server = TCPServer_new TCPBufferSize, fifo_sequencer = sequencer\<rparr>"

text \<open>
  The body of the loop of \<open>recvCallback()\<close> for one request read from socket \<open>s\<close>.  Both \<open>continue\<close>
  statements drop the request.
\<close>

definition handle_request :: "nat \<Rightarrow> Nanos \<Rightarrow> OMClientRequest \<Rightarrow> OrderServer \<Rightarrow> OrderServer res" where
  "handle_request s rx_time request srv =
     (let me_request = omreq_request request; cid = unat (req_client_id me_request) in
      rbind (arr_index (cid_tcp_socket srv) cid) (\<lambda>p.
      rbind (if p = None then arr_store cid (Some s) (cid_tcp_socket srv) else Inr (cid_tcp_socket srv)) (\<lambda>socks.
        let srv = srv\<lparr>cid_tcp_socket := socks\<rparr> in
        if arr_get socks cid \<noteq> Some s then Inr srv
        else
          rbind (arr_index (cid_next_exp_seq_num srv) cid) (\<lambda>next_exp_seq_num.
            if omreq_seq_num request \<noteq> next_exp_seq_num then Inr srv
            else
              rbind (arr_store cid (next_exp_seq_num + 1) (cid_next_exp_seq_num srv)) (\<lambda>exps.
              rbind (addClientRequest rx_time me_request (fifo_sequencer srv)) (\<lambda>f.
              Inr (srv\<lparr>cid_next_exp_seq_num := exps, fifo_sequencer := f\<rparr>)))))))"

text \<open>The loop over the complete requests in the receive buffer; the rest of the bytes stays.\<close>

definition recv_requests :: "nat \<Rightarrow> Nanos \<Rightarrow> byte list \<Rightarrow> OrderServer \<Rightarrow> (byte list \<times> OrderServer) res" where
  "recv_requests s rx_time =
     frames sizeof_OMClientRequest (\<lambda>m. handle_request s rx_time (decode_request m))"

definition recvCallback :: "nat \<Rightarrow> OrderServer recv_callback" where
  "recvCallback s sock rx_time srv =
     rbind (recv_requests s rx_time (take (next_rcv_valid_index sock) (inbound_data sock)) srv) (\<lambda>(rest, srv).
     Inr (sock\<lparr>inbound_data := put_bytes 0 rest (inbound_data sock), next_rcv_valid_index := length rest\<rparr>, srv))"

definition recvFinishedCallback :: "sorter \<Rightarrow> OrderServer \<Rightarrow> OrderServer res" where
  "recvFinishedCallback srt srv = Inr (srv\<lparr>fifo_sequencer := sequenceAndPublish srt (fifo_sequencer srv)\<rparr>)"

text \<open>
  The body of the loop of \<open>run()\<close> over the responses: sequence number and response are written to the
  client's socket.
\<close>

definition send_response :: "MEClientResponse \<Rightarrow> OrderServer \<Rightarrow> OrderServer res" where
  "send_response client_response srv =
     (let cid = unat (rsp_client_id client_response) in
      rbind (arr_index (cid_next_outgoing_seq_num srv) cid) (\<lambda>seq.
      rbind (arr_index (cid_tcp_socket srv) cid) (\<lambda>p.
      rbind (case p of None \<Rightarrow> Inl (AssertFailed ''Dont have a TCPSocket for ClientId'') | Some s \<Rightarrow> Inr s) (\<lambda>s.
      rbind (tcp_send (take 8 (encode_response \<lparr>omrsp_seq_num = seq, omrsp_response = client_response\<rparr>))
               (tcp_sockets (tcp_server srv) s)) (\<lambda>sock.
      rbind (tcp_send (drop 8 (encode_response \<lparr>omrsp_seq_num = seq, omrsp_response = client_response\<rparr>)) sock) (\<lambda>sock.
      rbind (updateReadIndex (outgoing_responses srv)) (\<lambda>q.
      rbind (arr_store cid (seq + 1) (cid_next_outgoing_seq_num srv)) (\<lambda>seqs.
      Inr (srv\<lparr>tcp_server := (tcp_server srv)\<lparr>tcp_sockets := (tcp_sockets (tcp_server srv))(s := sock)\<rparr>,
               outgoing_responses := q, cid_next_outgoing_seq_num := seqs\<rparr>)))))))))"

text \<open>The loop itself; the argument bounds the iterations by the number of responses in the queue.\<close>

fun send_responses :: "nat \<Rightarrow> OrderServer \<Rightarrow> OrderServer res" where
  "send_responses 0 srv = Inr srv"
| "send_responses (Suc n) srv =
     (case lfq_front (outgoing_responses srv) of
        None \<Rightarrow> Inr srv
      | Some client_response \<Rightarrow> rbind (send_response client_response srv) (send_responses n))"

text \<open>One iteration of the loop of \<open>run()\<close>: poll, send and receive on all sockets, send the responses.\<close>

definition order_server_run_once ::
  "sorter \<Rightarrow> nat \<Rightarrow> epoll_event list \<Rightarrow> (int \<times> bool \<times> bool) list \<Rightarrow> (nat \<Rightarrow> recv_result list) \<Rightarrow>
   (nat \<Rightarrow> send_result list) \<Rightarrow> (nat \<Rightarrow> recv_result list) \<Rightarrow> (nat \<Rightarrow> send_result list) \<Rightarrow> OrderServer \<Rightarrow>
   (OrderServer \<times> (nat \<Rightarrow> byte list)) res" where
  "order_server_run_once srt n events accepts recvs sends recvs' sends' srv =
     rbind (tcp_poll n events accepts (tcp_server srv)) (\<lambda>net.
     rbind (tcp_server_sendAndRecv recvCallback (recvFinishedCallback srt) recvs sends recvs' sends' net srv) (\<lambda>(net, srv, wires).
       let srv = srv\<lparr>tcp_server := net\<rparr> in
       rbind (send_responses (lfq_size (outgoing_responses srv)) srv) (\<lambda>srv. Inr (srv, wires))))"

section \<open>Framing\<close>

lemma recv_requests_short [simp]: "length bs < sizeof_OMClientRequest \<Longrightarrow> recv_requests s t bs srv = Inr (bs, srv)"
  by (simp add: recv_requests_def)


section \<open>Sequence numbers\<close>

definition numbered :: "SeqNum \<Rightarrow> MEClientRequest list \<Rightarrow> OMClientRequest list" where
  "numbered k rs = map (\<lambda>(i, r). \<lparr>omreq_seq_num = k + of_nat i, omreq_request = r\<rparr>) (enumerate 0 rs)"

lemma numbered_Cons: "numbered k (r # rs) = \<lparr>omreq_seq_num = k, omreq_request = r\<rparr> # numbered (k + 1) rs"
  by (simp add: numbered_def enumerate_Suc_eq comp_def case_prod_unfold add.assoc add.commute)

definition client_ok :: "nat \<Rightarrow> nat \<Rightarrow> SeqNum \<Rightarrow> OrderServer \<Rightarrow> bool" where
  "client_ok s cid k srv \<longleftrightarrow>
     cid < arr_size (cid_tcp_socket srv) \<and> cid < arr_size (cid_next_exp_seq_num srv) \<and>
     arr_get (cid_tcp_socket srv) cid \<in> {None, Some s} \<and> arr_get (cid_next_exp_seq_num srv) cid = k"

text \<open>Receiving requests of a client touches neither the sockets nor the responses, and no other client's connection.\<close>

definition only_client :: "nat \<Rightarrow> nat \<Rightarrow> OrderServer \<Rightarrow> OrderServer \<Rightarrow> bool" where
  "only_client s cid srv srv' \<longleftrightarrow>
     tcp_server srv' = tcp_server srv \<and> outgoing_responses srv' = outgoing_responses srv \<and>
     cid_next_outgoing_seq_num srv' = cid_next_outgoing_seq_num srv \<and>
     seq_incoming_requests (fifo_sequencer srv') = seq_incoming_requests (fifo_sequencer srv) \<and>
     arr_size (cid_tcp_socket srv') = arr_size (cid_tcp_socket srv) \<and>
     (\<forall>d. d \<noteq> cid \<or> arr_get (cid_tcp_socket srv) d = Some s \<longrightarrow> arr_get (cid_tcp_socket srv') d = arr_get (cid_tcp_socket srv) d)"

lemma only_client_trans: "only_client s cid srv srv' \<Longrightarrow> only_client s cid srv' srv'' \<Longrightarrow> only_client s cid srv srv''"
  by (auto simp: only_client_def)

lemma handle_request_ok:
  assumes "client_ok s cid k srv" and "unat (req_client_id r) = cid"
    and "pending_size (fifo_sequencer srv) < arr_size (pending_client_requests (fifo_sequencer srv))"
  shows "\<exists>srv'. handle_request s t \<lparr>omreq_seq_num = k, omreq_request = r\<rparr> srv = Inr srv' \<and> client_ok s cid (k + 1) srv' \<and>
     pending (fifo_sequencer srv') = pending (fifo_sequencer srv) @ [\<lparr>recv_time = t, rt_request = r\<rparr>] \<and>
     arr_size (pending_client_requests (fifo_sequencer srv')) = arr_size (pending_client_requests (fifo_sequencer srv)) \<and>
     pending_size (fifo_sequencer srv') = pending_size (fifo_sequencer srv) + 1 \<and> only_client s cid srv srv'"
proof -
  obtain f' where f': "addClientRequest t r (fifo_sequencer srv) = Inr f'"
    "pending f' = pending (fifo_sequencer srv) @ [\<lparr>recv_time = t, rt_request = r\<rparr>]"
    "seq_incoming_requests f' = seq_incoming_requests (fifo_sequencer srv)"
    "arr_size (pending_client_requests f') = arr_size (pending_client_requests (fifo_sequencer srv))"
    "pending_size f' = pending_size (fifo_sequencer srv) + 1"
    using addClientRequest_ok [OF assms(3)] by blast
  show ?thesis using assms(1,2) f' by (auto simp: handle_request_def client_ok_def only_client_def Let_def)
qed

lemma recv_encoded:
  assumes "is_int64 (req_price (omreq_request m))"
  shows "recv_requests s t (encode_request m @ bs) srv = rbind (handle_request s t m srv) (recv_requests s t bs)"
  using assms unfolding recv_requests_def
  by (subst frames_Cons) (simp_all add: decode_encode_request sizeof_OMClientRequest_def recv_requests_def)

lemma recv_numbered:
  assumes "client_ok s cid k srv" and "\<forall>r\<in>set rs. unat (req_client_id r) = cid \<and> is_int64 (req_price r)"
    and "pending_size (fifo_sequencer srv) + length rs \<le> arr_size (pending_client_requests (fifo_sequencer srv))"
  shows "\<exists>srv'. recv_requests s t (concat (map encode_request (numbered k rs))) srv = Inr ([], srv') \<and>
     client_ok s cid (k + of_nat (length rs)) srv' \<and>
     pending (fifo_sequencer srv') = pending (fifo_sequencer srv) @ map (\<lambda>r. \<lparr>recv_time = t, rt_request = r\<rparr>) rs \<and>
     pending_size (fifo_sequencer srv') = pending_size (fifo_sequencer srv) + length rs \<and> only_client s cid srv srv'"
  using assms
proof (induction rs arbitrary: k srv)
  case Nil
  then show ?case by (simp add: numbered_def sizeof_OMClientRequest_def only_client_def)
next
  case (Cons r rs)
  obtain srv1 where s1: "handle_request s t \<lparr>omreq_seq_num = k, omreq_request = r\<rparr> srv = Inr srv1"
    "client_ok s cid (k + 1) srv1"
    "pending (fifo_sequencer srv1) = pending (fifo_sequencer srv) @ [\<lparr>recv_time = t, rt_request = r\<rparr>]"
    "arr_size (pending_client_requests (fifo_sequencer srv1)) = arr_size (pending_client_requests (fifo_sequencer srv))"
    "pending_size (fifo_sequencer srv1) = pending_size (fifo_sequencer srv) + 1" "only_client s cid srv srv1"
    using handle_request_ok [OF Cons.prems(1), of r t] Cons.prems(2,3) by auto
  show ?case using Cons.IH [OF s1(2)] Cons.prems(2,3) s1
    by (fastforce simp: numbered_Cons recv_encoded add.assoc intro: only_client_trans)
qed

text \<open>
  a client's requests get through.  When a client sends requests numbered consecutively from the
  number the server expects, over the connection the server knows or will know for the client, all of
  them are handed to the sequencer, in order and with the time of the read, and the server then
  expects the number after the last.
\<close>

theorem numbered_requests_accepted:
  assumes "client_ok s cid k srv" and "\<forall>r\<in>set rs. unat (req_client_id r) = cid \<and> is_int64 (req_price r)"
    and "pending_size (fifo_sequencer srv) + length rs \<le> arr_size (pending_client_requests (fifo_sequencer srv))"
  shows "\<exists>srv'. recv_requests s t (concat (map encode_request (numbered k rs))) srv = Inr ([], srv') \<and>
     client_ok s cid (k + of_nat (length rs)) srv' \<and>
     pending (fifo_sequencer srv') = pending (fifo_sequencer srv) @ map (\<lambda>r. \<lparr>recv_time = t, rt_request = r\<rparr>) rs"
  using recv_numbered [OF assms] by blast

text \<open>
  a request with a wrong sequence number, or from a connection other than the client's first one,
  is dropped without an answer: apart from registering the connection of a new client the server's
  state does not change.
\<close>

theorem bad_request_dropped:
  assumes "unat (req_client_id (omreq_request m)) = cid" and "cid < arr_size (cid_tcp_socket srv)"
    and "cid < arr_size (cid_next_exp_seq_num srv)"
    and "arr_get (cid_tcp_socket srv) cid = Some s'" and "s' \<noteq> s \<or> omreq_seq_num m \<noteq> arr_get (cid_next_exp_seq_num srv) cid"
  shows "handle_request s t m srv = Inr srv"
  using assms by (auto simp: handle_request_def Let_def)


section \<open>Responses\<close>

lemma send_response_ok:
  assumes "lfq_inv (outgoing_responses srv)" and "lfq_items (outgoing_responses srv) = r # rs"
    and "cid = unat (rsp_client_id r)" and "cid < arr_size (cid_next_outgoing_seq_num srv)" and "cid < arr_size (cid_tcp_socket srv)"
    and "arr_get (cid_tcp_socket srv) cid = Some s" and "sock = tcp_sockets (tcp_server srv) s"
    and "tcp_ok sock" and "\<not> closed sock"
    and "length (pending_out sock) + sizeof_OMClientResponse \<le> length (outbound_data sock)"
  shows "\<exists>sock' q. send_response r srv = Inr (srv\<lparr>tcp_server := (tcp_server srv)\<lparr>tcp_sockets := (tcp_sockets (tcp_server srv))(s := sock')\<rparr>,
       outgoing_responses := q, cid_next_outgoing_seq_num := (cid_next_outgoing_seq_num srv)\<lparr>arr_get :=
         (arr_get (cid_next_outgoing_seq_num srv))(cid := arr_get (cid_next_outgoing_seq_num srv) cid + 1)\<rparr>\<rparr>) \<and>
     lfq_inv q \<and> lfq_items q = rs \<and> tcp_ok sock' \<and> \<not> closed sock' \<and> length (outbound_data sock') = length (outbound_data sock) \<and>
     pending_out sock' = pending_out sock @
       encode_response \<lparr>omrsp_seq_num = arr_get (cid_next_outgoing_seq_num srv) cid, omrsp_response = r\<rparr>"
proof -
  let ?m = "encode_response \<lparr>omrsp_seq_num = arr_get (cid_next_outgoing_seq_num srv) cid, omrsp_response = r\<rparr>"
  obtain s1 s2 where s: "tcp_send (take 8 ?m) sock = Inr s1" "tcp_send (drop 8 ?m) s1 = Inr s2" "pending_out s2 = pending_out sock @ ?m"
    "tcp_ok s2" "\<not> closed s2" "length (outbound_data s2) = length (outbound_data sock)"
    using tcp_send_parts [OF assms(8,9), of ?m 8] assms(10) by auto
  obtain q where q: "updateReadIndex (outgoing_responses srv) = Inr q" "lfq_inv q" "lfq_items q = rs"
    using lfq.front_pop [OF assms(1,2)] by blast
  show ?thesis using assms(3-7) s q by (auto simp: send_response_def Let_def)
qed

text \<open>
  a response at the head of the queue for a connected client with room in its send buffer is
  written to that client's socket, and to no other, preceded by the client's next sequence number; it
  leaves the queue and the client's number advances by one.
\<close>

theorem response_delivered:
  assumes "lfq_inv (outgoing_responses srv)" and "lfq_items (outgoing_responses srv) = r # rs"
    and "cid = unat (rsp_client_id r)" and "cid < arr_size (cid_next_outgoing_seq_num srv)" and "cid < arr_size (cid_tcp_socket srv)"
    and "arr_get (cid_tcp_socket srv) cid = Some s" and "sock = tcp_sockets (tcp_server srv) s"
    and "tcp_ok sock" and "\<not> closed sock"
    and "length (pending_out sock) + sizeof_OMClientResponse \<le> length (outbound_data sock)"
  shows "\<exists>srv'. send_response r srv = Inr srv' \<and>
     pending_out (tcp_sockets (tcp_server srv') s) = pending_out sock @
       encode_response \<lparr>omrsp_seq_num = arr_get (cid_next_outgoing_seq_num srv) cid, omrsp_response = r\<rparr> \<and>
     (\<forall>s'. s' \<noteq> s \<longrightarrow> tcp_sockets (tcp_server srv') s' = tcp_sockets (tcp_server srv) s') \<and>
     arr_get (cid_next_outgoing_seq_num srv') cid = arr_get (cid_next_outgoing_seq_num srv) cid + 1 \<and>
     lfq_items (outgoing_responses srv') = rs"
  using send_response_ok [OF assms] by auto

text \<open>
  The responses of the queue with the numbers they get: each client's responses are numbered
  consecutively from the client's next number.
\<close>

fun stamp :: "(nat \<Rightarrow> SeqNum) \<Rightarrow> MEClientResponse list \<Rightarrow> OMClientResponse list" where
  "stamp f [] = []"
| "stamp f (r # rs) =
     (let c = unat (rsp_client_id r) in \<lparr>omrsp_seq_num = f c, omrsp_response = r\<rparr> # stamp (f(c := f c + 1)) rs)"

definition to_socket :: "OrderServer \<Rightarrow> nat \<Rightarrow> MEClientResponse \<Rightarrow> bool" where
  "to_socket srv s r \<longleftrightarrow> arr_get (cid_tcp_socket srv) (unat (rsp_client_id r)) = Some s"

definition socket_bytes :: "OrderServer \<Rightarrow> nat \<Rightarrow> MEClientResponse list \<Rightarrow> byte list" where
  "socket_bytes srv s rs = concat (map encode_response (filter (\<lambda>m. to_socket srv s (omrsp_response m))
     (stamp (arr_get (cid_next_outgoing_seq_num srv)) rs)))"

text \<open>Every response has a connected client with room for it in its send buffer.\<close>

definition can_send :: "OrderServer \<Rightarrow> MEClientResponse list \<Rightarrow> bool" where
  "can_send srv rs \<longleftrightarrow>
     (\<forall>r\<in>set rs. unat (rsp_client_id r) < arr_size (cid_next_outgoing_seq_num srv) \<and> unat (rsp_client_id r) < arr_size (cid_tcp_socket srv) \<and>
        (\<exists>s. to_socket srv s r)) \<and>
     (\<forall>r\<in>set rs. \<forall>s. to_socket srv s r \<longrightarrow>
        tcp_ok (tcp_sockets (tcp_server srv) s) \<and> \<not> closed (tcp_sockets (tcp_server srv) s) \<and>
        length (pending_out (tcp_sockets (tcp_server srv) s)) + sizeof_OMClientResponse * length (filter (to_socket srv s) rs)
          \<le> length (outbound_data (tcp_sockets (tcp_server srv) s)))"

lemma can_send_outgoing [simp]: "can_send (srv\<lparr>outgoing_responses := q\<rparr>) rs = can_send srv rs"
proof -
  have "to_socket (srv\<lparr>outgoing_responses := q\<rparr>) = to_socket srv" by (simp add: to_socket_def fun_eq_iff)
  then show ?thesis by (simp add: can_send_def)
qed

lemma send_responses_run:
  assumes "lfq_inv (outgoing_responses srv)" and "lfq_items (outgoing_responses srv) = rs" and "can_send srv rs"
  shows "\<exists>srv'. send_responses (length rs) srv = Inr srv' \<and> lfq_items (outgoing_responses srv') = [] \<and>
     (\<forall>s. pending_out (tcp_sockets (tcp_server srv') s) = pending_out (tcp_sockets (tcp_server srv) s) @ socket_bytes srv s rs) \<and>
     (\<forall>c. arr_get (cid_next_outgoing_seq_num srv') c =
        arr_get (cid_next_outgoing_seq_num srv) c + of_nat (length (filter (\<lambda>r. unat (rsp_client_id r) = c) rs)))"
  using assms
proof (induction rs arbitrary: srv)
  case Nil
  then show ?case by (simp add: socket_bytes_def)
next
  case (Cons r rs)
  let ?c = "unat (rsp_client_id r)" and ?f = "arr_get (cid_next_outgoing_seq_num srv)"
  obtain s where s: "to_socket srv s r" using Cons.prems(3) by (auto simp: can_send_def)
  let ?sock = "tcp_sockets (tcp_server srv) s"
  have c: "?c < arr_size (cid_next_outgoing_seq_num srv)" "?c < arr_size (cid_tcp_socket srv)"
    "tcp_ok ?sock" "\<not> closed ?sock" and room: "length (pending_out ?sock) + sizeof_OMClientResponse * Suc (length (filter (to_socket srv s) rs))
      \<le> length (outbound_data ?sock)"
    using Cons.prems(3) s by (auto simp: can_send_def)
  have a: "arr_get (cid_tcp_socket srv) ?c = Some s" using s by (simp add: to_socket_def)
  obtain sock' q where q: "send_response r srv = Inr (srv\<lparr>tcp_server := (tcp_server srv)\<lparr>tcp_sockets := (tcp_sockets (tcp_server srv))(s := sock')\<rparr>,
       outgoing_responses := q, cid_next_outgoing_seq_num := (cid_next_outgoing_seq_num srv)\<lparr>arr_get := ?f(?c := ?f ?c + 1)\<rparr>\<rparr>)"
    (is "_ = Inr ?srv") "lfq_inv q" "lfq_items q = rs" "tcp_ok sock'" "\<not> closed sock'" "length (outbound_data sock') = length (outbound_data ?sock)"
    "pending_out sock' = pending_out ?sock @ encode_response \<lparr>omrsp_seq_num = ?f ?c, omrsp_response = r\<rparr>"
    using send_response_ok [OF Cons.prems(1,2) refl c(1,2) a refl c(3,4)] room by auto
  have to: "to_socket ?srv = to_socket srv" by (simp add: to_socket_def fun_eq_iff)
  have other: "tcp_ok (tcp_sockets (tcp_server srv) t) \<and> \<not> closed (tcp_sockets (tcp_server srv) t) \<and>
      length (pending_out (tcp_sockets (tcp_server srv) t)) + sizeof_OMClientResponse * length (filter (to_socket srv t) rs)
        \<le> length (outbound_data (tcp_sockets (tcp_server srv) t))"
    if t: "t \<noteq> s" "x \<in> set rs" "to_socket srv t x" for t x
  proof -
    have "\<not> to_socket srv t r" using a t(1) by (simp add: to_socket_def)
    moreover have "x \<in> set (r # rs)" using t(2) by simp
    ultimately show ?thesis using Cons.prems(3) t(3) unfolding can_send_def by (metis filter.simps(2))
  qed
  have "can_send ?srv rs"
    using Cons.prems(3) q(4-7) room other unfolding can_send_def to by auto
  then obtain srv' where srv': "send_responses (length rs) ?srv = Inr srv'" "lfq_items (outgoing_responses srv') = []"
    "\<And>s. pending_out (tcp_sockets (tcp_server srv') s) = pending_out (tcp_sockets (tcp_server ?srv) s) @ socket_bytes ?srv s rs"
    "\<And>c. arr_get (cid_next_outgoing_seq_num srv') c =
       arr_get (cid_next_outgoing_seq_num ?srv) c + of_nat (length (filter (\<lambda>r. unat (rsp_client_id r) = c) rs))"
    using Cons.IH [of ?srv] q(2,3) by auto
  have front: "lfq_front (outgoing_responses srv) = Some r"
    using Cons.prems(1,2) lfq.front_Some_iff [of "outgoing_responses srv" r] by simp
  have b: "socket_bytes srv t (r # rs) =
      (if t = s then encode_response \<lparr>omrsp_seq_num = ?f ?c, omrsp_response = r\<rparr> else []) @ socket_bytes ?srv t rs" for t
    using s by (auto simp: socket_bytes_def to to_socket_def Let_def)
  show ?case
    using front q(1,7) srv' by (intro exI [of _ srv']) (auto simp: b)
qed

section \<open>Instances\<close>

definition ack :: MEClientResponse where
  "ack = \<lparr>rsp_type = ACCEPTED, rsp_client_id = 1, rsp_ticker_id = 0, rsp_client_order_id = 7, rsp_market_order_id = 1,
     rsp_side = BUY, rsp_price = 10, rsp_exec_qty = 0, rsp_leaves_qty = 5\<rparr>"

definition small_server :: OrderServer where
  "small_server =
     (OrderServer_new \<lparr>ME_MAX_TICKERS = 1, ME_MAX_CLIENT_UPDATES = 4, ME_MAX_MARKET_UPDATES = 4,
        ME_MAX_NUM_CLIENTS = 2, ME_MAX_ORDER_IDS = 8, ME_MAX_PRICE_LEVELS = 4\<rparr> 64 a_sequencer
        (LFQueue_new 4 ack))"

lemma small_server_client: "client_ok 1 1 1 small_server"
  by (simp add: client_ok_def small_server_def OrderServer_new_def)

text \<open>Two connected clients, each on the socket with its number.\<close>

definition two_client_server :: OrderServer where
  "two_client_server = small_server\<lparr>cid_tcp_socket := \<lparr>arr_size = 2, arr_get = Some\<rparr>\<rparr>"

lemma two_client_server_facts:
  "client_ok 1 1 1 two_client_server" "tcp_sockets (tcp_server two_client_server) s = TCPSocket_new 64"
  "cid_next_outgoing_seq_num two_client_server = arr_fill 2 1" "cid_tcp_socket two_client_server = \<lparr>arr_size = 2, arr_get = Some\<rparr>"
  "fifo_sequencer two_client_server = a_sequencer" "outgoing_responses two_client_server = LFQueue_new 4 ack"
  by (simp_all add: two_client_server_def client_ok_def small_server_def OrderServer_new_def TCPServer_new_def)

lemma fresh_socket: "pending_out (TCPSocket_new n) = []" "tcp_ok (TCPSocket_new n)" "\<not> closed (TCPSocket_new n)" "length (outbound_data (TCPSocket_new n)) = n"
  by (simp_all add: pending_out_def tcp_ok_def TCPSocket_new_def)

lemma two_client_server_sends:
  assumes "\<forall>r\<in>set rs. rsp_client_id r \<in> {0, 1}" and "\<forall>s. sizeof_OMClientResponse * length (filter (to_socket two_client_server s) rs) \<le> 64"
  shows "can_send two_client_server rs"
  using assms by (auto simp: can_send_def two_client_server_facts fresh_socket to_socket_def)

theorem numbered_requests_accepted_witness:
  "\<exists>srv'. recv_requests 1 9 (concat (map encode_request (numbered 1 [a_request 7, a_request 8]))) small_server = Inr ([], srv') \<and>
     length (pending (fifo_sequencer srv')) = 2"
proof -
  have "fifo_sequencer small_server = a_sequencer" by (simp add: small_server_def OrderServer_new_def)
  moreover have "is_int64 10" by (simp add: is_int64_def)
  ultimately show ?thesis
    using numbered_requests_accepted [OF small_server_client, of "[a_request 7, a_request 8]" 9]
    by (auto simp: a_sequencer_facts a_request_def)
qed

theorem bad_request_dropped_witness:
  "handle_request 2 9 \<lparr>omreq_seq_num = 1, omreq_request = a_request 7\<rparr>
     (small_server\<lparr>cid_tcp_socket := arr_fill 2 (Some 1)\<rparr>) = Inr (small_server\<lparr>cid_tcp_socket := arr_fill 2 (Some 1)\<rparr>)"
  using bad_request_dropped [of "\<lparr>omreq_seq_num = 1, omreq_request = a_request 7\<rparr>" 1
      "small_server\<lparr>cid_tcp_socket := arr_fill 2 (Some 1)\<rparr>" 1 2 9]
  by (simp add: small_server_def OrderServer_new_def a_request_def)

theorem response_delivered_witness:
  "\<exists>srv srv'. send_response ack srv = Inr srv' \<and>
     pending_out (tcp_sockets (tcp_server srv') 1) = encode_response \<lparr>omrsp_seq_num = 1, omrsp_response = ack\<rparr>"
proof -
  let ?q = "lfq_push ack (LFQueue_new 4 ack)"
  let ?srv = "small_server\<lparr>cid_tcp_socket := arr_fill 2 (Some 1), outgoing_responses := ?q\<rparr>"
  have "lfq_inv (LFQueue_new 4 ack)" "lfq_size (LFQueue_new 4 ack) < lfq_cap (LFQueue_new 4 ack)"
    by (simp_all add: lfq_inv_new lfq_size_items)
  then have q: "lfq_inv (outgoing_responses ?srv)" "lfq_items (outgoing_responses ?srv) = [ack]"
    using lfq_inv_push [of "LFQueue_new 4 ack" ack] lfq_items_push [of "LFQueue_new 4 ack" ack] by simp_all
  have c: "tcp_sockets (tcp_server ?srv) 1 = TCPSocket_new 64" "cid_next_outgoing_seq_num ?srv = arr_fill 2 1"
    "cid_tcp_socket ?srv = arr_fill 2 (Some 1)" "unat (rsp_client_id ack) = 1"
    by (simp_all add: small_server_def OrderServer_new_def TCPServer_new_def ack_def)
  have "pending_out (TCPSocket_new 64) = []" by (simp add: pending_out_def TCPSocket_new_def)
  moreover have "tcp_ok (TCPSocket_new 64)" "\<not> closed (TCPSocket_new 64)" "length (outbound_data (TCPSocket_new 64)) = 64"
    by (simp_all add: tcp_ok_def TCPSocket_new_def)
  ultimately show ?thesis using response_delivered [OF q, of 1 1 "TCPSocket_new 64"] c
    by (auto simp: sizeof_OMClientResponse_def)
qed

end
