(* ===== verification/Order_Gateway.thy ===== *)
theory Order_Gateway
  imports Order_Server
begin

text \<open>
  \<open>Trading::OrderGateway\<close> (\<open>trading/order_gw/order_gateway.h\<close>, \<open>order_gateway.cpp\<close>): numbers the requests of the
  trade engine and sends them to the exchange over one TCP connection, and forwards the responses that
  come back after checking the client and the sequence number.
\<close>

section \<open>State and operations\<close>

record OrderGateway =
  gw_client_id :: ClientId
  gw_outgoing_requests :: "MEClientRequest LFQueue"
  gw_incoming_responses :: "MEClientResponse LFQueue"
  next_outgoing_seq_num :: SeqNum
  next_exp_seq_num :: SeqNum
  gw_tcp_socket :: TCPSocket

definition OrderGateway_new ::
  "nat \<Rightarrow> ClientId \<Rightarrow> MEClientRequest LFQueue \<Rightarrow> MEClientResponse LFQueue \<Rightarrow> OrderGateway" where
  "OrderGateway_new TCPBufferSize cid client_requests client_responses =
     \<lparr>gw_client_id = cid, gw_outgoing_requests = client_requests, gw_incoming_responses = client_responses,
      next_outgoing_seq_num = 1, next_exp_seq_num = 1, gw_tcp_socket = TCPSocket_new TCPBufferSize\<rparr>"

text \<open>The part of \<open>start()\<close> before the thread runs, given the descriptor that \<open>createSocket()\<close> returns.\<close>

definition gw_connect :: "int \<Rightarrow> OrderGateway \<Rightarrow> OrderGateway res" where
  "gw_connect fd gw =
     rbind (ASSERT (fd \<ge> 0) ''Unable to connect to ip:'') (\<lambda>_.
     Inr (gw\<lparr>gw_tcp_socket := tcp_connect fd (gw_tcp_socket gw)\<rparr>))"

text \<open>The body of the loop of \<open>run()\<close> over the requests.\<close>

definition send_request :: "MEClientRequest \<Rightarrow> OrderGateway \<Rightarrow> OrderGateway res" where
  "send_request client_request gw =
     (let msg = encode_request \<lparr>omreq_seq_num = next_outgoing_seq_num gw, omreq_request = client_request\<rparr> in
      rbind (tcp_send (take 8 msg) (gw_tcp_socket gw)) (\<lambda>sock.
      rbind (tcp_send (drop 8 msg) sock) (\<lambda>sock.
      rbind (updateReadIndex (gw_outgoing_requests gw)) (\<lambda>q.
      Inr (gw\<lparr>gw_tcp_socket := sock, gw_outgoing_requests := q, next_outgoing_seq_num := next_outgoing_seq_num gw + 1\<rparr>)))))"

text \<open>The loop; the first argument bounds the iterations by the number of requests in the queue.\<close>

fun send_requests :: "nat \<Rightarrow> OrderGateway \<Rightarrow> OrderGateway res" where
  "send_requests 0 gw = Inr gw"
| "send_requests (Suc n) gw =
     (case lfq_front (gw_outgoing_requests gw) of
        None \<Rightarrow> Inr gw
      | Some client_request \<Rightarrow> rbind (send_request client_request gw) (send_requests n))"

text \<open>The body of the loop of \<open>recvCallback()\<close>; both \<open>continue\<close> statements drop the response.\<close>

definition handle_response :: "OMClientResponse \<Rightarrow> OrderGateway \<Rightarrow> OrderGateway" where
  "handle_response response gw =
     (if rsp_client_id (omrsp_response response) \<noteq> gw_client_id gw then gw
      else if omrsp_seq_num response \<noteq> next_exp_seq_num gw then gw
      else gw\<lparr>next_exp_seq_num := next_exp_seq_num gw + 1,
              gw_incoming_responses := lfq_push (omrsp_response response) (gw_incoming_responses gw)\<rparr>)"

definition recv_responses :: "byte list \<Rightarrow> OrderGateway \<Rightarrow> (byte list \<times> OrderGateway) res" where
  "recv_responses = frames sizeof_OMClientResponse (\<lambda>m gw. Inr (handle_response (decode_response m) gw))"

definition gw_recvCallback :: "OrderGateway recv_callback" where
  "gw_recvCallback sock rx_time gw =
     rbind (recv_responses (take (next_rcv_valid_index sock) (inbound_data sock)) gw) (\<lambda>(rest, gw).
     Inr (sock\<lparr>inbound_data := put_bytes 0 rest (inbound_data sock), next_rcv_valid_index := length rest\<rparr>, gw))"

text \<open>
  One iteration of the loop of \<open>run()\<close>; \<open>recvs\<close> and \<open>sends\<close> are the kernel's answers.  The second component
  of the result is what the kernel accepted.
\<close>

definition gateway_run_once ::
  "recv_result list \<Rightarrow> send_result list \<Rightarrow> OrderGateway \<Rightarrow> (OrderGateway \<times> byte list) res" where
  "gateway_run_once recvs sends gw =
     rbind (tcp_sendAndRecv gw_recvCallback recvs sends (gw_tcp_socket gw) gw) (\<lambda>(sock, gw, out, _).
       let gw = gw\<lparr>gw_tcp_socket := sock\<rparr> in
       rbind (send_requests (lfq_size (gw_outgoing_requests gw)) gw) (\<lambda>gw. Inr (gw, out)))"

section \<open>Requests\<close>

definition gw_ok :: "OrderGateway \<Rightarrow> bool" where
  "gw_ok gw \<longleftrightarrow> tcp_ok (gw_tcp_socket gw) \<and> \<not> closed (gw_tcp_socket gw) \<and> lfq_inv (gw_outgoing_requests gw)"

text \<open>What sending requests leaves alone.\<close>

definition same_inbound :: "OrderGateway \<Rightarrow> OrderGateway \<Rightarrow> bool" where
  "same_inbound gw gw' \<longleftrightarrow> gw_client_id gw' = gw_client_id gw \<and> gw_incoming_responses gw' = gw_incoming_responses gw \<and>
     next_exp_seq_num gw' = next_exp_seq_num gw"

definition request_bytes :: "SeqNum \<Rightarrow> MEClientRequest list \<Rightarrow> byte list" where
  "request_bytes k rs = concat (map encode_request (numbered k rs))"

lemma request_bytes_Nil [simp]: "request_bytes k [] = []"
  by (simp add: request_bytes_def numbered_def)

lemma request_bytes_Cons:
  "request_bytes k (r # rs) = encode_request \<lparr>omreq_seq_num = k, omreq_request = r\<rparr> @ request_bytes (k + 1) rs"
  by (simp add: request_bytes_def numbered_Cons)

lemma length_request_bytes: "length (request_bytes k rs) = sizeof_OMClientRequest * length rs"
  by (induction rs arbitrary: k) (simp_all add: request_bytes_Cons)

lemma send_request_ok:
  assumes "gw_ok gw" and "lfq_items (gw_outgoing_requests gw) = r # rs"
    and "length (pending_out (gw_tcp_socket gw)) + sizeof_OMClientRequest \<le> length (outbound_data (gw_tcp_socket gw))"
  shows "\<exists>gw'. send_request r gw = Inr gw' \<and> gw_ok gw' \<and> lfq_items (gw_outgoing_requests gw') = rs \<and>
     next_outgoing_seq_num gw' = next_outgoing_seq_num gw + 1 \<and> same_inbound gw gw' \<and>
     length (outbound_data (gw_tcp_socket gw')) = length (outbound_data (gw_tcp_socket gw)) \<and>
     pending_out (gw_tcp_socket gw') = pending_out (gw_tcp_socket gw) @
       encode_request \<lparr>omreq_seq_num = next_outgoing_seq_num gw, omreq_request = r\<rparr>"
proof -
  let ?m = "encode_request \<lparr>omreq_seq_num = next_outgoing_seq_num gw, omreq_request = r\<rparr>"
  obtain s1 s2 where s: "tcp_send (take 8 ?m) (gw_tcp_socket gw) = Inr s1" "tcp_send (drop 8 ?m) s1 = Inr s2" "tcp_ok s2" "\<not> closed s2"
    "pending_out s2 = pending_out (gw_tcp_socket gw) @ ?m" "length (outbound_data s2) = length (outbound_data (gw_tcp_socket gw))"
    using tcp_send_parts [of "gw_tcp_socket gw" ?m 8] assms(1,3) by (auto simp: gw_ok_def)
  obtain q where q: "updateReadIndex (gw_outgoing_requests gw) = Inr q" "lfq_inv q" "lfq_items q = rs"
    using lfq.front_pop [of "gw_outgoing_requests gw" r rs] assms(1,2) by (auto simp: gw_ok_def)
  show ?thesis using s q by (auto simp: send_request_def Let_def gw_ok_def same_inbound_def)
qed

lemma send_requests_ok:
  assumes "gw_ok gw" and "lfq_items (gw_outgoing_requests gw) = rs"
    and "length (pending_out (gw_tcp_socket gw)) + sizeof_OMClientRequest * length rs \<le> length (outbound_data (gw_tcp_socket gw))"
  shows "\<exists>gw'. send_requests (length rs) gw = Inr gw' \<and> gw_ok gw' \<and> same_inbound gw gw' \<and> lfq_items (gw_outgoing_requests gw') = [] \<and>
     next_outgoing_seq_num gw' = next_outgoing_seq_num gw + of_nat (length rs) \<and>
     pending_out (gw_tcp_socket gw') = pending_out (gw_tcp_socket gw) @ request_bytes (next_outgoing_seq_num gw) rs"
  using assms
proof (induction rs arbitrary: gw)
  case (Cons r rs)
  obtain g where g: "send_request r gw = Inr g" "gw_ok g" "same_inbound gw g" "lfq_items (gw_outgoing_requests g) = rs"
    "next_outgoing_seq_num g = next_outgoing_seq_num gw + 1"
    "length (outbound_data (gw_tcp_socket g)) = length (outbound_data (gw_tcp_socket gw))"
    "pending_out (gw_tcp_socket g) = pending_out (gw_tcp_socket gw) @
       encode_request \<lparr>omreq_seq_num = next_outgoing_seq_num gw, omreq_request = r\<rparr>"
    using send_request_ok [OF Cons.prems(1,2)] Cons.prems(3) by auto
  have "lfq_front (gw_outgoing_requests gw) = Some r"
    using Cons.prems(1,2) lfq.front_Some_iff [of "gw_outgoing_requests gw" r] by (simp add: gw_ok_def)
  then show ?case using Cons.IH [OF g(2,4)] g Cons.prems(3) by (auto simp: request_bytes_Cons add.assoc same_inbound_def)
qed (simp add: same_inbound_def)

lemma gateway_pass:
  assumes "gw_ok gw" and "0 \<le> socket_fd (gw_tcp_socket gw)"
    and "sends_fit sends (length (pending_out (gw_tcp_socket gw)))" and "SendFailed \<notin> set sends"
    and "length (pending_out (gw_tcp_socket gw)) + sizeof_OMClientRequest * length (lfq_items (gw_outgoing_requests gw))
       \<le> length (outbound_data (gw_tcp_socket gw))"
  shows "\<exists>gw' out. gateway_run_once [] sends gw = Inr (gw', out) \<and> lfq_items (gw_outgoing_requests gw') = [] \<and> same_inbound gw gw' \<and>
     next_outgoing_seq_num gw' = next_outgoing_seq_num gw + of_nat (length (lfq_items (gw_outgoing_requests gw))) \<and>
     out @ pending_out (gw_tcp_socket gw') = pending_out (gw_tcp_socket gw) @
       request_bytes (next_outgoing_seq_num gw) (lfq_items (gw_outgoing_requests gw))"
proof -
  have ok: "tcp_ok (gw_tcp_socket gw)" "\<not> closed (gw_tcp_socket gw)" "lfq_inv (gw_outgoing_requests gw)"
    using assms(1) by (simp_all add: gw_ok_def)
  obtain sock out where p: "tcp_sendAndRecv gw_recvCallback [] sends (gw_tcp_socket gw) gw = Inr (sock, gw, out, False)" "tcp_ok sock"
    "\<not> closed sock" "out @ pending_out sock = pending_out (gw_tcp_socket gw)" "length (outbound_data sock) = length (outbound_data (gw_tcp_socket gw))"
    using tcp_pump [OF ok(1,2) assms(2-4), of gw_recvCallback gw] by (elim exE conjE) (rule that)
  let ?gw = "gw\<lparr>gw_tcp_socket := sock\<rparr>"
  have "gw_ok ?gw" using ok(3) p(2,3) by (simp add: gw_ok_def)
  moreover have "length (pending_out sock) \<le> length (pending_out (gw_tcp_socket gw))" using arg_cong [OF p(4), of length] by simp
  ultimately obtain gw' where g: "send_requests (length (lfq_items (gw_outgoing_requests gw))) ?gw = Inr gw'" "lfq_items (gw_outgoing_requests gw') = []"
    "next_outgoing_seq_num gw' = next_outgoing_seq_num gw + of_nat (length (lfq_items (gw_outgoing_requests gw)))"
    "pending_out (gw_tcp_socket gw') = pending_out sock @ request_bytes (next_outgoing_seq_num gw) (lfq_items (gw_outgoing_requests gw))"
    "same_inbound gw gw'"
    using send_requests_ok [of ?gw "lfq_items (gw_outgoing_requests gw)"] assms(5) p(5) by (auto simp: same_inbound_def)
  have "gateway_run_once [] sends gw = Inr (gw', out)" using p(1) g(1) by (simp add: gateway_run_once_def lfq_size_items)
  moreover have "out @ pending_out (gw_tcp_socket gw') = pending_out (gw_tcp_socket gw) @
       request_bytes (next_outgoing_seq_num gw) (lfq_items (gw_outgoing_requests gw))"
    unfolding g(4) append_assoc [symmetric] p(4) ..
  ultimately show ?thesis using g(2,3,5) by blast
qed

text \<open>
  the gateway sends every request once, in order, with consecutive numbers.  In an iteration of the
  run loop in which nothing arrives, whatever part of the waiting bytes the kernel accepts, all requests
  are taken from the queue of the trade engine, and what the kernel accepted followed by what then waits
  is what waited before followed by exactly the encodings of the requests, numbered from the gateway's
  next number.
\<close>

theorem gateway_numbers_requests:
  assumes "gw_ok gw" and "0 \<le> socket_fd (gw_tcp_socket gw)"
    and "sends_fit sends (length (pending_out (gw_tcp_socket gw)))" and "SendFailed \<notin> set sends"
    and "length (pending_out (gw_tcp_socket gw)) + sizeof_OMClientRequest * length (lfq_items (gw_outgoing_requests gw))
       \<le> length (outbound_data (gw_tcp_socket gw))"
  shows "\<exists>gw' out. gateway_run_once [] sends gw = Inr (gw', out) \<and> lfq_items (gw_outgoing_requests gw') = [] \<and>
     next_outgoing_seq_num gw' = next_outgoing_seq_num gw + of_nat (length (lfq_items (gw_outgoing_requests gw))) \<and>
     out @ pending_out (gw_tcp_socket gw') = pending_out (gw_tcp_socket gw) @
       concat (map encode_request (numbered (next_outgoing_seq_num gw) (lfq_items (gw_outgoing_requests gw))))"
  using gateway_pass [OF assms] by (auto simp: request_bytes_def)

definition a_client_request :: "OrderId \<Rightarrow> MEClientRequest" where
  "a_client_request oid = \<lparr>req_type = Request_NEW, req_client_id = 1, req_ticker_id = 0, req_order_id = oid, req_side = BUY,
     req_price = 10, req_qty = 5\<rparr>"

definition a_gateway :: OrderGateway where
  "a_gateway = (OrderGateway_new 128 1 (fold lfq_push [a_client_request 1, a_client_request 2] (LFQueue_new 4 (a_client_request 0)))
     (LFQueue_new 4 ack))\<lparr>gw_tcp_socket := tcp_connect 3 (TCPSocket_new 128)\<rparr>"

lemma a_gateway_facts:
  "gw_ok a_gateway" "socket_fd (gw_tcp_socket a_gateway) = 3" "pending_out (gw_tcp_socket a_gateway) = []"
  "length (outbound_data (gw_tcp_socket a_gateway)) = 128" "next_outgoing_seq_num a_gateway = 1"
  "lfq_items (gw_outgoing_requests a_gateway) = [a_client_request 1, a_client_request 2]"
proof -
  have "lfq_inv (LFQueue_new 4 (a_client_request 0))" by (simp add: lfq_inv_new)
  from lfq.push_all [OF this, of "[a_client_request 1, a_client_request 2]"]
  show "gw_ok a_gateway" "lfq_items (gw_outgoing_requests a_gateway) = [a_client_request 1, a_client_request 2]"
    by (simp_all add: gw_ok_def a_gateway_def OrderGateway_new_def tcp_ok_def tcp_connect_def TCPSocket_new_def)
qed (simp_all add: a_gateway_def OrderGateway_new_def tcp_connect_def TCPSocket_new_def pending_out_def)

lemma a_gateway_inbound:
  "gw_incoming_responses a_gateway = LFQueue_new 4 ack" "next_exp_seq_num a_gateway = 1" "gw_client_id a_gateway = 1"
  by (simp_all add: a_gateway_def OrderGateway_new_def)

theorem gateway_numbers_requests_witness:
  "\<exists>gw' out. gateway_run_once [] [] a_gateway = Inr (gw', out) \<and> next_outgoing_seq_num gw' = 3 \<and>
     out @ pending_out (gw_tcp_socket gw') = concat (map encode_request (numbered 1 [a_client_request 1, a_client_request 2]))"
  using gateway_numbers_requests [of a_gateway "[]"] a_gateway_facts by (auto simp: sizeof_OMClientRequest_def)

section \<open>Responses\<close>

definition numbered_responses :: "SeqNum \<Rightarrow> MEClientResponse list \<Rightarrow> OMClientResponse list" where
  "numbered_responses k rs = map (\<lambda>(i, r). \<lparr>omrsp_seq_num = k + of_nat i, omrsp_response = r\<rparr>) (enumerate 0 rs)"

lemma numbered_responses_Cons:
  "numbered_responses k (r # rs) = \<lparr>omrsp_seq_num = k, omrsp_response = r\<rparr> # numbered_responses (k + 1) rs"
  by (simp add: numbered_responses_def enumerate_Suc_eq comp_def case_prod_unfold add.assoc add.commute)

text \<open>The responses of the exchange to one client carry consecutive numbers.\<close>

lemma stamp_client:
  "filter (\<lambda>m. unat (rsp_client_id (omrsp_response m)) = c) (stamp f rs) =
     numbered_responses (f c) (filter (\<lambda>r. unat (rsp_client_id r) = c) rs)"
proof (induction rs arbitrary: f)
  case Nil
  then show ?case by (simp add: numbered_responses_def)
next
  case (Cons r rs)
  then show ?case by (simp add: Let_def numbered_responses_Cons)
qed

lemma stamp_clients: "m \<in> set (stamp f rs) \<Longrightarrow> omrsp_response m \<in> set rs"
  by (induction rs arbitrary: f) (auto simp: Let_def)

lemma recv_encoded_response:
  assumes "is_int64 (rsp_price (omrsp_response m))"
  shows "recv_responses (encode_response m @ bs) gw = recv_responses bs (handle_response m gw)"
  using assms unfolding recv_responses_def
  by (subst frames_Cons) (simp_all add: decode_encode_response sizeof_OMClientResponse_def)

lemma forward_responses_run:
  assumes "concat reads = concat (map encode_response (numbered_responses (next_exp_seq_num gw) rs))"
    and "\<forall>r\<in>set rs. rsp_client_id r = gw_client_id gw \<and> is_int64 (rsp_price r)"
    and "lfq_inv (gw_incoming_responses gw)"
    and "lfq_size (gw_incoming_responses gw) + length rs \<le> lfq_cap (gw_incoming_responses gw)"
  shows "\<exists>gw'. frames_reads sizeof_OMClientResponse (\<lambda>m gw. Inr (handle_response (decode_response m) gw)) reads gw = Inr ([], gw') \<and>
     lfq_items (gw_incoming_responses gw') = lfq_items (gw_incoming_responses gw) @ rs \<and>
     next_exp_seq_num gw' = next_exp_seq_num gw + of_nat (length rs)"
proof -
  have "recv_responses (concat (map encode_response (numbered_responses (next_exp_seq_num gw) rs))) gw =
     Inr ([], gw\<lparr>next_exp_seq_num := next_exp_seq_num gw + of_nat (length rs),
        gw_incoming_responses := fold lfq_push rs (gw_incoming_responses gw)\<rparr>)"
    using assms(2)
  proof (induction rs arbitrary: gw)
    case Nil
    then show ?case by (simp add: numbered_responses_def recv_responses_def sizeof_OMClientResponse_def)
  next
    case (Cons r rs)
    let ?g = "gw\<lparr>next_exp_seq_num := next_exp_seq_num gw + 1, gw_incoming_responses := lfq_push r (gw_incoming_responses gw)\<rparr>"
    have "handle_response \<lparr>omrsp_seq_num = next_exp_seq_num gw, omrsp_response = r\<rparr> gw = ?g"
      using Cons.prems by (simp add: handle_response_def)
    then show ?case using Cons.IH [of ?g] Cons.prems by (simp add: numbered_responses_Cons recv_encoded_response add.assoc)
  qed
  moreover have "lfq_items (fold lfq_push rs (gw_incoming_responses gw)) = lfq_items (gw_incoming_responses gw) @ rs"
    using lfq.push_all [OF assms(3), of rs] assms(4) by (simp add: lfq_size_items)
  ultimately show ?thesis using assms(1)
    by (simp add: frames_reads_concat sizeof_OMClientResponse_def recv_responses_def)
qed

text \<open>
  the gateway forwards the exchange's responses.  However the bytes of consecutively numbered
  responses to the gateway's client are cut into reads, all of them reach the queue of the trade engine,
  in order, and nothing is left over.
\<close>

theorem gateway_forwards_responses:
  assumes "concat reads = concat (map encode_response (numbered_responses (next_exp_seq_num gw) rs))"
    and "\<forall>r\<in>set rs. rsp_client_id r = gw_client_id gw \<and> is_int64 (rsp_price r)"
    and "lfq_inv (gw_incoming_responses gw)"
    and "lfq_size (gw_incoming_responses gw) + length rs \<le> lfq_cap (gw_incoming_responses gw)"
  shows "\<exists>gw'. frames_reads sizeof_OMClientResponse (\<lambda>m gw. Inr (handle_response (decode_response m) gw)) reads gw = Inr ([], gw') \<and>
     lfq_items (gw_incoming_responses gw') = lfq_items (gw_incoming_responses gw) @ rs \<and>
     next_exp_seq_num gw' = next_exp_seq_num gw + of_nat (length rs)"
  using forward_responses_run [OF assms] .

theorem gateway_forwards_responses_witness:
  "\<exists>gw'. frames_reads sizeof_OMClientResponse (\<lambda>m gw. Inr (handle_response (decode_response m) gw))
       [take 20 (encode_response \<lparr>omrsp_seq_num = 1, omrsp_response = ack\<rparr>), drop 20 (encode_response \<lparr>omrsp_seq_num = 1, omrsp_response = ack\<rparr>)]
       a_gateway = Inr ([], gw') \<and> lfq_items (gw_incoming_responses gw') = [ack]"
proof -
  have "lfq_inv (LFQueue_new 4 ack)" "lfq_size (LFQueue_new 4 ack) = 0" by (simp_all add: lfq_inv_new lfq_size_items)
  then show ?thesis
    using gateway_forwards_responses [of "[take 20 (encode_response \<lparr>omrsp_seq_num = 1, omrsp_response = ack\<rparr>),
        drop 20 (encode_response \<lparr>omrsp_seq_num = 1, omrsp_response = ack\<rparr>)]" a_gateway "[ack]"] a_gateway_inbound
    by (auto simp: numbered_responses_def ack_def is_int64_def)
qed

text \<open>
  a response with another client's identifier or a number other than the expected one is dropped, and
  the gateway keeps waiting for the number it expects.
\<close>

theorem gateway_drops_unexpected:
  assumes "rsp_client_id (omrsp_response m) \<noteq> gw_client_id gw \<or> omrsp_seq_num m \<noteq> next_exp_seq_num gw"
    and "is_int64 (rsp_price (omrsp_response m))"
  shows "recv_responses (encode_response m @ bs) gw = recv_responses bs gw"
  using recv_encoded_response [OF assms(2)] assms(1) by (auto simp: handle_response_def)

theorem gateway_drops_unexpected_witness:
  "recv_responses (encode_response \<lparr>omrsp_seq_num = 2, omrsp_response = ack\<rparr> @ []) a_gateway = recv_responses [] a_gateway"
  by (rule gateway_drops_unexpected) (simp_all add: a_gateway_def OrderGateway_new_def ack_def is_int64_def)

end
