(* ===== verification/Printing.thy ===== *)
theory Printing
  imports Order_Types
begin

text \<open>
  Printing of identifiers and messages: \<open>orderIdToString()\<close> and its relatives in \<open>common/types.h\<close>, the
  names of the enumerations and the \<open>toString()\<close> methods of the messages
  (\<open>client_request.h\<close>, \<open>client_response.h\<close>, \<open>market_update.h\<close>), which are what the log files
  contain.  How a stream prints a floating point number is a parameter.
\<close>

section \<open>Decimal numbers\<close>

text \<open>\<open>std::to_string\<close> and \<open>operator<<\<close> for integers.\<close>

definition digit :: "nat \<Rightarrow> char" where
  "digit d = char_of (48 + d)"

fun nat_str :: "nat \<Rightarrow> string" where
  "nat_str n = (if n < 10 then [digit n] else nat_str (n div 10) @ [digit (n mod 10)])"

declare nat_str.simps [simp del]

definition int_str :: "int \<Rightarrow> string" where
  "int_str i = (if i < 0 then CHR ''-'' # nat_str (nat (- i)) else nat_str (nat i))"

abbreviation word_str :: "'a::len word \<Rightarrow> string" where
  "word_str w \<equiv> nat_str (unat w)"

text \<open>Reading a number back.\<close>

definition parse_nat :: "string \<Rightarrow> nat" where
  "parse_nat s = foldl (\<lambda>n c. 10 * n + (of_char c - 48)) 0 s"

definition is_digit :: "char \<Rightarrow> bool" where
  "is_digit c \<longleftrightarrow> (48::nat) \<le> of_char c \<and> of_char c < (58::nat)"

lemma of_char_digit [simp]: "d < 10 \<Longrightarrow> of_char (digit d) = (48 + d :: nat)"
  by (simp add: digit_def of_char_of)

lemma nat_str_digits: "c \<in> set (nat_str n) \<Longrightarrow> is_digit c"
proof (induction n rule: nat_str.induct)
  case (1 n)
  then show ?case by (subst (asm) (2) nat_str.simps) (auto simp: is_digit_def split: if_splits)
qed

lemma parse_nat_str [simp]: "parse_nat (nat_str n) = n"
proof (induction n rule: nat_str.induct)
  case (1 n)
  then show ?case by (subst nat_str.simps) (simp add: parse_nat_def)
qed

lemma nat_str_not_Nil [simp]: "nat_str n \<noteq> []"
  by (subst nat_str.simps) simp

lemma nat_str_inject: "nat_str m = nat_str n \<longleftrightarrow> m = n"
  by (metis parse_nat_str)

lemma word_str_inject [simp]: "word_str v = word_str w \<longleftrightarrow> v = w"
  unfolding nat_str_inject by (metis unsigned_word_eqI)

lemma minus_not_digit [simp]: "CHR ''-'' \<notin> set (nat_str n)"
  using nat_str_digits [of "CHR ''-''" n] by (auto simp: is_digit_def)

lemma int_str_inject [simp]: "int_str i = int_str j \<longleftrightarrow> i = j"
proof
  assume e: "int_str i = int_str j"
  have "CHR ''-'' \<in> set (int_str k) \<longleftrightarrow> k < 0" for k by (simp add: int_str_def)
  then have "i < 0 \<longleftrightarrow> j < 0" using e by metis
  then show "i = j" using e by (auto simp: int_str_def nat_str_inject split: if_splits)
qed simp

section \<open>Identifiers\<close>

definition orderIdToString :: "OrderId \<Rightarrow> string" where
  "orderIdToString order_id = (if order_id = OrderId_INVALID then ''INVALID'' else word_str order_id)"

definition tickerIdToString :: "TickerId \<Rightarrow> string" where
  "tickerIdToString tid = (if tid = TickerId_INVALID then ''INVALID'' else word_str tid)"

definition clientIdToString :: "ClientId \<Rightarrow> string" where
  "clientIdToString client_id = (if client_id = ClientId_INVALID then ''INVALID'' else word_str client_id)"

definition priceToString :: "Price \<Rightarrow> string" where
  "priceToString price = (if price = Price_INVALID then ''INVALID'' else int_str price)"

definition qtyToString :: "Qty \<Rightarrow> string" where
  "qtyToString qty = (if qty = Qty_INVALID then ''INVALID'' else word_str qty)"

definition priorityToString :: "Priority \<Rightarrow> string" where
  "priorityToString priority = (if priority = Priority_INVALID then ''INVALID'' else word_str priority)"

definition clientRequestTypeToString :: "ClientRequestType \<Rightarrow> string" where
  "clientRequestTypeToString type =
     (case type of Request_NEW \<Rightarrow> ''NEW'' | Request_CANCEL \<Rightarrow> ''CANCEL'' | Request_INVALID \<Rightarrow> ''INVALID'')"

definition clientResponseTypeToString :: "ClientResponseType \<Rightarrow> string" where
  "clientResponseTypeToString type =
     (case type of ACCEPTED \<Rightarrow> ''ACCEPTED'' | CANCELED \<Rightarrow> ''CANCELED'' | FILLED \<Rightarrow> ''FILLED''
                 | CANCEL_REJECTED \<Rightarrow> ''CANCEL_REJECTED'' | Response_INVALID \<Rightarrow> ''INVALID'')"

definition marketUpdateTypeToString :: "MarketUpdateType \<Rightarrow> string" where
  "marketUpdateTypeToString type =
     (case type of CLEAR \<Rightarrow> ''CLEAR'' | ADD \<Rightarrow> ''ADD'' | MODIFY \<Rightarrow> ''MODIFY'' | CANCEL \<Rightarrow> ''CANCEL'' | TRADE \<Rightarrow> ''TRADE''
                 | SNAPSHOT_START \<Rightarrow> ''SNAPSHOT_START'' | SNAPSHOT_END \<Rightarrow> ''SNAPSHOT_END'' | Update_INVALID \<Rightarrow> ''INVALID'')"

section \<open>Messages\<close>

definition request_toString :: "MEClientRequest \<Rightarrow> string" where
  "request_toString r =
     ''MEClientRequest'' @ '' ['' @ ''type:'' @ clientRequestTypeToString (req_type r) @
     '' client:'' @ clientIdToString (req_client_id r) @ '' ticker:'' @ tickerIdToString (req_ticker_id r) @
     '' oid:'' @ orderIdToString (req_order_id r) @ '' side:'' @ sideToString (req_side r) @
     '' qty:'' @ qtyToString (req_qty r) @ '' price:'' @ priceToString (req_price r) @ '']''"

definition om_request_toString :: "OMClientRequest \<Rightarrow> string" where
  "om_request_toString m =
     ''OMClientRequest'' @ '' ['' @ ''seq:'' @ word_str (omreq_seq_num m) @ '' '' @ request_toString (omreq_request m) @ '']''"

definition response_toString :: "MEClientResponse \<Rightarrow> string" where
  "response_toString r =
     ''MEClientResponse'' @ '' ['' @ ''type:'' @ clientResponseTypeToString (rsp_type r) @
     '' client:'' @ clientIdToString (rsp_client_id r) @ '' ticker:'' @ tickerIdToString (rsp_ticker_id r) @
     '' coid:'' @ orderIdToString (rsp_client_order_id r) @ '' moid:'' @ orderIdToString (rsp_market_order_id r) @
     '' side:'' @ sideToString (rsp_side r) @ '' exec_qty:'' @ qtyToString (rsp_exec_qty r) @
     '' leaves_qty:'' @ qtyToString (rsp_leaves_qty r) @ '' price:'' @ priceToString (rsp_price r) @ '']''"

definition om_response_toString :: "OMClientResponse \<Rightarrow> string" where
  "om_response_toString m =
     ''OMClientResponse'' @ '' ['' @ ''seq:'' @ word_str (omrsp_seq_num m) @ '' '' @ response_toString (omrsp_response m) @ '']''"

definition update_toString :: "MEMarketUpdate \<Rightarrow> string" where
  "update_toString u =
     ''MEMarketUpdate'' @ '' ['' @ '' type:'' @ marketUpdateTypeToString (upd_type u) @
     '' ticker:'' @ tickerIdToString (upd_ticker_id u) @ '' oid:'' @ orderIdToString (upd_order_id u) @
     '' side:'' @ sideToString (upd_side u) @ '' qty:'' @ qtyToString (upd_qty u) @
     '' price:'' @ priceToString (upd_price u) @ '' priority:'' @ priorityToString (upd_priority u) @ '']''"

definition mdp_update_toString :: "MDPMarketUpdate \<Rightarrow> string" where
  "mdp_update_toString m =
     ''MDPMarketUpdate'' @ '' ['' @ '' seq:'' @ word_str (mdp_seq_num m) @ '' '' @ update_toString (mdp_update m) @ '']''"

definition risk_cfg_toString :: "(real \<Rightarrow> string) \<Rightarrow> RiskCfg \<Rightarrow> string" where
  "risk_cfg_toString show_double c =
     ''RiskCfg{'' @ ''max-order-size:'' @ qtyToString (max_order_size c) @ '' '' @
     ''max-position:'' @ qtyToString (max_position c) @ '' '' @ ''max-loss:'' @ show_double (max_loss c) @ ''}''"

definition engine_cfg_toString :: "(real \<Rightarrow> string) \<Rightarrow> TradeEngineCfg \<Rightarrow> string" where
  "engine_cfg_toString show_double c =
     ''TradeEngineCfg{'' @ ''clip:'' @ qtyToString (clip c) @ '' '' @ ''thresh:'' @ show_double (threshold c) @ '' '' @
     ''risk:'' @ risk_cfg_toString show_double (risk_cfg c) @ ''}''"

section \<open>What is printed can be read back\<close>

text \<open>A field is a string without blanks and closing brackets.\<close>

definition field :: "string \<Rightarrow> bool" where
  "field s \<longleftrightarrow> CHR '' '' \<notin> set s \<and> CHR '']'' \<notin> set s"

lemma field_digits: "(\<And>c. c \<in> set s \<Longrightarrow> is_digit c) \<Longrightarrow> field s"
proof -
  assume d: "\<And>c. c \<in> set s \<Longrightarrow> is_digit c"
  show ?thesis using d [of "CHR '' ''"] d [of "CHR '']''"] by (auto simp: field_def is_digit_def)
qed

lemma field_numbers [simp]: "field (nat_str n)" "field (int_str i)"
  using field_digits [OF nat_str_digits] by (auto simp: int_str_def field_def)

lemma field_names [simp]:
  "field (sideToString s)" "field (clientRequestTypeToString t)" "field (clientResponseTypeToString k)"
  "field (marketUpdateTypeToString m)"
     apply (cases s; simp add: sideToString_def field_def)
    apply (cases t; simp add: clientRequestTypeToString_def field_def)
   apply (cases k; simp add: clientResponseTypeToString_def field_def)
  apply (cases m; simp add: marketUpdateTypeToString_def field_def)
  done

lemma field_ids [simp]:
  "field (orderIdToString a)" "field (tickerIdToString b)" "field (clientIdToString c)" "field (priceToString d)"
  "field (qtyToString e)" "field (priorityToString f)"
  by (simp_all add: orderIdToString_def tickerIdToString_def clientIdToString_def priceToString_def qtyToString_def
      priorityToString_def) (simp_all add: field_def)

lemma nat_str_not_invalid [simp]: "nat_str n \<noteq> ''INVALID''" "''INVALID'' \<noteq> nat_str n" "int_str i \<noteq> ''INVALID''" "''INVALID'' \<noteq> int_str i"
proof -
  have "nat_str m \<noteq> ''INVALID''" "tl (CHR ''-'' # nat_str m) \<noteq> ''NVALID''" for m
    using nat_str_digits [of "CHR ''V''" m] by (auto simp: is_digit_def)
  then show "nat_str n \<noteq> ''INVALID''" "''INVALID'' \<noteq> nat_str n" "int_str i \<noteq> ''INVALID''" "''INVALID'' \<noteq> int_str i"
    by (auto simp: int_str_def eq_commute [of "''INVALID''"])
qed

lemma ids_inject [simp]:
  "orderIdToString a = orderIdToString a' \<longleftrightarrow> a = a'" "tickerIdToString b = tickerIdToString b' \<longleftrightarrow> b = b'"
  "clientIdToString c = clientIdToString c' \<longleftrightarrow> c = c'" "priceToString d = priceToString d' \<longleftrightarrow> d = d'"
  "qtyToString e = qtyToString e' \<longleftrightarrow> e = e'" "priorityToString f = priorityToString f' \<longleftrightarrow> f = f'"
  by (auto simp: orderIdToString_def tickerIdToString_def clientIdToString_def priceToString_def qtyToString_def
      priorityToString_def split: if_splits)

lemma names_inject [simp]:
  "sideToString s = sideToString s' \<longleftrightarrow> s = s'" "clientRequestTypeToString t = clientRequestTypeToString t' \<longleftrightarrow> t = t'"
  "clientResponseTypeToString k = clientResponseTypeToString k' \<longleftrightarrow> k = k'"
  "marketUpdateTypeToString m = marketUpdateTypeToString m' \<longleftrightarrow> m = m'"
     apply (cases s; cases s'; simp add: sideToString_def)
    apply (cases t; cases t'; simp add: clientRequestTypeToString_def)
   apply (cases k; cases k'; simp add: clientResponseTypeToString_def)
  apply (cases m; cases m'; simp add: marketUpdateTypeToString_def)
  done

lemma cut_at: "c \<notin> set s \<Longrightarrow> c \<notin> set s' \<Longrightarrow> s @ c # x = s' @ c # x' \<longleftrightarrow> s = s' \<and> x = x'"
proof (induction s arbitrary: s')
  case (Cons a s)
  then show ?case by (cases s') auto
next
  case Nil
  then show ?case by (cases s') auto
qed

lemma field_cut [simp]:
  assumes "field s" and "field s'"
  shows "s @ CHR '' '' # x = s' @ CHR '' '' # x' \<longleftrightarrow> s = s' \<and> x = x'" and "s @ CHR '']'' # x = s' @ CHR '']'' # x' \<longleftrightarrow> s = s' \<and> x = x'"
  using assms cut_at [of "CHR '' ''" s s' x x'] cut_at [of "CHR '']''" s s' x x'] by (auto simp: field_def)

lemma message_inject [simp]:
  "request_toString r = request_toString r' \<longleftrightarrow> r = r'" "response_toString p = response_toString p' \<longleftrightarrow> p = p'"
  "update_toString u = update_toString u' \<longleftrightarrow> u = u'"
    apply (cases r; cases r'; auto simp: request_toString_def)
   apply (cases p; cases p'; auto simp: response_toString_def)
  apply (cases u; cases u'; auto simp: update_toString_def)
  done

text \<open>
  A log line identifies the message it shows: two messages of the wire protocol that print the same
  are the same, with their sequence numbers, although sentinel values all print as \<open>INVALID\<close>.
\<close>

theorem log_line_identifies_message:
  "(om_request_toString m = om_request_toString m' \<longleftrightarrow> m = m') \<and>
   (om_response_toString n = om_response_toString n' \<longleftrightarrow> n = n') \<and>
   (mdp_update_toString k = mdp_update_toString k' \<longleftrightarrow> k = k')"
proof (intro conjI)
  show "om_request_toString m = om_request_toString m' \<longleftrightarrow> m = m'"
    by (cases m; cases m') (auto simp: om_request_toString_def)
  show "om_response_toString n = om_response_toString n' \<longleftrightarrow> n = n'"
    by (cases n; cases n') (auto simp: om_response_toString_def)
  show "mdp_update_toString k = mdp_update_toString k' \<longleftrightarrow> k = k'"
    by (cases k; cases k') (auto simp: mdp_update_toString_def)
qed

end
