(* ===== verification/Book_Print.thy ===== *)
theory Book_Print
  imports Printing Unordered_Map_Book Market_Book_Refine
begin

text \<open>
  The \<open>toString()\<close> methods of orders, levels, best bid and offer and of the three order books.  The one of a book walks all
  levels and orders; with \<open>validity_check\<close>, as its destructor calls it, it ends the process when the
  levels of a side are not in price order.  The walks over the circular lists are shared with a
  function per list; what the message of that failure shows is left out.
\<close>

section \<open>Orders and levels\<close>

definition endl :: string where "endl = [CHR 0x0A]"

text \<open>The conversions \<open>%3s\<close> and \<open>%-3s\<close>, and a buffer of 4096 characters with its terminating zero.\<close>

definition pad_left :: "nat \<Rightarrow> string \<Rightarrow> string" where
  "pad_left n s = replicate (n - length s) CHR '' '' @ s"

definition pad_right :: "nat \<Rightarrow> string \<Rightarrow> string" where
  "pad_right n s = s @ replicate (n - length s) CHR '' ''"

definition snprintf :: "string \<Rightarrow> string" where
  "snprintf s = take 4095 s"

text \<open>The identifier behind a pointer to a neighbour, or the invalid one.\<close>

definition id_behind :: "('x order_node_scheme \<Rightarrow> OrderId) \<Rightarrow> ptr \<Rightarrow> ('x, 'y) book_links_scheme \<Rightarrow> OrderId res" where
  "id_behind oid p b = (case p of None \<Rightarrow> Inr OrderId_INVALID | Some a \<Rightarrow> rbind (get_order (Some a) b) (\<lambda>x. Inr (oid x)))"

definition price_behind :: "ptr \<Rightarrow> ('x, 'y) book_links_scheme \<Rightarrow> Price res" where
  "price_behind p b = (case p of None \<Rightarrow> Inr Price_INVALID | Some l \<Rightarrow> rbind (get_level (Some l) b) (\<lambda>x. Inr (lvl_price x)))"

definition MEOrder_toString :: "(unit MEOrder_ext, 'y) book_links_scheme \<Rightarrow> MEOrder \<Rightarrow> string res" where
  "MEOrder_toString b x =
     rbind (id_behind ord_market_order_id (prev_order x) b) (\<lambda>p.
     rbind (id_behind ord_market_order_id (next_order x) b) (\<lambda>n.
     Inr (''MEOrder'' @ ''['' @ ''ticker:'' @ tickerIdToString (ord_ticker_id x) @ '' '' @
       ''cid:'' @ clientIdToString (ord_client_id x) @ '' '' @ ''oid:'' @ orderIdToString (ord_client_order_id x) @ '' '' @
       ''moid:'' @ orderIdToString (ord_market_order_id x) @ '' '' @ ''side:'' @ sideToString (ord_side x) @ '' '' @
       ''price:'' @ priceToString (ord_price x) @ '' '' @ ''qty:'' @ qtyToString (ord_qty x) @ '' '' @
       ''prio:'' @ priorityToString (ord_priority x) @ '' '' @ ''prev:'' @ orderIdToString p @ '' '' @
       ''next:'' @ orderIdToString n @ '']'')))"

definition MarketOrder_toString :: "(unit MarketOrder_ext, 'y) book_links_scheme \<Rightarrow> MarketOrder \<Rightarrow> string res" where
  "MarketOrder_toString b x =
     rbind (id_behind mo_order_id (prev_order x) b) (\<lambda>p.
     rbind (id_behind mo_order_id (next_order x) b) (\<lambda>n.
     Inr (''MarketOrder'' @ ''['' @ ''oid:'' @ orderIdToString (mo_order_id x) @ '' '' @
       ''side:'' @ sideToString (ord_side x) @ '' '' @ ''price:'' @ priceToString (ord_price x) @ '' '' @
       ''qty:'' @ qtyToString (ord_qty x) @ '' '' @ ''prio:'' @ priorityToString (ord_priority x) @ '' '' @
       ''prev:'' @ orderIdToString p @ '' '' @ ''next:'' @ orderIdToString n @ '']'')))"

definition level_toString ::
  "string \<Rightarrow> string \<Rightarrow> ('x order_node_scheme \<Rightarrow> string res) \<Rightarrow> OrdersAtPrice \<Rightarrow> ('x, 'y) book_links_scheme \<Rightarrow> string res" where
  "level_toString name first_name show_order l b =
     rbind (case first_order l of None \<Rightarrow> Inr ''null'' | Some a \<Rightarrow> rbind (get_order (Some a) b) show_order) (\<lambda>f.
     rbind (price_behind (prev_entry l) b) (\<lambda>p.
     rbind (price_behind (next_entry l) b) (\<lambda>n.
     Inr (name @ ''['' @ ''side:'' @ sideToString (lvl_side l) @ '' '' @ ''price:'' @ priceToString (lvl_price l) @ '' '' @
       first_name @ f @ '' '' @ ''prev:'' @ priceToString p @ '' '' @ ''next:'' @ priceToString n @ '']''))))"

definition MEOrdersAtPrice_toString :: "OrdersAtPrice \<Rightarrow> (unit MEOrder_ext, 'y) book_links_scheme \<Rightarrow> string res" where
  "MEOrdersAtPrice_toString l b = level_toString ''MEOrdersAtPrice'' ''first_me_order:'' (MEOrder_toString b) l b"

definition MarketOrdersAtPrice_toString :: "OrdersAtPrice \<Rightarrow> (unit MarketOrder_ext, 'y) book_links_scheme \<Rightarrow> string res" where
  "MarketOrdersAtPrice_toString l b = level_toString ''MarketOrdersAtPrice'' ''first_mkt_order:'' (MarketOrder_toString b) l b"

definition bbo_toString :: "BBO \<Rightarrow> string" where
  "bbo_toString x =
     ''BBO{'' @ qtyToString (bid_qty x) @ ''@'' @ priceToString (bid_price x) @ ''X'' @
     priceToString (ask_price x) @ ''@'' @ qtyToString (ask_qty x) @ ''}''"

section \<open>Walking the lists\<close>

text \<open>
  The loop \<open>for (o_itr = first;; o_itr = o_itr->next_order_) { ... if (o_itr->next_order_ == first) break; }\<close>
  with its body as an argument, bounded by the number of blocks of the order pool.
\<close>

fun over_orders ::
  "nat \<Rightarrow> ('x order_node_scheme \<Rightarrow> 'a \<Rightarrow> 'a res) \<Rightarrow> ('x, 'y) book_links_scheme \<Rightarrow> ptr \<Rightarrow> ptr \<Rightarrow> 'a \<Rightarrow> 'a res" where
  "over_orders 0 f b first o_itr acc = Inl Diverges"
| "over_orders (Suc n) f b first o_itr acc =
     rbind (get_order o_itr b) (\<lambda>x.
     rbind (f x acc) (\<lambda>acc.
     if next_order x = first then Inr acc else over_orders n f b first (next_order x) acc))"

text \<open>The loop over the levels of a side, which ends when it comes back to the best level.\<close>

fun over_levels ::
  "nat \<Rightarrow> (OrdersAtPrice \<Rightarrow> 'a \<Rightarrow> 'a res) \<Rightarrow> ('x, 'y) book_links_scheme \<Rightarrow> ptr \<Rightarrow> ptr \<Rightarrow> 'a \<Rightarrow> 'a res" where
  "over_levels 0 f b best itr acc = (if itr = None then Inr acc else Inl Diverges)"
| "over_levels (Suc n) f b best itr acc =
     (if itr = None then Inr acc
      else
        rbind (get_level itr b) (\<lambda>l.
        let nxt = (if next_entry l = best then None else next_entry l) in
        rbind (f l acc) (\<lambda>acc.
        over_levels n f b best nxt acc)))"

section \<open>Printing a book\<close>

definition add_qty :: "'x order_node_scheme \<Rightarrow> Qty \<times> nat \<Rightarrow> (Qty \<times> nat) res" where
  "add_qty x = (\<lambda>(qty, num_orders). Inr (qty + ord_qty x, num_orders + 1))"

definition show_order ::
  "('x order_node_scheme \<Rightarrow> OrderId) \<Rightarrow> bool \<Rightarrow> ('x, 'y) book_links_scheme \<Rightarrow> 'x order_node_scheme \<Rightarrow> string \<Rightarrow> string res" where
  "show_order oid detailed b x ss =
     (if detailed then
        rbind (id_behind oid (prev_order x) b) (\<lambda>p.
        rbind (id_behind oid (next_order x) b) (\<lambda>n.
        Inr (ss @ snprintf (''[oid:'' @ orderIdToString (oid x) @ '' q:'' @ qtyToString (ord_qty x) @
          '' p:'' @ orderIdToString p @ '' n:'' @ orderIdToString n @ ''] ''))))
      else Inr ss)"

text \<open>The lambda \<open>printer\<close>; the price of the last level printed is part of the result.\<close>

definition printer ::
  "('x order_node_scheme \<Rightarrow> OrderId) \<Rightarrow> bool \<Rightarrow> bool \<Rightarrow> Side \<Rightarrow> ('x, 'y) book_links_scheme \<Rightarrow>
   OrdersAtPrice \<Rightarrow> string \<Rightarrow> Price \<Rightarrow> (string \<times> Price) res" where
  "printer oid detailed sanity_check side b l ss last_price =
     (let fuel = pool_size (order_pool b) in
      rbind (over_orders fuel add_qty b (first_order l) (first_order l) (0, 0)) (\<lambda>(qty, num_orders).
      rbind (get_level (prev_entry l) b) (\<lambda>p.
      rbind (get_level (next_entry l) b) (\<lambda>n.
      let line = '' <px:'' @ pad_left 3 (priceToString (lvl_price l)) @ '' p:'' @ pad_left 3 (priceToString (lvl_price p)) @
            '' n:'' @ pad_left 3 (priceToString (lvl_price n)) @ ''> '' @ pad_right 3 (priceToString (lvl_price l)) @ '' @ '' @
            pad_right 5 (qtyToString qty) @ ''('' @ pad_right 4 (nat_str num_orders) @ '')''
      in
      rbind (over_orders fuel (show_order oid detailed b) b (first_order l) (first_order l) (ss @ snprintf line)) (\<lambda>ss.
        if sanity_check then
          (if side = SELL \<and> last_price \<ge> lvl_price l \<or> side = BUY \<and> last_price \<le> lvl_price l
           then FATAL ''Bids/Asks not sorted by ascending/descending prices last:''
           else Inr (ss @ endl, lvl_price l))
        else Inr (ss @ endl, last_price))))))"

definition print_side ::
  "string \<Rightarrow> ('x order_node_scheme \<Rightarrow> OrderId) \<Rightarrow> bool \<Rightarrow> bool \<Rightarrow> Side \<Rightarrow> Price \<Rightarrow> ('x, 'y) book_links_scheme \<Rightarrow> string res" where
  "print_side label oid detailed validity_check side last_price b =
     rbind (over_levels (pool_size (orders_at_price_pool b))
       (\<lambda>l (ss, count, last_price).
          rbind (printer oid detailed validity_check side b l (ss @ label @ nat_str count @ '' => '') last_price) (\<lambda>(ss, last_price).
          Inr (ss, count + 1, last_price)))
       b (best_orders_by_price side b) (best_orders_by_price side b) ([], 0, last_price)) (\<lambda>(ss, _).
     Inr ss)"

definition book_toString ::
  "('x order_node_scheme \<Rightarrow> OrderId) \<Rightarrow> TickerId \<Rightarrow> bool \<Rightarrow> bool \<Rightarrow> ('x, 'y) book_links_scheme \<Rightarrow> string res" where
  "book_toString oid tid detailed validity_check b =
     rbind (print_side ''ASKS L:'' oid detailed validity_check SELL (- (2 ^ 63)) b) (\<lambda>asks.
     rbind (print_side ''BIDS L:'' oid detailed validity_check BUY (2 ^ 63 - 1) b) (\<lambda>bids.
     Inr (''Ticker:'' @ tickerIdToString tid @ endl @ asks @ endl @ ''                          X'' @ endl @ endl @ bids)))"

definition MEOrderBook_toString :: "bool \<Rightarrow> bool \<Rightarrow> MEOrderBook \<Rightarrow> string res" where
  "MEOrderBook_toString detailed validity_check b = book_toString ord_market_order_id (ticker_id b) detailed validity_check b"

definition UnorderedMapMEOrderBook_toString :: "bool \<Rightarrow> bool \<Rightarrow> UnorderedMapMEOrderBook \<Rightarrow> string res" where
  "UnorderedMapMEOrderBook_toString detailed validity_check u =
     book_toString ord_market_order_id (u_ticker_id u) detailed validity_check u"

definition MarketOrderBook_toString :: "bool \<Rightarrow> bool \<Rightarrow> MarketOrderBook \<Rightarrow> string res" where
  "MarketOrderBook_toString detailed validity_check b = book_toString mo_order_id (mob_ticker_id b) detailed validity_check b"

section \<open>The walks follow the lists\<close>

lemma over_orders_walk:
  assumes "cdll (nextO (order_pool b)) (prevO (order_pool b)) (us @ a # vs)" and "length (a # vs) \<le> fuel"
  shows "over_orders fuel f b (Some (hd (us @ a # vs))) (Some a) acc = rfold (\<lambda>d. f (obj (order_pool b) d)) (a # vs) acc"
  using assms
proof (induction vs arbitrary: us a fuel acc)
  case Nil
  obtain n where n: "fuel = Suc n" using Nil.prems(2) by (cases fuel) auto
  have "next_order (obj (order_pool b) a) = Some (hd (us @ [a]))" using cdll_next [OF Nil.prems(1)] by (simp add: view_defs)
  then show ?case using n by (auto intro!: rbind_cong)
next
  case (Cons v vs)
  obtain n where n: "fuel = Suc n" "length (v # vs) \<le> n" using Cons.prems(2) by (cases fuel) auto
  have nx: "next_order (obj (order_pool b) a) = Some v" using cdll_next [OF Cons.prems(1)] by (simp add: view_defs)
  have "v \<noteq> hd (us @ a # v # vs)" using cdll_distinct [OF Cons.prems(1)] by (cases us) auto
  moreover have "over_orders n f b (Some (hd (us @ a # v # vs))) (Some v) acc' = rfold (\<lambda>d. f (obj (order_pool b) d)) (v # vs) acc'" for acc'
    using Cons.IH [of "us @ [a]" v n acc'] Cons.prems(1) n(2) by (simp add: hd_append)
  ultimately show ?case using n(1) nx by (auto intro!: rbind_cong)
qed

lemma over_levels_walk:
  assumes "cdll (nextE (orders_at_price_pool b)) (prevE (orders_at_price_pool b)) (us @ a # vs)" and "length (a # vs) \<le> fuel"
  shows "over_levels fuel f b (Some (hd (us @ a # vs))) (Some a) acc = rfold (\<lambda>l. f (obj (orders_at_price_pool b) l)) (a # vs) acc"
  using assms
proof (induction vs arbitrary: us a fuel acc)
  case Nil
  obtain n where n: "fuel = Suc n" using Nil.prems(2) by (cases fuel) auto
  have "next_entry (obj (orders_at_price_pool b) a) = Some (hd (us @ [a]))" using cdll_next [OF Nil.prems(1)] by (simp add: view_defs)
  moreover have "over_levels n f b best None acc' = Inr acc'" for best acc' by (cases n) simp_all
  ultimately show ?case using n by (auto intro!: rbind_cong)
next
  case (Cons v vs)
  obtain n where n: "fuel = Suc n" "length (v # vs) \<le> n" using Cons.prems(2) by (cases fuel) auto
  have nx: "next_entry (obj (orders_at_price_pool b) a) = Some v" using cdll_next [OF Cons.prems(1)] by (simp add: view_defs)
  have "v \<noteq> hd (us @ a # v # vs)" using cdll_distinct [OF Cons.prems(1)] by (cases us) auto
  moreover have "over_levels n f b (Some (hd (us @ a # v # vs))) (Some v) acc' = rfold (\<lambda>l. f (obj (orders_at_price_pool b) l)) (v # vs) acc'" for acc'
    using Cons.IH [of "us @ [a]" v n acc'] Cons.prems(1) n(2) by (simp add: hd_append)
  ultimately show ?case using n(1) nx by (auto intro!: rbind_cong)
qed

section \<open>Printing succeeds\<close>

lemma rfold_ok: "(\<And>x s. x \<in> set xs \<Longrightarrow> \<exists>s'. f x s = Inr s') \<Longrightarrow> \<exists>s'. rfold f xs s = Inr s'"
proof (induction xs arbitrary: s)
  case (Cons x xs)
  obtain s1 where "f x s = Inr s1" using Cons.prems [of x s] by auto
  then show ?case using Cons.IH [of s1] Cons.prems by auto
qed simp

lemma show_order_ok: "\<exists>ss'. show_order oid detailed b x ss = Inr ss'"
  by (auto simp: show_order_def id_behind_def split: option.splits)

lemma over_level_ok:
  assumes "level_ok (orders_at_price_pool b) (order_pool b) s x" and "length (snd x) \<le> pool_size (order_pool b)"
    and "\<And>y acc. \<exists>acc'. f y acc = Inr acc'"
  shows "\<exists>acc'. over_orders (pool_size (order_pool b)) f b (first_order (obj (orders_at_price_pool b) (fst x)))
     (first_order (obj (orders_at_price_pool b) (fst x))) acc = Inr acc'"
proof -
  have os: "snd x \<noteq> []" "first_order (obj (orders_at_price_pool b) (fst x)) = Some (hd (snd x))"
    "cdll (nextO (order_pool b)) (prevO (order_pool b)) ([] @ hd (snd x) # tl (snd x))"
    using assms(1) by (auto simp: level_ok_def)
  have "over_orders (pool_size (order_pool b)) f b (Some (hd (snd x))) (Some (hd (snd x))) acc =
      rfold (\<lambda>d. f (obj (order_pool b) d)) (snd x) acc"
    using over_orders_walk [OF os(3), of "pool_size (order_pool b)" f acc] assms(2) os(1) by simp
  then show ?thesis using rfold_ok [of "snd x" "\<lambda>d. f (obj (order_pool b) d)" acc] assms(3) os(2) by simp
qed

lemma printer_run:
  assumes "level_ok (orders_at_price_pool b) (order_pool b) s x" and "length (snd x) \<le> pool_size (order_pool b)"
    and "l = obj (orders_at_price_pool b) (fst x)" and "next_entry l \<noteq> None" and "prev_entry l \<noteq> None"
    and "s \<in> {BUY, SELL}"
  shows "\<exists>ss'. printer oid detailed check s b l ss last_price =
     (if check \<and> \<not> worse s (lvl_price l) last_price then FATAL ''Bids/Asks not sorted by ascending/descending prices last:''
      else Inr (ss', if check then lvl_price l else last_price))"
proof -
  let ?run = "over_orders (pool_size (order_pool b))"
  obtain q k where 1: "?run add_qty b (first_order l) (first_order l) (0, 0) = Inr (q, k)"
    using over_level_ok [OF assms(1,2), of add_qty "(0, 0)"] assms(3) by (auto simp: add_qty_def)
  have 2: "\<exists>ss'. ?run (show_order oid detailed b) b (first_order l) (first_order l) ss = Inr ss'" for ss
    using over_level_ok [OF assms(1,2), of "show_order oid detailed b" ss] show_order_ok assms(3) by blast
  have 3: "(s = SELL \<and> last_price \<ge> lvl_price l \<or> s = BUY \<and> last_price \<le> lvl_price l) = (\<not> worse s (lvl_price l) last_price)"
    using assms(6) by (auto simp: worse_def)
  obtain p n where pn: "prev_entry l = Some p" "next_entry l = Some n" using assms(4,5) by auto
  define line where "line = '' <px:'' @ pad_left 3 (priceToString (lvl_price l)) @ '' p:'' @
    pad_left 3 (priceToString (lvl_price (obj (orders_at_price_pool b) p))) @ '' n:'' @
    pad_left 3 (priceToString (lvl_price (obj (orders_at_price_pool b) n))) @ ''> '' @ pad_right 3 (priceToString (lvl_price l)) @ '' @ '' @
    pad_right 5 (qtyToString q) @ ''('' @ pad_right 4 (nat_str k) @ '')''"
  obtain ss' where "?run (show_order oid detailed b) b (first_order l) (first_order l) (ss @ snprintf line) = Inr ss'"
    using 2 by blast
  then show ?thesis using 1 pn unfolding printer_def Let_def 3 by (simp add: line_def)
qed

lemma print_levels_ok:
  assumes "\<And>x. x \<in> set xs \<Longrightarrow> level_ok (orders_at_price_pool b) (order_pool b) s x \<and> length (snd x) \<le> pool_size (order_pool b) \<and>
      next_entry (obj (orders_at_price_pool b) (fst x)) \<noteq> None \<and> prev_entry (obj (orders_at_price_pool b) (fst x)) \<noteq> None"
    and "sorted_wrt (\<lambda>x y. worse s (lprice (orders_at_price_pool b) y) (lprice (orders_at_price_pool b) x)) xs"
    and "\<And>x. x \<in> set xs \<Longrightarrow> check \<Longrightarrow> worse s (lprice (orders_at_price_pool b) x) last_price"
    and s: "s \<in> {BUY, SELL}"
  shows "\<exists>r. rfold (\<lambda>l (ss, count, last_price).
       rbind (printer oid detailed check s b (obj (orders_at_price_pool b) l) (ss @ label @ nat_str count @ '' => '') last_price)
         (\<lambda>(ss, last_price). Inr (ss, count + 1, last_price)))
     (map fst xs) (ss, k, last_price) = Inr r"
  using assms(1-3)
proof (induction xs arbitrary: ss k last_price)
  case (Cons x xs)
  let ?l = "obj (orders_at_price_pool b) (fst x)" and ?last = "if check then lvl_price (obj (orders_at_price_pool b) (fst x)) else last_price"
  obtain ss' where "printer oid detailed check s b ?l (ss @ label @ nat_str k @ '' => '') last_price = Inr (ss', ?last)"
    using printer_run [of b s x ?l oid detailed check "ss @ label @ nat_str k @ '' => ''" last_price] Cons.prems(1) [of x] Cons.prems(3) [of x]
      s by (cases check) (auto simp: lprice_def)
  moreover have "\<exists>r. rfold (\<lambda>l (ss, count, last_price).
       rbind (printer oid detailed check s b (obj (orders_at_price_pool b) l) (ss @ label @ nat_str count @ '' => '') last_price)
         (\<lambda>(ss, last_price). Inr (ss, count + 1, last_price)))
     (map fst xs) (ss', k + 1, ?last) = Inr r"
    using Cons.prems by (intro Cons.IH) (auto simp: lprice_def)
  ultimately show ?case by simp
qed simp

lemma card_below: "A \<subseteq> {..<n} \<Longrightarrow> card A \<le> n" for n :: nat
  using card_mono [OF finite_lessThan] by fastforce

lemma rep_level_count:
  assumes "rep b L" and "s \<in> {BUY, SELL}"
  shows "length (L s) \<le> pool_size (orders_at_price_pool b)"
proof -
  have "set (map fst (L s)) \<subseteq> {..<pool_size (orders_at_price_pool b)}"
    using rep_used [OF assms] by (auto simp: used_def)
  then have "card (set (map fst (L s))) \<le> pool_size (orders_at_price_pool b)" by (rule card_below)
  then show ?thesis using distinct_card [OF side_ok_distinct [OF rep_side [OF assms]]] by simp
qed

text \<open>What \<open>print_side\<close> does with one level, and the loop over the levels of a side as a fold.\<close>

abbreviation print_level ::
  "string \<Rightarrow> ('x order_node_scheme \<Rightarrow> OrderId) \<Rightarrow> bool \<Rightarrow> bool \<Rightarrow> Side \<Rightarrow> ('x, 'y) book_links_scheme \<Rightarrow>
   OrdersAtPrice \<Rightarrow> string \<times> nat \<times> Price \<Rightarrow> (string \<times> nat \<times> Price) res" where
  "print_level label oid detailed check s b \<equiv> \<lambda>l (ss, count, last_price).
     rbind (printer oid detailed check s b l (ss @ label @ nat_str count @ '' => '') last_price)
       (\<lambda>(ss, last_price). Inr (ss, count + 1, last_price))"

lemma rep_level_printable:
  assumes r: "rep b L" and s: "s \<in> {BUY, SELL}" and o: "set (flat (L s)) \<subseteq> used (order_pool b)" and x: "x \<in> set (L s)"
  shows "level_ok (orders_at_price_pool b) (order_pool b) s x \<and> length (snd x) \<le> pool_size (order_pool b) \<and>
      next_entry (obj (orders_at_price_pool b) (fst x)) \<noteq> None \<and> prev_entry (obj (orders_at_price_pool b) (fst x)) \<noteq> None"
proof (intro conjI)
  let ?LP = "orders_at_price_pool b"
  have side: "side_ok ?LP (order_pool b) s (best_orders_by_price s b) (L s)" by (rule rep_side [OF r s])
  then show lev: "level_ok ?LP (order_pool b) s x" using x by (rule side_ok_level)
  have "set (snd x) \<subseteq> set (flat (L s))" using x by (auto simp: set_flat)
  then have "set (snd x) \<subseteq> {..<pool_size (order_pool b)}" using o by (auto simp: used_def)
  then have "card (set (snd x)) \<le> pool_size (order_pool b)" by (rule card_below)
  moreover have "distinct (snd x)" using lev by (auto simp: level_ok_def dest: cdll_distinct)
  ultimately show "length (snd x) \<le> pool_size (order_pool b)" by (simp add: distinct_card)
  obtain us vs where "L s = us @ x # vs" using split_list [OF x] by blast
  then have c: "cdll (nextE ?LP) (prevE ?LP) (map fst us @ fst x # map fst vs)" using side by (simp add: side_ok_def)
  show "next_entry (obj ?LP (fst x)) \<noteq> None" using cdll_next [OF c] by (simp add: view_defs)
  show "prev_entry (obj ?LP (fst x)) \<noteq> None" using cdll_prev [OF c] by (simp add: view_defs)
qed

lemma print_side_fold:
  assumes r: "rep b L" and s: "s \<in> {BUY, SELL}"
  shows "print_side label oid detailed check s last_price b =
    rbind (rfold (\<lambda>l. print_level label oid detailed check s b (obj (orders_at_price_pool b) l)) (map fst (L s)) ([], 0, last_price))
      (\<lambda>(ss, _). Inr ss)"
proof -
  let ?LP = "orders_at_price_pool b" and ?f = "print_level label oid detailed check s b"
  have side: "side_ok ?LP (order_pool b) s (best_orders_by_price s b) (L s)" by (rule rep_side [OF r s])
  have "over_levels (pool_size ?LP) ?f b (best_orders_by_price s b) (best_orders_by_price s b) ([], 0, last_price) =
      rfold (\<lambda>l. ?f (obj ?LP l)) (map fst (L s)) ([], 0, last_price)"
  proof (cases "L s")
    case Nil
    then have "best_orders_by_price s b = None" using side by (simp add: side_ok_def head_ptr_def)
    then show ?thesis using Nil by (cases "pool_size ?LP") simp_all
  next
    case (Cons x xs)
    then have best: "best_orders_by_price s b = Some (fst x)"
      and c: "cdll (nextE ?LP) (prevE ?LP) ([] @ fst x # map fst xs)" using side by (simp_all add: side_ok_def head_ptr_def)
    show ?thesis using over_levels_walk [OF c, of "pool_size ?LP" ?f] rep_level_count [OF r s] Cons best by simp
  qed
  then show ?thesis by (simp add: print_side_def)
qed

lemma print_side_ok:
  assumes r: "rep b L" and s: "s \<in> {BUY, SELL}" and o: "set (flat (L s)) \<subseteq> used (order_pool b)"
    and p: "\<And>x. x \<in> set (L s) \<Longrightarrow> check \<Longrightarrow> worse s (lprice (orders_at_price_pool b) x) last_price"
  shows "\<exists>ss. print_side label oid detailed check s last_price b = Inr ss"
proof -
  have "sorted_wrt (\<lambda>x y. worse s (lprice (orders_at_price_pool b) y) (lprice (orders_at_price_pool b) x)) (L s)"
    using rep_side [OF r s] by (simp add: side_ok_def)
  from print_levels_ok [OF rep_level_printable [OF r s o] this p s, of check oid detailed label "[]" 0]
  show ?thesis unfolding print_side_fold [OF r s] by auto
qed

text \<open>The prices the check can compare: the extreme values of \<open>int64_t\<close> are where it starts.\<close>

definition printable_price :: "Price \<Rightarrow> bool" where
  "printable_price p \<longleftrightarrow> - (2 ^ 63) < p \<and> p < 2 ^ 63 - 1"

lemma book_print_ok:
  assumes "book_rep b F" and "queued F \<subseteq> used (order_pool b)" and "\<And>c. c \<in> queued F \<Longrightarrow> printable_price (price_of b c)"
  shows "\<exists>ss. book_toString oid tid detailed check b = Inr ss"
proof -
  obtain L where L: "rep b L" "\<And>s. s \<in> {BUY, SELL} \<Longrightarrow> F s = flat (L s)" "queued F = live L"
    using assms(1) by (auto elim: book_repE)
  have p: "printable_price (lprice (orders_at_price_pool b) x)" if s: "s \<in> {BUY, SELL}" and x: "x \<in> set (L s)" for s x
  proof -
    obtain c where "c \<in> set (flat (L s))" "price_of b c = lprice (orders_at_price_pool b) x" using rep_level_order [OF L(1) s x] by metis
    then show ?thesis using assms(3) [of c] L(2) [OF s] queuedI [OF s, of c F] by simp
  qed
  have o: "set (flat (L s)) \<subseteq> used (order_pool b)" if "s \<in> {BUY, SELL}" for s
    using assms(2) L(2) [OF that] queuedI [OF that, of _ F] by auto
  obtain asks where "print_side ''ASKS L:'' oid detailed check SELL (- (2 ^ 63)) b = Inr asks"
    using print_side_ok [OF L(1) _ o, of SELL check "- (2 ^ 63)" "''ASKS L:''" oid detailed] p [of SELL] by (auto simp: worse_def printable_price_def)
  moreover obtain bids where "print_side ''BIDS L:'' oid detailed check BUY (2 ^ 63 - 1) b = Inr bids"
    using print_side_ok [OF L(1) _ o, of BUY check "2 ^ 63 - 1" "''BIDS L:''" oid detailed] p [of BUY] by (auto simp: worse_def printable_price_def)
  ultimately show ?thesis by (simp add: book_toString_def)
qed


lemma me_print_ok:
  assumes "me_rel N M b A" and "\<And>s x. s \<in> {BUY, SELL} \<Longrightarrow> x \<in> set (ab_queue A s) \<Longrightarrow> printable_price (ord_price x)"
  shows "\<exists>ss. MEOrderBook_toString detailed check b = Inr ss"
proof -
  obtain F where F: "me_inv N M b F" and q: "\<And>s. s \<in> {BUY, SELL} \<Longrightarrow> ab_queue A s = absq b F s"
    using assms(1) by (auto simp: me_rel_def)
  have "printable_price (price_of b c)" if "c \<in> queued F" for c
  proof -
    from that obtain s where s: "s \<in> {BUY, SELL}" "c \<in> set (F s)" by (auto simp: queued_def)
    then have "strip (obj (order_pool b) c) \<in> set (ab_queue A s)" using q [OF s(1)] by (auto simp: absq_def)
    from assms(2) [OF s(1) this] show ?thesis by (simp add: strip_def)
  qed
  then show ?thesis unfolding MEOrderBook_toString_def using F by (intro book_print_ok [of b F]) (auto simp: me_inv_def)
qed

lemma market_print_ok:
  assumes "mob_rel N b A" and "\<And>s x. s \<in> {BUY, SELL} \<Longrightarrow> x \<in> set (A s) \<Longrightarrow> printable_price (ord_price x)"
  shows "\<exists>ss. MarketOrderBook_toString detailed check b = Inr ss"
proof -
  obtain F where F: "mob_inv N b F" and q: "\<And>s. s \<in> {BUY, SELL} \<Longrightarrow> A s = mobq b F s"
    using assms(1) by (auto simp: mob_rel_def)
  have "printable_price (price_of b c)" if "c \<in> queued F" for c
  proof -
    from that obtain s where s: "s \<in> {BUY, SELL}" "c \<in> set (F s)" by (auto simp: queued_def)
    then have "strip (obj (order_pool b) c) \<in> set (A s)" using q [OF s(1)] by (auto simp: mobq_def)
    from assms(2) [OF s(1) this] show ?thesis by (simp add: strip_def)
  qed
  then show ?thesis unfolding MarketOrderBook_toString_def using F by (intro book_print_ok [of b F]) (auto simp: mob_inv_def)
qed

text \<open>
  C32: Printing an order book with its validity check, as the destructor does, always ends and never
  finds the levels of a side out of order, as long as no order has one of the two extreme prices.
\<close>

theorem validity_check_passes:
  assumes "me_rel N M b A" and "\<forall>s\<in>{BUY, SELL}. \<forall>x\<in>set (ab_queue A s). printable_price (ord_price x)"
  shows "\<exists>ss. MEOrderBook_toString detailed check b = Inr ss"
  using me_print_ok [OF assms(1)] assms(2) by blast

theorem validity_check_passes_witness:
  "\<exists>b ss. me_rel 4 8 b offer_book \<and> MEOrderBook_toString True True b = Inr ss"
proof -
  obtain b where b: "me_rel 4 8 b offer_book" using offer_rel by metis
  from validity_check_passes [OF b, of True True] show ?thesis using b by (auto simp: offer_book_queues printable_price_def)
qed

lemma extreme_bid_fails:
  assumes F: "book_rep b F" "queued F \<subseteq> used (order_pool b)" and x: "F BUY = c # cs" "price_of b c = 2 ^ 63 - 1"
    and p: "\<And>c. c \<in> set (F SELL) \<Longrightarrow> printable_price (price_of b c)"
  shows "book_toString oid tid detailed True b = FATAL ''Bids/Asks not sorted by ascending/descending prices last:''"
proof -
  obtain L where L: "rep b L" "\<And>s. s \<in> {BUY, SELL} \<Longrightarrow> F s = flat (L s)" "queued F = live L"
    using F(1) by (auto elim: book_repE)
  have o: "set (flat (L s)) \<subseteq> used (order_pool b)" if "s \<in> {BUY, SELL}" for s
    using F(2) L(2) [OF that] queuedI [OF that, of _ F] by auto
  have "worse SELL (lprice (orders_at_price_pool b) y) (- (2 ^ 63))" if y: "y \<in> set (L SELL)" for y
  proof -
    obtain d where "d \<in> set (flat (L SELL))" "price_of b d = lprice (orders_at_price_pool b) y"
      using rep_level_order [OF L(1) _ y] by auto
    then show ?thesis using p [of d] L(2) [of SELL] by (auto simp: worse_def printable_price_def)
  qed
  then obtain asks where asks: "print_side ''ASKS L:'' oid detailed True SELL (- (2 ^ 63)) b = Inr asks"
    using print_side_ok [OF L(1) _ o, of SELL True "- (2 ^ 63)" "''ASKS L:''" oid detailed] by auto
  obtain y ys where y: "L BUY = y # ys" using L(2) [of BUY] x(1) by (cases "L BUY") (auto simp: flat_def)
  have lev: "level_ok (orders_at_price_pool b) (order_pool b) BUY y \<and> length (snd y) \<le> pool_size (order_pool b) \<and>
      next_entry (obj (orders_at_price_pool b) (fst y)) \<noteq> None \<and> prev_entry (obj (orders_at_price_pool b) (fst y)) \<noteq> None"
    by (rule rep_level_printable [OF L(1) _ o]) (simp_all add: y)
  have "c \<in> set (snd y)" using lev y L(2) [of BUY] x(1) by (cases "snd y") (auto simp: level_ok_def flat_def)
  then have "lvl_price (obj (orders_at_price_pool b) (fst y)) = 2 ^ 63 - 1" using lev x(2) by (auto simp: level_ok_def lprice_def)
  then have "\<not> worse BUY (lvl_price (obj (orders_at_price_pool b) (fst y))) (2 ^ 63 - 1)" by (simp add: worse_def)
  then have "print_side ''BIDS L:'' oid detailed True BUY (2 ^ 63 - 1) b = FATAL ''Bids/Asks not sorted by ascending/descending prices last:''"
    using printer_run [of b BUY y _ oid detailed True _ "2 ^ 63 - 1"] lev
    unfolding print_side_fold [OF L(1) insertI1] y by (auto simp: FATAL_def)
  then show ?thesis using asks by (simp add: book_toString_def FATAL_def)
qed

text \<open>
  A bid at the largest value of \<open>int64_t\<close> is not refused by the book, and with such a bid the validity
  check, although the book is sound, ends the process.
\<close>

theorem extreme_bid_fails_check:
  assumes "me_rel N M b A" and "ab_queue A BUY = x # xs" and "ord_price x = Price_INVALID"
    and "\<forall>y\<in>set (ab_queue A SELL). printable_price (ord_price y)"
  shows "MEOrderBook_toString detailed True b = FATAL ''Bids/Asks not sorted by ascending/descending prices last:''"
proof -
  obtain F where F: "me_inv N M b F" and q: "\<And>s. s \<in> {BUY, SELL} \<Longrightarrow> ab_queue A s = absq b F s"
    using assms(1) by (auto simp: me_rel_def)
  obtain c cs where c: "F BUY = c # cs" "x = strip (obj (order_pool b) c)" using q [of BUY] assms(2) by (cases "F BUY") (auto simp: absq_def)
  have "printable_price (price_of b d)" if "d \<in> set (F SELL)" for d
    using assms(4) q [of SELL] that by (auto simp: absq_def strip_def)
  then show ?thesis unfolding MEOrderBook_toString_def using F c assms(3)
    by (intro extreme_bid_fails [of b F c cs]) (auto simp: me_inv_def strip_def Price_INVALID_def)
qed

theorem extreme_bid_fails_check_witness:
  "\<exists>b ev. add 1 2 0 BUY Price_INVALID 5 small_book = Inr (b, ev) \<and>
     MEOrderBook_toString False True b = FATAL ''Bids/Asks not sorted by ascending/descending prices last:''"
proof -
  let ?A = "fst (spec_add 1 2 0 BUY Price_INVALID 5 empty_book)"
  obtain b where b: "add 1 2 0 BUY Price_INVALID 5 small_book = Inr (b, snd (spec_add 1 2 0 BUY Price_INVALID 5 empty_book))" "me_rel 4 8 b ?A"
    using add_refines_lemma [OF small_rel small_can_add, of BUY 1 2 0 Price_INVALID 5] by auto
  have "ab_queue ?A SELL = []" "\<exists>x. ab_queue ?A BUY = [x] \<and> ord_price x = Price_INVALID"
    by (simp_all add: spec_add_def empty_book_def next_priority_def price_insert_def)
  then show ?thesis using extreme_bid_fails_check [OF b(2), of _ "[]" False] b(1) by auto
qed

end
