(* ===== verification/Threads.thy ===== *)
theory Threads
  imports LLT_Prelude
begin

text \<open>
  The threads of the components.  \<open>start()\<close> of a component sets its flag \<open>run_\<close> and starts a thread
  (\<open>common/thread_utils.h\<close>) that executes \<open>run()\<close>, a loop that reads the flag before each iteration;
  \<open>stop()\<close> clears the flag and, in most components, waits for the thread.  The owner of the component
  and its thread run concurrently: the theory models both as a step relation, together with
  the threads that write into the component's queues, and shows once, for every component that keeps the pointer to its
  thread, that \<open>stop()\<close> ends and what holds when it has returned.
\<close>

section \<open>Threads\<close>

text \<open>
  A thread is about to read the flag, is inside an iteration of the loop, or has left \<open>run()\<close>.  The owner
  is outside of \<open>stop()\<close>, waits in it until the queues are empty, or waits in \<open>join()\<close>.
  \<open>thread_ptr\<close> is the member \<open>thread_\<close>, an index into all threads that were started for the component.
\<close>

datatype worker = Checking | Working | Returned

datatype owner_state = Idle | Draining | Joining

record 'c owner =
  component :: 'c
  run_flag :: bool
  thread_ptr :: "nat option"
  workers :: "worker list"
  owner_state :: owner_state

definition owner_new :: "'c \<Rightarrow> 'c owner" where
  "owner_new c = \<lparr>component = c, run_flag = False, thread_ptr = None, workers = [], owner_state = Idle\<rparr>"

text \<open>\<open>set_core\<close> stands for \<open>pthread_setaffinity_np\<close>; a thread that cannot be pinned ends the process.\<close>

definition createAndStartThread :: "(int \<Rightarrow> bool) \<Rightarrow> int \<Rightarrow> 'c owner \<Rightarrow> (nat \<times> 'c owner) res" where
  "createAndStartThread set_core core_id x =
     (if core_id \<ge> 0 \<and> \<not> set_core core_id then FATAL ''Failed to set core affinity for ''
      else Inr (length (workers x), x\<lparr>workers := workers x @ [Checking]\<rparr>))"

text \<open>\<open>start()\<close> without what it does to the component, when the pointer to the thread is kept and when it is not.\<close>

definition start_thread :: "(int \<Rightarrow> bool) \<Rightarrow> int \<Rightarrow> 'c owner \<Rightarrow> 'c owner res" where
  "start_thread set_core core_id x =
     rbind (createAndStartThread set_core core_id (x\<lparr>run_flag := True\<rparr>)) (\<lambda>(t, x). Inr (x\<lparr>thread_ptr := Some t\<rparr>))"

definition start_detached :: "'c owner \<Rightarrow> 'c owner res" where
  "start_detached x =
     rbind (createAndStartThread (\<lambda>_. True) (-1) (x\<lparr>run_flag := True\<rparr>)) (\<lambda>(t, x). Inr x)"

text \<open>
  \<open>stop()\<close> up to the point where it waits: for its thread, for its queues, or, without a pointer to
  the thread, not at all; and the rest of it, after the waiting.
\<close>

definition stop_joins :: "'c owner \<Rightarrow> 'c owner" where
  "stop_joins x = x\<lparr>run_flag := False, owner_state := if thread_ptr x = None then Idle else Joining\<rparr>"

definition stop_drains :: "'c owner \<Rightarrow> 'c owner" where
  "stop_drains x = (if thread_ptr x = None then x\<lparr>run_flag := False\<rparr> else x\<lparr>owner_state := Draining\<rparr>)"

definition stop_detached :: "'c owner \<Rightarrow> 'c owner" where
  "stop_detached x = x\<lparr>run_flag := False\<rparr>"

definition after_drain :: "'c owner \<Rightarrow> 'c owner" where
  "after_drain x = x\<lparr>run_flag := False, owner_state := Joining\<rparr>"

definition after_join :: "'c owner \<Rightarrow> 'c owner" where
  "after_join x = x\<lparr>thread_ptr := None, owner_state := Idle\<rparr>"

section \<open>Interleavings\<close>

text \<open>
  The loop \<open>while (run_) { body }\<close>.  An iteration takes an input (what the kernel and the clock
  return) and changes the component.
\<close>

inductive worker_step :: "('i \<Rightarrow> 'c \<Rightarrow> 'c res) \<Rightarrow> 'c owner \<Rightarrow> 'c owner \<Rightarrow> bool" for body where
  enter: "t < length (workers x) \<Longrightarrow> workers x ! t = Checking \<Longrightarrow> run_flag x \<Longrightarrow>
    worker_step body x (x\<lparr>workers := (workers x)[t := Working]\<rparr>)"
| leave: "t < length (workers x) \<Longrightarrow> workers x ! t = Checking \<Longrightarrow> \<not> run_flag x \<Longrightarrow>
    worker_step body x (x\<lparr>workers := (workers x)[t := Returned]\<rparr>)"
| iterate: "t < length (workers x) \<Longrightarrow> workers x ! t = Working \<Longrightarrow> body i (component x) = Inr c \<Longrightarrow>
    worker_step body x (x\<lparr>component := c, workers := (workers x)[t := Checking]\<rparr>)"

text \<open>The owner, which starts a component only while it has no thread, as the main programs do.\<close>

inductive owner_step :: "('c owner \<Rightarrow> 'c owner res) \<Rightarrow> ('c owner \<Rightarrow> 'c owner) \<Rightarrow> ('c \<Rightarrow> bool) \<Rightarrow> 'c owner \<Rightarrow> 'c owner \<Rightarrow> bool"
  for start stop drained where
  call_start: "owner_state x = Idle \<Longrightarrow> thread_ptr x = None \<Longrightarrow> start x = Inr y \<Longrightarrow> owner_step start stop drained x y"
| call_stop: "owner_state x = Idle \<Longrightarrow> owner_step start stop drained x (stop x)"
| seen_drained: "owner_state x = Draining \<Longrightarrow> drained (component x) \<Longrightarrow> owner_step start stop drained x (after_drain x)"
| joined: "owner_state x = Joining \<Longrightarrow> thread_ptr x = Some t \<Longrightarrow> workers x ! t = Returned \<Longrightarrow>
    owner_step start stop drained x (after_join x)"

inductive thread_reach ::
  "('c owner \<Rightarrow> 'c owner res) \<Rightarrow> ('c owner \<Rightarrow> 'c owner) \<Rightarrow> ('c \<Rightarrow> bool) \<Rightarrow> ('i \<Rightarrow> 'c \<Rightarrow> 'c res) \<Rightarrow> ('c \<Rightarrow> 'c \<Rightarrow> bool) \<Rightarrow>
   'c owner \<Rightarrow> 'c owner \<Rightarrow> bool"
  for start stop drained body env x0 where
  init: "thread_reach start stop drained body env x0 x0"
| worker: "thread_reach start stop drained body env x0 x \<Longrightarrow> worker_step body x y \<Longrightarrow> thread_reach start stop drained body env x0 y"
| owner: "thread_reach start stop drained body env x0 x \<Longrightarrow> owner_step start stop drained x y \<Longrightarrow> thread_reach start stop drained body env x0 y"
| others: "thread_reach start stop drained body env x0 x \<Longrightarrow> env (component x) c \<Longrightarrow>
    thread_reach start stop drained body env x0 (x\<lparr>component := c\<rparr>)"

text \<open>The steps while the owner waits, with the number of steps the threads of the component made.\<close>

inductive waiting :: "('i \<Rightarrow> 'c \<Rightarrow> 'c res) \<Rightarrow> ('c \<Rightarrow> 'c \<Rightarrow> bool) \<Rightarrow> 'c owner \<Rightarrow> nat \<Rightarrow> 'c owner \<Rightarrow> bool" for body env x where
  begin_wait: "waiting body env x 0 x"
| work: "waiting body env x n y \<Longrightarrow> worker_step body y z \<Longrightarrow> waiting body env x (Suc n) z"
| push: "waiting body env x n y \<Longrightarrow> env (component y) c \<Longrightarrow> waiting body env x n (y\<lparr>component := c\<rparr>)"

text \<open>The rest of a call of \<open>stop()\<close> during which nobody writes to the queues.\<close>

inductive stopping ::
  "('c owner \<Rightarrow> 'c owner res) \<Rightarrow> ('c owner \<Rightarrow> 'c owner) \<Rightarrow> ('c \<Rightarrow> bool) \<Rightarrow> ('i \<Rightarrow> 'c \<Rightarrow> 'c res) \<Rightarrow> 'c owner \<Rightarrow> 'c owner \<Rightarrow> bool"
  for start stop drained body x where
  begin_stop: "stopping start stop drained body x x"
| meanwhile: "stopping start stop drained body x y \<Longrightarrow> worker_step body y z \<Longrightarrow> stopping start stop drained body x z"
| go_on: "stopping start stop drained body x y \<Longrightarrow> owner_state y \<noteq> Idle \<Longrightarrow> owner_step start stop drained y z \<Longrightarrow> stopping start stop drained body x z"

section \<open>One thread at a time\<close>

definition one_thread :: "'c owner \<Rightarrow> bool" where
  "one_thread x \<longleftrightarrow>
     (\<forall>t<length (workers x). thread_ptr x \<noteq> Some t \<longrightarrow> workers x ! t = Returned) \<and>
     (\<forall>t. thread_ptr x = Some t \<longrightarrow> t < length (workers x)) \<and>
     (thread_ptr x = None \<longrightarrow> owner_state x = Idle) \<and> (owner_state x = Joining \<longrightarrow> \<not> run_flag x) \<and>
     (thread_ptr x \<noteq> None \<and> owner_state x \<noteq> Joining \<longrightarrow> run_flag x)"

lemma one_thread_new: "one_thread (owner_new c)"
  by (simp add: one_thread_def owner_new_def)

lemma one_thread_worker: "worker_step body x y \<Longrightarrow> one_thread x \<Longrightarrow> one_thread y"
  by (induction rule: worker_step.induct) (auto simp: one_thread_def nth_list_update)

lemma one_thread_returned: "one_thread x \<Longrightarrow> thread_ptr x = None \<Longrightarrow> w \<in> set (workers x) \<Longrightarrow> w = Returned"
  by (auto simp: one_thread_def in_set_conv_nth)

text \<open>How far the threads are from leaving their loops once the flag is cleared.\<close>

fun remaining :: "worker \<Rightarrow> nat" where
  "remaining Working = 2"
| "remaining Checking = 1"
| "remaining Returned = 0"

lemma remaining_Returned: "w = Returned \<Longrightarrow> remaining w = 0"
  by simp

definition remaining_steps :: "'c owner \<Rightarrow> nat" where
  "remaining_steps x = sum_list (map remaining (workers x))"

lemma sum_list_update_less:
  fixes xs :: "nat list"
  assumes "t < length xs" and "v < xs ! t"
  shows "sum_list (xs[t := v]) < sum_list xs"
  using assms by (simp add: sum_list_update) (use elem_le_sum_list [of t xs] in simp)

lemma worker_step_remaining:
  assumes "worker_step body x y" and "\<not> run_flag x"
  shows "remaining_steps y < remaining_steps x \<and> run_flag y = run_flag x"
  using assms
proof (induction rule: worker_step.induct)
  case (leave t x)
  then show ?case using sum_list_update_less [of t "map remaining (workers x)" "remaining Returned"]
    by (simp add: remaining_steps_def map_update)
next
  case (iterate t x i c)
  then show ?case using sum_list_update_less [of t "map remaining (workers x)" "remaining Checking"]
    by (simp add: remaining_steps_def map_update)
qed simp

lemma one_thread_remaining:
  assumes "one_thread x"
  shows "remaining_steps x \<le> 2"
proof (cases "thread_ptr x")
  case None
  then have "map remaining (workers x) = map (\<lambda>_. 0) (workers x)" using one_thread_returned [OF assms] by (auto intro: remaining_Returned)
  then have "remaining_steps x = sum_list (map (\<lambda>_. 0) (workers x))" by (simp only: remaining_steps_def)
  then show ?thesis by simp
next
  case (Some t)
  then have t: "t < length (workers x)" using assms by (simp add: one_thread_def)
  have r: "workers x ! u = Returned" if "u < length (workers x)" "u \<noteq> t" for u
    using assms Some that by (simp add: one_thread_def)
  have "remaining_steps x = (\<Sum>u<length (workers x). remaining (workers x ! u))"
    by (simp add: remaining_steps_def sum_list_sum_nth lessThan_atLeast0)
  also have "\<dots> = (\<Sum>u\<in>{t}. remaining (workers x ! u))"
    using t r by (intro sum.mono_neutral_right) auto
  also have "\<dots> \<le> 2" by (cases "workers x ! t") simp_all
  finally show ?thesis .
qed

lemma waiting_bound:
  assumes "waiting body env x n y" and "\<not> run_flag x"
  shows "n + remaining_steps y \<le> remaining_steps x \<and> \<not> run_flag y"
  using assms
proof (induction rule: waiting.induct)
  case (work n y z)
  then show ?case using worker_step_remaining [OF work.hyps(2)] by simp
qed (simp_all add: remaining_steps_def)

lemma worker_progress:
  assumes "t < length (workers x)" and "workers x ! t \<noteq> Returned" and "\<And>i. \<exists>c. body i (component x) = Inr c"
  shows "\<exists>y. worker_step body x y"
proof (cases "workers x ! t")
  case Checking
  then show ?thesis using assms(1) worker_step.enter worker_step.leave by (cases "run_flag x") blast+
next
  case Working
  then show ?thesis using assms(1,3) worker_step.iterate by metis
qed (use assms(2) in simp)

section \<open>The contract of start and stop\<close>

text \<open>
  What a component promises whose \<open>stop()\<close> waits for its thread: \<open>start()\<close> sets the flag and starts one
  thread, to which it keeps the pointer, and \<open>stop()\<close> goes through \<open>join()\<close>.
\<close>

definition started :: "'c owner \<Rightarrow> 'c owner \<Rightarrow> bool" where
  "started x y \<longleftrightarrow> run_flag y \<and> thread_ptr y = Some (length (workers x)) \<and> workers y = workers x @ [Checking] \<and>
     owner_state y = owner_state x"

lemma start_thread_starts: "start_thread set_core core_id x = Inr y \<Longrightarrow> started x y"
  by (auto simp: started_def start_thread_def createAndStartThread_def rbind_eq_Inr_iff FATAL_def split: if_splits)

lemma started_component [simp]: "started (x\<lparr>component := c\<rparr>) y = started x y"
  by (simp add: started_def)

locale joining_owner =
  fixes start :: "'c owner \<Rightarrow> 'c owner res" and stop :: "'c owner \<Rightarrow> 'c owner"
  assumes start_starts: "start x = Inr y \<Longrightarrow> started x y"
    and stop_waits: "stop x = stop_joins x \<or> stop x = stop_drains x"
begin

lemma one_thread_owner:
  assumes "owner_step start stop drained x y" and "one_thread x"
  shows "one_thread y"
  using assms
proof (induction rule: owner_step.induct)
  case (call_start x y)
  then show ?case using start_starts [OF call_start.hyps(3)] by (auto simp: one_thread_def started_def nth_append)
next
  case (call_stop x)
  then show ?case using stop_waits [of x] by (cases "thread_ptr x") (auto simp: one_thread_def stop_joins_def stop_drains_def)
qed (auto simp: one_thread_def after_drain_def after_join_def)

lemma one_thread_reach:
  "thread_reach start stop drained body env x0 x \<Longrightarrow> one_thread x0 \<Longrightarrow> one_thread x"
proof (induction rule: thread_reach.induct)
  case (others x c)
  then show ?case by (simp add: one_thread_def)
qed (auto intro: one_thread_worker one_thread_owner)

lemma quiet_after_stop:
  assumes "thread_reach start stop drained body env (owner_new c0) x" and "thread_ptr x = None"
  shows "\<nexists>y. worker_step body x y"
proof -
  have "w = Returned" if "w \<in> set (workers x)" for w
    using one_thread_returned [OF one_thread_reach [OF assms(1) one_thread_new] assms(2) that] .
  then have "workers x ! t = Returned" if "t < length (workers x)" for t using that nth_mem by blast
  then show ?thesis by (auto elim!: worker_step.cases)
qed

lemma join_ends:
  assumes "thread_reach start stop drained body env (owner_new c0) x" and "owner_state x = Joining"
    and "waiting body env x n y"
  shows "n \<le> 2"
    and "(\<And>i. \<exists>c. body i (component y) = Inr c) \<Longrightarrow> (\<exists>z. worker_step body y z) \<or> (\<exists>t. thread_ptr y = Some t \<and> workers y ! t = Returned)"
proof -
  have o: "one_thread x" using one_thread_reach [OF assms(1) one_thread_new] .
  then have f: "\<not> run_flag x" using assms(2) by (simp add: one_thread_def)
  show "n \<le> 2" using waiting_bound [OF assms(3) f] one_thread_remaining [OF o] by simp
  have y: "one_thread y \<and> thread_ptr y = thread_ptr x"
    using assms(3)
  proof (induction rule: waiting.induct)
    case (work n y z)
    then show ?case using one_thread_worker [OF work.hyps(2)] by (auto elim!: worker_step.cases)
  next
    case (push n y c)
    then show ?case by (auto simp: one_thread_def)
  qed (use o in simp)
  obtain t where "thread_ptr y = Some t" using y o assms(2) by (cases "thread_ptr x") (auto simp: one_thread_def)
  then show "(\<exists>z. worker_step body y z) \<or> (\<exists>t. thread_ptr y = Some t \<and> workers y ! t = Returned)"
    if "\<And>i. \<exists>c. body i (component y) = Inr c"
    using y worker_progress [of t y body] that by (auto simp: one_thread_def)
qed

end

text \<open>
  A component whose iterations leave nothing in the queues it reads: when \<open>stop()\<close> waits for empty
  queues and nobody writes to them any more, they are empty when it has returned.
\<close>

locale draining_owner = joining_owner start stop
  for start :: "'c owner \<Rightarrow> 'c owner res" and stop :: "'c owner \<Rightarrow> 'c owner" +
  fixes body :: "'i \<Rightarrow> 'c \<Rightarrow> 'c res" and drained :: "'c \<Rightarrow> bool"
  assumes body_drains: "body i c = Inr c' \<Longrightarrow> drained c'"
begin

lemma drained_waiting:
  assumes "waiting body (\<lambda>_ _. False) x n y" and "drained (component x)"
  shows "drained (component y)"
  using assms by (induction rule: waiting.induct) (auto elim!: worker_step.cases dest: body_drains)

text \<open>While the owner waits for empty queues, two steps of the thread contain a whole iteration.\<close>

lemma drain_ends:
  assumes r: "thread_reach start stop drained body env (owner_new c0) x" and d: "owner_state x = Draining"
    and w: "waiting body (\<lambda>_ _. False) x n y" and n: "2 \<le> n"
  shows "drained (component y)"
proof -
  have o: "one_thread x" using one_thread_reach [OF r one_thread_new] .
  then have f: "run_flag x" using d by (cases "thread_ptr x") (auto simp: one_thread_def)
  have "one_thread y \<and> run_flag y \<and>
      (drained (component y) \<or> n = 0 \<or> n = 1 \<and> (\<forall>t<length (workers y). workers y ! t \<noteq> Checking))"
    using w
  proof (induction rule: waiting.induct)
    case (work n y z)
    show ?case using work.hyps(2)
    proof cases
      case (enter t)
      then have "thread_ptr y = Some t" using work.IH by (auto simp: one_thread_def)
      then show ?thesis using enter work.IH one_thread_worker [OF work.hyps(2)] by (auto simp: nth_list_update one_thread_def)
    next
      case (leave t)
      then show ?thesis using work.IH by simp
    next
      case (iterate t i c)
      then show ?thesis using work.IH one_thread_worker [OF work.hyps(2)] by (auto dest: body_drains)
    qed
  qed (use o f in auto)
  then show ?thesis using n by auto
qed

lemma drained_after_stop:
  assumes "stopping start stop drained body x y" and "owner_state x = Draining" and "owner_state y \<noteq> Draining"
  shows "drained (component y)"
proof -
  have "owner_state y = Draining \<or> drained (component y)"
    using assms(1,2)
  proof (induction rule: stopping.induct)
    case (meanwhile y z)
    then show ?case by (auto elim!: worker_step.cases dest: body_drains)
  next
    case (go_on y z)
    then show ?case by (auto elim!: owner_step.cases simp: after_drain_def after_join_def)
  qed simp
  then show ?thesis using assms(3) by simp
qed

end

end
