(* ===== verification/Logger.thy ===== *)
theory Logger
  imports LF_Queue Printing
begin

text \<open>
  \<open>Common::Logger\<close> (\<open>common/logging.h\<close>) and \<open>OptCommon::OptLogger\<close> (\<open>common/opt_logging.h\<close>): a call of
  \<open>log()\<close> substitutes its arguments for the \<open>%\<close> of a format string and pushes the result in small
  elements into a lock-free queue, which a background thread writes to the log file.  The file is the
  string written so far; how a stream prints \<open>float\<close> and \<open>double\<close> is a parameter.
\<close>

section \<open>Elements and arguments\<close>

datatype LogElement =
    Log_CHAR char
  | INTEGER "32 word"
  | LONG_INTEGER "64 word"
  | LONG_LONG_INTEGER "64 word"
  | UNSIGNED_INTEGER "32 word"
  | UNSIGNED_LONG_INTEGER "64 word"
  | UNSIGNED_LONG_LONG_INTEGER "64 word"
  | FLOAT real
  | DOUBLE real

text \<open>An argument of \<open>log()\<close>, by the overload of \<open>pushValue()\<close> that takes it: a primitive value or a string.\<close>

datatype log_arg = Value LogElement | CString string

text \<open>The characters of a C string, up to the terminating zero.\<close>

definition c_str :: "string \<Rightarrow> string" where
  "c_str s = takeWhile (\<lambda>c. c \<noteq> CHR 0x00) s"

section \<open>Writing the file\<close>

text \<open>\<open>file_ << next->u_...\<close>\<close>

definition write_element :: "(real \<Rightarrow> string) \<Rightarrow> LogElement \<Rightarrow> string" where
  "write_element show_real e =
     (case e of
        Log_CHAR c \<Rightarrow> [c]
      | INTEGER i \<Rightarrow> int_str (sint i)
      | LONG_INTEGER i \<Rightarrow> int_str (sint i)
      | LONG_LONG_INTEGER i \<Rightarrow> int_str (sint i)
      | UNSIGNED_INTEGER u \<Rightarrow> word_str u
      | UNSIGNED_LONG_INTEGER u \<Rightarrow> word_str u
      | UNSIGNED_LONG_LONG_INTEGER u \<Rightarrow> word_str u
      | FLOAT x \<Rightarrow> show_real x
      | DOUBLE x \<Rightarrow> show_real x)"

record 'e Logger =
  log_file :: string
  log_queue :: "'e LFQueue"
  log_running :: bool

definition Logger_new :: "nat \<Rightarrow> 'e \<Rightarrow> bool \<Rightarrow> 'e Logger res" where
  "Logger_new LOG_QUEUE_SIZE d is_open =
     rbind (ASSERT is_open ''Could not open log file:'') (\<lambda>_.
     Inr \<lparr>log_file = [], log_queue = LFQueue_new LOG_QUEUE_SIZE d, log_running = True\<rparr>)"

text \<open>
  The inner loop of \<open>flushQueue()\<close>, bounded by the number of elements in the queue: no
  element is added while it runs in this sequential view.
\<close>

fun flush_loop :: "('e \<Rightarrow> string) \<Rightarrow> nat \<Rightarrow> 'e Logger \<Rightarrow> 'e Logger res" where
  "flush_loop wr 0 lg = Inr lg"
| "flush_loop wr (Suc n) lg =
     (case lfq_front (log_queue lg) of
        None \<Rightarrow> Inr lg
      | Some e \<Rightarrow>
          rbind (updateReadIndex (log_queue lg)) (\<lambda>q.
          flush_loop wr n (lg\<lparr>log_file := log_file lg @ wr e, log_queue := q\<rparr>)))"

definition flushQueue :: "('e \<Rightarrow> string) \<Rightarrow> 'e Logger \<Rightarrow> 'e Logger res" where
  "flushQueue wr lg =
     (if log_running lg then flush_loop wr (lfq_size (log_queue lg)) lg else Inr lg)"

section \<open>Logging\<close>

definition pushElement :: "'e \<Rightarrow> 'e Logger \<Rightarrow> 'e Logger" where
  "pushElement e lg = lg\<lparr>log_queue := lfq_push e (log_queue lg)\<rparr>"

text \<open>A string goes into the queue character by character.\<close>

fun pushValue :: "log_arg \<Rightarrow> LogElement Logger \<Rightarrow> LogElement Logger" where
  "pushValue (Value e) lg = pushElement e lg"
| "pushValue (CString s) lg = fold (\<lambda>c. pushElement (Log_CHAR c)) (c_str s) lg"

text \<open>
  The two overloads of \<open>log()\<close>, with \<open>push\<close> for the \<open>pushValue()\<close> of the class.  The recursion of the
  template over its arguments and the loops over the format string are one recursion; the
  format ends at the end of the list.
\<close>

function log_with :: "(log_arg \<Rightarrow> 'l \<Rightarrow> 'l) \<Rightarrow> string \<Rightarrow> log_arg list \<Rightarrow> 'l \<Rightarrow> 'l res" where
  "log_with push [] [] lg = Inr lg"
| "log_with push [] (a # as) lg = FATAL ''extra arguments provided to log()''"
| "log_with push (c # s) as lg =
     (if c = CHR ''%'' \<and> (s = [] \<or> hd s \<noteq> CHR ''%'') then
        (case as of
           [] \<Rightarrow> FATAL ''missing arguments to log()''
         | a # as \<Rightarrow> log_with push s as (push a lg))
      else
        (let s' = (if c = CHR ''%'' then tl s else s) in
         log_with push s' as (push (Value (Log_CHAR c)) lg)))"
  by pat_completeness auto

termination by (relation "measure (\<lambda>(push, s, as, lg). length s)") auto

definition logger_log :: "string \<Rightarrow> log_arg list \<Rightarrow> LogElement Logger \<Rightarrow> LogElement Logger res" where
  "logger_log = log_with pushValue"

section \<open>The logger with strings as elements\<close>

text \<open>\<open>OptLogger\<close> copies a string into a buffer of 256 characters of a single element, the last one zero.\<close>

datatype OptLogElement = Prim LogElement | STRING string

fun opt_write_element :: "(real \<Rightarrow> string) \<Rightarrow> OptLogElement \<Rightarrow> string" where
  "opt_write_element show_real (Prim e) = write_element show_real e"
| "opt_write_element show_real (STRING s) = s"

fun opt_pushValue :: "log_arg \<Rightarrow> OptLogElement Logger \<Rightarrow> OptLogElement Logger" where
  "opt_pushValue (Value e) lg = pushElement (Prim e) lg"
| "opt_pushValue (CString s) lg = pushElement (STRING (take 255 (c_str s))) lg"

definition opt_flushQueue :: "(real \<Rightarrow> string) \<Rightarrow> OptLogElement Logger \<Rightarrow> OptLogElement Logger res" where
  "opt_flushQueue show_real = flushQueue (opt_write_element show_real)"

definition opt_logger_log :: "string \<Rightarrow> log_arg list \<Rightarrow> OptLogElement Logger \<Rightarrow> OptLogElement Logger res" where
  "opt_logger_log = log_with opt_pushValue"

section \<open>What a format string means\<close>

text \<open>The literal text between the places of the arguments, with \<open>%%\<close> read as one percent sign.\<close>

fun segments :: "string \<Rightarrow> string list" where
  "segments [] = [[]]"
| "segments (c # s) =
     (if c = CHR ''%'' then
        (case s of
           d # s' \<Rightarrow> if d = CHR ''%'' then (let g = segments s' in (CHR ''%'' # hd g) # tl g) else [] # segments s
         | [] \<Rightarrow> [] # segments s)
      else (let g = segments s in (c # hd g) # tl g))"

definition places :: "string \<Rightarrow> nat" where
  "places s = length (segments s) - 1"

text \<open>The text of a call whose arguments print as \<open>ts\<close>.\<close>

fun fill_in :: "string list \<Rightarrow> string list \<Rightarrow> string" where
  "fill_in (g # gs) (t # ts) = g @ t @ fill_in gs ts"
| "fill_in gs ts = concat gs"

lemma segments_not_Nil [simp]: "segments s \<noteq> []"
  by (induction s rule: segments.induct) (auto simp: Let_def split: list.splits)

lemma fill_in_Cons_char: "fill_in ((c # hd g) # tl g) ts = c # fill_in g ts" if "g \<noteq> []"
  using that by (cases g; cases ts) simp_all

section \<open>Flushing\<close>

definition enqueue :: "'e list \<Rightarrow> 'e Logger \<Rightarrow> 'e Logger" where
  "enqueue es lg = lg\<lparr>log_queue := fold lfq_push es (log_queue lg)\<rparr>"

lemma enqueue_simps [simp]:
  "enqueue [] lg = lg" "enqueue es (enqueue ds lg) = enqueue (ds @ es) lg" "pushElement e lg = enqueue [e] lg"
  by (simp_all add: enqueue_def pushElement_def)

lemma flush_loop_text:
  assumes "lfq_inv (log_queue lg)" and "lfq_items (log_queue lg) = es"
  shows "\<exists>q. flush_loop wr (length es) lg = Inr (lg\<lparr>log_file := log_file lg @ concat (map wr es), log_queue := q\<rparr>) \<and>
     lfq_inv q \<and> lfq_items q = []"
  using assms
proof (induction es arbitrary: lg)
  case Nil
  then show ?case by (intro exI [of _ "log_queue lg"]) simp
next
  case (Cons e es)
  then obtain q where q: "lfq_front (log_queue lg) = Some e" "updateReadIndex (log_queue lg) = Inr q" "lfq_inv q" "lfq_items q = es"
    using lfq.front_pop [OF Cons.prems] by blast
  show ?case using Cons.IH [of "lg\<lparr>log_file := log_file lg @ wr e, log_queue := q\<rparr>"] q by auto
qed

lemma flushQueue_text:
  assumes "lfq_inv (log_queue lg)" and "log_running lg"
  shows "\<exists>lg'. flushQueue wr lg = Inr lg' \<and> log_file lg' = log_file lg @ concat (map wr (lfq_items (log_queue lg))) \<and>
     lfq_items (log_queue lg') = [] \<and> log_running lg'"
  using flush_loop_text [OF assms(1) refl, of wr] assms(2) by (auto simp: flushQueue_def lfq_size_items)

text \<open>The elements of a call, when \<open>emit\<close> gives those of an argument.\<close>

definition chars :: "(log_arg \<Rightarrow> 'e list) \<Rightarrow> string \<Rightarrow> 'e list" where
  "chars emit g = concat (map (\<lambda>c. emit (Value (Log_CHAR c))) g)"

fun elements :: "(log_arg \<Rightarrow> 'e list) \<Rightarrow> string list \<Rightarrow> log_arg list \<Rightarrow> 'e list" where
  "elements emit (g # gs) (a # as) = chars emit g @ emit a @ elements emit gs as"
| "elements emit gs as = chars emit (concat gs)"

lemma elements_char:
  "g \<noteq> [] \<Longrightarrow> elements emit ((c # hd g) # tl g) as = emit (Value (Log_CHAR c)) @ elements emit g as"
  by (cases g; cases as) (simp_all add: chars_def)

section \<open>The contract of a logger\<close>

text \<open>
  A class with this \<open>log()\<close> fixes how an argument becomes elements of its queue (\<open>emit\<close>) and how the
  background thread writes an element (\<open>wr\<close>); \<open>shown\<close> is the text an argument contributes to the file.
\<close>

locale log_sink =
  fixes push :: "log_arg \<Rightarrow> 'e Logger \<Rightarrow> 'e Logger" and emit :: "log_arg \<Rightarrow> 'e list" and wr :: "'e \<Rightarrow> string"
    and shown :: "log_arg \<Rightarrow> string"
  assumes push_emit: "push a lg = enqueue (emit a) lg"
    and wr_emit: "concat (map wr (emit a)) = shown a"
    and shown_char: "shown (Value (Log_CHAR c)) = [c]"
begin

lemma log_elements:
  "log_with push s as lg =
     (if length as = places s then Inr (enqueue (elements emit (segments s) as) lg)
      else FATAL (if length as < places s then ''missing arguments to log()'' else ''extra arguments provided to log()''))"
proof (induction "length s" arbitrary: s as lg rule: less_induct)
  case less
  have len: "length (segments t) = Suc (places t)" for t by (simp add: places_def)
  show ?case
  proof (cases s)
    case Nil
    then show ?thesis by (cases as) (simp_all add: places_def chars_def)
  next
    case (Cons c t)
    show ?thesis
    proof (cases "c = CHR ''%'' \<and> (t = [] \<or> hd t \<noteq> CHR ''%'')")
      case True
      then have g: "segments s = [] # segments t" using Cons by (cases t) auto
      have "places s = Suc (places t)" using g by (simp add: places_def)
      then show ?thesis using True Cons g less.hyps [of t] by (cases as) (auto simp: push_emit chars_def)
    next
      case False
      let ?t = "if c = CHR ''%'' then tl t else t"
      have g: "segments s = (c # hd (segments ?t)) # tl (segments ?t)"
        using False Cons by (cases t) (auto simp: Let_def)
      have l: "length ?t < length s" using Cons by (cases t) auto
      have "places s = places ?t" using g by (simp add: places_def)
      then show ?thesis
        using False Cons g less.hyps [OF l] elements_char [of "segments ?t" emit c as]
        by (auto simp: push_emit Let_def)
    qed
  qed
qed

lemma chars_text: "concat (map wr (chars emit g)) = g"
  by (induction g) (simp_all add: chars_def wr_emit shown_char)

lemma elements_text: "length gs = Suc (length as) \<Longrightarrow> concat (map wr (elements emit gs as)) = fill_in gs (map shown as)"
proof (induction gs arbitrary: as)
  case (Cons g gs)
  then show ?case by (cases as) (simp_all add: chars_text wr_emit)
qed simp

lemma log_then_flush:
  assumes "length as = places s" and "lfq_inv (log_queue lg)" and "log_running lg"
    and "length (lfq_items (log_queue lg)) + length (elements emit (segments s) as) \<le> lfq_cap (log_queue lg)"
  shows "\<exists>lg' lg''. log_with push s as lg = Inr lg' \<and> flushQueue wr lg' = Inr lg'' \<and> lfq_items (log_queue lg'') = [] \<and>
     log_file lg'' = log_file lg @ concat (map wr (lfq_items (log_queue lg))) @ fill_in (segments s) (map shown as)"
proof -
  let ?lg = "enqueue (elements emit (segments s) as) lg"
  have q: "lfq_inv (log_queue ?lg)" "lfq_items (log_queue ?lg) = lfq_items (log_queue lg) @ elements emit (segments s) as"
    using lfq.push_all [OF assms(2,4)] by (simp_all add: enqueue_def)
  have "length (segments s) = Suc (length as)" using assms(1) by (simp add: places_def)
  then show ?thesis using flushQueue_text [OF q(1), of wr] assms(1,3) q(2)
    by (auto simp: log_elements elements_text enqueue_def)
qed

end

section \<open>Both loggers\<close>

fun arg_elements :: "log_arg \<Rightarrow> LogElement list" where
  "arg_elements (Value e) = [e]"
| "arg_elements (CString s) = map Log_CHAR (c_str s)"

fun opt_arg_elements :: "log_arg \<Rightarrow> OptLogElement list" where
  "opt_arg_elements (Value e) = [Prim e]"
| "opt_arg_elements (CString s) = [STRING (take 255 (c_str s))]"

fun arg_text :: "(real \<Rightarrow> string) \<Rightarrow> log_arg \<Rightarrow> string" where
  "arg_text show_real (Value e) = write_element show_real e"
| "arg_text show_real (CString s) = c_str s"

fun opt_arg_text :: "(real \<Rightarrow> string) \<Rightarrow> log_arg \<Rightarrow> string" where
  "opt_arg_text show_real (Value e) = write_element show_real e"
| "opt_arg_text show_real (CString s) = take 255 (c_str s)"

lemma write_char [simp]: "write_element show_real (Log_CHAR c) = [c]"
  by (simp add: write_element_def)

lemma fold_push_chars: "fold (\<lambda>c. pushElement (Log_CHAR c)) s lg = enqueue (map Log_CHAR s) lg"
  by (induction s arbitrary: lg) simp_all

lemma concat_chars [simp]: "concat (map (write_element show_real \<circ> Log_CHAR) s) = s"
  by (induction s) simp_all

interpretation plain: log_sink pushValue arg_elements "write_element show_real" "arg_text show_real"
  for show_real :: "real \<Rightarrow> string"
proof
  show "pushValue a lg = enqueue (arg_elements a) lg" for a lg by (cases a) (simp_all add: fold_push_chars)
  show "concat (map (write_element show_real) (arg_elements a)) = arg_text show_real a" for a by (cases a) simp_all
qed simp

interpretation opt: log_sink opt_pushValue opt_arg_elements "opt_write_element show_real" "opt_arg_text show_real"
  for show_real :: "real \<Rightarrow> string"
proof
  show "opt_pushValue a lg = enqueue (opt_arg_elements a) lg" for a lg by (cases a) simp_all
  show "concat (map (opt_write_element show_real) (opt_arg_elements a)) = opt_arg_text show_real a" for a by (cases a) simp_all
qed simp

text \<open>
  A line that is logged reaches the file as written.  With as many arguments as the format has places and room
  in the queue, \<open>log()\<close> succeeds, and a pass of the background thread appends to the file what was
  queued before and then the format with the printed arguments in its places, and leaves the queue empty.
\<close>

theorem log_reaches_file:
  assumes "length as = places s" and "lfq_inv (log_queue lg)" and "log_running lg"
    and "length (lfq_items (log_queue lg)) + length (elements arg_elements (segments s) as) \<le> lfq_cap (log_queue lg)"
  shows "\<exists>lg' lg''. logger_log s as lg = Inr lg' \<and> flushQueue (write_element show_real) lg' = Inr lg'' \<and>
     lfq_items (log_queue lg'') = [] \<and>
     log_file lg'' = log_file lg @ concat (map (write_element show_real) (lfq_items (log_queue lg))) @
       fill_in (segments s) (map (arg_text show_real) as)"
  unfolding logger_log_def by (rule plain.log_then_flush [OF assms])

text \<open>
  C34: The two loggers write the same file: for strings of at most 255 characters \<open>OptLogger\<close>, which needs a
  single element per string, writes what \<open>Logger\<close> writes, and it fails exactly when \<open>Logger\<close> fails.
\<close>

theorem opt_logger_equivalent:
  assumes "\<forall>t. CString t \<in> set as \<longrightarrow> length (c_str t) \<le> 255"
    and "lfq_inv (log_queue lg)" and "log_running lg" and "lfq_items (log_queue lg) = []"
    and "length (elements arg_elements (segments s) as) \<le> lfq_cap (log_queue lg)"
    and "lfq_inv (log_queue opt_lg)" and "log_running opt_lg" and "lfq_items (log_queue opt_lg) = []"
    and "length (elements opt_arg_elements (segments s) as) \<le> lfq_cap (log_queue opt_lg)"
    and "log_file opt_lg = log_file lg"
  shows "(case rbind (opt_logger_log s as opt_lg) (opt_flushQueue show_real) of Inl e \<Rightarrow> Inl e | Inr lg' \<Rightarrow> Inr (log_file lg')) =
     (case rbind (logger_log s as lg) (flushQueue (write_element show_real)) of Inl e \<Rightarrow> Inl e | Inr lg' \<Rightarrow> Inr (log_file lg'))"
proof (cases "length as = places s")
  case True
  have "map (opt_arg_text show_real) as = map (arg_text show_real) as"
  proof (rule map_cong [OF refl])
    fix a assume "a \<in> set as"
    then show "opt_arg_text show_real a = arg_text show_real a"
      using assms(1) by - (cases a rule: log_arg.exhaust; auto)
  qed
  then show ?thesis
    using plain.log_then_flush [OF True assms(2,3), of show_real] opt.log_then_flush [OF True assms(6,7), of show_real] assms(4,5,8-10)
    by (auto simp: logger_log_def opt_logger_log_def opt_flushQueue_def cong: map_cong)
next
  case False
  then show ?thesis by (simp add: logger_log_def opt_logger_log_def plain.log_elements opt.log_elements FATAL_def)
qed

text \<open>
  A call of \<open>log()\<close> with too few or too many arguments for its format ends the process, with the
  message that says which of the two it was.
\<close>

theorem log_argument_mismatch:
  assumes "length as \<noteq> places s"
  shows "logger_log s as lg =
     FATAL (if length as < places s then ''missing arguments to log()'' else ''extra arguments provided to log()'')"
  using assms by (simp add: logger_log_def plain.log_elements)

section \<open>An example\<close>

definition a_logger :: "LogElement Logger" where
  "a_logger = \<lparr>log_file = ''x'', log_queue = LFQueue_new 16 (Log_CHAR CHR ''0''), log_running = True\<rparr>"

definition an_opt_logger :: "OptLogElement Logger" where
  "an_opt_logger = \<lparr>log_file = ''x'', log_queue = LFQueue_new 16 (STRING []), log_running = True\<rparr>"

lemma loggers_ok [simp]:
  "lfq_inv (log_queue a_logger)" "lfq_items (log_queue a_logger) = []" "lfq_cap (log_queue a_logger) = 16" "log_running a_logger"
  "lfq_inv (log_queue an_opt_logger)" "lfq_items (log_queue an_opt_logger) = []" "lfq_cap (log_queue an_opt_logger) = 16"
  "log_running an_opt_logger" "log_file a_logger = ''x''" "log_file an_opt_logger = ''x''"
  by (simp_all add: a_logger_def an_opt_logger_def lfq_inv_new)

definition an_arg_list :: "log_arg list" where
  "an_arg_list = [CString ''ab'', Value (INTEGER (- 12))]"

lemma an_arg_list_places: "places ''%:%% %'' = 2" "segments ''%:%% %'' = [[], '':% '', []]"
  by (simp_all add: places_def Let_def)

lemma an_arg_list_text: "fill_in (segments ''%:%% %'') (map (arg_text f) an_arg_list) = ''ab:% -12''"
proof -
  have "nat_str 12 = ''12''" by (simp add: nat_str.simps digit_def) code_simp
  then show ?thesis by (simp add: an_arg_list_places(2) an_arg_list_def c_str_def write_element_def int_str_def)
qed

theorem log_reaches_file_witness:
  "\<exists>lg' lg''. logger_log ''%:%% %'' an_arg_list a_logger = Inr lg' \<and> flushQueue (write_element (\<lambda>x. [])) lg' = Inr lg'' \<and>
     log_file lg'' = ''xab:% -12''"
proof -
  have "length (elements arg_elements (segments ''%:%% %'') an_arg_list) = 6"
    by (simp add: an_arg_list_places(2) an_arg_list_def chars_def c_str_def)
  then show ?thesis
    using log_reaches_file [of an_arg_list "''%:%% %''" a_logger "\<lambda>x. []"] an_arg_list_text [of "\<lambda>x. []"] an_arg_list_places(1)
    by (auto simp: an_arg_list_def)
qed

theorem opt_logger_equivalent_witness:
  "(case rbind (opt_logger_log ''%:%% %'' an_arg_list an_opt_logger) (opt_flushQueue (\<lambda>x. [])) of
      Inl e \<Rightarrow> Inl e | Inr lg' \<Rightarrow> Inr (log_file lg')) =
   (case rbind (logger_log ''%:%% %'' an_arg_list a_logger) (flushQueue (write_element (\<lambda>x. []))) of
      Inl e \<Rightarrow> Inl e | Inr lg' \<Rightarrow> Inr (log_file lg'))"
  by (rule opt_logger_equivalent)
    (simp_all add: an_arg_list_places(2) an_arg_list_def chars_def c_str_def)

theorem log_argument_mismatch_witness:
  "logger_log ''%'' [] a_logger = Inl (Fatal ''missing arguments to log()'')"
  using log_argument_mismatch [of "[]" "''%''" a_logger] by (simp add: places_def FATAL_def)

end
