(* ===== verification/Lifecycle.thy ===== *)
theory Lifecycle
  imports Threads Logger Engine_Props Order_Server Market_Data_Publisher Snapshot_Synthesizer Market_Data_Consumer
    Trade_Engine_Props Order_Gateway
begin

text \<open>
  \<open>start()\<close> and \<open>stop()\<close> of every component, the constructor and destructor of the logger, and what
  holds when \<open>stop()\<close> has returned.  The kernel's answers to \<open>start()\<close> (file descriptors, whether a thread
  can be pinned to its core) are arguments, as are the build options that disable threads.
\<close>

section \<open>Starting and stopping\<close>

definition MatchingEngine_start :: "bool \<Rightarrow> bool \<Rightarrow> (int \<Rightarrow> bool) \<Rightarrow> int \<Rightarrow> MatchingEngine owner \<Rightarrow> MatchingEngine owner res" where
  "MatchingEngine_start benchmark_mode component_threads set_core core_id x =
     (if benchmark_mode \<and> \<not> component_threads then FATAL ''MatchingEngine::start() is disabled in LLT_BENCHMARK_MODE.''
      else start_thread set_core core_id x)"

definition MatchingEngine_stop :: "MatchingEngine owner \<Rightarrow> MatchingEngine owner" where
  "MatchingEngine_stop = stop_joins"

definition OrderServer_start :: "int \<Rightarrow> int \<Rightarrow> bool \<Rightarrow> (int \<Rightarrow> bool) \<Rightarrow> int \<Rightarrow> OrderServer owner \<Rightarrow> OrderServer owner res" where
  "OrderServer_start efd fd ctl_ok set_core core_id x =
     rbind (tcp_listen efd fd ctl_ok (tcp_server (component x))) (\<lambda>net.
     start_thread set_core core_id (x\<lparr>component := (component x)\<lparr>tcp_server := net\<rparr>\<rparr>))"

definition OrderServer_stop :: "OrderServer owner \<Rightarrow> OrderServer owner" where
  "OrderServer_stop = stop_joins"

definition MarketDataConsumer_start :: "(int \<Rightarrow> bool) \<Rightarrow> int \<Rightarrow> MarketDataConsumer owner \<Rightarrow> MarketDataConsumer owner res" where
  "MarketDataConsumer_start set_core core_id x = start_thread set_core core_id x"

definition MarketDataConsumer_stop :: "MarketDataConsumer owner \<Rightarrow> MarketDataConsumer owner" where
  "MarketDataConsumer_stop = stop_joins"

definition OrderGateway_start :: "int \<Rightarrow> (int \<Rightarrow> bool) \<Rightarrow> int \<Rightarrow> OrderGateway owner \<Rightarrow> OrderGateway owner res" where
  "OrderGateway_start fd set_core core_id x =
     rbind (gw_connect fd (component x)) (\<lambda>gw.
     start_thread set_core core_id (x\<lparr>component := gw\<rparr>))"

definition OrderGateway_stop :: "OrderGateway owner \<Rightarrow> OrderGateway owner" where
  "OrderGateway_stop = stop_joins"

definition TradeEngine_start :: "bool \<Rightarrow> bool \<Rightarrow> (int \<Rightarrow> bool) \<Rightarrow> int \<Rightarrow> TradeEngine owner \<Rightarrow> TradeEngine owner res" where
  "TradeEngine_start benchmark_mode component_threads set_core core_id x =
     (if benchmark_mode \<and> \<not> component_threads then FATAL ''TradeEngine::start() is disabled in LLT_BENCHMARK_MODE.''
      else start_thread set_core core_id x)"

text \<open>\<open>TradeEngine::stop()\<close> first waits until both queues it reads are empty.\<close>

definition TradeEngine_stop :: "TradeEngine owner \<Rightarrow> TradeEngine owner" where
  "TradeEngine_stop = stop_drains"

definition te_drained :: "TradeEngine \<Rightarrow> bool" where
  "te_drained te \<longleftrightarrow> lfq_size (incoming_ogw_responses te) = 0 \<and> lfq_size (te_incoming_md_updates te) = 0"

text \<open>
  The publisher and its synthesizer do not keep the pointers to their threads, and the publisher starts and stops
  its synthesizer.
\<close>

definition SnapshotSynthesizer_start :: "SnapshotSynthesizer owner \<Rightarrow> SnapshotSynthesizer owner res" where
  "SnapshotSynthesizer_start = start_detached"

definition SnapshotSynthesizer_stop :: "SnapshotSynthesizer owner \<Rightarrow> SnapshotSynthesizer owner" where
  "SnapshotSynthesizer_stop = stop_detached"

definition MarketDataPublisher_start ::
  "MarketDataPublisher owner \<times> SnapshotSynthesizer owner \<Rightarrow> (MarketDataPublisher owner \<times> SnapshotSynthesizer owner) res" where
  "MarketDataPublisher_start = (\<lambda>(p, s).
     rbind (start_detached p) (\<lambda>p.
     rbind (SnapshotSynthesizer_start s) (\<lambda>s. Inr (p, s))))"

definition MarketDataPublisher_stop ::
  "MarketDataPublisher owner \<times> SnapshotSynthesizer owner \<Rightarrow> MarketDataPublisher owner \<times> SnapshotSynthesizer owner" where
  "MarketDataPublisher_stop = (\<lambda>(p, s). (stop_detached p, SnapshotSynthesizer_stop s))"

text \<open>The thread of a logger is started by its constructor and stopped by its destructor.\<close>

definition Logger_start :: "'e Logger owner \<Rightarrow> 'e Logger owner res" where
  "Logger_start x = start_thread (\<lambda>_. True) (-1) x"

definition Logger_open :: "nat \<Rightarrow> 'e \<Rightarrow> bool \<Rightarrow> 'e Logger owner res" where
  "Logger_open LOG_QUEUE_SIZE d is_open = rbind (Logger_new LOG_QUEUE_SIZE d is_open) (\<lambda>lg. Logger_start (owner_new lg))"

definition Logger_close :: "'e Logger owner \<Rightarrow> 'e Logger owner" where
  "Logger_close = stop_drains"

definition OptLogger_open :: "nat \<Rightarrow> OptLogElement \<Rightarrow> bool \<Rightarrow> OptLogElement Logger owner res" where
  "OptLogger_open = Logger_open"

definition OptLogger_close :: "OptLogElement Logger owner \<Rightarrow> OptLogElement Logger owner" where
  "OptLogger_close = Logger_close"

definition logger_iteration :: "('e \<Rightarrow> string) \<Rightarrow> unit \<Rightarrow> 'e Logger \<Rightarrow> 'e Logger res" where
  "logger_iteration wr _ lg = flush_loop wr (lfq_size (log_queue lg)) lg"

definition logger_drained :: "'e Logger \<Rightarrow> bool" where
  "logger_drained lg \<longleftrightarrow> lfq_size (log_queue lg) = 0"

section \<open>The components keep the contract\<close>

interpretation matching: joining_owner "MatchingEngine_start bm threads set_core core" MatchingEngine_stop
  by unfold_locales (auto simp: MatchingEngine_start_def MatchingEngine_stop_def FATAL_def split: if_splits dest!: start_thread_starts)

interpretation server: joining_owner "OrderServer_start efd fd ctl_ok set_core core" OrderServer_stop
  by unfold_locales (auto simp: OrderServer_start_def OrderServer_stop_def rbind_eq_Inr_iff dest!: start_thread_starts)

interpretation consumer: joining_owner "MarketDataConsumer_start set_core core" MarketDataConsumer_stop
  by unfold_locales (auto simp: MarketDataConsumer_start_def MarketDataConsumer_stop_def dest!: start_thread_starts)

interpretation gateway: joining_owner "OrderGateway_start fd set_core core" OrderGateway_stop
  by unfold_locales (auto simp: OrderGateway_start_def OrderGateway_stop_def rbind_eq_Inr_iff dest!: start_thread_starts)

subsection \<open>Iterations empty the queues\<close>

lemma updateReadIndex_size: "updateReadIndex q = Inr q' \<Longrightarrow> lfq_size q' = lfq_size q - 1 \<and> lfq_size q \<noteq> 0"
  by (auto simp: lfq_defs rbind_eq_Inr_iff)

lemma lfq_front_None: "lfq_front q = None \<longleftrightarrow> lfq_size q = 0"
  by (auto simp: lfq_defs)

lemma flush_loop_drains: "flush_loop wr n lg = Inr lg' \<Longrightarrow> lfq_size (log_queue lg) \<le> n \<Longrightarrow> lfq_size (log_queue lg') = 0"
proof (induction n arbitrary: lg)
  case (Suc n)
  show ?case
  proof (cases "lfq_front (log_queue lg)")
    case None
    then show ?thesis using Suc.prems(1) lfq_front_None [of "log_queue lg"] by simp
  next
    case (Some e)
    then obtain q where q: "updateReadIndex (log_queue lg) = Inr q"
      "flush_loop wr n (lg\<lparr>log_file := log_file lg @ wr e, log_queue := q\<rparr>) = Inr lg'"
      using Suc.prems(1) by (auto simp: rbind_eq_Inr_iff)
    from Suc.IH [OF q(2)] show ?thesis using updateReadIndex_size [OF q(1)] Suc.prems(2) by auto
  qed
qed simp

interpretation logger: draining_owner Logger_start Logger_close "logger_iteration wr" logger_drained
  by unfold_locales
    (auto simp: Logger_start_def Logger_close_def logger_iteration_def logger_drained_def
      dest!: start_thread_starts flush_loop_drains)

interpretation opt_logger: draining_owner Logger_start OptLogger_close "logger_iteration (opt_write_element show_real)" logger_drained
  using logger.draining_owner_axioms by (simp add: OptLogger_close_def)

text \<open>The handlers of the trade engine do not touch the queues it reads.\<close>

definition same_inputs :: "TradeEngine \<Rightarrow> TradeEngine \<Rightarrow> bool" where
  "same_inputs te te' \<longleftrightarrow> incoming_ogw_responses te' = incoming_ogw_responses te \<and> te_incoming_md_updates te' = te_incoming_md_updates te"

lemma fold_sendClientRequest_inputs: "same_inputs te (fold sendClientRequest rs te)"
  by (induction rs arbitrary: te) (auto simp: same_inputs_def sendClientRequest_def)

lemma with_manager_inputs: "with_manager f te = Inr te' \<Longrightarrow> same_inputs te te'"
  using fold_sendClientRequest_inputs by (auto simp: with_manager_def rbind_eq_Inr_iff same_inputs_def)

lemma te_onOrderUpdate_inputs: "te_onOrderUpdate r te = Inr te' \<Longrightarrow> same_inputs te te'"
  by (cases "te_algo te") (auto simp: te_onOrderUpdate_def algoOnOrderUpdate_def rbind_eq_Inr_iff same_inputs_def)

lemma algo_inputs:
  "algoOnOrderBookUpdate tid x te = Inr te' \<Longrightarrow> same_inputs te te'"
  "algoOnTradeUpdate u x te = Inr te' \<Longrightarrow> same_inputs te te'"
  by (cases "te_algo te"; auto simp: algoOnOrderBookUpdate_def algoOnTradeUpdate_def same_inputs_def dest: with_manager_inputs)+

lemma processMarketUpdate_inputs:
  assumes "processMarketUpdate now u te = Inr te'"
  shows "same_inputs te te'"
proof -
  obtain books x ev te2 where e: "(case ev of TradeUpdate u \<Rightarrow> te_onTradeUpdate u x (te\<lparr>te_books := books\<rparr>)
      | OrderBookUpdate tid price side \<Rightarrow> te_onOrderBookUpdate tid x (te\<lparr>te_books := books\<rparr>)) = Inr te2"
    "te' = te2\<lparr>last_event_time := now\<rparr>"
    using assms by (auto simp: processMarketUpdate_def Let_def rbind_eq_Inr_iff)
  then have "same_inputs te te2"
    by (cases ev) (auto simp: te_onTradeUpdate_def te_onOrderBookUpdate_def rbind_eq_Inr_iff same_inputs_def dest!: algo_inputs)
  then show ?thesis using e(2) by (simp add: same_inputs_def)
qed

lemma te_responses_drains:
  "te_responses n now te = Inr te' \<Longrightarrow> lfq_size (incoming_ogw_responses te) \<le> n \<Longrightarrow>
   lfq_size (incoming_ogw_responses te') = 0"
proof (induction n arbitrary: te)
  case (Suc n)
  show ?case
  proof (cases "lfq_front (incoming_ogw_responses te)")
    case None
    then show ?thesis using Suc.prems(1) lfq_front_None [of "incoming_ogw_responses te"] by simp
  next
    case (Some r)
    then obtain te1 q where q: "te_onOrderUpdate r te = Inr te1" "updateReadIndex (incoming_ogw_responses te1) = Inr q"
      "te_responses n now (te1\<lparr>incoming_ogw_responses := q, last_event_time := now\<rparr>) = Inr te'"
      using Suc.prems(1) by (auto simp: rbind_eq_Inr_iff)
    from Suc.IH [OF q(3)] show ?thesis
      using te_onOrderUpdate_inputs [OF q(1)] updateReadIndex_size [OF q(2)] Suc.prems(2) by (auto simp: same_inputs_def)
  qed
qed simp

lemma te_updates_drains:
  "te_updates n now te = Inr te' \<Longrightarrow> lfq_size (te_incoming_md_updates te) \<le> n \<Longrightarrow>
   lfq_size (te_incoming_md_updates te') = 0 \<and> incoming_ogw_responses te' = incoming_ogw_responses te"
proof (induction n arbitrary: te)
  case (Suc n)
  show ?case
  proof (cases "lfq_front (te_incoming_md_updates te)")
    case None
    then show ?thesis using Suc.prems(1) lfq_front_None [of "te_incoming_md_updates te"] by simp
  next
    case (Some u)
    then obtain te1 q where q: "processMarketUpdate now u te = Inr te1" "updateReadIndex (te_incoming_md_updates te1) = Inr q"
      "te_updates n now (te1\<lparr>te_incoming_md_updates := q\<rparr>) = Inr te'"
      using Suc.prems(1) by (auto simp: rbind_eq_Inr_iff)
    from Suc.IH [OF q(3)] show ?thesis
      using processMarketUpdate_inputs [OF q(1)] updateReadIndex_size [OF q(2)] Suc.prems(2) by (auto simp: same_inputs_def)
  qed
qed simp

lemma te_run_once_drains: "te_run_once now te = Inr te' \<Longrightarrow> te_drained te'"
  by (auto simp: te_run_once_def te_drained_def rbind_eq_Inr_iff dest!: te_responses_drains te_updates_drains)

interpretation trade: draining_owner "TradeEngine_start bm threads set_core core" TradeEngine_stop te_run_once te_drained
  by unfold_locales
    (auto simp: TradeEngine_start_def TradeEngine_stop_def FATAL_def split: if_splits
      dest!: start_thread_starts te_run_once_drains)

section \<open>After stop\<close>

lemma reach_start: "start (owner_new c) = Inr y \<Longrightarrow> thread_reach start stop drained body env (owner_new c) y"
  by (rule thread_reach.owner [OF thread_reach.init]) (rule owner_step.call_start, simp_all add: owner_new_def)

text \<open>
  When \<open>stop()\<close> of the matching engine has returned and the engine was not started again, no
  thread is left that could execute an iteration of its loop, whatever the interleaving of the owner, the thread and
  the threads at the other ends of the queues was.
\<close>

theorem engine_quiet_after_stop:
  assumes "thread_reach (MatchingEngine_start bm threads set_core core) MatchingEngine_stop drained (\<lambda>_ :: unit. me_run_once) env (owner_new e) x"
    and "thread_ptr x = None"
  shows "\<nexists>y. worker_step (\<lambda>_ :: unit. me_run_once) x y"
  by (rule matching.quiet_after_stop [OF assms])


text \<open>
  Every response and every market update that was in the queues of the trade engine when its owner
  called \<open>stop()\<close> has been processed when the call returns: the queues are empty then.
\<close>

theorem trade_engine_stop_drains:
  assumes "stopping (TradeEngine_start bm threads set_core core) TradeEngine_stop te_drained te_run_once x y"
    and "owner_state x = Draining" and "owner_state y \<noteq> Draining"
  shows "lfq_size (incoming_ogw_responses (component y)) = 0 \<and> lfq_size (te_incoming_md_updates (component y)) = 0"
  using trade.drained_after_stop [OF assms] by (simp add: te_drained_def)

lemma flush_step:
  assumes "logger_iteration wr i lg = Inr lg'" and "lfq_inv (log_queue lg)"
  shows "lfq_inv (log_queue lg') \<and> lfq_items (log_queue lg') = [] \<and> log_file lg' = log_file lg @ concat (map wr (lfq_items (log_queue lg)))"
  using flush_loop_text [OF assms(2) refl, of wr] assms by (auto simp: logger_iteration_def lfq_size_items)


text \<open>
  The publisher and the synthesizer do not wait for their threads: \<open>stop()\<close> of the synthesizer can have
  returned while its thread is in the middle of an iteration, so that its destructor, which does
  nothing else, can free the object under it.
\<close>

theorem synthesizer_runs_after_stop:
  "\<exists>x. thread_reach SnapshotSynthesizer_start SnapshotSynthesizer_stop drained body env (owner_new S) x \<and>
     owner_state x = Idle \<and> \<not> run_flag x \<and> workers x = [Working]"
proof -
  let ?x = "\<lambda>r w. \<lparr>component = S, run_flag = r, thread_ptr = None, workers = [w], owner_state = Idle\<rparr>"
  let ?R = "thread_reach SnapshotSynthesizer_start SnapshotSynthesizer_stop drained body env (owner_new S)"
  have s: "SnapshotSynthesizer_start (owner_new S) = Inr (?x True Checking)"
    by (simp add: SnapshotSynthesizer_start_def start_detached_def createAndStartThread_def owner_new_def)
  have "?R (?x True Checking)" using s by (rule reach_start)
  moreover have "worker_step body (?x True Checking) (?x True Working)"
    using worker_step.enter [of 0 "?x True Checking" body] by simp
  ultimately have "?R (?x True Working)" by (rule thread_reach.worker)
  moreover have "owner_step SnapshotSynthesizer_start SnapshotSynthesizer_stop drained (?x True Working) (?x False Working)"
    using owner_step.call_stop [of "?x True Working" SnapshotSynthesizer_start SnapshotSynthesizer_stop] by (simp add: SnapshotSynthesizer_stop_def stop_detached_def)
  ultimately have "?R (?x False Working)" by (rule thread_reach.owner)
  then show ?thesis by (intro exI [of _ "?x False Working"]) simp
qed

section \<open>Examples\<close>

text \<open>The phases of one call of \<open>start()\<close> and one of \<open>stop()\<close> for a component in state \<open>c\<close>.\<close>

definition phase :: "'c \<Rightarrow> bool \<Rightarrow> worker \<Rightarrow> owner_state \<Rightarrow> 'c owner" where
  "phase c r w s = \<lparr>component = c, run_flag = r, thread_ptr = Some 0, workers = [w], owner_state = s\<rparr>"

lemma phase_simps [simp]:
  "component (phase c r w s) = c" "run_flag (phase c r w s) = r" "workers (phase c r w s) = [w]" "owner_state (phase c r w s) = s"
  "thread_ptr (phase c r w s) = Some 0"
  by (simp_all add: phase_def)

lemma phase_steps:
  "worker_step body (phase c True Checking s) (phase c True Working s)"
  "worker_step body (phase c False Checking s) (phase c False Returned s)"
  "body i c = Inr c' \<Longrightarrow> worker_step body (phase c r Working s) (phase c' r Checking s)"
  using worker_step.enter [of 0 "phase c True Checking s" body] worker_step.leave [of 0 "phase c False Checking s" body]
    worker_step.iterate [of 0 "phase c r Working s" body i c']
  by (simp_all add: phase_def)

lemma phase_start: "start_thread (\<lambda>_. True) (-1) (owner_new c) = Inr (phase c True Checking Idle)"
  by (simp add: start_thread_def createAndStartThread_def owner_new_def phase_def)

lemma phase_owner_steps:
  "drained c \<Longrightarrow> owner_step start stop drained (phase c True w Draining) (phase c False w Joining)"
  "owner_step start stop drained (phase c r Returned Joining) (after_join (phase c r Returned Joining))"
  using owner_step.seen_drained [of "phase c True w Draining" drained]
    owner_step.joined [of "phase c r Returned Joining" 0]
  by (simp_all add: after_drain_def phase_def)

theorem engine_quiet_after_stop_witness:
  "\<nexists>y. worker_step (\<lambda>_ :: unit. me_run_once) (after_join (phase small_engine False Returned Joining)) y"
proof (rule engine_quiet_after_stop)
  let ?start = "MatchingEngine_start False False (\<lambda>_. True) (-1)"
  let ?R = "thread_reach ?start MatchingEngine_stop (\<lambda>_. False) (\<lambda>_ :: unit. me_run_once) (\<lambda>_ _. False) (owner_new small_engine)"
  have "?start (owner_new small_engine) = Inr (phase small_engine True Checking Idle)"
    by (simp add: MatchingEngine_start_def phase_start)
  then have "?R (phase small_engine True Checking Idle)" by (rule reach_start)
  moreover have "owner_step ?start MatchingEngine_stop (\<lambda>_. False) (phase small_engine True Checking Idle) (phase small_engine False Checking Joining)"
    using owner_step.call_stop [of "phase small_engine True Checking Idle" ?start MatchingEngine_stop]
    by (simp add: MatchingEngine_stop_def stop_joins_def phase_def)
  ultimately have "?R (phase small_engine False Checking Joining)" by (rule thread_reach.owner)
  from thread_reach.worker [OF this phase_steps(2)] have "?R (phase small_engine False Returned Joining)" .
  from thread_reach.owner [OF this phase_owner_steps(2)] show "?R (after_join (phase small_engine False Returned Joining))" .
qed (simp add: after_join_def)

text \<open>An engine that trades at random, with one response in its queue.\<close>

definition busy_engine :: TradeEngine where
  "busy_engine = an_engine\<lparr>te_algo := RANDOM, incoming_ogw_responses := lfq_push (a_reply ACCEPTED 0 5) (LFQueue_new 8 (a_reply ACCEPTED 0 0))\<rparr>"

lemma busy_engine_runs: obtains te where "te_run_once 7 busy_engine = Inr te" and "lfq_size (incoming_ogw_responses busy_engine) = 1"
  by (auto simp: te_run_once_def busy_engine_def lfq_defs LFQueue_new_def te_onOrderUpdate_def algoOnOrderUpdate_def a_reply_def
      an_engine_def TradeEngine_new_def)

lemma busy_engine_stops:
  "thread_reach (TradeEngine_start False False (\<lambda>_. True) (-1)) TradeEngine_stop te_drained te_run_once (\<lambda>_ _. False)
     (owner_new busy_engine) (phase busy_engine True Checking Draining)"
proof -
  let ?start = "TradeEngine_start False False (\<lambda>_. True) (-1)"
  let ?R = "thread_reach ?start TradeEngine_stop te_drained te_run_once (\<lambda>_ _. False) (owner_new busy_engine)"
  have "?start (owner_new busy_engine) = Inr (phase busy_engine True Checking Idle)" by (simp add: TradeEngine_start_def phase_start)
  then have "?R (phase busy_engine True Checking Idle)" by (rule reach_start)
  moreover have "owner_step ?start TradeEngine_stop te_drained (phase busy_engine True Checking Idle) (phase busy_engine True Checking Draining)"
    using owner_step.call_stop [of "phase busy_engine True Checking Idle" ?start TradeEngine_stop]
    by (simp add: TradeEngine_stop_def stop_drains_def phase_def)
  ultimately show ?thesis by (rule thread_reach.owner)
qed


theorem trade_engine_stop_drains_witness:
  "\<exists>te. lfq_size (incoming_ogw_responses busy_engine) = 1 \<and>
     stopping (TradeEngine_start False False (\<lambda>_. True) (-1)) TradeEngine_stop te_drained te_run_once
       (phase busy_engine True Working Draining) (after_join (phase te False Returned Joining)) \<and>
     lfq_size (incoming_ogw_responses te) = 0"
proof -
  obtain te where te: "te_run_once 7 busy_engine = Inr te" "lfq_size (incoming_ogw_responses busy_engine) = 1" by (rule busy_engine_runs)
  let ?S = "stopping (TradeEngine_start False False (\<lambda>_. True) (-1)) TradeEngine_stop te_drained te_run_once (phase busy_engine True Working Draining)"
  have "?S (phase te True Checking Draining)" by (rule stopping.meanwhile [OF stopping.begin_stop phase_steps(3) [where body = te_run_once, OF te(1)]])
  then have "?S (phase te False Checking Joining)"
    by (rule stopping.go_on) (simp_all add: phase_owner_steps(1) te_run_once_drains [OF te(1)])
  then have "?S (phase te False Returned Joining)" by (rule stopping.meanwhile) (rule phase_steps(2))
  then have st: "?S (after_join (phase te False Returned Joining))" by (rule stopping.go_on) (simp_all add: phase_owner_steps(2))
  then show ?thesis using trade_engine_stop_drains [OF st] te(2) by (auto simp: after_join_def)
qed


end
