(* ===== verification/Trading_Main.thy ===== *)
theory Trading_Main
  imports Trade_Engine Printing
begin

text \<open>
  The logic of \<open>trading/trading_main.cpp\<close>: reading the configuration from the command line, and the random
  trading algorithm, which the main program runs itself.  The results of \<open>rand()\<close> and the answers of
  \<open>silentSeconds()\<close> are arguments, as is \<open>atof\<close>; sleeping is left out.
\<close>

section \<open>The command line\<close>

text \<open>
  \<open>atoi\<close>: white space, a sign, digits; the rest of the string is ignored.  A number that does not fit is
  undefined behaviour.
\<close>

definition is_space :: "char \<Rightarrow> bool" where
  "is_space c \<longleftrightarrow> c \<in> {CHR '' '', CHR 0x09, CHR 0x0A, CHR 0x0B, CHR 0x0C, CHR 0x0D}"

definition signed_digits :: "string \<Rightarrow> int" where
  "signed_digits s =
     (case s of
        [] \<Rightarrow> 0
      | c # s' \<Rightarrow>
          if c = CHR ''-'' then - int (parse_nat (takeWhile is_digit s'))
          else int (parse_nat (takeWhile is_digit (if c = CHR ''+'' then s' else s))))"

definition atoi :: "string \<Rightarrow> int res" where
  "atoi s =
     (let i = signed_digits (dropWhile is_space s) in
      if - (2 ^ 31) \<le> i \<and> i < 2 ^ 31 then Inr i else Inl SignedOverflow)"

definition TradeEngineCfg_default :: TradeEngineCfg where
  "TradeEngineCfg_default = \<lparr>clip = 0, threshold = 0, risk_cfg = \<lparr>max_order_size = 0, max_position = 0, max_loss = 0\<rparr>\<rparr>"

text \<open>
  The loop over the arguments after the second, five at a time.  \<open>argv[argc]\<close> is the null pointer: when arguments
  are missing, it is passed to \<open>atoi\<close> or \<open>atof\<close>.
\<close>

fun parse_cfg :: "(string \<Rightarrow> real) \<Rightarrow> string list \<Rightarrow> nat \<Rightarrow> TradeEngineCfg arr \<Rightarrow> TradeEngineCfg arr res" where
  "parse_cfg atof [] next_ticker_id ticker_cfg = Inr ticker_cfg"
| "parse_cfg atof (c # t # s # p # l # args) next_ticker_id ticker_cfg =
     rbind (atoi c) (\<lambda>c.
     rbind (atoi s) (\<lambda>s.
     rbind (atoi p) (\<lambda>p.
     rbind (arr_put next_ticker_id
       \<lparr>clip = of_int c, threshold = atof t, risk_cfg = \<lparr>max_order_size = of_int s, max_position = of_int p, max_loss = atof l\<rparr>\<rparr>
       ticker_cfg) (\<lambda>ticker_cfg.
     parse_cfg atof args (next_ticker_id + 1) ticker_cfg))))"
| "parse_cfg atof args next_ticker_id ticker_cfg = Inl NullDeref"

definition main_args :: "Limits \<Rightarrow> (string \<Rightarrow> real) \<Rightarrow> string list \<Rightarrow> (ClientId \<times> AlgoType \<times> TradeEngineCfg arr) res" where
  "main_args limits atof argv =
     (if length argv < 3 then FATAL ''USAGE trading_main CLIENT_ID ALGO_TYPE''
      else
        rbind (atoi (argv ! 1)) (\<lambda>client_id.
        rbind (parse_cfg atof (drop 3 argv) 0 (arr_fill (ME_MAX_TICKERS limits) TradeEngineCfg_default)) (\<lambda>ticker_cfg.
        Inr (of_int client_id, stringToAlgoType (argv ! 2), ticker_cfg))))"

section \<open>The random algorithm\<close>

text \<open>
  One pass of the loop takes five random numbers from position \<open>k\<close> on: a new order, then the cancel of
  one of the orders sent so far.
\<close>

definition random_order :: "nat \<Rightarrow> ClientId \<Rightarrow> (nat \<Rightarrow> Price) \<Rightarrow> (nat \<Rightarrow> nat) \<Rightarrow> nat \<Rightarrow> OrderId \<Rightarrow> MEClientRequest" where
  "random_order T client_id ticker_base_price rnd k order_id =
     (let ticker_id = rnd k mod T in
      \<lparr>req_type = Request_NEW, req_client_id = client_id, req_ticker_id = of_nat ticker_id, req_order_id = order_id,
       req_side = (if rnd (k + 3) mod 2 \<noteq> 0 then BUY else SELL),
       req_price = ticker_base_price ticker_id + int (rnd (k + 1) mod 10) + 1,
       req_qty = of_nat (1 + rnd (k + 2) mod 100 + 1)\<rparr>)"

fun random_loop ::
  "nat \<Rightarrow> nat \<Rightarrow> ClientId \<Rightarrow> (nat \<Rightarrow> Price) \<Rightarrow> (nat \<Rightarrow> nat) \<Rightarrow> (nat \<Rightarrow> bool) \<Rightarrow> nat \<Rightarrow> OrderId \<Rightarrow> MEClientRequest list \<Rightarrow>
   MEClientRequest list" where
  "random_loop 0 T client_id base rnd silent k order_id client_requests_vec = []"
| "random_loop (Suc n) T client_id base rnd silent k order_id client_requests_vec =
     (let new_request = random_order T client_id base rnd k order_id;
          vec = client_requests_vec @ [new_request];
          cxl_request = (vec ! (rnd (k + 4) mod length vec))\<lparr>req_type := Request_CANCEL\<rparr>
      in
      new_request # cxl_request #
        (if silent n then []
         else random_loop n T client_id base rnd silent (k + 5) (order_id + 1) vec))"

definition random_requests :: "Limits \<Rightarrow> ClientId \<Rightarrow> (nat \<Rightarrow> nat) \<Rightarrow> (nat \<Rightarrow> bool) \<Rightarrow> MEClientRequest list" where
  "random_requests limits client_id rnd silent =
     (let T = ME_MAX_TICKERS limits in
      random_loop 10000 T client_id (\<lambda>i. int (rnd i mod 100) + 100) rnd silent T (ucast (client_id * 1000)) [])"

definition random_trading :: "Limits \<Rightarrow> (nat \<Rightarrow> nat) \<Rightarrow> (nat \<Rightarrow> bool) \<Rightarrow> TradeEngine \<Rightarrow> TradeEngine" where
  "random_trading limits rnd silent te = fold sendClientRequest (random_requests limits (te_client_id te) rnd silent) te"

section \<open>Reading the configuration\<close>

lemma takeWhile_all_digits: "takeWhile is_digit (nat_str n) = nat_str n"
  using nat_str_digits [of _ n] by (simp add: takeWhile_eq_all_conv)

lemma digit_cases: "is_digit c \<Longrightarrow> \<not> is_space c \<and> c \<noteq> CHR ''-'' \<and> c \<noteq> CHR ''+''"
  by (auto simp: is_digit_def is_space_def)

lemma signed_digits_int_str: "signed_digits (int_str i) = i"
proof (cases "i < 0")
  case True
  then show ?thesis by (simp add: signed_digits_def int_str_def takeWhile_all_digits)
next
  case False
  obtain c s where s: "nat_str (nat i) = c # s" by (cases "nat_str (nat i)") auto
  then have "is_digit c" using nat_str_digits [of c "nat i"] by simp
  then have "signed_digits (c # s) = int (parse_nat (takeWhile is_digit (c # s)))"
    using digit_cases [of c] by (simp add: signed_digits_def)
  then show ?thesis using False takeWhile_all_digits [of "nat i"] unfolding s [symmetric] by (simp add: int_str_def)
qed

lemma dropWhile_int_str: "dropWhile is_space (int_str i) = int_str i"
proof -
  obtain c s where s: "int_str i = c # s" by (cases "int_str i") (auto simp: int_str_def split: if_splits)
  have "is_digit c \<or> c = CHR ''-''"
    using s nat_str_digits [of c "nat i"] by (auto simp: int_str_def split: if_splits)
  then show ?thesis using digit_cases [of c] s by (auto simp: is_space_def)
qed

lemma atoi_int_str: "- (2 ^ 31) \<le> i \<Longrightarrow> i < 2 ^ 31 \<Longrightarrow> atoi (int_str i) = Inr i"
  by (simp add: atoi_def dropWhile_int_str signed_digits_int_str)

lemma atoi_word_str:
  fixes w :: "32 word"
  assumes "unat w < 2 ^ 31"
  shows "atoi (word_str w) = Inr (uint w)"
proof -
  have u: "uint w = int (unat w)" by simp
  then have "int_str (uint w) = word_str w" by (simp only: int_str_def) simp
  moreover have "uint w < 2 ^ 31" using assms unfolding u by (metis of_nat_less_iff of_nat_numeral of_nat_power)
  moreover have "- (2 ^ 31) \<le> uint w" by (rule order.trans [OF _ uint_ge_0]) simp
  ultimately show ?thesis using atoi_int_str [of "uint w"] by simp
qed

text \<open>The arguments that describe a configuration.\<close>

definition cfg_args :: "(real \<Rightarrow> string) \<Rightarrow> TradeEngineCfg \<Rightarrow> string list" where
  "cfg_args show_real c =
     [word_str (clip c), show_real (threshold c), word_str (max_order_size (risk_cfg c)), word_str (max_position (risk_cfg c)),
      show_real (max_loss (risk_cfg c))]"

definition cfg_small :: "TradeEngineCfg \<Rightarrow> bool" where
  "cfg_small c \<longleftrightarrow> unat (clip c) < 2 ^ 31 \<and> unat (max_order_size (risk_cfg c)) < 2 ^ 31 \<and> unat (max_position (risk_cfg c)) < 2 ^ 31"

text \<open>A printed floating point number of the configuration is read back as it was.\<close>

definition reads_back :: "(string \<Rightarrow> real) \<Rightarrow> (real \<Rightarrow> string) \<Rightarrow> TradeEngineCfg \<Rightarrow> bool" where
  "reads_back atof show_real c \<longleftrightarrow>
     atof (show_real (threshold c)) = threshold c \<and> atof (show_real (max_loss (risk_cfg c))) = max_loss (risk_cfg c)"

lemma parse_cfg_args:
  assumes "\<forall>c\<in>set cs. reads_back atof show_real c" and "\<forall>c\<in>set cs. cfg_small c" and "k + length cs \<le> arr_size ticker_cfg"
  shows "parse_cfg atof (concat (map (cfg_args show_real) cs) @ rest) k ticker_cfg =
    parse_cfg atof rest (k + length cs)
      (ticker_cfg\<lparr>arr_get := (\<lambda>i. if k \<le> i \<and> i < k + length cs then cs ! (i - k) else arr_get ticker_cfg i)\<rparr>)"
  using assms
proof (induction cs arbitrary: k ticker_cfg)
  case Nil
  have "ticker_cfg\<lparr>arr_get := (\<lambda>i. if k \<le> i \<and> i < k + length [] then [] ! (i - k) else arr_get ticker_cfg i)\<rparr> = ticker_cfg"
    by (cases ticker_cfg) (auto simp: fun_eq_iff)
  then show ?case by simp
next
  case (Cons c cs)
  have c: "\<lparr>clip = clip c, threshold = threshold c, risk_cfg = \<lparr>max_order_size = max_order_size (risk_cfg c),
      max_position = max_position (risk_cfg c), max_loss = max_loss (risk_cfg c)\<rparr>\<rparr> = c" by simp
  let ?a = "ticker_cfg\<lparr>arr_get := (arr_get ticker_cfg)(k := c)\<rparr>"
  have "parse_cfg atof (concat (map (cfg_args show_real) (c # cs)) @ rest) k ticker_cfg =
      parse_cfg atof (concat (map (cfg_args show_real) cs) @ rest) (k + 1) ?a"
    using Cons.prems by (simp add: cfg_args_def cfg_small_def atoi_word_str reads_back_def c)
  also have "\<dots> = parse_cfg atof rest (k + 1 + length cs)
      (?a\<lparr>arr_get := (\<lambda>i. if k + 1 \<le> i \<and> i < k + 1 + length cs then cs ! (i - (k + 1)) else arr_get ?a i)\<rparr>)"
    using Cons.prems by (intro Cons.IH) simp_all
  also have "?a\<lparr>arr_get := (\<lambda>i. if k + 1 \<le> i \<and> i < k + 1 + length cs then cs ! (i - (k + 1)) else arr_get ?a i)\<rparr> =
      ticker_cfg\<lparr>arr_get := (\<lambda>i. if k \<le> i \<and> i < k + length (c # cs) then (c # cs) ! (i - k) else arr_get ticker_cfg i)\<rparr>"
    by (cases ticker_cfg) (auto simp: fun_eq_iff nth_Cons')
  finally show ?case by simp
qed

lemma main_args_run:
  assumes "\<forall>c\<in>set cs. reads_back atof show_real c" and "\<forall>c\<in>set cs. cfg_small c" and "length cs \<le> ME_MAX_TICKERS limits"
    and "unat cid < 2 ^ 31"
  shows "main_args limits atof (prog # word_str cid # algoTypeToString algo # concat (map (cfg_args show_real) cs) @ rest) =
    rbind (parse_cfg atof rest (length cs)
      \<lparr>arr_size = ME_MAX_TICKERS limits, arr_get = (\<lambda>i. if i < length cs then cs ! i else TradeEngineCfg_default)\<rparr>) (\<lambda>ticker_cfg.
    Inr (cid, algo, ticker_cfg))"
  using parse_cfg_args [OF assms(1,2), of 0 "arr_fill (ME_MAX_TICKERS limits) TradeEngineCfg_default" rest] assms(3,4)
  by (simp add: main_args_def atoi_word_str arr_fill_def stringToAlgoType_algoTypeToString cong: if_cong)

text \<open>
  C36: The command line that lists the client, the algorithm and one group of five arguments for each instrument
  gives that client, that algorithm and that configuration, with the default configuration for the remaining
  instruments.
\<close>

theorem args_roundtrip:
  assumes "\<forall>c\<in>set cs. reads_back atof show_real c" and "\<forall>c\<in>set cs. cfg_small c" and "length cs \<le> ME_MAX_TICKERS limits"
    and "unat cid < 2 ^ 31"
  shows "main_args limits atof (prog # word_str cid # algoTypeToString algo # concat (map (cfg_args show_real) cs)) =
    Inr (cid, algo, \<lparr>arr_size = ME_MAX_TICKERS limits, arr_get = (\<lambda>i. if i < length cs then cs ! i else TradeEngineCfg_default)\<rparr>)"
  using main_args_run [OF assms, of prog algo "[]"] by simp

definition maker_cfg :: TradeEngineCfg where
  "maker_cfg = \<lparr>clip = 100, threshold = 6 / 10, risk_cfg = \<lparr>max_order_size = 150, max_position = 300, max_loss = -100\<rparr>\<rparr>"

definition show_two :: "real \<Rightarrow> string" where
  "show_two x = (if x = 6 / 10 then ''0.6'' else ''-100'')"

definition read_two :: "string \<Rightarrow> real" where
  "read_two s = (if s = ''0.6'' then 6 / 10 else -100)"

lemma maker_cfg_ok: "reads_back read_two show_two maker_cfg" "cfg_small maker_cfg"
  by (simp_all add: reads_back_def read_two_def show_two_def maker_cfg_def cfg_small_def)

lemma maker_cfg_args: "cfg_args show_two maker_cfg = [''100'', ''0.6'', ''150'', ''300'', ''-100'']"
  by (simp add: cfg_args_def maker_cfg_def show_two_def nat_str.simps digit_def) code_simp

theorem args_roundtrip_witness:
  "main_args default_limits read_two [''trading_main'', ''1'', ''MAKER'', ''100'', ''0.6'', ''150'', ''300'', ''-100''] =
     Inr (1, MAKER, \<lparr>arr_size = 8, arr_get = (\<lambda>i. if i < 1 then [maker_cfg] ! i else TradeEngineCfg_default)\<rparr>)"
proof -
  have "word_str (1 :: ClientId) = ''1''" by (simp add: nat_str.simps digit_def) code_simp
  then show ?thesis using args_roundtrip [of "[maker_cfg]" read_two show_two default_limits 1 "''trading_main''" MAKER] maker_cfg_ok
    by (simp add: default_limits_def maker_cfg_args algoTypeToString_def)
qed

text \<open>
  A last group of fewer than five arguments makes the program pass the null pointer after the last argument
  to \<open>atoi\<close> or \<open>atof\<close>.
\<close>

theorem incomplete_group_undefined:
  fixes cid :: ClientId
  assumes "\<forall>c\<in>set cs. reads_back atof show_real c" and "\<forall>c\<in>set cs. cfg_small c" and "length cs \<le> ME_MAX_TICKERS limits"
    and "unat cid < 2 ^ 31" and "0 < length rest" and "length rest < 5"
  shows "main_args limits atof (prog # word_str cid # algoTypeToString algo # concat (map (cfg_args show_real) cs) @ rest) = Inl NullDeref"
proof -
  have "parse_cfg atof rest k a = Inl NullDeref" for k a
    using assms(5,6) by (cases "(atof, rest, k, a)" rule: parse_cfg.cases) auto
  then show ?thesis using main_args_run [OF assms(1-4), of prog algo rest] by simp
qed

theorem incomplete_group_undefined_witness:
  "main_args default_limits read_two [''trading_main'', ''1'', ''MAKER'', ''100'', ''0.6'', ''150'', ''300''] = Inl NullDeref"
proof -
  have "word_str (1 :: ClientId) = ''1''" by (simp add: nat_str.simps digit_def) code_simp
  then show ?thesis
    using incomplete_group_undefined [of "[]" read_two show_two default_limits 1 "[''100'', ''0.6'', ''150'', ''300'']" "''trading_main''" MAKER]
    by (simp add: algoTypeToString_def)
qed

section \<open>What the random algorithm sends\<close>

text \<open>What all requests of a client have in common.\<close>

definition random_ok :: "nat \<Rightarrow> ClientId \<Rightarrow> MEClientRequest \<Rightarrow> bool" where
  "random_ok T cid r \<longleftrightarrow> req_client_id r = cid \<and> unat (req_ticker_id r) < T \<and> req_side r \<in> {BUY, SELL} \<and>
     101 \<le> req_price r \<and> req_price r \<le> 209 \<and> 2 \<le> unat (req_qty r) \<and> unat (req_qty r) \<le> 101"

lemma unat_of_nat_small:
  assumes "n < 2 ^ 32"
  shows "unat (of_nat n :: 32 word) = n"
  using assms by (simp add: unat_of_nat take_bit_nat_eq_self)

lemma random_order_ok:
  assumes "0 < T" and "T \<le> 2 ^ 32" and "\<And>i. 100 \<le> base i \<and> base i \<le> 199"
  shows "random_ok T cid (random_order T cid base rnd k oid)"
proof -
  have t: "rnd k mod T < T" using assms(1) by simp
  have q: "rnd (k + 2) mod 100 < 100" and p: "rnd (k + 1) mod 10 < 10" by simp_all
  have "unat (of_nat (rnd k mod T) :: 32 word) = rnd k mod T" using t assms(2) by (intro unat_of_nat_small) linarith
  moreover have "unat (of_nat (1 + rnd (k + 2) mod 100 + 1) :: 32 word) = 1 + rnd (k + 2) mod 100 + 1"
    using q by (intro unat_of_nat_small) simp
  moreover have "101 \<le> base (rnd k mod T) + int (rnd (k + 1) mod 10) + 1 \<and> base (rnd k mod T) + int (rnd (k + 1) mod 10) + 1 \<le> 209"
    using assms(3) [of "rnd k mod T"] p by linarith
  ultimately show ?thesis using t q unfolding random_ok_def random_order_def Let_def by auto
qed

lemma picked_mem: "xs \<noteq> [] \<Longrightarrow> xs ! (n mod length xs) \<in> set xs"
  by (rule nth_mem) simp

lemma random_loop_ok:
  assumes "\<And>k oid. P (random_order T cid base rnd k oid)" and "\<And>r. P r \<Longrightarrow> P (r\<lparr>req_type := Request_CANCEL\<rparr>)" and "\<forall>r\<in>set vec. P r"
  shows "\<forall>r\<in>set (random_loop n T cid base rnd silent k oid vec). P r"
  using assms(3)
proof (induction n arbitrary: k oid vec)
  case (Suc n)
  let ?new = "random_order T cid base rnd k oid"
  let ?vec = "vec @ [?new]"
  have v: "\<forall>r\<in>set ?vec. P r" using Suc.prems assms(1) by simp
  have "P (?vec ! (rnd (k + 4) mod length ?vec))" using v picked_mem [of ?vec] by blast
  then show ?case using Suc.IH [OF v, of "k + 5" "oid + 1"] assms(1) assms(2) by (auto simp: Let_def)
qed simp

text \<open>The new orders among the requests have consecutive identifiers, and a cancel repeats one of them.\<close>

lemma random_loop_ids:
  "\<exists>m\<le>n. map req_order_id (filter (\<lambda>r. req_type r = Request_NEW) (random_loop n T cid base rnd silent k oid vec)) =
     map (\<lambda>i. oid + of_nat i) [0..<m]"
proof (induction n arbitrary: k oid vec)
  case (Suc n)
  let ?new = "random_order T cid base rnd k oid"
  have new: "req_order_id ?new = oid" "req_type ?new = Request_NEW" by (simp_all add: random_order_def Let_def)
  show ?case
  proof (cases "silent n")
    case True
    then show ?thesis using new by (intro exI [of _ 1]) (simp add: Let_def)
  next
    case False
    obtain m where m: "m \<le> n" "map req_order_id (filter (\<lambda>r. req_type r = Request_NEW)
        (random_loop n T cid base rnd silent (k + 5) (oid + 1) (vec @ [?new]))) = map (\<lambda>i. oid + 1 + of_nat i) [0..<m]"
      using Suc.IH by blast
    have "map (\<lambda>i. oid + of_nat i) [0..<Suc m] = oid # map (\<lambda>i. oid + 1 + of_nat i) [0..<m]"
      unfolding upt_conv_Cons [OF zero_less_Suc] by (simp add: map_Suc_upt [symmetric] ac_simps del: upt_Suc)
    then show ?thesis using m new False by (intro exI [of _ "Suc m"]) (simp add: Let_def del: upt_Suc)
  qed
qed simp

lemma retype: "req_type r = Request_NEW \<Longrightarrow> r\<lparr>req_type := Request_NEW\<rparr> = r"
  by (cases r) simp

lemma random_loop_cancels:
  assumes "\<forall>r\<in>set vec. req_type r = Request_NEW" and "j < length L" and "L = random_loop n T cid base rnd silent k oid vec"
    and "req_type (L ! j) = Request_CANCEL"
  shows "(L ! j)\<lparr>req_type := Request_NEW\<rparr> \<in> set vec \<union> set (take j L)"
  using assms
proof (induction n arbitrary: k oid vec L j)
  case (Suc n)
  let ?new = "random_order T cid base rnd k oid"
  let ?vec = "vec @ [?new]"
  let ?L = "if silent n then [] else random_loop n T cid base rnd silent (k + 5) (oid + 1) ?vec"
  let ?old = "?vec ! (rnd (k + 4) mod length ?vec)"
  have new: "req_type ?new = Request_NEW" by (simp add: random_order_def Let_def)
  have L: "L = ?new # ?old\<lparr>req_type := Request_CANCEL\<rparr> # ?L" using Suc.prems(3) by (simp add: Let_def)
  have v: "\<forall>r\<in>set ?vec. req_type r = Request_NEW" using Suc.prems(1) new by simp
  have old: "?old \<in> set ?vec" by (rule picked_mem) simp
  show ?case
  proof (cases j)
    case 0
    then show ?thesis using Suc.prems(4) L new by simp
  next
    case (Suc i)
    show ?thesis
    proof (cases i)
      case 0
      have "?old\<lparr>req_type := Request_NEW\<rparr> = ?old" using v old by (intro retype) blast
      then show ?thesis using Suc 0 L old by auto
    next
      case (Suc h)
      have j: "j = Suc (Suc h)" using Suc \<open>j = Suc i\<close> by simp
      have "\<not> silent n" and "h < length ?L" using Suc.prems(2) L j by (auto split: if_splits)
      then have "(?L ! h)\<lparr>req_type := Request_NEW\<rparr> \<in> set ?vec \<union> set (take h ?L)"
        using Suc.IH [OF v, of h ?L "k + 5" "oid + 1"] Suc.prems(4) L j by simp
      then show ?thesis unfolding L j by auto
    qed
  qed
qed simp

text \<open>
  Whatever \<open>rand()\<close> returns, the requests of the random algorithm name an instrument of the exchange, quantities from 2 to 101
  and prices from 101 to 209, so that no two of their prices share an entry of the table of price levels, which has 256
  entries by default.
\<close>

theorem random_requests_bounded:
  assumes "0 < ME_MAX_TICKERS limits" and "ME_MAX_TICKERS limits \<le> 2 ^ 32" and "r \<in> set (random_requests limits cid rnd silent)"
    and "r' \<in> set (random_requests limits cid' rnd' silent')" and "109 \<le> arr_size (price_orders_at_price b)"
  shows "random_ok (ME_MAX_TICKERS limits) cid r \<and>
    (priceToIndex b (req_price r) = priceToIndex b (req_price r') \<longrightarrow> req_price r = req_price r')"
proof
  have ok: "random_ok (ME_MAX_TICKERS limits) cid r" if "r \<in> set (random_requests limits cid rnd silent)" for cid rnd silent r
  proof -
    let ?T = "ME_MAX_TICKERS limits" and ?base = "\<lambda>i. int (rnd i mod 100) + 100"
    have "100 \<le> ?base i \<and> ?base i \<le> 199" for i using pos_mod_bound [of 100 "int (rnd i)"] by (simp add: zmod_int)
    then have "random_ok ?T cid (random_order ?T cid ?base rnd k oid)" for k oid by (intro random_order_ok assms(1,2))
    from random_loop_ok [of "random_ok ?T cid" ?T cid ?base rnd "[]", OF this]
    show ?thesis using that unfolding random_requests_def Let_def by (simp add: random_ok_def)
  qed
  show "random_ok (ME_MAX_TICKERS limits) cid r" by (rule ok [OF assms(3)])
  have "101 \<le> req_price r \<and> req_price r \<le> 209" "101 \<le> req_price r' \<and> req_price r' \<le> 209"
    using ok [OF assms(3)] ok [OF assms(4)] by (auto simp: random_ok_def)
  moreover have "p = p'" if p: "101 \<le> p \<and> p \<le> 209" "101 \<le> p' \<and> p' \<le> 209" and "p \<le> p'"
    and i: "priceToIndex b p = priceToIndex b p'" for p p' :: int
  proof -
    let ?n = "arr_size (price_orders_at_price b)"
    have "nat p mod ?n = nat p' mod ?n" using i p by (simp add: priceToIndex_def)
    then have "?n dvd nat p' - nat p" using \<open>p \<le> p'\<close> by (metis mod_eq_dvd_iff_nat nat_le_eq_zle p(2) linorder_le_cases nat_mono)
    moreover have "nat p' - nat p < ?n" using p assms(5) by linarith
    ultimately have "nat p' - nat p = 0" by (meson dvd_imp_le leD neq0_conv)
    then show ?thesis using p \<open>p \<le> p'\<close> by linarith
  qed
  ultimately show "priceToIndex b (req_price r) = priceToIndex b (req_price r') \<longrightarrow> req_price r = req_price r'"
    by (metis linorder_le_cases)
qed

text \<open>
  The new orders of the random algorithm carry consecutive identifiers, beginning at a thousand times the client identifier (in 32 bits),
  and every cancel repeats a new order that was sent before it.
\<close>

theorem random_cancels_follow_orders:
  "(\<exists>m\<le>10000. map req_order_id (filter (\<lambda>r. req_type r = Request_NEW) (random_requests limits cid rnd silent)) =
      map (\<lambda>i. ucast (cid * 1000) + of_nat i) [0..<m]) \<and>
   (\<forall>j<length (random_requests limits cid rnd silent). req_type (random_requests limits cid rnd silent ! j) = Request_CANCEL \<longrightarrow>
      (random_requests limits cid rnd silent ! j)\<lparr>req_type := Request_NEW\<rparr> \<in> set (take j (random_requests limits cid rnd silent)))"
  using random_loop_ids random_loop_cancels [of "[]", OF _ _ refl] by (auto simp: random_requests_def Let_def)

text \<open>A client that sees no activity stops after its first order and cancel.\<close>

lemma silent_client_requests:
  "random_requests default_limits 5 (\<lambda>i. i) (\<lambda>_. True) =
     (let r = random_order 8 5 (\<lambda>i. int (i mod 100) + 100) (\<lambda>i. i) 8 5000 in [r, r\<lparr>req_type := Request_CANCEL\<rparr>])"
proof -
  have "(10000 :: nat) = Suc 9999" by simp
  then show ?thesis unfolding random_requests_def by (simp only: random_loop.simps) (simp add: Let_def default_limits_def)
qed

theorem random_requests_bounded_witness:
  "let r = random_order 8 5 (\<lambda>i. int (i mod 100) + 100) (\<lambda>i. i) 8 5000 in
     random_ok 8 5 r \<and> req_price r = 110 \<and> req_price r = req_price (r\<lparr>req_type := Request_CANCEL\<rparr>)"
proof -
  let ?r = "random_order 8 5 (\<lambda>i. int (i mod 100) + 100) (\<lambda>i. i) 8 5000"
  have "arr_size (price_orders_at_price (MarketOrderBook_new default_limits 0)) = 256"
    by (simp add: MarketOrderBook_new_def default_limits_def)
  then have "random_ok (ME_MAX_TICKERS default_limits) 5 ?r"
    using random_requests_bounded [of default_limits ?r 5 "\<lambda>i. i" "\<lambda>_. True" ?r 5 "\<lambda>i. i" "\<lambda>_. True" "MarketOrderBook_new default_limits 0"]
    unfolding silent_client_requests by (simp add: Let_def default_limits_def)
  then show ?thesis by (simp add: Let_def default_limits_def random_order_def)
qed

end
