(* ===== verification/Socket_Setup.thy ===== *)
theory Socket_Setup
  imports Printing "HOL-Library.Word"
begin

unbundle bit_operations_syntax

text \<open>
  \<open>common/socket_utils.h\<close>: creating and configuring sockets.  The operating system is a parameter: a function
  that answers each system call, given the calls made before.  Resolved addresses are values of an
  arbitrary type.  The result of a run is the descriptor together with the calls it made, so that what a
  socket was configured with can be stated.
\<close>

section \<open>Configuration\<close>

record SocketCfg =
  cfg_ip :: string
  cfg_iface :: string
  cfg_port :: int
  is_udp :: bool
  is_listening :: bool
  needs_so_timestamp :: bool

definition bool_str :: "bool \<Rightarrow> string" where
  "bool_str b = (if b then ''1'' else ''0'')"

definition socket_cfg_toString :: "SocketCfg \<Rightarrow> string" where
  "socket_cfg_toString c =
     ''SocketCfg[ip:'' @ cfg_ip c @ '' iface:'' @ cfg_iface c @ '' port:'' @ int_str (cfg_port c) @
     '' is_udp:'' @ bool_str (is_udp c) @ '' is_listening:'' @ bool_str (is_listening c) @
     '' needs_SO_timestamp:'' @ bool_str (needs_so_timestamp c) @ '']''"

definition MaxTCPServerBacklog :: nat where "MaxTCPServerBacklog = 1024"

section \<open>System calls\<close>

text \<open>\<open>AnyAddr\<close> is the address made from \<open>INADDR_ANY\<close> and the port of the configuration.\<close>

datatype 'a bind_address = AnyAddr int | Resolved 'a

datatype 'a syscall =
    Socket 'a
  | GetFlags int
  | SetFlags int "32 word"
  | NoDelay int
  | Connect int 'a
  | ReuseAddr int
  | Bind int "'a bind_address"
  | Listen int nat
  | SoTimestamp int
  | AddMembership int string

record answer =
  ret :: int
  err_no :: int

type_synonym 'a kernel = "'a syscall list \<Rightarrow> 'a syscall \<Rightarrow> answer"

definition O_NONBLOCK :: "32 word" where "O_NONBLOCK = 0x800"

definition EINPROGRESS :: int where "EINPROGRESS = 115"

text \<open>The interfaces with their addresses as \<open>getifaddrs\<close> and \<open>getnameinfo\<close> report them, or a failure.\<close>

record ifaddr =
  ifa_name :: string
  ifa_inet :: bool
  ifa_host :: string

definition getIfaceIP :: "ifaddr list option \<Rightarrow> string \<Rightarrow> string" where
  "getIfaceIP ifs iface =
     (case ifs of
        None \<Rightarrow> []
      | Some ifs \<Rightarrow> (case find (\<lambda>i. ifa_inet i \<and> ifa_name i = iface) ifs of None \<Rightarrow> [] | Some i \<Rightarrow> ifa_host i))"

text \<open>Each of the helper functions returns its answer and the calls made so far.\<close>

definition setNonBlocking :: "'a kernel \<Rightarrow> int \<Rightarrow> 'a syscall list \<Rightarrow> bool \<times> 'a syscall list" where
  "setNonBlocking kern fd tr =
     (let flags = of_int (ret (kern tr (GetFlags fd))) :: 32 word; tr = tr @ [GetFlags fd] in
      if flags AND O_NONBLOCK \<noteq> 0 then (True, tr)
      else (ret (kern tr (SetFlags fd (flags OR O_NONBLOCK))) \<noteq> -1, tr @ [SetFlags fd (flags OR O_NONBLOCK)]))"

definition disableNagle :: "'a kernel \<Rightarrow> int \<Rightarrow> 'a syscall list \<Rightarrow> bool \<times> 'a syscall list" where
  "disableNagle kern fd tr = (ret (kern tr (NoDelay fd)) \<noteq> -1, tr @ [NoDelay fd])"

definition setSOTimestamp :: "'a kernel \<Rightarrow> int \<Rightarrow> 'a syscall list \<Rightarrow> bool \<times> 'a syscall list" where
  "setSOTimestamp kern fd tr = (ret (kern tr (SoTimestamp fd)) \<noteq> -1, tr @ [SoTimestamp fd])"

definition join_group :: "'a kernel \<Rightarrow> int \<Rightarrow> string \<Rightarrow> 'a syscall list \<Rightarrow> bool \<times> 'a syscall list" where
  "join_group kern fd ip tr = (ret (kern tr (AddMembership fd ip)) \<noteq> -1, tr @ [AddMembership fd ip])"

section \<open>Creating a socket\<close>

text \<open>\<open>ASSERT\<close> on the result of a call, and a step that is taken only under a condition.\<close>

definition assert_call :: "bool \<times> 'a syscall list \<Rightarrow> string \<Rightarrow> 'a syscall list res" where
  "assert_call r msg = rbind (ASSERT (fst r) msg) (\<lambda>_. Inr (snd r))"

definition when_needed :: "bool \<Rightarrow> ('s \<Rightarrow> 's res) \<Rightarrow> 's \<Rightarrow> 's res" where
  "when_needed c f s = (if c then f s else Inr s)"

text \<open>The body of the loop over the resolved addresses.\<close>

definition setup_socket :: "'a kernel \<Rightarrow> SocketCfg \<Rightarrow> 'a \<Rightarrow> int \<times> 'a syscall list \<Rightarrow> (int \<times> 'a syscall list) res" where
  "setup_socket kern cfg rp = (\<lambda>(_, tr).
     let fd = ret (kern tr (Socket rp)) in
     rbind (assert_call (fd \<noteq> -1, tr @ [Socket rp]) ''socket() failed.'') (\<lambda>tr.
     rbind (assert_call (setNonBlocking kern fd tr) ''setNonBlocking() failed.'') (\<lambda>tr.
     rbind (when_needed (\<not> is_udp cfg) (\<lambda>tr. assert_call (disableNagle kern fd tr) ''disableNagle() failed.'') tr) (\<lambda>tr.
     rbind (when_needed (\<not> is_listening cfg) (\<lambda>tr.
       let connect_result = kern tr (Connect fd rp) in
       assert_call (ret connect_result = 0 \<or> ret connect_result = -1 \<and> err_no connect_result = EINPROGRESS, tr @ [Connect fd rp])
         ''connect() failed.'') tr) (\<lambda>tr.
     rbind (when_needed (is_listening cfg) (\<lambda>tr.
       assert_call (ret (kern tr (ReuseAddr fd)) = 0, tr @ [ReuseAddr fd]) ''setsockopt() SO_REUSEADDR failed.'') tr) (\<lambda>tr.
     rbind (when_needed (is_listening cfg) (\<lambda>tr.
       let addr = (if is_udp cfg then AnyAddr (cfg_port cfg) else Resolved rp) in
       assert_call (ret (kern tr (Bind fd addr)) = 0, tr @ [Bind fd addr]) ''bind() failed.'') tr) (\<lambda>tr.
     rbind (when_needed (\<not> is_udp cfg \<and> is_listening cfg) (\<lambda>tr.
       assert_call (ret (kern tr (Listen fd MaxTCPServerBacklog)) = 0, tr @ [Listen fd MaxTCPServerBacklog]) ''listen() failed.'') tr) (\<lambda>tr.
     rbind (when_needed (needs_so_timestamp cfg) (\<lambda>tr.
       assert_call (setSOTimestamp kern fd tr) ''setSOTimestamp() failed.'') tr) (\<lambda>tr.
     Inr (fd, tr))))))))))"

text \<open>
  \<open>resolve ip port passive udp\<close> is the result of \<open>getaddrinfo\<close>: its return code and the addresses.
\<close>

definition createSocket ::
  "'a kernel \<Rightarrow> ifaddr list option \<Rightarrow> (string \<Rightarrow> string \<Rightarrow> bool \<Rightarrow> bool \<Rightarrow> int \<times> 'a list) \<Rightarrow> SocketCfg \<Rightarrow> (int \<times> 'a syscall list) res" where
  "createSocket kern ifs resolve cfg =
     (let ip = (if cfg_ip cfg = [] then getIfaceIP ifs (cfg_iface cfg) else cfg_ip cfg);
          (rc, result) = resolve ip (int_str (cfg_port cfg)) (is_listening cfg) (is_udp cfg)
      in
      rbind (ASSERT (rc = 0) ''getaddrinfo() failed.'') (\<lambda>_.
      rfold (setup_socket kern cfg) result (-1, [])))"

section \<open>What a socket is configured with\<close>

text \<open>The calls for one address, apart from the choice whether the flags have to be changed.\<close>

definition setup_calls :: "SocketCfg \<Rightarrow> 'a \<Rightarrow> int \<Rightarrow> 'a syscall list \<Rightarrow> 'a syscall list" where
  "setup_calls cfg rp fd set_flags =
     [Socket rp, GetFlags fd] @ set_flags @
     (if is_udp cfg then [] else [NoDelay fd]) @
     (if is_listening cfg then [ReuseAddr fd, Bind fd (if is_udp cfg then AnyAddr (cfg_port cfg) else Resolved rp)] else [Connect fd rp]) @
     (if \<not> is_udp cfg \<and> is_listening cfg then [Listen fd MaxTCPServerBacklog] else []) @
     (if needs_so_timestamp cfg then [SoTimestamp fd] else [])"

lemma assert_call_Inr [simp]: "assert_call r msg = Inr tr \<longleftrightarrow> fst r \<and> tr = snd r"
  by (auto simp: assert_call_def rbind_eq_Inr_iff)

lemma when_needed_Inr: "when_needed c f s = Inr s' \<longleftrightarrow> (if c then f s = Inr s' else s' = s)"
  by (auto simp: when_needed_def)

text \<open>The descriptor is in non-blocking mode: its flags say so, or they were changed successfully.\<close>

definition nonblocking :: "'a kernel \<Rightarrow> 'a syscall list \<Rightarrow> int \<Rightarrow> 'a syscall list \<Rightarrow> bool" where
  "nonblocking kern tr fd set_flags \<longleftrightarrow>
     (let flags = of_int (ret (kern tr (GetFlags fd))) :: 32 word; call = SetFlags fd (flags OR O_NONBLOCK) in
      set_flags = [] \<and> flags AND O_NONBLOCK \<noteq> 0 \<or> set_flags = [call] \<and> ret (kern (tr @ [GetFlags fd]) call) \<noteq> -1)"

lemma setNonBlocking_run:
  assumes "assert_call (setNonBlocking kern fd tr) msg = Inr tr'"
  obtains set_flags where "nonblocking kern tr fd set_flags" and "tr' = tr @ [GetFlags fd] @ set_flags"
proof (cases "of_int (ret (kern tr (GetFlags fd))) AND O_NONBLOCK = 0")
  case True
  then show ?thesis using assms by (intro that [of "[SetFlags fd (of_int (ret (kern tr (GetFlags fd))) OR O_NONBLOCK)]"])
    (auto simp: setNonBlocking_def nonblocking_def Let_def)
next
  case False
  then show ?thesis using assms by (intro that [of "[]"]) (auto simp: setNonBlocking_def nonblocking_def Let_def)
qed

lemma setup_socket_calls:
  assumes "setup_socket kern cfg rp (fd0, tr) = Inr (fd, tr')"
  shows "fd \<noteq> -1 \<and> (\<exists>set_flags. nonblocking kern (tr @ [Socket rp]) fd set_flags \<and> tr' = tr @ setup_calls cfg rp fd set_flags)"
proof -
  obtain tr1 tr2 where 1: "ret (kern tr (Socket rp)) = fd" "fd \<noteq> -1" "tr1 = tr @ [Socket rp]"
    and 2: "assert_call (setNonBlocking kern fd tr1) ''setNonBlocking() failed.'' = Inr tr2"
    and 3: "tr' = tr2 @ (if is_udp cfg then [] else [NoDelay fd]) @
     (if is_listening cfg then [ReuseAddr fd, Bind fd (if is_udp cfg then AnyAddr (cfg_port cfg) else Resolved rp)] else [Connect fd rp]) @
     (if \<not> is_udp cfg \<and> is_listening cfg then [Listen fd MaxTCPServerBacklog] else []) @
     (if needs_so_timestamp cfg then [SoTimestamp fd] else [])"
    using assms
    by (auto simp: setup_socket_def Let_def rbind_eq_Inr_iff when_needed_Inr disableNagle_def setSOTimestamp_def split: if_splits)
  from 2 obtain set_flags where "nonblocking kern tr1 fd set_flags" "tr2 = tr1 @ [GetFlags fd] @ set_flags"
    by (rule setNonBlocking_run)
  then show ?thesis using 1 3 by (auto simp: setup_calls_def)
qed

text \<open>A configured socket: the address, the descriptor and the call that changed its flags, if any.\<close>

type_synonym 'a sock_setup = "'a \<times> int \<times> 'a syscall list"

definition all_calls :: "SocketCfg \<Rightarrow> 'a sock_setup list \<Rightarrow> 'a syscall list" where
  "all_calls cfg xs = concat (map (\<lambda>(rp, fd, set_flags). setup_calls cfg rp fd set_flags) xs)"

definition setups_ok :: "'a kernel \<Rightarrow> 'a sock_setup list \<Rightarrow> 'a syscall list \<Rightarrow> bool" where
  "setups_ok kern xs tr \<longleftrightarrow>
     (\<forall>(rp, fd, set_flags)\<in>set xs. fd \<noteq> -1 \<and> (\<exists>p q. tr = p @ Socket rp # GetFlags fd # set_flags @ q \<and> nonblocking kern (p @ [Socket rp]) fd set_flags))"

lemma setups_ok_mono: "setups_ok kern xs tr \<Longrightarrow> setups_ok kern xs (tr @ tr')"
  by (fastforce simp: setups_ok_def)

lemma setup_sockets:
  assumes "rfold (setup_socket kern cfg) addrs (fd0, tr0) = Inr (fd, tr)"
  shows "\<exists>xs. map fst xs = addrs \<and> fd = last (fd0 # map (fst \<circ> snd) xs) \<and> tr = tr0 @ all_calls cfg xs \<and> setups_ok kern xs tr"
  using assms
proof (induction addrs arbitrary: fd tr rule: rev_induct)
  case Nil
  then show ?case by (auto simp: all_calls_def setups_ok_def)
next
  case (snoc a addrs)
  from snoc.prems obtain fd1 tr1 where r: "rfold (setup_socket kern cfg) addrs (fd0, tr0) = Inr (fd1, tr1)"
    "setup_socket kern cfg a (fd1, tr1) = Inr (fd, tr)" by (auto simp: rfold_append rbind_eq_Inr_iff)
  from snoc.IH [OF r(1)] obtain xs where xs: "map fst xs = addrs" "tr1 = tr0 @ all_calls cfg xs" "setups_ok kern xs tr1" by blast
  from setup_socket_calls [OF r(2)] obtain sf where sf: "fd \<noteq> -1" "nonblocking kern (tr1 @ [Socket a]) fd sf" "tr = tr1 @ setup_calls cfg a fd sf"
    by blast
  obtain q where "setup_calls cfg a fd sf = Socket a # GetFlags fd # sf @ q" by (simp add: setup_calls_def)
  then have "\<exists>p q. tr = p @ Socket a # GetFlags fd # sf @ q \<and> nonblocking kern (p @ [Socket a]) fd sf"
    using sf(2,3) by blast
  then have "setups_ok kern (xs @ [(a, fd, sf)]) tr"
    using setups_ok_mono [OF xs(3), of "setup_calls cfg a fd sf"] sf(1,3) by (simp add: setups_ok_def)
  then show ?case using xs sf by (intro exI [of _ "xs @ [(a, fd, sf)]"]) (simp add: all_calls_def)
qed

text \<open>
  C35: When \<open>createSocket\<close> returns, it has opened one socket for each resolved address, in order, and made exactly the calls the
  configuration asks for on each: Nagle's algorithm off for TCP, a connection unless listening, an address bound if listening,
  a backlog for TCP servers, time stamps if wanted.  Each is in non-blocking mode, and the result is the last of them, or -1 if there was no address.
\<close>

theorem socket_configured:
  assumes "createSocket kern ifs resolve cfg = Inr (fd, tr)"
    and "resolve (if cfg_ip cfg = [] then getIfaceIP ifs (cfg_iface cfg) else cfg_ip cfg) (int_str (cfg_port cfg)) (is_listening cfg) (is_udp cfg) = (rc, addrs)"
  shows "rc = 0 \<and> (\<exists>xs. map fst xs = addrs \<and> fd = last (-1 # map (fst \<circ> snd) xs) \<and> tr = all_calls cfg xs \<and> setups_ok kern xs tr)"
  using assms setup_sockets [of kern cfg addrs "-1" "[]" fd tr] by (auto simp: createSocket_def Let_def rbind_eq_Inr_iff)

definition a_kernel :: "nat kernel" where
  "a_kernel tr c = (case c of Socket a \<Rightarrow> \<lparr>ret = 7, err_no = 0\<rparr> | GetFlags fd \<Rightarrow> \<lparr>ret = 2, err_no = 0\<rparr> | _ \<Rightarrow> \<lparr>ret = 0, err_no = 0\<rparr>)"

definition server_cfg :: SocketCfg where
  "server_cfg = \<lparr>cfg_ip = [], cfg_iface = ''lo'', cfg_port = 12345, is_udp = False, is_listening = True, needs_so_timestamp = True\<rparr>"

theorem socket_configured_witness:
  "\<exists>tr sf. createSocket a_kernel (Some [\<lparr>ifa_name = ''lo'', ifa_inet = True, ifa_host = ''127.0.0.1''\<rparr>]) (\<lambda>ip port p u. (0, [1])) server_cfg = Inr (7, tr) \<and>
     tr = [Socket 1, GetFlags 7] @ sf @ [NoDelay 7, ReuseAddr 7, Bind 7 (Resolved 1), Listen 7 1024, SoTimestamp 7]"
proof -
  let ?run = "createSocket a_kernel (Some [\<lparr>ifa_name = ''lo'', ifa_inet = True, ifa_host = ''127.0.0.1''\<rparr>]) (\<lambda>ip port p u. (0, [1])) server_cfg"
  obtain tr where r: "?run = Inr (7, tr)"
    by (simp add: createSocket_def server_cfg_def setup_socket_def when_needed_def assert_call_def a_kernel_def setNonBlocking_def
        disableNagle_def setSOTimestamp_def O_NONBLOCK_def Let_def)
  from socket_configured [OF r refl] obtain xs :: "nat sock_setup list" where
    "map fst xs = [1]" "7 = last (-1 # map (fst \<circ> snd) xs)" "tr = all_calls server_cfg xs" by (elim conjE exE) (rule that)
  then show ?thesis using r by (auto simp: all_calls_def setup_calls_def server_cfg_def MaxTCPServerBacklog_def map_eq_Cons_conv)
qed

text \<open>When the flags of a descriptor cannot be read, \<open>setNonBlocking\<close> reports success and changes nothing.\<close>

theorem getfl_failure_hidden:
  assumes "ret (kern tr (GetFlags fd)) = -1"
  shows "setNonBlocking kern fd tr = (True, tr @ [GetFlags fd])"
  using assms by (simp add: setNonBlocking_def O_NONBLOCK_def)

theorem getfl_failure_hidden_witness:
  "setNonBlocking (\<lambda>_ _. \<lparr>ret = -1, err_no = 9\<rparr>) 7 [] = (True, [GetFlags 7])"
  using getfl_failure_hidden [of "\<lambda>_ _. \<lparr>ret = -1, err_no = 9\<rparr>" "[]" 7] by simp

end
