(* ===== verification/Latency_Recorder.thy ===== *)
theory Latency_Recorder
  imports Printing
begin

text \<open>
  \<open>common/tsc_clock.h\<close> and \<open>common/latency_recorder.h\<close>: time stamps of the processor's counter, their
  calibration and overhead, and the two fixed-capacity recorders of latencies that the benchmark builds of the
  components use.  Readings of the clocks are arguments.  Floating point numbers are reals.
\<close>

unbundle bit_operations_syntax

section \<open>Time stamps\<close>

record TSCStamp =
  ticks :: "64 word"
  aux :: "32 word"

text \<open>The value of \<open>RDTSCP\<close>: the counter in two halves and the identification of the processor.\<close>

definition readTSC :: "32 word \<Rightarrow> 32 word \<Rightarrow> 32 word \<Rightarrow> TSCStamp" where
  "readTSC lo hi cpu = \<lparr>ticks = push_bit 32 (ucast hi) OR ucast lo, aux = cpu\<rparr>"

text \<open>\<open>clock_gettime(CLOCK_MONOTONIC_RAW)\<close> in 64-bit unsigned arithmetic.\<close>

definition monotonicRawNanos :: "64 word \<Rightarrow> 64 word \<Rightarrow> 64 word" where
  "monotonicRawNanos tv_sec tv_nsec = tv_sec * 1000000000 + tv_nsec"

definition tscTicksToNanos :: "64 word \<Rightarrow> real \<Rightarrow> real" where
  "tscTicksToNanos t tsc_hz = (if tsc_hz > 0 then real (unat t) * 1000000000 / tsc_hz else 0)"

text \<open>
  The element a sorted vector has in its middle.  After \<open>std::sort\<close>, as after \<open>std::nth_element\<close>, it is
  at index \<open>size() / 2\<close>.
\<close>

definition middle :: "'a::linorder list \<Rightarrow> 'a" where
  "middle xs = sort xs ! (length xs div 2)"

text \<open>A round of \<open>calibrateTSCHz()\<close>: the readings of both clocks before and after the interval.\<close>

record round =
  wall_start :: "64 word"
  tsc_start :: TSCStamp
  tsc_end :: TSCStamp
  wall_end :: "64 word"

definition round_ok :: "round \<Rightarrow> bool" where
  "round_ok r \<longleftrightarrow> aux (tsc_start r) = aux (tsc_end r) \<and> wall_end r - wall_start r \<noteq> 0 \<and> ticks (tsc_end r) > ticks (tsc_start r)"

definition estimate :: "round \<Rightarrow> real" where
  "estimate r = real (unat (ticks (tsc_end r) - ticks (tsc_start r))) * 1000000000 / real (unat (wall_end r - wall_start r))"

definition calibrateTSCHz :: "bool \<Rightarrow> round list \<Rightarrow> real" where
  "calibrateTSCHz HAS_HARDWARE_TSC rounds =
     (if \<not> HAS_HARDWARE_TSC then 1000000000
      else let estimates = map estimate (filter round_ok rounds) in
        if estimates = [] then 0 else middle estimates)"

text \<open>\<open>measureTSCOverhead()\<close> over pairs of consecutive readings.\<close>

definition pair_ok :: "TSCStamp \<times> TSCStamp \<Rightarrow> bool" where
  "pair_ok = (\<lambda>(s, e). aux s = aux e \<and> ticks e \<ge> ticks s)"

definition measureTSCOverhead :: "(TSCStamp \<times> TSCStamp) list \<Rightarrow> 64 word" where
  "measureTSCOverhead pairs =
     (let vals = map (\<lambda>(s, e). ticks e - ticks s) (filter pair_ok pairs) in if vals = [] then 0 else middle vals)"

section \<open>The recorders\<close>

record LatencyRecorder =
  samples :: "64 word list"
  rec_size :: nat
  migration_count :: "64 word"
  invalid_count :: "64 word"
  dropped_count :: "64 word"

definition LatencyRecorder_new :: "nat \<Rightarrow> LatencyRecorder" where
  "LatencyRecorder_new capacity =
     \<lparr>samples = replicate capacity 0, rec_size = 0, migration_count = 0, invalid_count = 0, dropped_count = 0\<rparr>"

definition record_latency :: "TSCStamp \<times> TSCStamp \<Rightarrow> LatencyRecorder \<Rightarrow> bool \<times> LatencyRecorder" where
  "record_latency = (\<lambda>(start, end) r.
     if aux start \<noteq> aux end then (False, r\<lparr>migration_count := migration_count r + 1\<rparr>)
     else if ticks end < ticks start then (False, r\<lparr>invalid_count := invalid_count r + 1\<rparr>)
     else if rec_size r = length (samples r) then (False, r\<lparr>dropped_count := dropped_count r + 1\<rparr>)
     else (True, r\<lparr>samples := (samples r)[rec_size r := ticks end - ticks start], rec_size := rec_size r + 1\<rparr>))"

definition stopAndRecord :: "TSCStamp \<Rightarrow> TSCStamp \<Rightarrow> LatencyRecorder \<Rightarrow> bool \<times> LatencyRecorder" where
  "stopAndRecord now start r = record_latency (start, now) r"

definition reset_recorder :: "LatencyRecorder \<Rightarrow> LatencyRecorder" where
  "reset_recorder r = r\<lparr>rec_size := 0, migration_count := 0, invalid_count := 0, dropped_count := 0\<rparr>"

definition corrected :: "64 word \<Rightarrow> 64 word \<Rightarrow> 64 word" where
  "corrected overhead raw = (if raw > overhead then raw - overhead else 0)"

text \<open>\<open>writeCSV()\<close> on an open file: the text it writes.\<close>

definition csv_row :: "(real \<Rightarrow> string) \<Rightarrow> 64 word \<Rightarrow> real \<Rightarrow> nat \<Rightarrow> 64 word \<Rightarrow> string" where
  "csv_row show_real overhead tsc_hz i raw =
     nat_str i @ '','' @ word_str raw @ '','' @ word_str (corrected overhead raw) @ '','' @
     show_real (tscTicksToNanos raw tsc_hz) @ '','' @ show_real (tscTicksToNanos (corrected overhead raw) tsc_hz) @ [CHR 0x0A]"

definition writeCSV :: "(real \<Rightarrow> string) \<Rightarrow> 64 word \<Rightarrow> real \<Rightarrow> LatencyRecorder \<Rightarrow> string" where
  "writeCSV show_real overhead tsc_hz r =
     ''sample,raw_ticks,corrected_ticks,raw_ns,corrected_ns'' @ [CHR 0x0A] @
     concat (map (\<lambda>i. csv_row show_real overhead tsc_hz i (samples r ! i)) [0..<rec_size r])"

text \<open>The recorder for clocks in nanoseconds, which has no check of the processor.\<close>

record NanosecondLatencyRecorder =
  ns_samples :: "64 word list"
  ns_size :: nat
  ns_invalid_count :: "64 word"
  ns_dropped_count :: "64 word"

definition NanosecondLatencyRecorder_new :: "nat \<Rightarrow> NanosecondLatencyRecorder" where
  "NanosecondLatencyRecorder_new capacity =
     \<lparr>ns_samples = replicate capacity 0, ns_size = 0, ns_invalid_count = 0, ns_dropped_count = 0\<rparr>"

definition ns_record :: "64 word \<times> 64 word \<Rightarrow> NanosecondLatencyRecorder \<Rightarrow> bool \<times> NanosecondLatencyRecorder" where
  "ns_record = (\<lambda>(start_ns, end_ns) r.
     if end_ns < start_ns then (False, r\<lparr>ns_invalid_count := ns_invalid_count r + 1\<rparr>)
     else if ns_size r = length (ns_samples r) then (False, r\<lparr>ns_dropped_count := ns_dropped_count r + 1\<rparr>)
     else (True, r\<lparr>ns_samples := (ns_samples r)[ns_size r := end_ns - start_ns], ns_size := ns_size r + 1\<rparr>))"

definition ns_reset :: "NanosecondLatencyRecorder \<Rightarrow> NanosecondLatencyRecorder" where
  "ns_reset r = r\<lparr>ns_size := 0, ns_invalid_count := 0, ns_dropped_count := 0\<rparr>"

definition ns_writeCSV :: "64 word \<Rightarrow> NanosecondLatencyRecorder \<Rightarrow> string" where
  "ns_writeCSV overhead r =
     ''sample,raw_ns,corrected_ns'' @ [CHR 0x0A] @
     concat (map (\<lambda>i. nat_str i @ '','' @ word_str (ns_samples r ! i) @ '','' @ word_str (corrected overhead (ns_samples r ! i)) @ [CHR 0x0A])
       [0..<ns_size r])"

section \<open>The time stamp counter\<close>

lemma readTSC_value: "uint (ticks (readTSC lo hi cpu)) = uint hi * 2 ^ 32 + uint lo"
proof -
  let ?h = "push_bit 32 (ucast hi) :: 64 word" and ?l = "ucast lo :: 64 word"
  have "?h OR ?l = ?h + ?l"
    by (rule disjunctive_add [symmetric]) (auto simp: bit_simps not_less dest: bit_imp_le_length)
  moreover have "uint ?h = uint hi * 2 ^ 32" "uint ?l = uint lo"
    using uint_lt2p [of hi] uint_lt2p [of lo]
    by (simp_all add: push_bit_eq_mult uint_word_ariths unsigned_ucast_eq take_bit_eq_mod)
  ultimately show ?thesis
    using uint_lt2p [of hi] uint_lt2p [of lo] by (simp add: readTSC_def uint_word_ariths)
qed

section \<open>The middle of a vector\<close>

text \<open>The middle element splits the vector: at most half of the elements are below and at most half above it.\<close>

lemma middle_mem: "xs \<noteq> [] \<Longrightarrow> middle xs \<in> set xs"
proof -
  assume "xs \<noteq> []"
  then have "length xs div 2 < length (sort xs)" by (cases xs) simp_all
  then show ?thesis using nth_mem [of "length xs div 2" "sort xs"] by (simp add: middle_def)
qed

lemma sorted_filter_below: "sorted ys \<Longrightarrow> k < length ys \<Longrightarrow> length (filter (\<lambda>y. y < ys ! k) ys) \<le> k"
proof -
  assume s: "sorted ys" and k: "k < length ys"
  have "filter (\<lambda>y. y < ys ! k) (drop k ys) = []"
    using s k by (auto simp: filter_empty_conv in_set_conv_nth not_less sorted_iff_nth_mono)
  then have "filter (\<lambda>y. y < ys ! k) ys = filter (\<lambda>y. y < ys ! k) (take k ys)"
    by (metis append_take_drop_id filter_append self_append_conv)
  then show ?thesis by (metis (no_types, lifting) length_filter_le length_take min.absorb2 k less_imp_le order_trans)
qed

lemma sorted_filter_above: "sorted ys \<Longrightarrow> k < length ys \<Longrightarrow> length (filter (\<lambda>y. y > ys ! k) ys) \<le> length ys - Suc k"
proof -
  assume s: "sorted ys" and k: "k < length ys"
  have "filter (\<lambda>y. y > ys ! k) (take (Suc k) ys) = []"
    using s k by (auto simp: filter_empty_conv in_set_conv_nth not_less sorted_iff_nth_mono)
  then have "filter (\<lambda>y. y > ys ! k) ys = filter (\<lambda>y. y > ys ! k) (drop (Suc k) ys)"
    by (metis append_take_drop_id filter_append append_Nil)
  then show ?thesis by (metis (no_types, lifting) length_filter_le length_drop)
qed

lemma length_filter_sort: "length (filter P (sort xs)) = length (filter P xs)"
  by (metis mset_filter mset_sort size_mset)

lemma middle_splits:
  assumes "xs \<noteq> []"
  shows "2 * length (filter (\<lambda>x. x < middle xs) xs) \<le> length xs" and "2 * length (filter (\<lambda>x. x > middle xs) xs) \<le> length xs"
proof -
  have k: "length xs div 2 < length (sort xs)" using assms by (cases xs) simp_all
  have "length (filter (\<lambda>x. x < middle xs) xs) \<le> length xs div 2"
    using sorted_filter_below [OF sorted_sort k] unfolding length_filter_sort middle_def .
  then show "2 * length (filter (\<lambda>x. x < middle xs) xs) \<le> length xs" by simp
  have "length (filter (\<lambda>x. x > middle xs) xs) \<le> length xs - Suc (length xs div 2)"
    using sorted_filter_above [OF sorted_sort k] unfolding length_filter_sort middle_def by simp
  then show "2 * length (filter (\<lambda>x. x > middle xs) xs) \<le> length xs" by simp
qed

text \<open>
  The calibrated frequency is a robust estimate: it is one of the estimates of the valid rounds, at most half of
  them are lower and at most half higher, so a minority of disturbed rounds cannot move it
  outside the range of the others.
\<close>

theorem calibration_is_median:
  assumes "es = map estimate (filter round_ok rounds)" and "es \<noteq> []"
  shows "calibrateTSCHz True rounds \<in> set es \<and>
     2 * length (filter (\<lambda>x. x < calibrateTSCHz True rounds) es) \<le> length es \<and>
     2 * length (filter (\<lambda>x. x > calibrateTSCHz True rounds) es) \<le> length es"
proof -
  have "calibrateTSCHz True rounds = middle es" using assms by (simp add: calibrateTSCHz_def Let_def)
  then show ?thesis using middle_mem [OF assms(2)] middle_splits [OF assms(2)] by simp
qed

definition a_round :: "64 word \<Rightarrow> round" where
  "a_round t = \<lparr>wall_start = 0, tsc_start = readTSC 0 0 1, tsc_end = \<lparr>ticks = t, aux = 1\<rparr>, wall_end = 1000000000\<rparr>"

theorem calibration_is_median_witness:
  "calibrateTSCHz True [a_round 3, a_round 0, a_round 9, a_round 5] \<in> {3, 9, 5}"
proof -
  have "map estimate (filter round_ok [a_round 3, a_round 0, a_round 9, a_round 5]) = [3, 9, 5]"
    by (simp add: a_round_def round_ok_def estimate_def readTSC_def)
  then show ?thesis using calibration_is_median [of "[3, 9, 5]" "[a_round 3, a_round 0, a_round 9, a_round 5]"] by auto
qed

section \<open>What the recorder keeps\<close>

definition migrated :: "TSCStamp \<times> TSCStamp \<Rightarrow> bool" where
  "migrated = (\<lambda>(s, e). aux s \<noteq> aux e)"

definition backwards :: "TSCStamp \<times> TSCStamp \<Rightarrow> bool" where
  "backwards = (\<lambda>(s, e). aux s = aux e \<and> ticks e < ticks s)"

definition latency :: "TSCStamp \<times> TSCStamp \<Rightarrow> 64 word" where
  "latency = (\<lambda>(s, e). ticks e - ticks s)"

definition record_all :: "(TSCStamp \<times> TSCStamp) list \<Rightarrow> LatencyRecorder \<Rightarrow> LatencyRecorder" where
  "record_all ps r = fold (\<lambda>p r. snd (record_latency p r)) ps r"

lemma take_Suc_update: "k < length xs \<Longrightarrow> take (Suc k) (xs[k := v]) = take k xs @ [v]"
  by (simp add: take_Suc_conv_app_nth)

lemma record_latency_cases:
  "migrated p \<Longrightarrow> record_latency p r = (False, r\<lparr>migration_count := migration_count r + 1\<rparr>)"
  "backwards p \<Longrightarrow> record_latency p r = (False, r\<lparr>invalid_count := invalid_count r + 1\<rparr>)"
  "pair_ok p \<Longrightarrow> rec_size r = length (samples r) \<Longrightarrow> record_latency p r = (False, r\<lparr>dropped_count := dropped_count r + 1\<rparr>)"
  "pair_ok p \<Longrightarrow> rec_size r \<noteq> length (samples r) \<Longrightarrow>
     record_latency p r = (True, r\<lparr>samples := (samples r)[rec_size r := latency p], rec_size := rec_size r + 1\<rparr>)"
  by (auto simp: record_latency_def migrated_def backwards_def pair_ok_def latency_def not_less split: prod.splits)

lemma pair_cases:
  obtains "migrated p" "\<not> backwards p" "\<not> pair_ok p" | "backwards p" "\<not> migrated p" "\<not> pair_ok p"
    | "pair_ok p" "\<not> migrated p" "\<not> backwards p"
proof (cases "aux (fst p) = aux (snd p)")
  case True
  then show ?thesis using that(2,3)
    by (cases "ticks (snd p) < ticks (fst p)") (simp_all add: migrated_def backwards_def pair_ok_def not_less case_prod_unfold)
qed (use that(1) in \<open>simp add: migrated_def backwards_def pair_ok_def case_prod_unfold\<close>)

text \<open>The state after the calls \<open>ps\<close> on a new recorder of the given capacity.\<close>

definition recorded :: "nat \<Rightarrow> (TSCStamp \<times> TSCStamp) list \<Rightarrow> LatencyRecorder \<Rightarrow> bool" where
  "recorded capacity ps r \<longleftrightarrow>
     length (samples r) = capacity \<and> rec_size r = min capacity (length (filter pair_ok ps)) \<and>
     take (rec_size r) (samples r) = take capacity (map latency (filter pair_ok ps)) \<and>
     migration_count r = of_nat (length (filter migrated ps)) \<and> invalid_count r = of_nat (length (filter backwards ps)) \<and>
     dropped_count r = of_nat (length (filter pair_ok ps) - capacity)"

lemma recorded_step:
  assumes "recorded capacity ps r"
  shows "recorded capacity (ps @ [p]) (snd (record_latency p r))"
proof (cases p rule: pair_cases)
  case 3
  let ?n = "length (filter pair_ok ps)"
  show ?thesis
  proof (cases "?n < capacity")
    case True
    then show ?thesis using assms 3 by (auto simp: recorded_def record_latency_cases(4) take_Suc_update)
  next
    case False
    then show ?thesis using assms 3 by (auto simp: recorded_def record_latency_cases(3) Suc_diff_le)
  qed
qed (use assms in \<open>auto simp: recorded_def record_latency_cases(1,2)\<close>)

lemma recorded_all: "recorded capacity ps (record_all ps (LatencyRecorder_new capacity))"
proof (induction ps rule: rev_induct)
  case Nil
  show ?case by (simp add: recorded_def record_all_def LatencyRecorder_new_def)
next
  case (snoc p ps)
  then show ?case using recorded_step by (simp add: record_all_def)
qed

text \<open>
  The recorder loses and invents nothing: after any sequence of measurements it holds the latencies of the
  first valid ones, up to its capacity, in order, and its counters account for every
  other call: those that changed the processor, those whose clock ran backwards and those that came when
  it was full.
\<close>

theorem recorder_accounts_for_all:
  "let r = record_all ps (LatencyRecorder_new capacity); valid = filter pair_ok ps in
     take (rec_size r) (samples r) = take capacity (map latency valid) \<and> rec_size r = min capacity (length valid) \<and>
     migration_count r = of_nat (length (filter migrated ps)) \<and> invalid_count r = of_nat (length (filter backwards ps)) \<and>
     dropped_count r = of_nat (length valid - capacity) \<and>
     length ps = length (filter migrated ps) + length (filter backwards ps) + length valid"
proof -
  have "length ps = length (filter migrated ps) + length (filter backwards ps) + length (filter pair_ok ps)"
  proof (induction ps)
    case (Cons p ps)
    then show ?case by (cases p rule: pair_cases) simp_all
  qed simp
  then show ?thesis using recorded_all [of capacity ps] unfolding recorded_def Let_def by blast
qed

end
