(* ===== verification/Reporting.thy ===== *)
theory Reporting
  imports Logger Latency_Recorder Book_Print Trade_Engine
begin

text \<open>
  What the trading client and the measurement macros write into the log: time stamps (\<open>common/time_utils.h\<close>), measured
  intervals (\<open>common/perf_utils.h\<close>) and the \<open>toString()\<close> methods of positions, risk limits and managed orders.
  The result of \<open>ctime\<close> and the printing of floating point numbers are arguments.
\<close>

section \<open>Time stamps\<close>

text \<open>
  \<open>snprintf(nanos_str, 24, "%.8s.%09lld", ctime(&time) + 11, nanos % NANOS_TO_SECS)\<close> for a time after 1970: the eight characters of the time of
  day in the result of \<open>ctime\<close> and the nanoseconds within the second.
\<close>

definition pad_zeros :: "nat \<Rightarrow> string \<Rightarrow> string" where
  "pad_zeros n s = replicate (n - length s) CHR ''0'' @ s"

definition getCurrentTimeStr :: "string \<Rightarrow> nat \<Rightarrow> string" where
  "getCurrentTimeStr ctime nanos = take 23 (take 8 (drop 11 ctime) @ ''.'' @ pad_zeros 9 (nat_str (nanos mod nat NANOS_TO_SECS)))"

section \<open>Measured intervals\<close>

text \<open>\<open>END_MEASURE\<close> and \<open>TTT_MEASURE\<close>, which do nothing in a benchmark build.\<close>

definition END_MEASURE :: "bool \<Rightarrow> string \<Rightarrow> string \<Rightarrow> 64 word \<Rightarrow> 64 word \<Rightarrow> LogElement Logger \<Rightarrow> LogElement Logger res" where
  "END_MEASURE benchmark_mode tag time_str start end_ticks lg =
     (if benchmark_mode then Inr lg
      else logger_log (''% RDTSC '' @ tag @ '' %'' @ endl) [CString time_str, Value (UNSIGNED_LONG_INTEGER (end_ticks - start))] lg)"

definition TTT_MEASURE :: "bool \<Rightarrow> string \<Rightarrow> string \<Rightarrow> 64 word \<Rightarrow> LogElement Logger \<Rightarrow> LogElement Logger res" where
  "TTT_MEASURE benchmark_mode tag time_str nanos lg =
     (if benchmark_mode then Inr lg
      else logger_log (''% TTT '' @ tag @ '' %'' @ endl) [CString time_str, Value (LONG_INTEGER nanos)] lg)"

section \<open>Positions, limits and orders\<close>

definition vwap_shown :: "PositionInfo \<Rightarrow> nat \<Rightarrow> real res" where
  "vwap_shown p i =
     (if position p \<noteq> 0 then rbind (abs32 (position p)) (\<lambda>a. Inr (open_vwap p i / real_of_int a)) else Inr 0)"

definition position_toString :: "(real \<Rightarrow> string) \<Rightarrow> BBO option \<Rightarrow> PositionInfo \<Rightarrow> string res" where
  "position_toString show_real quote p =
     rbind (vwap_shown p (sideToIndex BUY)) (\<lambda>b.
     rbind (vwap_shown p (sideToIndex SELL)) (\<lambda>s.
     Inr (''Position{'' @ ''pos:'' @ int_str (sint (position p)) @ '' u-pnl:'' @ show_real (unreal_pnl p) @
       '' r-pnl:'' @ show_real (real_pnl p) @ '' t-pnl:'' @ show_real (total_pnl p) @ '' vol:'' @ qtyToString (volume p) @
       '' vwaps:['' @ show_real b @ ''X'' @ show_real s @ ''] '' @ (case quote of None \<Rightarrow> [] | Some x \<Rightarrow> bbo_toString x) @ ''}'')))"

text \<open>The loop of \<open>PositionKeeper::toString()\<close>, with the text, the total profit and the total volume so far.\<close>

definition report_ticker ::
  "(real \<Rightarrow> string) \<Rightarrow> (nat \<Rightarrow> BBO option) \<Rightarrow> PositionKeeper \<Rightarrow> nat \<Rightarrow> string \<times> real \<times> Qty \<Rightarrow> (string \<times> real \<times> Qty) res" where
  "report_ticker show_real bbos k i = (\<lambda>(ss, total_pnl', total_vol).
     rbind (arr_at k i) (\<lambda>p.
     rbind (position_toString show_real (bbos i) p) (\<lambda>s.
     Inr (ss @ ''TickerId:'' @ tickerIdToString (of_nat i) @ '' '' @ s @ endl, total_pnl' + total_pnl p, total_vol + volume p))))"

definition keeper_toString :: "(real \<Rightarrow> string) \<Rightarrow> (nat \<Rightarrow> BBO option) \<Rightarrow> PositionKeeper \<Rightarrow> string res" where
  "keeper_toString show_real bbos k =
     rbind (rfold (report_ticker show_real bbos k) [0..<arr_size k] ([], 0, 0)) (\<lambda>(ss, total_pnl', total_vol).
     Inr (ss @ ''Total PnL:'' @ show_real total_pnl' @ '' Vol:'' @ word_str total_vol @ endl))"

definition risk_info_toString :: "(real \<Rightarrow> string) \<Rightarrow> BBO option \<Rightarrow> PositionInfo \<Rightarrow> RiskCfg \<Rightarrow> string res" where
  "risk_info_toString show_real quote p cfg =
     rbind (position_toString show_real quote p) (\<lambda>s.
     Inr (''RiskInfo'' @ ''['' @ ''pos:'' @ s @ '' '' @ risk_cfg_toString show_real cfg @ '']''))"

definition om_order_toString :: "OMOrder \<Rightarrow> string" where
  "om_order_toString x =
     ''OMOrder'' @ ''['' @ ''tid:'' @ tickerIdToString (om_ticker_id x) @ '' '' @ ''oid:'' @ orderIdToString (om_order_id x) @ '' '' @
     ''side:'' @ sideToString (om_side x) @ '' '' @ ''price:'' @ priceToString (om_price x) @ '' '' @ ''qty:'' @ qtyToString (om_qty x) @ '' '' @
     ''state:'' @ OMOrderStateToString (om_state x) @ '']''"

section \<open>What the log shows\<close>

lemma c_str_id: "CHR 0x00 \<notin> set s \<Longrightarrow> c_str s = s"
  by (auto simp: c_str_def takeWhile_eq_all_conv)

lemma segments_plain: "CHR ''%'' \<notin> set s \<Longrightarrow> segments s = [s]"
  by (induction s) (auto simp: Let_def)

lemma segments_append:
  assumes "CHR ''%'' \<notin> set g"
  shows "segments (g @ s) = (g @ hd (segments s)) # tl (segments s)"
  using assms by (induction g) (auto simp: Let_def)

lemma segments_place: "t = [] \<or> hd t \<noteq> CHR ''%'' \<Longrightarrow> segments (CHR ''%'' # t) = [] # segments t"
  by (cases t) auto

lemma measure_segments:
  assumes "CHR ''%'' \<notin> set tag" and "CHR ''%'' \<notin> set kind" and "kind \<noteq> []"
  shows "segments (''%'' @ kind @ tag @ '' %'' @ endl) = [[], kind @ tag @ '' '', endl]"
proof -
  have "segments ('' '' @ CHR ''%'' # endl) = ['' '', endl]" by (simp add: endl_def segments_place Let_def)
  then have "segments ((kind @ tag) @ '' '' @ CHR ''%'' # endl) = [kind @ tag @ '' '', endl]"
    using assms(1,2) by (subst segments_append) auto
  moreover have "hd ((kind @ tag) @ '' '' @ CHR ''%'' # endl) \<noteq> CHR ''%''" using assms(2,3) by (cases kind) auto
  then have "segments (CHR ''%'' # (kind @ tag) @ '' '' @ CHR ''%'' # endl) = [] # segments ((kind @ tag) @ '' '' @ CHR ''%'' # endl)"
    by (intro segments_place disjI2)
  moreover have "''%'' @ kind @ tag @ '' %'' @ endl = CHR ''%'' # (kind @ tag) @ '' '' @ CHR ''%'' # endl" by simp
  ultimately show ?thesis by (simp only:)
qed

text \<open>
  A measured interval appears in the log file as its time, its tag and the difference of the two counter readings: after
  \<open>END_MEASURE\<close> a pass of the logger's thread appends exactly that line.
\<close>

theorem measured_interval_logged:
  assumes "CHR ''%'' \<notin> set tag" and "CHR 0x00 \<notin> set time_str"
    and "lfq_inv (log_queue lg)" and "log_running lg" and "lfq_items (log_queue lg) = []"
    and "length time_str + length tag + 11 \<le> lfq_cap (log_queue lg)"
  shows "\<exists>lg' lg''. END_MEASURE False tag time_str start end_ticks lg = Inr lg' \<and> flushQueue (write_element show_real) lg' = Inr lg'' \<and>
     log_file lg'' = log_file lg @ time_str @ '' RDTSC '' @ tag @ '' '' @ word_str (end_ticks - start) @ endl"
proof -
  define s where "s = ''%'' @ '' RDTSC '' @ tag @ '' %'' @ endl"
  let ?as = "[CString time_str, Value (UNSIGNED_LONG_INTEGER (end_ticks - start))]"
  have g: "segments s = [[], '' RDTSC '' @ tag @ '' '', endl]" unfolding s_def by (rule measure_segments [OF assms(1)]) simp_all
  have run: "END_MEASURE False tag time_str start end_ticks lg = log_with pushValue s ?as lg"
    by (simp add: END_MEASURE_def logger_log_def s_def)
  have "length (elements arg_elements (segments s) ?as) \<le> length time_str + length tag + 11"
    unfolding g by (simp add: chars_def c_str_id [OF assms(2)] endl_def length_concat comp_def sum_list_triv)
  then show ?thesis unfolding run
    using plain.log_then_flush [of ?as s lg show_real] assms(3-6)
    by (auto simp: g places_def c_str_id [OF assms(2)] write_element_def)
qed

theorem measured_interval_logged_witness:
  "\<exists>lg' lg''. END_MEASURE False ''t'' ''12:00'' 40 45 (a_logger\<lparr>log_queue := LFQueue_new 32 (Log_CHAR CHR ''0'')\<rparr>) = Inr lg' \<and>
     flushQueue (write_element (\<lambda>x. [])) lg' = Inr lg'' \<and> log_file lg'' = ''x12:00 RDTSC t 5'' @ endl"
proof -
  have "word_str (45 - 40 :: 64 word) = ''5''" by (simp add: nat_str.simps digit_def) code_simp
  then show ?thesis
    using measured_interval_logged [of "''t''" "''12:00''" "a_logger\<lparr>log_queue := LFQueue_new 32 (Log_CHAR CHR ''0'')\<rparr>" 40 45 "\<lambda>x. []"]
    by (simp add: lfq_inv_new)
qed

section \<open>Reports\<close>

lemma position_toString_ok:
  assumes "- (2 ^ 31) < sint (position p)"
  shows "\<exists>s. position_toString show_real quote p = Inr s"
proof -
  have "\<exists>v. vwap_shown p i = Inr v" for i
    using assms sint_lt [of "position p"] by (auto simp: vwap_shown_def abs32_def int32_checked_def)
  then show ?thesis by (metis position_toString_def rbind_Inr)
qed

lemma report_loop:
  assumes "\<And>i. i < arr_size k \<Longrightarrow> - (2 ^ 31) < sint (position (arr_get k i))" and "n \<le> arr_size k"
  shows "\<exists>ss. rfold (report_ticker show_real quotes k) [0..<n] ([], 0, 0) =
     Inr (ss, \<Sum>i<n. total_pnl (arr_get k i), \<Sum>i<n. volume (arr_get k i))"
  using assms(2)
proof (induction n)
  case (Suc n)
  then obtain ss where "rfold (report_ticker show_real quotes k) [0..<n] ([], 0, 0) =
     Inr (ss, \<Sum>i<n. total_pnl (arr_get k i), \<Sum>i<n. volume (arr_get k i))" by auto
  moreover obtain s where "position_toString show_real (quotes n) (arr_get k n) = Inr s"
    using position_toString_ok assms(1) [of n] Suc.prems by (metis Suc_le_lessD)
  then obtain ss' where "report_ticker show_real quotes k n (ss, \<Sum>i<n. total_pnl (arr_get k i), \<Sum>i<n. volume (arr_get k i)) =
      Inr (ss', \<Sum>i<Suc n. total_pnl (arr_get k i), \<Sum>i<Suc n. volume (arr_get k i))"
    using Suc.prems by (simp add: report_ticker_def)
  ultimately show ?case by (simp add: rfold_append)
qed simp

text \<open>
  The report of all positions that a trade engine logs when it is stopped always exists while no position is the smallest \<open>int32_t\<close>, and its
  last line has the sum of the profits and the sum of the volumes, the latter reduced to 32 bits.
\<close>

theorem position_report_totals:
  assumes "\<forall>i<arr_size k. - (2 ^ 31) < sint (position (arr_get k i))"
  shows "\<exists>ss. keeper_toString show_real quotes k =
     Inr (ss @ ''Total PnL:'' @ show_real (\<Sum>i<arr_size k. total_pnl (arr_get k i)) @ '' Vol:'' @
       nat_str ((\<Sum>i<arr_size k. unat (volume (arr_get k i))) mod 2 ^ 32) @ endl)"
proof -
  have "unat (\<Sum>i<n. volume (arr_get k i)) = (\<Sum>i<n. unat (volume (arr_get k i))) mod 2 ^ 32" for n
    by (induction n) (simp_all add: unat_word_ariths mod_simps)
  then show ?thesis using report_loop [of k "arr_size k" show_real quotes] assms by (auto simp: keeper_toString_def)
qed

theorem position_report_totals_witness:
  "\<exists>ss. keeper_toString (\<lambda>x. ''?'') (\<lambda>_. None) (arr_fill 2 (PositionInfo_new (\<lambda>_. 0))\<lparr>arr_get := (\<lambda>i. (PositionInfo_new (\<lambda>_. 0))\<lparr>volume := 3\<rparr>)\<rparr>) =
     Inr (ss @ ''Total PnL:? Vol:6'' @ endl)"
proof -
  have "nat_str 6 = ''6''" by (simp add: nat_str.simps digit_def) code_simp
  then show ?thesis
    using position_report_totals [of "arr_fill 2 (PositionInfo_new (\<lambda>_. 0))\<lparr>arr_get := (\<lambda>i. (PositionInfo_new (\<lambda>_. 0))\<lparr>volume := 3\<rparr>)\<rparr>" "\<lambda>x. ''?''" "\<lambda>_. None"]
    by (simp add: PositionInfo_new_def)
qed

end
