(* ===== verification/RTT_Probe.thy ===== *)
theory RTT_Probe
  imports Latency_Recorder Order_Gateway
begin

text \<open>
  The probe with which \<open>trading/order_gw/order_gateway.cpp\<close> measures the time from sending a request to its response when it is built with
  \<open>LLT_ORDER_RTT_BENCHMARK\<close>.  The benchmark arms the probe for one order; the gateway's thread notes the time of
  the first bytes the kernel accepts afterwards and records the interval when the expected response arrives.
\<close>

section \<open>The probe\<close>

record rtt_probe =
  rtt_order_id :: OrderId
  rtt_expected_type :: ClientResponseType
  rtt_recorder :: LatencyRecorder
  rtt_start :: TSCStamp
  rtt_armed :: bool
  rtt_started :: bool
  rtt_completed :: bool
  rtt_protocol_errors :: "64 word"

text \<open>The recorder is the one the benchmark passes with every call; \<open>has_recorder\<close> is false for a null pointer.\<close>

definition armRTT :: "OrderId \<Rightarrow> ClientResponseType \<Rightarrow> bool \<Rightarrow> rtt_probe \<Rightarrow> bool \<times> rtt_probe" where
  "armRTT order_id expected_type has_recorder p =
     (if \<not> has_recorder \<or> rtt_armed p then (False, p)
      else (True, p\<lparr>rtt_order_id := order_id, rtt_expected_type := expected_type, rtt_started := False, rtt_completed := False, rtt_armed := True\<rparr>))"

definition observeKernelSend :: "TSCStamp \<Rightarrow> rtt_probe \<Rightarrow> rtt_probe" where
  "observeKernelSend start p = (if rtt_armed p \<and> \<not> rtt_started p then p\<lparr>rtt_start := start, rtt_started := True\<rparr> else p)"

text \<open>What \<open>recvCallback()\<close> does with a response that passed its checks; \<open>now\<close> is the counter it reads.\<close>

definition rtt_on_response :: "MEClientResponse \<Rightarrow> TSCStamp \<Rightarrow> rtt_probe \<Rightarrow> rtt_probe" where
  "rtt_on_response r now p =
     (if rtt_armed p \<and> rsp_client_order_id r = rtt_order_id p then
        if rtt_started p \<and> rsp_type r = rtt_expected_type p then
          p\<lparr>rtt_recorder := snd (record_latency (rtt_start p, now) (rtt_recorder p)), rtt_completed := True, rtt_armed := False\<rparr>
        else p\<lparr>rtt_protocol_errors := rtt_protocol_errors p + 1\<rparr>
      else p)"

section \<open>Runs\<close>

datatype rtt_event = Arm OrderId ClientResponseType bool | KernelSend TSCStamp | Accepted MEClientResponse TSCStamp

fun rtt_event_step :: "rtt_event \<Rightarrow> rtt_probe \<Rightarrow> rtt_probe" where
  "rtt_event_step (Arm oid ty has_recorder) p = snd (armRTT oid ty has_recorder p)"
| "rtt_event_step (KernelSend start) p = observeKernelSend start p"
| "rtt_event_step (Accepted r now) p = rtt_on_response r now p"

definition rtt_run :: "rtt_event list \<Rightarrow> rtt_probe \<Rightarrow> rtt_probe" where
  "rtt_run es p = fold rtt_event_step es p"

fun arms :: "rtt_event \<Rightarrow> nat" where
  "arms (Arm oid ty has_recorder) = 1"
| "arms e = 0"

text \<open>
  The samples a run recorded: in the order of the run, each from a time at which the kernel accepted bytes to the time of a
  response, and at most one for every time the probe was armed.
\<close>

definition samples_of :: "rtt_probe \<Rightarrow> rtt_event list \<Rightarrow> (TSCStamp \<times> TSCStamp) list \<Rightarrow> bool" where
  "samples_of p es ps \<longleftrightarrow>
     rtt_recorder (rtt_run es p) = record_all ps (rtt_recorder p) \<and>
     length ps + of_bool (rtt_armed (rtt_run es p)) \<le> sum_list (map arms es) \<and>
     (\<forall>(s, t)\<in>set ps. KernelSend s \<in> set es \<and> (\<exists>r. Accepted r t \<in> set es)) \<and>
     (rtt_armed (rtt_run es p) \<and> rtt_started (rtt_run es p) \<longrightarrow> KernelSend (rtt_start (rtt_run es p)) \<in> set es)"

lemma samples_exist:
  assumes "\<not> rtt_armed p"
  shows "\<exists>ps. samples_of p es ps"
proof (induction es rule: rev_induct)
  case Nil
  then show ?case using assms by (intro exI [of _ "[]"]) (simp add: samples_of_def rtt_run_def record_all_def)
next
  case (snoc e es)
  then obtain ps where ps: "samples_of p es ps" by blast
  let ?q = "rtt_run es p"
  have run: "rtt_run (es @ [e]) p = rtt_event_step e ?q" by (simp add: rtt_run_def)
  show ?case
  proof (cases e)
    case (Arm oid ty h)
    then show ?thesis using ps run by (intro exI [of _ ps]) (auto simp: samples_of_def armRTT_def)
  next
    case (KernelSend s)
    then show ?thesis using ps run by (intro exI [of _ ps]) (auto simp: samples_of_def observeKernelSend_def)
  next
    case (Accepted r t)
    show ?thesis
    proof (cases "rtt_armed ?q \<and> rsp_client_order_id r = rtt_order_id ?q \<and> rtt_started ?q \<and> rsp_type r = rtt_expected_type ?q")
      case True
      then show ?thesis using ps run Accepted
        by (intro exI [of _ "ps @ [(rtt_start ?q, t)]"]) (auto simp: samples_of_def rtt_on_response_def record_all_def)
    next
      case False
      then show ?thesis using ps run Accepted by (intro exI [of _ ps]) (auto simp: samples_of_def rtt_on_response_def)
    qed
  qed
qed

text \<open>
  The probe records at most one sample each time it is armed, every sample lies between bytes that the kernel accepted and a
  response, and an unarmed probe records nothing, whatever the order of the calls.
\<close>

theorem rtt_one_sample_per_arm:
  assumes "\<not> rtt_armed p"
  shows "\<exists>ps. rtt_recorder (rtt_run es p) = record_all ps (rtt_recorder p) \<and> length ps \<le> sum_list (map arms es) \<and>
     (\<forall>(s, t)\<in>set ps. KernelSend s \<in> set es \<and> (\<exists>r. Accepted r t \<in> set es))"
  using samples_exist [OF assms, of es] by (auto simp: samples_of_def)

definition an_idle_probe :: rtt_probe where
  "an_idle_probe = \<lparr>rtt_order_id = OrderId_INVALID, rtt_expected_type = Response_INVALID, rtt_recorder = LatencyRecorder_new 4,
     rtt_start = \<lparr>ticks = 0, aux = 0\<rparr>, rtt_armed = False, rtt_started = False, rtt_completed = False, rtt_protocol_errors = 0\<rparr>"

definition a_response :: "ClientResponseType \<Rightarrow> MEClientResponse" where
  "a_response ty = \<lparr>rsp_type = ty, rsp_client_id = 1, rsp_ticker_id = 0, rsp_client_order_id = 5, rsp_market_order_id = 1, rsp_side = BUY,
     rsp_price = 10, rsp_exec_qty = 0, rsp_leaves_qty = 3\<rparr>"

definition a_stamp :: "64 word \<Rightarrow> TSCStamp" where
  "a_stamp t = \<lparr>ticks = t, aux = 0\<rparr>"

text \<open>One round trip of 30 ticks, followed by a send and a response that the probe ignores.\<close>

definition a_round_trip :: "rtt_event list" where
  "a_round_trip = [Arm 5 ACCEPTED True, KernelSend (a_stamp 100), Accepted (a_response ACCEPTED) (a_stamp 130),
     KernelSend (a_stamp 140), Accepted (a_response FILLED) (a_stamp 150)]"

theorem rtt_one_sample_per_arm_witness:
  "take (rec_size (rtt_recorder (rtt_run a_round_trip an_idle_probe))) (samples (rtt_recorder (rtt_run a_round_trip an_idle_probe))) = [30] \<and>
   (\<exists>ps. rtt_recorder (rtt_run a_round_trip an_idle_probe) = record_all ps (LatencyRecorder_new 4) \<and> length ps \<le> 1)"
proof
  show "\<exists>ps. rtt_recorder (rtt_run a_round_trip an_idle_probe) = record_all ps (LatencyRecorder_new 4) \<and> length ps \<le> 1"
    using rtt_one_sample_per_arm [of an_idle_probe a_round_trip] by (auto simp: an_idle_probe_def a_round_trip_def)
qed code_simp

end
