(* ===== verification/Tick_To_Trade.thy ===== *)
theory Tick_To_Trade
  imports Latency_Recorder Trade_Engine_Props
begin

text \<open>
  The tick-to-trade measurement of \<open>trading/strategy/trade_engine.cpp\<close> in a build with \<open>LLT_BENCHMARK_MODE\<close>: the time from the moment before
  a market update is processed to the first request the trade engine commits to its queue because of it.
\<close>

section \<open>The measurement\<close>

record ttt_probe =
  ttt_recorder :: "LatencyRecorder option"
  ttt_start :: TSCStamp
  ttt_measurement_active :: bool
  ttt_endpoint_reached :: bool

text \<open>The end of \<open>sendClientRequest()\<close>, after the request was committed; \<open>end_stamp\<close> is the counter it reads.\<close>

definition ttt_on_send :: "TSCStamp \<Rightarrow> ttt_probe \<Rightarrow> ttt_probe res" where
  "ttt_on_send end_stamp p =
     (if ttt_measurement_active p then
        (case ttt_recorder p of
           None \<Rightarrow> Inl NullDeref
         | Some r \<Rightarrow>
             Inr (p\<lparr>ttt_recorder := Some (snd (record_latency (ttt_start p, end_stamp) r)),
                    ttt_measurement_active := False, ttt_endpoint_reached := True\<rparr>))
      else Inr p)"

text \<open>
  The engine calls \<open>sendClientRequest()\<close> once for every request it adds to its queue, and nothing takes requests out while it does: the
  number of calls is the growth of the element counter.  \<open>stamps i\<close> is the counter that call \<open>i\<close> reads.  The result has the returned flag and
  the recorder the caller passed a pointer to.
\<close>

definition requests_sent :: "TradeEngine \<Rightarrow> TradeEngine \<Rightarrow> nat" where
  "requests_sent te te' = lfq_size (outgoing_ogw_requests te') - lfq_size (outgoing_ogw_requests te)"

definition processMarketUpdateForBenchmark ::
  "Nanos \<Rightarrow> TSCStamp \<Rightarrow> (nat \<Rightarrow> TSCStamp) \<Rightarrow> MEMarketUpdate \<Rightarrow> LatencyRecorder option \<Rightarrow> TradeEngine \<times> ttt_probe \<Rightarrow>
   (bool \<times> LatencyRecorder option \<times> TradeEngine \<times> ttt_probe) res" where
  "processMarketUpdateForBenchmark now start stamps market_update recorder = (\<lambda>(te, p).
     rbind (processMarketUpdate now market_update te) (\<lambda>te'.
     rbind (rfold (\<lambda>i. ttt_on_send (stamps i)) [0..<requests_sent te te']
              (p\<lparr>ttt_recorder := recorder, ttt_endpoint_reached := False, ttt_measurement_active := True, ttt_start := start\<rparr>)) (\<lambda>p.
     Inr (ttt_endpoint_reached p, ttt_recorder p, te', p\<lparr>ttt_measurement_active := False, ttt_recorder := None\<rparr>))))"

section \<open>What is measured\<close>

lemma ttt_idle: "\<not> ttt_measurement_active p \<Longrightarrow> rfold (\<lambda>i. ttt_on_send (stamps i)) is p = Inr p"
  by (induction "is") (simp_all add: ttt_on_send_def)

lemma ttt_sends:
  assumes "ttt_measurement_active p" and "ttt_recorder p = Some r"
  shows "rfold (\<lambda>i. ttt_on_send (stamps i)) [0..<Suc n] p =
     Inr (p\<lparr>ttt_recorder := Some (snd (record_latency (ttt_start p, stamps 0) r)), ttt_measurement_active := False, ttt_endpoint_reached := True\<rparr>)"
  unfolding upt_conv_Cons [OF zero_less_Suc] using assms by (simp add: ttt_on_send_def ttt_idle del: upt_Suc)

text \<open>
  A measured update has the same effect on the trade engine as an unmeasured one.  The call returns true exactly if the update made the engine
  send a request, it records one sample then, from the start to the first request however many follow, and none otherwise, and the
  measurement is off afterwards.
\<close>

theorem ttt_measures_first_request:
  assumes "processMarketUpdate now u te = Inr te'"
  shows "\<exists>p'. processMarketUpdateForBenchmark now start stamps u (Some r) (te, p) =
       Inr (requests_sent te te' \<noteq> 0,
            Some (if requests_sent te te' = 0 then r else snd (record_latency (start, stamps 0) r)), te', p') \<and>
     \<not> ttt_measurement_active p' \<and> ttt_recorder p' = None"
proof (cases "requests_sent te te'")
  case 0
  then show ?thesis using assms by (simp add: processMarketUpdateForBenchmark_def)
next
  case (Suc n)
  then show ?thesis using assms by (simp add: processMarketUpdateForBenchmark_def ttt_sends del: upt_Suc)
qed

text \<open>The market maker of the example with a bid in its book sends two quotes when the offer arrives.\<close>

definition a_probe :: ttt_probe where
  "a_probe = \<lparr>ttt_recorder = None, ttt_start = \<lparr>ticks = 0, aux = 0\<rparr>, ttt_measurement_active = False, ttt_endpoint_reached = False\<rparr>"

lemma a_maker_quotes:
  "(case processMarketUpdate 1 (a_quote BUY 1 10) an_engine of Inl _ \<Rightarrow> None
    | Inr te \<Rightarrow> (case processMarketUpdate 2 (a_quote SELL 2 13) te of Inl _ \<Rightarrow> None | Inr te' \<Rightarrow> Some (requests_sent te te'))) = Some 2"
  by code_simp

theorem ttt_measures_first_request_witness:
  "\<exists>te te' r' p'. processMarketUpdateForBenchmark 2 \<lparr>ticks = 10, aux = 0\<rparr> (\<lambda>i. \<lparr>ticks = 25 + of_nat i, aux = 0\<rparr>) (a_quote SELL 2 13)
       (Some (LatencyRecorder_new 4)) (te, a_probe) = Inr (True, Some r', te', p') \<and> requests_sent te te' = 2 \<and>
     take (rec_size r') (samples r') = [15]"
proof -
  obtain te te' where te: "processMarketUpdate 2 (a_quote SELL 2 13) te = Inr te'" "requests_sent te te' = 2"
    using a_maker_quotes by (auto split: sum.splits)
  let ?r = "snd (record_latency (\<lparr>ticks = 10, aux = 0\<rparr>, \<lparr>ticks = 25, aux = 0\<rparr>) (LatencyRecorder_new 4))"
  have "take (rec_size ?r) (samples ?r) = [15]" by code_simp
  then show ?thesis
    using ttt_measures_first_request [OF te(1), of "\<lparr>ticks = 10, aux = 0\<rparr>" "\<lambda>i. \<lparr>ticks = 25 + of_nat i, aux = 0\<rparr>" "LatencyRecorder_new 4" a_probe] te(2)
    by auto
qed

end
