(* ===== verification/Observers.thy ===== *)
theory Observers
  imports Market_Data_Consumer Tick_To_Trade Order_Gateway
begin

text \<open>
  The observers that \<open>trading/market_data/market_data_consumer.*\<close>, \<open>trading/strategy/trade_engine.*\<close>, \<open>trading/order_gw/order_gateway.*\<close> and \<open>common/tcp_socket.cpp\<close> call in
  builds with \<open>LLT_TICK_TO_KERNEL_SEND_BENCHMARK\<close> and \<open>LLT_TICK_TO_KERNEL_SEND_STAGE_DIAGNOSTIC\<close>: at the stages of the way from a received datagram to an order in the kernel.  A
  log collects the calls; \<open>clock k\<close> is the time that the clock shows for the call that becomes entry \<open>k\<close> of the log.
\<close>

section \<open>The observers\<close>

datatype stage_call = IncrementalReceive MDPMarketUpdate Nanos | IncrementalPublish SeqNum | MarketDequeue Nanos | OrderPublish Nanos
  | OrderDequeue Nanos | SendStart Nanos | SendComplete Nanos nat

type_synonym stage_log = "stage_call list"

text \<open>Which of the members of a class are set; the others are null and not called.\<close>

record consumer_observers =
  incremental_receive_observer :: bool
  incremental_publish_observer :: bool

record engine_observers =
  market_dequeue_observer :: bool
  order_publish_observer :: bool

record gateway_observers =
  order_dequeue_observer :: bool

record socket_observers =
  send_start_observer :: bool
  send_complete_observer :: bool

definition setIncrementalReceiveObserver :: "consumer_observers \<Rightarrow> consumer_observers" where
  "setIncrementalReceiveObserver obs = obs\<lparr>incremental_receive_observer := True\<rparr>"

definition setIncrementalPublishObserver :: "consumer_observers \<Rightarrow> consumer_observers" where
  "setIncrementalPublishObserver obs = obs\<lparr>incremental_publish_observer := True\<rparr>"

definition setMarketDequeueObserver :: "engine_observers \<Rightarrow> engine_observers" where
  "setMarketDequeueObserver obs = obs\<lparr>market_dequeue_observer := True\<rparr>"

definition setOrderPublishObserver :: "engine_observers \<Rightarrow> engine_observers" where
  "setOrderPublishObserver obs = obs\<lparr>order_publish_observer := True\<rparr>"

definition setOrderDequeueObserver :: "gateway_observers \<Rightarrow> gateway_observers" where
  "setOrderDequeueObserver obs = obs\<lparr>order_dequeue_observer := True\<rparr>"

text \<open>The gateway sets the observers of its socket.\<close>

definition setSendStartObserver :: "socket_observers \<Rightarrow> socket_observers" where
  "setSendStartObserver obs = obs\<lparr>send_start_observer := True\<rparr>"

definition setSendCompleteObserver :: "socket_observers \<Rightarrow> socket_observers" where
  "setSendCompleteObserver obs = obs\<lparr>send_complete_observer := True\<rparr>"

definition notify :: "bool \<Rightarrow> stage_call \<Rightarrow> stage_log \<Rightarrow> stage_log" where
  "notify is_set call calls = (if is_set then calls @ [call] else calls)"

section \<open>The market data consumer\<close>

text \<open>The body of the loop of \<open>recvCallback()\<close>; \<open>rx\<close> is the time after the \<open>recv()\<close> that delivered the bytes.\<close>

definition observed_update ::
  "consumer_observers \<Rightarrow> Nanos \<Rightarrow> subscription \<Rightarrow> bool \<Rightarrow> MDPMarketUpdate \<Rightarrow> MarketDataConsumer \<times> stage_log \<Rightarrow> (MarketDataConsumer \<times> stage_log) res" where
  "observed_update obs rx sub is_snapshot request = (\<lambda>(c, calls).
     let already_in_recovery = in_recovery c;
         c = c\<lparr>in_recovery := already_in_recovery \<or> mdp_seq_num request \<noteq> next_exp_inc_seq_num c\<rparr>
     in
     if in_recovery c then
       rbind (if \<not> already_in_recovery then startSnapshotSync sub c else Inr c) (\<lambda>c.
       Inr (queueMessage is_snapshot request c, calls))
     else if \<not> is_snapshot then
       let calls = notify (incremental_receive_observer obs) (IncrementalReceive request rx) calls;
           c = c\<lparr>next_exp_inc_seq_num := next_exp_inc_seq_num c + 1, con_md_updates := lfq_push (mdp_update request) (con_md_updates c)\<rparr>
       in Inr (c, notify (incremental_publish_observer obs) (IncrementalPublish (mdp_seq_num request)) calls)
     else Inr (c, calls))"

definition observed_recvCallback ::
  "consumer_observers \<Rightarrow> Nanos \<Rightarrow> subscription \<Rightarrow> bool \<Rightarrow> MarketDataConsumer \<times> stage_log \<Rightarrow> (MarketDataConsumer \<times> stage_log) res" where
  "observed_recvCallback obs rx sub sn = (\<lambda>(c, calls).
     let sock = con_socket sn c; is_snapshot = (mc_socket_fd sock = mc_socket_fd (snapshot_mcast_socket c)) in
     if is_snapshot \<and> \<not> in_recovery c then Inr (set_con_socket sn (sock\<lparr>mc_next_rcv_valid_index := 0\<rparr>) c, calls)
     else
       rbind (frames sizeof_MDPMarketUpdate (\<lambda>m. observed_update obs rx sub is_snapshot (decode_update m))
                (take (mc_next_rcv_valid_index sock) (mc_inbound_data sock)) (c, calls)) (\<lambda>(rest, c, calls).
       Inr (set_con_socket sn ((con_socket sn c)\<lparr>mc_inbound_data := put_bytes 0 rest (mc_inbound_data sock),
                                                  mc_next_rcv_valid_index := length rest\<rparr>) c, calls)))"

section \<open>The trade engine\<close>

text \<open>The engine calls \<open>sendClientRequest()\<close>, and with it the observer, once for every request it adds to its queue.\<close>

fun observed_sends :: "engine_observers \<Rightarrow> (nat \<Rightarrow> Nanos) \<Rightarrow> nat \<Rightarrow> stage_log \<Rightarrow> stage_log" where
  "observed_sends obs clock 0 calls = calls"
| "observed_sends obs clock (Suc n) calls =
     observed_sends obs clock n (notify (order_publish_observer obs) (OrderPublish (clock (length calls))) calls)"

fun observed_updates ::
  "engine_observers \<Rightarrow> (nat \<Rightarrow> Nanos) \<Rightarrow> nat \<Rightarrow> Nanos \<Rightarrow> TradeEngine \<times> stage_log \<Rightarrow> (TradeEngine \<times> stage_log) res" where
  "observed_updates obs clock 0 now (te, calls) = Inr (te, calls)"
| "observed_updates obs clock (Suc n) now (te, calls) =
     (case lfq_front (te_incoming_md_updates te) of
        None \<Rightarrow> Inr (te, calls)
      | Some market_update \<Rightarrow>
          let calls = notify (market_dequeue_observer obs) (MarketDequeue (clock (length calls))) calls in
          rbind (processMarketUpdate now market_update te) (\<lambda>te'.
          let calls = observed_sends obs clock (requests_sent te te') calls in
          rbind (updateReadIndex (te_incoming_md_updates te')) (\<lambda>q.
          observed_updates obs clock n now (te'\<lparr>te_incoming_md_updates := q\<rparr>, calls))))"

section \<open>The order gateway and its socket\<close>

fun observed_requests :: "gateway_observers \<Rightarrow> (nat \<Rightarrow> Nanos) \<Rightarrow> nat \<Rightarrow> OrderGateway \<times> stage_log \<Rightarrow> (OrderGateway \<times> stage_log) res" where
  "observed_requests obs clock 0 (gw, calls) = Inr (gw, calls)"
| "observed_requests obs clock (Suc n) (gw, calls) =
     (case lfq_front (gw_outgoing_requests gw) of
        None \<Rightarrow> Inr (gw, calls)
      | Some client_request \<Rightarrow>
          let calls = notify (order_dequeue_observer obs) (OrderDequeue (clock (length calls))) calls in
          rbind (send_request client_request gw) (\<lambda>gw. observed_requests obs clock n (gw, calls)))"

fun observed_send_loop ::
  "socket_observers \<Rightarrow> (nat \<Rightarrow> Nanos) \<Rightarrow> send_result list \<Rightarrow> TCPSocket \<Rightarrow> byte list \<Rightarrow> stage_log \<Rightarrow> TCPSocket \<times> byte list \<times> stage_log" where
  "observed_send_loop obs clock [] sock wire calls = (sock, wire, calls)"
| "observed_send_loop obs clock (r # rs) sock wire calls =
     (if closed sock \<or> next_send_index sock \<ge> next_send_valid_index sock then (sock, wire, calls)
      else
        let calls = (if next_send_index sock = 0 then notify (send_start_observer obs) (SendStart (clock (length calls))) calls else calls) in
        case r of
          Sent n \<Rightarrow>
            let sock' = sock\<lparr>next_send_index := next_send_index sock + n\<rparr>;
                calls = (if next_send_index sock' = next_send_valid_index sock'
                       then notify (send_complete_observer obs) (SendComplete (clock (length calls)) n) calls else calls)
            in observed_send_loop obs clock rs sock' (wire @ take n (drop (next_send_index sock) (outbound_data sock))) calls
        | SendEINTR \<Rightarrow> observed_send_loop obs clock rs sock wire calls
        | SendEAGAIN \<Rightarrow> (sock, wire, calls)
        | SendFailed \<Rightarrow> (closeSocket sock, wire, calls))"

section \<open>Observed and unobserved builds\<close>

text \<open>The result without the calls.\<close>

definition unobserved :: "('s \<times> stage_log) res \<Rightarrow> 's res" where
  "unobserved r = rbind r (\<lambda>(s, calls). Inr s)"

lemma unobserved_simps [simp]: "unobserved (Inl e) = Inl e" "unobserved (Inr (s, calls)) = Inr s"
  by (simp_all add: unobserved_def)

lemma unobserved_rbind: "unobserved (rbind r f) = rbind r (\<lambda>x. unobserved (f x))"
  by (cases r) simp_all

lemma observed_update_state: "unobserved (observed_update obs rx sub sn m (c, calls)) = handle_update sub sn m c"
  by (simp add: observed_update_def handle_update_def Let_def unobserved_rbind)

lemma frames_unobserved:
  assumes "\<And>m s calls. unobserved (h m (s, calls)) = h' m s"
  shows "rbind (frames n h bs (s, calls)) (\<lambda>(rest, s, calls). Inr (rest, s)) = frames n h' bs s"
proof (induction "length bs" arbitrary: bs s calls rule: less_induct)
  case less
  show ?case
  proof (cases "0 < n \<and> n \<le> length bs")
    case True
    then have n: "0 < n" "n \<le> length bs" by simp_all
    show ?thesis unfolding frames_step [OF n] assms [of "take n bs" s calls, symmetric]
      using n by (cases "h (take n bs) (s, calls)") (auto simp: less.hyps)
  next
    case False
    then show ?thesis by (subst (1 2) frames.simps) auto
  qed
qed

lemma observed_recvCallback_state: "unobserved (observed_recvCallback obs rx sub sn (c, calls)) = consumer_recvCallback sub sn c"
proof -
  let ?sock = "con_socket sn c"
  let ?bytes = "take (mc_next_rcv_valid_index ?sock) (mc_inbound_data ?sock)"
  define is_snapshot where "is_snapshot = (mc_socket_fd ?sock = mc_socket_fd (snapshot_mcast_socket c))"
  have f: "frames sizeof_MDPMarketUpdate (\<lambda>m. handle_update sub is_snapshot (decode_update m)) ?bytes c =
      rbind (frames sizeof_MDPMarketUpdate (\<lambda>m. observed_update obs rx sub is_snapshot (decode_update m)) ?bytes (c, calls)) (\<lambda>(rest, c, calls). Inr (rest, c))"
    by (rule frames_unobserved [symmetric]) (rule observed_update_state)
  show ?thesis
    unfolding observed_recvCallback_def consumer_recvCallback_def Let_def is_snapshot_def [symmetric] f prod.case
    by (simp add: unobserved_rbind case_prod_unfold rbind_assoc)
qed

lemma observed_updates_state: "unobserved (observed_updates obs clock n now (te, calls)) = te_updates n now te"
  by (induction n arbitrary: te calls) (simp_all add: Let_def unobserved_rbind split: option.split)

lemma observed_requests_state: "unobserved (observed_requests obs clock n (gw, calls)) = send_requests n gw"
  by (induction n arbitrary: gw calls) (simp_all add: Let_def unobserved_rbind split: option.split)

lemma observed_send_loop_state: "(case observed_send_loop obs clock rs sock wire calls of (s, w, _) \<Rightarrow> (s, w)) = tcp_send_loop rs sock wire"
proof (induction rs arbitrary: sock wire calls)
  case (Cons r rs)
  then show ?case by (cases r) (simp_all add: Let_def)
qed simp

section \<open>What the observers see\<close>

text \<open>In-order updates are reported one by one, before and after they are handed to the trade engine.\<close>

lemma observed_in_order:
  assumes "\<not> in_recovery c"
  shows "rfold (observed_update obs rx sub False) (mdp_numbered (next_exp_inc_seq_num c) us) (c, calls) =
     Inr (c\<lparr>next_exp_inc_seq_num := next_exp_inc_seq_num c + of_nat (length us), con_md_updates := fold lfq_push us (con_md_updates c)\<rparr>,
       calls @ concat (map (\<lambda>m. notify (incremental_publish_observer obs) (IncrementalPublish (mdp_seq_num m))
         (notify (incremental_receive_observer obs) (IncrementalReceive m rx) [])) (mdp_numbered (next_exp_inc_seq_num c) us)))"
  using assms
proof (induction us arbitrary: c calls)
  case (Cons u us)
  let ?c = "c\<lparr>next_exp_inc_seq_num := next_exp_inc_seq_num c + 1, con_md_updates := lfq_push u (con_md_updates c)\<rparr>"
  let ?m = "\<lparr>mdp_seq_num = next_exp_inc_seq_num c, mdp_update = u\<rparr>"
  have eq: "c\<lparr>in_recovery := False\<rparr> = c" using Cons.prems by (cases c) simp
  have "observed_update obs rx sub False ?m (c, calls) = Inr (?c, calls @ notify (incremental_publish_observer obs) (IncrementalPublish (mdp_seq_num ?m))
      (notify (incremental_receive_observer obs) (IncrementalReceive ?m rx) []))"
    using Cons.prems by (simp add: observed_update_def Let_def eq notify_def)
  then show ?case using Cons.IH [of ?c] Cons.prems by (simp add: add.assoc)
qed simp


fun completes :: "stage_call \<Rightarrow> bool" where
  "completes (SendComplete t n) = True"
| "completes call = False"

text \<open>
  A pass of the send loop reports the completion once if it empties the buffer, also when the kernel takes the bytes in several parts, and not at all otherwise.
\<close>

theorem send_completes_once:
  assumes "observed_send_loop obs clock sends sock wire calls = (sock', wire', calls')" and "send_complete_observer obs"
    and "\<not> closed sock" and "next_send_index sock < next_send_valid_index sock"
  shows "length (filter completes calls') = length (filter completes calls) + of_bool (next_send_index sock' = next_send_valid_index sock')"
  using assms
proof (induction sends arbitrary: sock wire calls)
  case (Cons r rs)
  define calls1 where "calls1 = (if next_send_index sock = 0 then notify (send_start_observer obs) (SendStart (clock (length calls))) calls else calls)"
  have c1: "length (filter completes calls1) = length (filter completes calls)" by (simp add: calls1_def notify_def)
  show ?case
  proof (cases r)
    case (Sent n)
    let ?sock = "sock\<lparr>next_send_index := next_send_index sock + n\<rparr>"
    let ?calls = "if next_send_index ?sock = next_send_valid_index ?sock then calls1 @ [SendComplete (clock (length calls1)) n] else calls1"
    have l: "observed_send_loop obs clock rs ?sock (wire @ take n (drop (next_send_index sock) (outbound_data sock))) ?calls = (sock', wire', calls')"
      using Cons.prems Sent by (simp add: Let_def notify_def flip: calls1_def split: if_splits)
    show ?thesis
    proof (cases "next_send_index ?sock < next_send_valid_index ?sock")
      case True
      then show ?thesis using Cons.IH [OF l] Cons.prems(2,3) c1 by simp
    next
      case False
      then have "sock' = ?sock" "calls' = ?calls" using l by (cases rs; simp)+
      then show ?thesis using c1 by simp
    qed
  next
    case SendEINTR
    then show ?thesis using Cons.IH [of sock wire calls1] Cons.prems c1 by (simp add: Let_def flip: calls1_def)
  next
    case SendEAGAIN
    then show ?thesis using Cons.prems c1 by (simp add: Let_def flip: calls1_def)
  next
    case SendFailed
    then show ?thesis using Cons.prems c1 by (auto simp: Let_def closeSocket_def simp flip: calls1_def)
  qed
qed auto

text \<open>
  The start of a send is meant to be reported for the first system call for a pending buffer; it is reported again for every call that is interrupted or finds no room
  before the first byte is taken.
\<close>

theorem send_start_repeats:
  assumes "send_start_observer obs" and "\<not> closed sock" and "next_send_index sock = 0" and "0 < next_send_valid_index sock"
  shows "observed_send_loop obs clock (replicate k SendEINTR @ [SendEAGAIN]) sock wire calls =
     (sock, wire, calls @ map (\<lambda>i. SendStart (clock (length calls + i))) [0..<Suc k])"
proof (induction k arbitrary: calls)
  case (Suc k)
  have "map (\<lambda>i. SendStart (clock (length calls + i))) [0..<Suc (Suc k)] =
      SendStart (clock (length calls)) # map (\<lambda>i. SendStart (clock (Suc (length calls) + i))) [0..<Suc k]"
    unfolding upt_conv_Cons [OF zero_less_Suc, of "Suc k"] by (simp add: map_Suc_upt [symmetric] del: upt_Suc)
  then show ?case using Suc.IH [of "calls @ [SendStart (clock (length calls))]"] assms by (simp add: notify_def Let_def del: upt_Suc)
qed (use assms in \<open>simp add: notify_def\<close>)

end
