(* ===== verification/Exchange_Main.thy ===== *)
theory Exchange_Main
  imports Lifecycle
begin

text \<open>
  \<open>exchange/exchange_main.cpp\<close>: the exchange process.  The main function creates three lock-free queues, the matching engine, the market
  data publisher with its snapshot synthesizer, and the order server around them, and starts their threads; then the
  threads run until a signal arrives.  The theory models the process with one turn for every thread, an iteration of its loop on
  the queues as the others left them.
\<close>

section \<open>The process\<close>

definition MEClientRequest_default :: MEClientRequest where
  "MEClientRequest_default =
     \<lparr>req_type = Request_INVALID, req_client_id = ClientId_INVALID, req_ticker_id = TickerId_INVALID, req_order_id = OrderId_INVALID,
      req_side = Side_INVALID, req_price = Price_INVALID, req_qty = Qty_INVALID\<rparr>"

definition MEClientResponse_default :: MEClientResponse where
  "MEClientResponse_default =
     \<lparr>rsp_type = Response_INVALID, rsp_client_id = ClientId_INVALID, rsp_ticker_id = TickerId_INVALID, rsp_client_order_id = OrderId_INVALID,
      rsp_market_order_id = OrderId_INVALID, rsp_side = Side_INVALID, rsp_price = Price_INVALID, rsp_exec_qty = Qty_INVALID,
      rsp_leaves_qty = Qty_INVALID\<rparr>"

record exchange_process =
  matching_engine :: "MatchingEngine owner"
  market_data_publisher :: "MarketDataPublisher owner \<times> SnapshotSynthesizer owner"
  order_server :: "OrderServer owner"

text \<open>What the process depends on: sizes, what the memory held, and what the operating system returns when it sets up sockets.\<close>

record exchange_env =
  env_limits :: Limits
  env_benchmark_mode :: bool
  env_threads :: bool
  env_memory :: "nat \<Rightarrow> nat \<Rightarrow> nat \<Rightarrow> ptr"
  env_max_pending :: nat
  env_tcp_buffer :: nat
  env_mcast_buffer :: nat
  env_inc_fd :: int
  env_snapshot_fd :: int
  env_epoll_fd :: int
  env_listener_fd :: int
  env_epoll_ok :: bool

definition exchange_main :: "exchange_env \<Rightarrow> exchange_process res" where
  "exchange_main env =
     (let limits = env_limits env;
          client_requests = LFQueue_new (ME_MAX_CLIENT_UPDATES limits) MEClientRequest_default;
          client_responses = LFQueue_new (ME_MAX_CLIENT_UPDATES limits) MEClientResponse_default;
          market_updates = LFQueue_new (ME_MAX_MARKET_UPDATES limits) MEMarketUpdate_default
      in
      rbind (MatchingEngine_start (env_benchmark_mode env) (env_threads env) (\<lambda>_. True) (-1)
        (owner_new (MatchingEngine_new limits (env_benchmark_mode env) (env_memory env) client_requests client_responses market_updates))) (\<lambda>me.
      rbind (MarketDataPublisher_new limits (env_mcast_buffer env) (env_inc_fd env) market_updates) (\<lambda>p.
      rbind (SnapshotSynthesizer_new limits (env_mcast_buffer env) (env_snapshot_fd env) (snapshot_md_updates p)) (\<lambda>s.
      rbind (MarketDataPublisher_start (owner_new p, owner_new s)) (\<lambda>mdp.
      rbind (OrderServer_start (env_epoll_fd env) (env_listener_fd env) (env_epoll_ok env) (\<lambda>_. True) (-1)
        (owner_new (OrderServer_new limits (env_tcp_buffer env)
          (FIFOSequencer_new (env_max_pending env) \<lparr>recv_time = 0, rt_request = MEClientRequest_default\<rparr> client_requests)
          client_responses))) (\<lambda>os.
      Inr \<lparr>matching_engine = me, market_data_publisher = mdp, order_server = os\<rparr>))))))"

abbreviation ex_engine :: "exchange_process \<Rightarrow> MatchingEngine" where
  "ex_engine x \<equiv> component (matching_engine x)"

abbreviation ex_publisher :: "exchange_process \<Rightarrow> MarketDataPublisher" where
  "ex_publisher x \<equiv> component (fst (market_data_publisher x))"

abbreviation ex_synthesizer :: "exchange_process \<Rightarrow> SnapshotSynthesizer" where
  "ex_synthesizer x \<equiv> component (snd (market_data_publisher x))"

abbreviation ex_server :: "exchange_process \<Rightarrow> OrderServer" where
  "ex_server x \<equiv> component (order_server x)"

section \<open>Turns of the threads\<close>

text \<open>
  The queues are shared objects.  The record of the matching engine holds the state of the three queues it has, that of the publisher the
  queue to the synthesizer; a thread on the other side works on these and leaves them changed.
\<close>

definition set_engine :: "MatchingEngine \<Rightarrow> exchange_process \<Rightarrow> exchange_process" where
  "set_engine e x = x\<lparr>matching_engine := (matching_engine x)\<lparr>component := e\<rparr>\<rparr>"

definition set_publisher :: "MarketDataPublisher \<Rightarrow> exchange_process \<Rightarrow> exchange_process" where
  "set_publisher p x = x\<lparr>market_data_publisher := ((fst (market_data_publisher x))\<lparr>component := p\<rparr>, snd (market_data_publisher x))\<rparr>"

definition set_synthesizer :: "SnapshotSynthesizer \<Rightarrow> exchange_process \<Rightarrow> exchange_process" where
  "set_synthesizer s x = x\<lparr>market_data_publisher := (fst (market_data_publisher x), (snd (market_data_publisher x))\<lparr>component := s\<rparr>)\<rparr>"

definition set_server :: "OrderServer \<Rightarrow> exchange_process \<Rightarrow> exchange_process" where
  "set_server s x = x\<lparr>order_server := (order_server x)\<lparr>component := s\<rparr>\<rparr>"

lemma set_component [simp]:
  "ex_engine (set_engine e x) = e" "ex_publisher (set_engine e x) = ex_publisher x" "ex_synthesizer (set_engine e x) = ex_synthesizer x" "ex_server (set_engine e x) = ex_server x"
  "ex_engine (set_publisher p x) = ex_engine x" "ex_publisher (set_publisher p x) = p" "ex_synthesizer (set_publisher p x) = ex_synthesizer x" "ex_server (set_publisher p x) = ex_server x"
  "ex_engine (set_synthesizer s x) = ex_engine x" "ex_publisher (set_synthesizer s x) = ex_publisher x" "ex_synthesizer (set_synthesizer s x) = s" "ex_server (set_synthesizer s x) = ex_server x"
  "ex_engine (set_server o' x) = ex_engine x" "ex_publisher (set_server o' x) = ex_publisher x" "ex_synthesizer (set_server o' x) = ex_synthesizer x" "ex_server (set_server o' x) = o'"
  by (simp_all add: set_engine_def set_publisher_def set_synthesizer_def set_server_def)

definition engine_turn :: "exchange_process \<Rightarrow> exchange_process res" where
  "engine_turn x = rbind (me_run_once (ex_engine x)) (\<lambda>e. Inr (set_engine e x))"

definition publisher_turn :: "byte list \<Rightarrow> exchange_process \<Rightarrow> (exchange_process \<times> byte list) res" where
  "publisher_turn rcv x =
     rbind (publisher_run_once rcv ((ex_publisher x)\<lparr>pub_outgoing_md_updates := outgoing_md_updates (ex_engine x)\<rparr>)) (\<lambda>(p, datagram).
     Inr (set_engine ((ex_engine x)\<lparr>outgoing_md_updates := pub_outgoing_md_updates p\<rparr>) (set_publisher p x), datagram))"

definition synthesizer_turn :: "Nanos \<Rightarrow> Nanos \<Rightarrow> exchange_process \<Rightarrow> (exchange_process \<times> byte list list) res" where
  "synthesizer_turn now now' x =
     rbind (synthesizer_run_once now now' ((ex_synthesizer x)\<lparr>syn_md_updates := snapshot_md_updates (ex_publisher x)\<rparr>)) (\<lambda>(s, datagrams).
     Inr (set_publisher ((ex_publisher x)\<lparr>snapshot_md_updates := syn_md_updates s\<rparr>) (set_synthesizer s x), datagrams))"

text \<open>What the kernel answers to the order server during one iteration.\<close>

record server_input =
  in_events :: "epoll_event list"
  in_accepts :: "(int \<times> bool \<times> bool) list"
  in_recvs :: "nat \<Rightarrow> recv_result list"
  in_sends :: "nat \<Rightarrow> send_result list"
  in_recvs' :: "nat \<Rightarrow> recv_result list"
  in_sends' :: "nat \<Rightarrow> send_result list"

definition server_view :: "exchange_process \<Rightarrow> OrderServer" where
  "server_view x = (ex_server x)\<lparr>outgoing_responses := outgoing_ogw_responses (ex_engine x),
     fifo_sequencer := (fifo_sequencer (ex_server x))\<lparr>seq_incoming_requests := incoming_requests (ex_engine x)\<rparr>\<rparr>"

definition server_turn :: "sorter \<Rightarrow> nat \<Rightarrow> server_input \<Rightarrow> exchange_process \<Rightarrow> (exchange_process \<times> (nat \<Rightarrow> byte list)) res" where
  "server_turn srt TCPBufferSize i x =
     rbind (order_server_run_once srt TCPBufferSize (in_events i) (in_accepts i) (in_recvs i) (in_sends i) (in_recvs' i) (in_sends' i)
       (server_view x)) (\<lambda>(s, wires).
     Inr (set_engine ((ex_engine x)\<lparr>incoming_requests := seq_incoming_requests (fifo_sequencer s), outgoing_ogw_responses := outgoing_responses s\<rparr>)
       (set_server s x), wires))"

end
