(* ===== verification/Trading_Process.thy ===== *)
theory Trading_Process
  imports Lifecycle Trading_Main Exchange_Main
begin

text \<open>
  \<open>trading/trading_main.cpp\<close>: the process of a trading client.  The main function reads the command line, creates three lock-free queues, the trade engine,
  the order gateway and the market data consumer around them and starts their threads; it then sends the requests of the random
  algorithm, if that is chosen, and waits until the engine has been silent for a minute.
\<close>

section \<open>The process\<close>

record trading_process =
  trade_engine :: "TradeEngine owner"
  order_gateway :: "OrderGateway owner"
  market_data_consumer :: "MarketDataConsumer owner"

text \<open>What the process depends on: sizes, \<open>atof\<close>, the command line, what the memory held, and what the operating system returns when it sets up sockets.\<close>

record trading_env =
  tr_limits :: Limits
  tr_atof :: "string \<Rightarrow> real"
  tr_argv :: "string list"
  tr_memory :: "nat \<Rightarrow> nat \<Rightarrow> real"
  tr_benchmark_mode :: bool
  tr_threads :: bool
  tr_tcp_buffer :: nat
  tr_mcast_buffer :: nat
  tr_gateway_fd :: int
  tr_subscription :: subscription

definition trading_main :: "trading_env \<Rightarrow> trading_process res" where
  "trading_main env =
     rbind (main_args (tr_limits env) (tr_atof env) (tr_argv env)) (\<lambda>(client_id, algo_type, ticker_cfg).
     let limits = tr_limits env;
         client_requests = LFQueue_new (ME_MAX_CLIENT_UPDATES limits) MEClientRequest_default;
         client_responses = LFQueue_new (ME_MAX_CLIENT_UPDATES limits) MEClientResponse_default;
         market_updates = LFQueue_new (ME_MAX_MARKET_UPDATES limits) MEMarketUpdate_default
     in
     rbind (TradeEngine_start (tr_benchmark_mode env) (tr_threads env) (\<lambda>_. True) (-1)
       (owner_new (TradeEngine_new limits client_id algo_type ticker_cfg (tr_memory env) client_requests client_responses market_updates))) (\<lambda>te.
     rbind (OrderGateway_start (tr_gateway_fd env) (\<lambda>_. True) (-1)
       (owner_new (OrderGateway_new (tr_tcp_buffer env) client_id client_requests client_responses))) (\<lambda>gw.
     rbind (MarketDataConsumer_new (tr_mcast_buffer env) (tr_subscription env) market_updates) (\<lambda>c.
     rbind (MarketDataConsumer_start (\<lambda>_. True) (-1) (owner_new c)) (\<lambda>c.
     Inr \<lparr>trade_engine = te, order_gateway = gw, market_data_consumer = c\<rparr>)))))"

abbreviation tr_engine :: "trading_process \<Rightarrow> TradeEngine" where
  "tr_engine p \<equiv> component (trade_engine p)"

abbreviation tr_gateway :: "trading_process \<Rightarrow> OrderGateway" where
  "tr_gateway p \<equiv> component (order_gateway p)"

abbreviation tr_consumer :: "trading_process \<Rightarrow> MarketDataConsumer" where
  "tr_consumer p \<equiv> component (market_data_consumer p)"

section \<open>Turns of the threads\<close>

text \<open>The record of the trade engine holds the state of the three queues; the gateway and the consumer work on these and leave them changed.\<close>

definition set_trade_engine :: "TradeEngine \<Rightarrow> trading_process \<Rightarrow> trading_process" where
  "set_trade_engine te p = p\<lparr>trade_engine := (trade_engine p)\<lparr>component := te\<rparr>\<rparr>"

definition set_gateway :: "OrderGateway \<Rightarrow> trading_process \<Rightarrow> trading_process" where
  "set_gateway gw p = p\<lparr>order_gateway := (order_gateway p)\<lparr>component := gw\<rparr>\<rparr>"

definition set_consumer :: "MarketDataConsumer \<Rightarrow> trading_process \<Rightarrow> trading_process" where
  "set_consumer c p = p\<lparr>market_data_consumer := (market_data_consumer p)\<lparr>component := c\<rparr>\<rparr>"

lemma set_trading_component [simp]:
  "tr_engine (set_trade_engine te p) = te" "tr_gateway (set_trade_engine te p) = tr_gateway p" "tr_consumer (set_trade_engine te p) = tr_consumer p"
  "tr_engine (set_gateway gw p) = tr_engine p" "tr_gateway (set_gateway gw p) = gw" "tr_consumer (set_gateway gw p) = tr_consumer p"
  "tr_engine (set_consumer c p) = tr_engine p" "tr_gateway (set_consumer c p) = tr_gateway p" "tr_consumer (set_consumer c p) = c"
  by (simp_all add: set_trade_engine_def set_gateway_def set_consumer_def)

definition trade_turn :: "Nanos \<Rightarrow> trading_process \<Rightarrow> trading_process res" where
  "trade_turn now p = rbind (te_run_once now (tr_engine p)) (\<lambda>te. Inr (set_trade_engine te p))"

definition gateway_turn :: "recv_result list \<Rightarrow> send_result list \<Rightarrow> trading_process \<Rightarrow> (trading_process \<times> byte list) res" where
  "gateway_turn recvs sends p =
     rbind (gateway_run_once recvs sends ((tr_gateway p)\<lparr>gw_outgoing_requests := outgoing_ogw_requests (tr_engine p),
       gw_incoming_responses := incoming_ogw_responses (tr_engine p)\<rparr>)) (\<lambda>(gw, out).
     Inr (set_trade_engine ((tr_engine p)\<lparr>outgoing_ogw_requests := gw_outgoing_requests gw, incoming_ogw_responses := gw_incoming_responses gw\<rparr>)
       (set_gateway gw p), out))"

definition consumer_turn :: "subscription \<Rightarrow> byte list \<Rightarrow> byte list \<Rightarrow> trading_process \<Rightarrow> trading_process res" where
  "consumer_turn sub incremental snapshot p =
     rbind (consumer_run_once sub incremental snapshot ((tr_consumer p)\<lparr>con_md_updates := te_incoming_md_updates (tr_engine p)\<rparr>)) (\<lambda>c.
     Inr (set_trade_engine ((tr_engine p)\<lparr>te_incoming_md_updates := con_md_updates c\<rparr>) (set_consumer c p)))"

text \<open>The main thread: the reset of the last event time, one request of the random algorithm, and the condition of the loop that waits.\<close>

definition main_init :: "Nanos \<Rightarrow> trading_process \<Rightarrow> trading_process" where
  "main_init now p = set_trade_engine (initLastEventTime now (tr_engine p)) p"

definition main_sends :: "MEClientRequest \<Rightarrow> trading_process \<Rightarrow> trading_process" where
  "main_sends r p = set_trade_engine (sendClientRequest r (tr_engine p)) p"

definition main_waits :: "Nanos \<Rightarrow> trading_process \<Rightarrow> bool" where
  "main_waits now p \<longleftrightarrow> silentSeconds now (tr_engine p) < 60"

end
