(* ===== verification/Server_Queues.thy ===== *)
theory Server_Queues
  imports Order_Server
begin

text \<open>
  What an iteration of the order server can do to the two queues it shares with the matching engine, for any input from the
  network: add requests at the end of the one and take responses from the head of the other.
\<close>

section \<open>Invariants of receiving\<close>

text \<open>A property of the state of the server that a receive callback maintains is maintained by everything that receives.\<close>

definition keeps :: "('s \<Rightarrow> bool) \<Rightarrow> 's recv_callback \<Rightarrow> bool" where
  "keeps P cb \<longleftrightarrow> (\<forall>sock t st sock' st'. P st \<longrightarrow> cb sock t st = Inr (sock', st') \<longrightarrow> P st')"

lemma keepsD: "keeps P cb \<Longrightarrow> P st \<Longrightarrow> cb sock t st = Inr (sock', st') \<Longrightarrow> P st'"
  unfolding keeps_def by blast

lemma frames_keeps:
  assumes "\<And>m st st'. P st \<Longrightarrow> h m st = Inr st' \<Longrightarrow> P st'" and "frames n h bs st = Inr (rest, st')" and "P st"
  shows "P st'"
  using assms(2,3)
proof (induction bs arbitrary: st rule: length_induct)
  case (1 bs)
  show ?case
  proof (cases "0 < n \<and> n \<le> length bs")
    case True
    then obtain st1 where st1: "h (take n bs) st = Inr st1" "frames n h (drop n bs) st1 = Inr (rest, st')"
      using 1(2) by (auto simp: frames_step rbind_eq_Inr_iff)
    have "length (drop n bs) < length bs" using True by (auto simp: length_drop)
    then show ?thesis using 1(1) st1 assms(1) [OF 1(3) st1(1)] by blast
  next
    case False
    then have "frames n h bs st = Inr (bs, st)" by (subst frames.simps) auto
    then show ?thesis using 1(2,3) by simp
  qed
qed

lemma tcp_recv_loop_keeps:
  assumes "keeps P cb" and "tcp_recv_loop cb rs sock st b = Inr (sock', st', b')" and "P st"
  shows "P st'"
  using assms(2,3)
proof (induction rs arbitrary: sock st b)
  case (Cons r rs)
  show ?case
  proof (cases "closed sock \<or> next_rcv_valid_index sock = length (inbound_data sock)")
    case False
    then show ?thesis using Cons keepsD [OF assms(1)] by (cases r) (auto simp: rbind_eq_Inr_iff)
  qed (use Cons.prems in auto)
qed simp

lemma tcp_sendAndRecv_keeps:
  assumes "keeps P cb" and "tcp_sendAndRecv cb recvs sends sock st = Inr (sock', st', out, r)" and "P st"
  shows "P st'"
proof (cases "closed sock \<or> socket_fd sock < 0")
  case False
  then obtain sock1 b where "tcp_recv_loop cb recvs sock st False = Inr (sock1, st', b)"
    using assms(2) by (auto simp: tcp_sendAndRecv_def rbind_eq_Inr_iff Let_def case_prod_unfold)
  from tcp_recv_loop_keeps [OF assms(1) this assms(3)] show ?thesis .
qed (use assms in \<open>auto simp: tcp_sendAndRecv_def\<close>)

lemma pump_socket_keeps:
  assumes "keeps P (cb s)" and "pump_socket cb recvs sends s x = Inr x'" and "P (fst (snd x))"
  shows "P (fst (snd x'))"
  using assms(2,3) tcp_sendAndRecv_keeps [OF assms(1)]
  by (cases x) (fastforce simp: pump_socket_def rbind_eq_Inr_iff)

lemma pump_keeps:
  assumes "\<And>s. keeps P (cb s)" and "rfold (pump_socket cb recvs sends) ss x = Inr x'" and "P (fst (snd x))"
  shows "P (fst (snd x'))"
  using assms(2,3)
proof (induction ss arbitrary: x)
  case (Cons s ss)
  then obtain y where y: "pump_socket cb recvs sends s x = Inr y" "rfold (pump_socket cb recvs sends) ss y = Inr x'"
    by (auto simp: rbind_eq_Inr_iff)
  show ?case using Cons.IH [OF y(2)] pump_socket_keeps [OF assms(1) y(1) Cons.prems(2)] .
qed simp

lemma tcp_server_keeps:
  assumes "\<And>s. keeps P (cb s)" and "\<And>st st'. P st \<Longrightarrow> fin st = Inr st' \<Longrightarrow> P st'"
    and "tcp_server_sendAndRecv cb fin recvs sends recvs' sends' net st = Inr (net', st', w)" and "P st"
  shows "P st'"
proof -
  obtain net1 st1 b w1 st2 b2 where a: "rfold (pump_socket cb recvs sends) (receive_sockets net) (net, st, False, \<lambda>_. []) = Inr (net1, st1, b, w1)"
    "(if b then fin st1 else Inr st1) = Inr st2" "rfold (pump_socket cb recvs' sends') (send_sockets net1) (net1, st2, False, w1) = Inr (net', st', b2, w)"
    using assms(3) by (auto simp: tcp_server_sendAndRecv_def rbind_eq_Inr_iff)
  have "P st1" using pump_keeps [OF assms(1) a(1)] assms(4) by simp
  then have "P st2" using a(2) assms(2) by (auto split: if_splits)
  then show ?thesis using pump_keeps [OF assms(1) a(3)] by simp
qed

section \<open>The order server\<close>

definition grows :: "MEClientRequest LFQueue \<Rightarrow> MEClientResponse LFQueue \<Rightarrow> OrderServer \<Rightarrow> bool" where
  "grows q q' s \<longleftrightarrow> (\<exists>rs. seq_incoming_requests (fifo_sequencer s) = fold lfq_push rs q) \<and> outgoing_responses s = q'"

lemma handle_request_grows:
  assumes "grows q q' s" and "handle_request i t m s = Inr s'"
  shows "grows q q' s'"
  using assms
  by (auto simp: grows_def handle_request_def Let_def rbind_eq_Inr_iff addClientRequest_def FATAL_def split: if_splits)

lemma recvCallback_keeps: "keeps (grows q q') (recvCallback i)"
  unfolding keeps_def recvCallback_def
proof (intro allI impI)
  fix sock t s sock' s'
  assume g: "grows q q' s" and r: "rbind (recv_requests i t (take (next_rcv_valid_index sock) (inbound_data sock)) s) (\<lambda>(rest, s).
     Inr (sock\<lparr>inbound_data := put_bytes 0 rest (inbound_data sock), next_rcv_valid_index := length rest\<rparr>, s)) = Inr (sock', s')"
  then obtain rest where "frames sizeof_OMClientRequest (\<lambda>m. handle_request i t (decode_request m)) (take (next_rcv_valid_index sock) (inbound_data sock)) s = Inr (rest, s')"
    by (auto simp: rbind_eq_Inr_iff recv_requests_def)
  from frames_keeps [where P = "grows q q'", OF handle_request_grows this g] show "grows q q' s'" .
qed

lemma recvFinished_grows:
  assumes "grows q q' s" and "recvFinishedCallback srt s = Inr s'"
  shows "grows q q' s'"
proof -
  obtain rs where rs: "seq_incoming_requests (fifo_sequencer s) = fold lfq_push rs q" "outgoing_responses s = q'"
    using assms(1) by (auto simp: grows_def)
  have s': "s' = s\<lparr>fifo_sequencer := sequenceAndPublish srt (fifo_sequencer s)\<rparr>" using assms(2) by (simp add: recvFinishedCallback_def)
  have "\<exists>xs. seq_incoming_requests (sequenceAndPublish srt (fifo_sequencer s)) = fold lfq_push xs (fold lfq_push rs q)"
    using rs(1) by (auto simp: sequenceAndPublish_def Let_def publish_fold intro: exI [of _ "[]"])
  then obtain xs where "seq_incoming_requests (fifo_sequencer s') = fold lfq_push (rs @ xs) q" using s' by auto
  moreover have "outgoing_responses s' = q'" using rs(2) s' by simp
  ultimately show ?thesis unfolding grows_def by blast
qed

text \<open>Sending takes responses from the head of the queue.\<close>

lemma send_response_takes:
  assumes "send_response r s = Inr s'" and "lfq_inv (outgoing_responses s)" and "lfq_items (outgoing_responses s) = r' # rs"
  shows "lfq_inv (outgoing_responses s') \<and> lfq_items (outgoing_responses s') = rs \<and> fifo_sequencer s' = fifo_sequencer s"
  using assms lfq.front_pop [OF assms(2,3)] by (auto simp: send_response_def Let_def rbind_eq_Inr_iff split: option.splits)

lemma send_responses_takes:
  assumes "send_responses n s = Inr s'" and "lfq_inv (outgoing_responses s)"
  shows "lfq_inv (outgoing_responses s') \<and> fifo_sequencer s' = fifo_sequencer s \<and>
     (\<exists>rs. lfq_items (outgoing_responses s) = rs @ lfq_items (outgoing_responses s'))"
  using assms
proof (induction n arbitrary: s)
  case (Suc n)
  show ?case
  proof (cases "lfq_items (outgoing_responses s)")
    case Nil
    then have "lfq_front (outgoing_responses s) = None" using Suc.prems(2) by (simp add: lfq.front_None_iff)
    then show ?thesis using Suc.prems by auto
  next
    case (Cons r rs)
    have "lfq_front (outgoing_responses s) = Some r" using lfq.front_pop [OF Suc.prems(2) Cons] by (rule conjunct1)
    then have "rbind (send_response r s) (send_responses n) = Inr s'" using Suc.prems(1) by simp
    then obtain s1 where s1: "send_response r s = Inr s1" "send_responses n s1 = Inr s'"
      unfolding rbind_eq_Inr_iff by blast
    note t = send_response_takes [OF s1(1) Suc.prems(2) Cons]
    then obtain rs' where "rs = rs' @ lfq_items (outgoing_responses s')" "lfq_inv (outgoing_responses s')" "fifo_sequencer s' = fifo_sequencer s"
      using Suc.IH [OF s1(2)] by auto
    then show ?thesis using Cons by (metis append_Cons)
  qed
qed simp

lemma order_server_queues:
  assumes "order_server_run_once srt n events accepts recvs sends recvs' sends' s = Inr (s', wires)" and "lfq_inv (outgoing_responses s)"
  shows "(\<exists>rs. seq_incoming_requests (fifo_sequencer s') = fold lfq_push rs (seq_incoming_requests (fifo_sequencer s))) \<and>
     lfq_inv (outgoing_responses s') \<and> (\<exists>rs. lfq_items (outgoing_responses s) = rs @ lfq_items (outgoing_responses s'))"
proof -
  let ?g = "grows (seq_incoming_requests (fifo_sequencer s)) (outgoing_responses s)"
  obtain net net1 s1 where a: "tcp_server_sendAndRecv recvCallback (recvFinishedCallback srt) recvs sends recvs' sends' net s = Inr (net1, s1, wires)"
    "send_responses (lfq_size (outgoing_responses s1)) (s1\<lparr>tcp_server := net1\<rparr>) = Inr s'"
    using assms(1) by (auto simp: order_server_run_once_def rbind_eq_Inr_iff Let_def)
  have g: "?g s" by (auto simp: grows_def intro: exI [of _ "[]"])
  have "?g s1" by (rule tcp_server_keeps [OF recvCallback_keeps _ a(1) g]) (rule recvFinished_grows)
  then show ?thesis using send_responses_takes [OF a(2)] assms(2) by (auto simp: grows_def)
qed

end
