(* ===== verification/Feed_Spec.thy ===== *)
theory Feed_Spec
  imports Replication Engine_Props
begin

text \<open>
  The specification of the market data feed: the books and the messages that follow from a sequence of requests, in the order in which the
  matching engine serves them, and what a client that applies the updates of one ticker knows of the book of that ticker.
\<close>

section \<open>Sequences of requests\<close>

definition spec_next :: "MEClientRequest \<Rightarrow> abs_engine \<Rightarrow> abs_engine" where
  "spec_next r E = (let t = unat (req_ticker_id r) in E(t := fst (spec_request r (E t))))"

definition spec_events :: "MEClientRequest \<Rightarrow> abs_engine \<Rightarrow> me_event list" where
  "spec_events r E = snd (spec_request r (E (unat (req_ticker_id r))))"

fun spec_trace :: "MEClientRequest list \<Rightarrow> abs_engine \<Rightarrow> me_event list" where
  "spec_trace [] E = []"
| "spec_trace (r # rs) E = spec_events r E @ spec_trace rs (spec_next r E)"

lemma spec_trace_append [simp]: "spec_trace (rs @ rs') E = spec_trace rs E @ spec_trace rs' (fold spec_next rs E)"
  by (induction rs arbitrary: E) simp_all

lemma responses_of_append [simp]: "responses_of (xs @ ys) = responses_of xs @ responses_of ys"
  by (simp add: responses_of_def)

text \<open>The requests, and the books they meet, are those of books that a program can hold.\<close>

fun traced :: "nat \<Rightarrow> nat \<Rightarrow> MEClientRequest list \<Rightarrow> abs_engine \<Rightarrow> bool" where
  "traced N M [] E = True"
| "traced N M (r # rs) E =
     ((\<exists>b. me_rel N M b (E (unat (req_ticker_id r)))) \<and> (req_type r = Request_NEW \<longrightarrow> req_side r \<in> {BUY, SELL}) \<and> traced N M rs (spec_next r E))"

lemma traced_append [simp]: "traced N M (rs @ rs') E \<longleftrightarrow> traced N M rs E \<and> traced N M rs' (fold spec_next rs E)"
  by (induction rs arbitrary: E) auto

lemma traced_take: "traced N M rs E \<Longrightarrow> traced N M (take k rs) E"
  using traced_append [of N M "take k rs" "drop k rs" E] by simp

section \<open>Updates of one ticker\<close>

lemma match_events_ticker: "u \<in> set (updates_of (match_events tid cid side coid moid leaves x)) \<Longrightarrow> upd_ticker_id u = tid"
  by (auto simp: match_events_def Let_def split: if_splits)

lemma spec_match_ticker:
  "spec_match tid cid side coid moid price leaves xs = (l, ys, ev) \<Longrightarrow> u \<in> set (updates_of ev) \<Longrightarrow> upd_ticker_id u = tid"
proof (induction xs arbitrary: leaves l ys ev)
  case (Cons x xs)
  then show ?case by (auto simp: Let_def split: if_splits prod.splits dest: match_events_ticker)
qed simp

lemma spec_request_ticker:
  assumes "u \<in> set (updates_of (snd (spec_request r A)))"
  shows "upd_ticker_id u = req_ticker_id r"
  using assms
  by (auto simp: spec_request_def spec_add_def spec_cancel_def Let_def split: if_splits prod.splits option.splits dest: spec_match_ticker)

definition of_ticker :: "nat \<Rightarrow> MEMarketUpdate list \<Rightarrow> MEMarketUpdate list" where
  "of_ticker t us = filter (\<lambda>u. unat (upd_ticker_id u) = t) us"

lemma of_ticker_append [simp]: "of_ticker t (us @ vs) = of_ticker t us @ of_ticker t vs"
  by (simp add: of_ticker_def)

lemma of_ticker_events: "of_ticker t (updates_of (spec_events r E)) = (if unat (req_ticker_id r) = t then updates_of (spec_events r E) else [])"
  unfolding of_ticker_def spec_events_def by (auto intro!: filter_True filter_False dest: spec_request_ticker)

section \<open>A client that follows the feed\<close>

text \<open>The client's book of a ticker has room for every new order of the ticker.\<close>

fun feed_fits :: "nat \<Rightarrow> MarketOrderBook \<Rightarrow> nat \<Rightarrow> MEClientRequest list \<Rightarrow> abs_engine \<Rightarrow> bool" where
  "feed_fits K mb t [] E = True"
| "feed_fits K mb t (r # rs) E =
     ((req_type r = Request_NEW \<and> unat (req_ticker_id r) = t \<longrightarrow> client_room K mb (E t) (req_price r)) \<and> feed_fits K mb t rs (spec_next r E))"

lemma feed_fits_append [simp]:
  "feed_fits K mb t (rs @ rs') E \<longleftrightarrow> feed_fits K mb t rs E \<and> feed_fits K mb t rs' (fold spec_next rs E)"
  by (induction rs arbitrary: E) auto

lemma feed_fits_take: "feed_fits K mb t rs E \<Longrightarrow> feed_fits K mb t (take k rs) E"
  using feed_fits_append [of K mb t "take k rs" "drop k rs" E] by simp

lemma client_room_same: "same_room mb mb' \<Longrightarrow> client_room K mb' A price = client_room K mb A price"
  by (simp add: client_room_def same_room_def)

lemma feed_fits_same: "same_room mb mb' \<Longrightarrow> feed_fits K mb' t rs E = feed_fits K mb t rs E"
  by (induction rs arbitrary: E) (simp_all add: client_room_same)

lemma feed_replicates:
  assumes "mob_rel K mb (book_view (E t))" and "traced N M rs E" and "feed_fits K mb t rs E"
  shows "\<exists>mb'. rfold client_apply (of_ticker t (updates_of (spec_trace rs E))) mb = Inr mb' \<and>
     mob_rel K mb' (book_view (fold spec_next rs E t))"
  using assms
proof (induction rs arbitrary: E mb)
  case Nil
  then show ?case by (simp add: of_ticker_def)
next
  case (Cons r rs)
  obtain mb1 where mb1: "rfold client_apply (of_ticker t (updates_of (spec_events r E))) mb = Inr mb1"
    "mob_rel K mb1 (book_view (spec_next r E t))" "same_room mb mb1"
  proof (cases "unat (req_ticker_id r) = t")
    case True
    then have ev: "of_ticker t (updates_of (spec_events r E)) = updates_of (snd (spec_request r (E t)))" "spec_next r E t = fst (spec_request r (E t))"
      by (simp_all only: of_ticker_events) (simp_all add: spec_events_def spec_next_def Let_def)
    obtain b where "me_rel N M b (E t)" using Cons.prems(2) True by auto
    then show ?thesis using replica_request [of N M b "E t" K mb r] Cons.prems True that unfolding ev by force
  next
    case False
    then show ?thesis using Cons.prems(1) that by (simp add: of_ticker_events spec_next_def Let_def)
  qed
  have "traced N M rs (spec_next r E)" "feed_fits K mb1 t rs (spec_next r E)"
    using Cons.prems(2,3) feed_fits_same [OF mb1(3)] by auto
  from Cons.IH [OF mb1(2) this] mb1(1) show ?case by (simp add: rfold_append)
qed

end
