(* ===== verification/Exchange_Run.thy ===== *)
theory Exchange_Run
  imports Exchange_Main Server_Queues Feed_Spec
begin

text \<open>
  All runs of the exchange process follow the specification of the feed: an invariant of the whole process, for every order in which the threads take
  their turns and for every input from the network.
\<close>

section \<open>Runs\<close>

text \<open>
  The queues do not test for room; the runs considered are those in which none of them overflows, and in which every request the
  engine serves is admissible in the state of its book.
\<close>

definition no_overflow :: "exchange_process \<Rightarrow> bool" where
  "no_overflow x \<longleftrightarrow>
     lfq_size (incoming_requests (ex_engine x)) \<le> lfq_cap (incoming_requests (ex_engine x)) \<and>
     lfq_size (outgoing_ogw_responses (ex_engine x)) \<le> lfq_cap (outgoing_ogw_responses (ex_engine x)) \<and>
     lfq_size (outgoing_md_updates (ex_engine x)) \<le> lfq_cap (outgoing_md_updates (ex_engine x)) \<and>
     lfq_size (snapshot_md_updates (ex_publisher x)) \<le> lfq_cap (snapshot_md_updates (ex_publisher x))"

definition next_request :: "exchange_process \<Rightarrow> MEClientRequest list" where
  "next_request x = (case lfq_front (incoming_requests (ex_engine x)) of None \<Rightarrow> [] | Some r \<Rightarrow> [r])"

abbreviation start_books :: abs_engine where
  "start_books \<equiv> \<lambda>_. empty_book"

text \<open>A run with the requests the engine served and the datagrams the publisher sent on the incremental stream.\<close>

inductive exchange_run :: "exchange_env \<Rightarrow> MEClientRequest list \<Rightarrow> byte list list \<Rightarrow> exchange_process \<Rightarrow> bool" for env where
  begins: "exchange_main env = Inr x \<Longrightarrow> exchange_run env [] [] x"
| serves: "exchange_run env rs ds x \<Longrightarrow> server_turn srt n i x = Inr (x', wires) \<Longrightarrow> no_overflow x' \<Longrightarrow> exchange_run env rs ds x'"
| matches: "exchange_run env rs ds x \<Longrightarrow> engine_turn x = Inr x' \<Longrightarrow> no_overflow x' \<Longrightarrow>
    \<forall>r\<in>set (next_request x). admissible (ME_MAX_NUM_CLIENTS (env_limits env)) (ME_MAX_ORDER_IDS (env_limits env)) r (ex_engine x) (fold spec_next rs start_books) \<Longrightarrow>
    exchange_run env (rs @ next_request x) ds x'"
| publishes: "exchange_run env rs ds x \<Longrightarrow> publisher_turn rcv x = Inr (x', d) \<Longrightarrow> no_overflow x' \<Longrightarrow> exchange_run env rs (ds @ [d]) x'"
| synthesizes: "exchange_run env rs ds x \<Longrightarrow> synthesizer_turn now now' x = Inr (x', ds') \<Longrightarrow> exchange_run env rs ds x'"

section \<open>The datagrams of the incremental stream\<close>

text \<open>Every turn of the publisher sends the updates it found as one datagram; the numbers go on from one to the next.\<close>

fun datagrams :: "SeqNum \<Rightarrow> MEMarketUpdate list list \<Rightarrow> byte list list" where
  "datagrams k [] = []"
| "datagrams k (us # uss) = encode_all (mdp_numbered k us) # datagrams (k + of_nat (length us)) uss"

definition is_feed :: "byte list list \<Rightarrow> MEMarketUpdate list \<Rightarrow> bool" where
  "is_feed ds us \<longleftrightarrow> (\<exists>uss. concat uss = us \<and> ds = datagrams 1 uss)"

lemma datagrams_append: "datagrams k (uss @ vss) = datagrams k uss @ datagrams (k + of_nat (length (concat uss))) vss"
  by (induction uss arbitrary: k) (simp_all add: add.assoc)

lemma concat_datagrams: "concat (datagrams k uss) = encode_all (mdp_numbered k (concat uss))"
  by (induction uss arbitrary: k) (simp_all add: mdp_numbered_append)

lemma is_feed_bytes: "is_feed ds us \<Longrightarrow> concat ds = encode_all (mdp_numbered 1 us)"
  by (auto simp: is_feed_def concat_datagrams)

lemma is_feed_Nil [simp]: "is_feed [] []"
  by (simp add: is_feed_def exI [of _ "[]"])

lemma is_feed_append:
  assumes "is_feed ds us"
  shows "is_feed (ds @ [encode_all (mdp_numbered (1 + of_nat (length us)) vs)]) (us @ vs)"
proof -
  obtain uss where "concat uss = us" "ds = datagrams 1 uss" using assms by (auto simp: is_feed_def)
  then show ?thesis unfolding is_feed_def by (intro exI [of _ "uss @ [vs]"]) (auto simp: datagrams_append)
qed

section \<open>The table of the synthesizer\<close>

lemma map_rbind: "map_sum id f (rbind m g) = rbind m (\<lambda>x. map_sum id f (g x))"
  by (cases m) simp_all

lemma rbind_map: "rbind (map_sum id f m) g = rbind m (\<lambda>x. g (f x))"
  by (cases m) simp_all

definition retold :: "MDPMarketUpdate LFQueue \<Rightarrow> McastSocket \<Rightarrow> Nanos \<Rightarrow> SnapshotSynthesizer \<Rightarrow> SnapshotSynthesizer" where
  "retold q sock t S = S\<lparr>syn_md_updates := q, snapshot_socket := sock, last_snapshot_time := t\<rparr>"

lemma retold_sel [simp]:
  "ticker_orders (retold q sock t S) = ticker_orders S" "syn_order_pool (retold q sock t S) = syn_order_pool S"
  "last_inc_seq_num (retold q sock t S) = last_inc_seq_num S" "(retold q sock t S)\<lparr>ticker_orders := tos\<rparr> = retold q sock t (S\<lparr>ticker_orders := tos\<rparr>)"
  "(retold q sock t S)\<lparr>syn_order_pool := P\<rparr> = retold q sock t (S\<lparr>syn_order_pool := P\<rparr>)"
  "(retold q sock t S)\<lparr>last_inc_seq_num := k\<rparr> = retold q sock t (S\<lparr>last_inc_seq_num := k\<rparr>)"
  "retold q sock t (retold q' sock' t' S) = retold q sock t S"
  by (cases S; simp add: retold_def)+

lemma put_order_retold: "put_order t' i p (retold q sock t S) = map_sum id (retold q sock t) (put_order t' i p S)"
  by (simp add: put_order_def map_rbind)

lemma addToSnapshot_retold: "addToSnapshot m (retold q sock t S) = map_sum id (retold q sock t) (addToSnapshot m S)"
proof -
  have "existing_order u orders (retold q sock t S) = existing_order u orders S" for u orders
    by (simp add: existing_order_def cong: option.case_cong)
  then show ?thesis
    by (cases "upd_type (mdp_update m)") (simp_all add: addToSnapshot_def Let_def put_order_retold map_rbind rbind_map rbind_assoc case_prod_unfold)
qed

definition same_table :: "SnapshotSynthesizer \<Rightarrow> SnapshotSynthesizer \<Rightarrow> bool" where
  "same_table S S' \<longleftrightarrow> (\<exists>q sock t. S = retold q sock t S')"

lemma addToSnapshot_keeps:
  assumes "addToSnapshot m S = Inr S'"
  shows "syn_md_updates S' = syn_md_updates S" and "last_snapshot_time S' = last_snapshot_time S"
  using assms
  by (cases "upd_type (mdp_update m)"; auto simp: addToSnapshot_def put_order_def Let_def rbind_eq_Inr_iff)+

definition replayed :: "Limits \<Rightarrow> MDPMarketUpdate list \<Rightarrow> SnapshotSynthesizer \<Rightarrow> bool" where
  "replayed limits ms S \<longleftrightarrow> (\<exists>n fd q S0 S1. SnapshotSynthesizer_new limits n fd q = Inr S0 \<and> rfold addToSnapshot ms S0 = Inr S1 \<and> same_table S1 S)"

lemma replayed_frame:
  "replayed limits ms S \<Longrightarrow> replayed limits ms (S\<lparr>syn_md_updates := q\<rparr>)"
  "replayed limits ms S \<Longrightarrow> replayed limits ms (S\<lparr>snapshot_socket := sock\<rparr>)"
  "replayed limits ms S \<Longrightarrow> replayed limits ms (S\<lparr>last_snapshot_time := t\<rparr>)"
  unfolding replayed_def same_table_def retold_def by simp_all

lemma replayed_step:
  assumes "replayed limits ms S" and "addToSnapshot m S = Inr S'"
  shows "replayed limits (ms @ [m]) S'"
proof -
  obtain n fd q S0 q' sock t where "SnapshotSynthesizer_new limits n fd q = Inr S0" "rfold addToSnapshot ms S0 = Inr (retold q' sock t S)"
    using assms(1) by (auto simp: replayed_def same_table_def)
  then show ?thesis using assms(2) unfolding replayed_def same_table_def
    by (intro exI [of _ n] exI [of _ fd] exI [of _ q] exI [of _ S0] exI [of _ "retold q' sock t S'"]) (auto simp: rfold_append addToSnapshot_retold)
qed

lemma process_updates_replays:
  assumes "process_updates n S = Inr S'" and "lfq_inv (syn_md_updates S)" and "replayed limits ms S"
  shows "\<exists>ms'. lfq_items (syn_md_updates S) = ms' @ lfq_items (syn_md_updates S') \<and> lfq_inv (syn_md_updates S') \<and> replayed limits (ms @ ms') S'"
  using assms
proof (induction n arbitrary: S ms)
  case (Suc n)
  show ?case
  proof (cases "lfq_items (syn_md_updates S)")
    case Nil
    then have "lfq_front (syn_md_updates S) = None" using Suc.prems(2) by (simp add: lfq.front_None_iff)
    then show ?thesis using Suc.prems Nil by auto
  next
    case (Cons m rest)
    obtain q where q: "lfq_front (syn_md_updates S) = Some m" "updateReadIndex (syn_md_updates S) = Inr q" "lfq_inv q" "lfq_items q = rest"
      using lfq.front_pop [OF Suc.prems(2) Cons] by blast
    then obtain S1 where S1: "addToSnapshot m S = Inr S1" "process_updates n (S1\<lparr>syn_md_updates := q\<rparr>) = Inr S'"
      using Suc.prems(1) addToSnapshot_keeps by (auto simp: rbind_eq_Inr_iff)
    note step = replayed_frame(1) [OF replayed_step [OF Suc.prems(3) S1(1)]]
    obtain ms' where "rest = ms' @ lfq_items (syn_md_updates S')" "lfq_inv (syn_md_updates S')" "replayed limits ((ms @ [m]) @ ms') S'"
      using Suc.IH [OF S1(2) _ step] q(3,4) by auto
    then show ?thesis using Cons by (intro exI [of _ "m # ms'"]) simp
  qed
qed (auto intro: exI [of _ "[]"])

lemma publishSnapshot_keeps: "publishSnapshot S = Inr (S', out) \<Longrightarrow> \<exists>sock. S' = S\<lparr>snapshot_socket := sock\<rparr>"
  by (auto simp: publishSnapshot_def rbind_eq_Inr_iff)

lemma synthesizer_replays:
  assumes "synthesizer_run_once now now' S = Inr (S', out)" and "lfq_inv (syn_md_updates S)" and "replayed limits ms S"
  shows "\<exists>ms'. lfq_items (syn_md_updates S) = ms' @ lfq_items (syn_md_updates S') \<and> lfq_inv (syn_md_updates S') \<and> replayed limits (ms @ ms') S'"
proof -
  obtain S1 where S1: "process_updates (lfq_size (syn_md_updates S)) S = Inr S1"
    "S' = S1 \<or> (\<exists>sock. S' = S1\<lparr>last_snapshot_time := now', snapshot_socket := sock\<rparr>)"
    using assms(1) by (auto simp: synthesizer_run_once_def rbind_eq_Inr_iff split: if_splits dest!: publishSnapshot_keeps)
  show ?thesis using process_updates_replays [OF S1(1) assms(2,3)] S1(2) by (auto intro!: replayed_frame)
qed

section \<open>The invariant\<close>

definition queues_ok :: "exchange_process \<Rightarrow> bool" where
  "queues_ok x \<longleftrightarrow> lfq_inv (incoming_requests (ex_engine x)) \<and> lfq_inv (outgoing_ogw_responses (ex_engine x)) \<and>
     lfq_inv (outgoing_md_updates (ex_engine x)) \<and> lfq_inv (snapshot_md_updates (ex_publisher x))"

text \<open>
  Of the updates of the requests served, those of the first \<open>k\<close> requests have been published, numbered from 1, and the others wait in the
  queue; of those published, the synthesizer has replayed some and the others wait in its queue.
\<close>

definition feed_ok :: "Limits \<Rightarrow> MEClientRequest list \<Rightarrow> byte list list \<Rightarrow> exchange_process \<Rightarrow> bool" where
  "feed_ok limits rs ds x \<longleftrightarrow> (\<exists>k\<le>length rs. \<exists>seen. let us = updates_of (spec_trace (take k rs) start_books) in
     is_feed ds us \<and> next_inc_seq_num (ex_publisher x) = 1 + of_nat (length us) \<and>
     updates_of (spec_trace rs start_books) = us @ lfq_items (outgoing_md_updates (ex_engine x)) \<and>
     mdp_numbered 1 us = seen @ lfq_items (snapshot_md_updates (ex_publisher x)) \<and> replayed limits seen (ex_synthesizer x))"

lemma feed_okE:
  assumes "feed_ok limits rs ds x"
  obtains k seen where "k \<le> length rs" and "is_feed ds (updates_of (spec_trace (take k rs) start_books))"
    and "next_inc_seq_num (ex_publisher x) = 1 + of_nat (length (updates_of (spec_trace (take k rs) start_books)))"
    and "updates_of (spec_trace rs start_books) = updates_of (spec_trace (take k rs) start_books) @ lfq_items (outgoing_md_updates (ex_engine x))"
    and "mdp_numbered 1 (updates_of (spec_trace (take k rs) start_books)) = seen @ lfq_items (snapshot_md_updates (ex_publisher x))"
    and "replayed limits seen (ex_synthesizer x)"
  using assms that by (auto simp: feed_ok_def Let_def)

lemma feed_okI:
  assumes "k \<le> length rs" and "is_feed ds (updates_of (spec_trace (take k rs) start_books))"
    and "next_inc_seq_num (ex_publisher x) = 1 + of_nat (length (updates_of (spec_trace (take k rs) start_books)))"
    and "updates_of (spec_trace rs start_books) = updates_of (spec_trace (take k rs) start_books) @ lfq_items (outgoing_md_updates (ex_engine x))"
    and "mdp_numbered 1 (updates_of (spec_trace (take k rs) start_books)) = seen @ lfq_items (snapshot_md_updates (ex_publisher x))"
    and "replayed limits seen (ex_synthesizer x)"
  shows "feed_ok limits rs ds x"
  using assms unfolding feed_ok_def Let_def by blast

definition exchange_inv :: "Limits \<Rightarrow> MEClientRequest list \<Rightarrow> byte list list \<Rightarrow> exchange_process \<Rightarrow> bool" where
  "exchange_inv limits rs ds x \<longleftrightarrow>
     engine_rel (ME_MAX_NUM_CLIENTS limits) (ME_MAX_ORDER_IDS limits) (ex_engine x) (fold spec_next rs start_books) \<and>
     arr_size (ticker_order_book (ex_engine x)) = ME_MAX_TICKERS limits \<and> queues_ok x \<and>
     traced (ME_MAX_NUM_CLIENTS limits) (ME_MAX_ORDER_IDS limits) rs start_books \<and>
     (\<exists>sent_responses. responses_of (spec_trace rs start_books) = sent_responses @ lfq_items (outgoing_ogw_responses (ex_engine x))) \<and>
     mc_next_send_valid_index (incremental_socket (ex_publisher x)) = 0 \<and> feed_ok limits rs ds x"

lemma lfq_size_fold_push [simp]: "lfq_size (fold lfq_push vs q) = lfq_size q + length vs"
  by (induction vs arbitrary: q) (simp_all add: lfq_defs)

lemma lfq_cap_fold_push [simp]: "lfq_cap (fold lfq_push vs q) = lfq_cap q"
  by (induction vs arbitrary: q) simp_all

lemma push_fits:
  assumes "lfq_inv q" and "lfq_size (fold lfq_push vs q) \<le> lfq_cap (fold lfq_push vs q)"
  shows "lfq_inv (fold lfq_push vs q) \<and> lfq_items (fold lfq_push vs q) = lfq_items q @ vs"
proof -
  have "length (lfq_items q) + length vs \<le> lfq_cap q" using assms(2) by simp (simp add: lfq_size_items)
  from lfq.push_all [OF assms(1) this] show ?thesis by blast
qed

subsection \<open>The start\<close>

lemma start_component:
  "start_thread set_core core x = Inr y \<Longrightarrow> component y = component x"
  "start_detached z = Inr w \<Longrightarrow> component w = component z"
  by (auto simp: start_thread_def start_detached_def createAndStartThread_def rbind_eq_Inr_iff FATAL_def split: if_splits)

lemma exchange_main_starts:
  assumes "exchange_main env = Inr x"
  defines "limits \<equiv> env_limits env"
  obtains q1 q2 q3 where "ex_engine x = MatchingEngine_new limits (env_benchmark_mode env) (env_memory env)
      (LFQueue_new (ME_MAX_CLIENT_UPDATES limits) q1) (LFQueue_new (ME_MAX_CLIENT_UPDATES limits) q2) (LFQueue_new (ME_MAX_MARKET_UPDATES limits) q3)"
    and "next_inc_seq_num (ex_publisher x) = 1" and "mc_next_send_valid_index (incremental_socket (ex_publisher x)) = 0"
    and "snapshot_md_updates (ex_publisher x) = LFQueue_new (ME_MAX_MARKET_UPDATES limits) MDPMarketUpdate_default"
    and "replayed limits [] (ex_synthesizer x)"
proof -
  let ?q1 = "LFQueue_new (ME_MAX_CLIENT_UPDATES limits) MEClientRequest_default" and ?q2 = "LFQueue_new (ME_MAX_CLIENT_UPDATES limits) MEClientResponse_default"
    and ?q3 = "LFQueue_new (ME_MAX_MARKET_UPDATES limits) MEMarketUpdate_default"
  obtain me p s mdp where x: "MatchingEngine_start (env_benchmark_mode env) (env_threads env) (\<lambda>_. True) (-1)
      (owner_new (MatchingEngine_new limits (env_benchmark_mode env) (env_memory env) ?q1 ?q2 ?q3)) = Inr me"
    "MarketDataPublisher_new limits (env_mcast_buffer env) (env_inc_fd env) ?q3 = Inr p"
    "SnapshotSynthesizer_new limits (env_mcast_buffer env) (env_snapshot_fd env) (snapshot_md_updates p) = Inr s"
    "MarketDataPublisher_start (owner_new p, owner_new s) = Inr mdp" "matching_engine x = me" "market_data_publisher x = mdp"
    using assms(1) by (auto simp: exchange_main_def Let_def rbind_eq_Inr_iff limits_def)
  have "component me = MatchingEngine_new limits (env_benchmark_mode env) (env_memory env) ?q1 ?q2 ?q3"
    using x(1) by (auto simp: MatchingEngine_start_def FATAL_def owner_new_def split: if_splits dest!: start_component)
  moreover have "component (fst mdp) = p" "component (snd mdp) = s"
    using x(4) by (auto simp: MarketDataPublisher_start_def SnapshotSynthesizer_start_def rbind_eq_Inr_iff owner_new_def dest!: start_component)
  moreover have "same_table s s" by (auto simp: same_table_def retold_def intro!: exI [of _ "syn_md_updates s"] exI [of _ "snapshot_socket s"] exI [of _ "last_snapshot_time s"])
  then have "replayed limits [] s" using x(3) by (auto simp: replayed_def)
  moreover have "next_inc_seq_num p = 1" "mc_next_send_valid_index (incremental_socket p) = 0"
    "snapshot_md_updates p = LFQueue_new (ME_MAX_MARKET_UPDATES limits) MDPMarketUpdate_default"
    using x(2) by (auto simp: MarketDataPublisher_new_def rbind_eq_Inr_iff mcast_init_def McastSocket_new_def)
  ultimately show ?thesis using that x(5,6) by simp
qed

subsection \<open>The publisher\<close>

lemma mcast_send_room:
  "mcast_send dat sock = Inr sock' \<Longrightarrow> mc_next_send_valid_index sock + length dat < length (mc_outbound_data sock) \<and>
     mc_next_send_valid_index sock' = mc_next_send_valid_index sock + length dat \<and> length (mc_outbound_data sock') = length (mc_outbound_data sock)"
  by (auto simp: mcast_send_def Let_def rbind_eq_Inr_iff ASSERT_def split: if_splits)

lemma publish_update_room:
  assumes "publish_update i p = Inr p'"
  shows "mc_next_send_valid_index (incremental_socket p) + sizeof_MDPMarketUpdate < length (mc_outbound_data (incremental_socket p)) \<and>
     mc_next_send_valid_index (incremental_socket p') = mc_next_send_valid_index (incremental_socket p) + sizeof_MDPMarketUpdate \<and>
     length (mc_outbound_data (incremental_socket p')) = length (mc_outbound_data (incremental_socket p)) \<and>
     lfq_size (pub_outgoing_md_updates p') = lfq_size (pub_outgoing_md_updates p) - 1 \<and>
     lfq_size (snapshot_md_updates p') = lfq_size (snapshot_md_updates p) + 1 \<and> lfq_cap (snapshot_md_updates p') = lfq_cap (snapshot_md_updates p)"
proof -
  let ?msg = "encode_update \<lparr>mdp_seq_num = next_inc_seq_num p, mdp_update = q_store (pub_outgoing_md_updates p) ! i\<rparr>"
  obtain s1 s2 q v where a: "mcast_send (take 8 ?msg) (incremental_socket p) = Inr s1" "mcast_send (drop 8 ?msg) s1 = Inr s2"
    "updateReadIndex (pub_outgoing_md_updates p) = Inr q"
    "incremental_socket p' = s2" "pub_outgoing_md_updates p' = q" "snapshot_md_updates p' = lfq_push v (snapshot_md_updates p)"
    using assms by (auto simp: publish_update_def Let_def rbind_eq_Inr_iff)
  have "length (take 8 ?msg) + length (drop 8 ?msg) = sizeof_MDPMarketUpdate" by (simp flip: length_append)
  then show ?thesis using mcast_send_room [OF a(1)] mcast_send_room [OF a(2)] updateReadIndex_size [OF a(3)] a(4-6)
    by (auto simp: lfq_cap_push) (auto simp: lfq_defs)
qed

lemma publish_updates_room:
  assumes "publish_updates n p = Inr p'" and "n \<le> lfq_size (pub_outgoing_md_updates p)"
  shows "(n = 0 \<or> mc_next_send_valid_index (incremental_socket p) + n * sizeof_MDPMarketUpdate < length (mc_outbound_data (incremental_socket p))) \<and>
     lfq_size (snapshot_md_updates p') = lfq_size (snapshot_md_updates p) + n \<and> lfq_cap (snapshot_md_updates p') = lfq_cap (snapshot_md_updates p)"
  using assms
proof (induction n arbitrary: p)
  case (Suc n)
  then obtain i where i: "getNextToRead (pub_outgoing_md_updates p) = Some i" by (auto simp: getNextToRead_def)
  then obtain p1 where p1: "publish_update i p = Inr p1" "publish_updates n p1 = Inr p'" using Suc.prems(1) by (auto simp: rbind_eq_Inr_iff)
  note room = publish_update_room [OF p1(1)]
  then have "n \<le> lfq_size (pub_outgoing_md_updates p1)" using Suc.prems(2) by simp
  from Suc.IH [OF p1(2) this] room show ?case by auto
qed simp

lemma publisher_done:
  assumes "publisher_run_once rcv p = Inr (p', out)" and "lfq_inv (pub_outgoing_md_updates p)" and "lfq_inv (snapshot_md_updates p)"
    and "mc_next_send_valid_index (incremental_socket p) = 0" and "lfq_size (snapshot_md_updates p') \<le> lfq_cap (snapshot_md_updates p')"
  defines "us \<equiv> lfq_items (pub_outgoing_md_updates p)"
  shows "out = encode_all (mdp_numbered (next_inc_seq_num p) us) \<and> lfq_items (pub_outgoing_md_updates p') = [] \<and>
     lfq_items (snapshot_md_updates p') = lfq_items (snapshot_md_updates p) @ mdp_numbered (next_inc_seq_num p) us \<and>
     next_inc_seq_num p' = next_inc_seq_num p + of_nat (length us) \<and> mc_next_send_valid_index (incremental_socket p') = 0 \<and>
     lfq_inv (pub_outgoing_md_updates p') \<and> lfq_inv (snapshot_md_updates p')"
proof -
  have n: "lfq_size (pub_outgoing_md_updates p) = length us" by (simp add: us_def lfq_size_items)
  obtain p1 where p1: "publish_updates (length us) p = Inr p1" "snapshot_md_updates p' = snapshot_md_updates p1"
    and rcv: "rcv = []"
    using assms(1) n by (auto simp: publisher_run_once_def rbind_eq_Inr_iff mcast_sendAndRecv_def no_callback_def split: if_splits)
  have room: "us = [] \<or> length us * sizeof_MDPMarketUpdate < length (mc_outbound_data (incremental_socket p))"
    "length (lfq_items (snapshot_md_updates p)) + length us \<le> lfq_cap (snapshot_md_updates p)"
    using publish_updates_room [OF p1(1)] n assms(4,5) p1(2) by (auto simp flip: lfq_size_items)
  show ?thesis
  proof (cases "us = []")
    case True
    then have "p' = p\<lparr>incremental_socket := (incremental_socket p)\<lparr>mc_next_send_valid_index := 0\<rparr>\<rparr>" "out = []"
      using assms(1,4) n rcv by (auto simp: publisher_run_once_def mcast_sendAndRecv_def)
    then show ?thesis using True assms(2,3) by (simp add: us_def)
  next
    case False
    then show ?thesis using publisher_pass [OF assms(2,3) us_def [THEN meta_eq_to_obj_eq] room(2) assms(4)] room(1) assms(1) rcv by auto
  qed
qed

subsection \<open>Every turn keeps the invariant\<close>

definition env_ok :: "exchange_env \<Rightarrow> bool" where
  "env_ok env \<longleftrightarrow> cleared (env_limits env) (env_benchmark_mode env) (env_memory env) \<and>
     0 < ME_MAX_CLIENT_UPDATES (env_limits env) \<and> 0 < ME_MAX_MARKET_UPDATES (env_limits env)"

lemma inv_start:
  assumes "exchange_main env = Inr x" and "env_ok env"
  shows "exchange_inv (env_limits env) [] [] x"
proof -
  obtain q1 q2 q3 where x: "ex_engine x = MatchingEngine_new (env_limits env) (env_benchmark_mode env) (env_memory env)
      (LFQueue_new (ME_MAX_CLIENT_UPDATES (env_limits env)) q1) (LFQueue_new (ME_MAX_CLIENT_UPDATES (env_limits env)) q2)
      (LFQueue_new (ME_MAX_MARKET_UPDATES (env_limits env)) q3)"
    "next_inc_seq_num (ex_publisher x) = 1" "mc_next_send_valid_index (incremental_socket (ex_publisher x)) = 0"
    "snapshot_md_updates (ex_publisher x) = LFQueue_new (ME_MAX_MARKET_UPDATES (env_limits env)) MDPMarketUpdate_default"
    "replayed (env_limits env) [] (ex_synthesizer x)"
    using exchange_main_starts [OF assms(1)] .
  have "engine_reach (env_limits env) (env_benchmark_mode env) (env_memory env) (ex_engine x) start_books"
    unfolding x(1) by (rule engine_reach.start)
  moreover have "cleared (env_limits env) (env_benchmark_mode env) (env_memory env)" using assms(2) by (simp add: env_ok_def)
  ultimately have e: "engine_rel (ME_MAX_NUM_CLIENTS (env_limits env)) (ME_MAX_ORDER_IDS (env_limits env)) (ex_engine x) start_books \<and>
      arr_size (ticker_order_book (ex_engine x)) = ME_MAX_TICKERS (env_limits env)" using engine_reach_inv by blast
  have "queues_ok x" using x(1,4) assms(2) by (simp add: queues_ok_def MatchingEngine_new_def env_ok_def lfq_inv_new)
  moreover have "feed_ok (env_limits env) [] [] x" using x(1,2,4,5) by (simp add: feed_ok_def MatchingEngine_new_def)
  ultimately show ?thesis using e x(1,3) by (simp add: exchange_inv_def MatchingEngine_new_def)
qed

lemma inv_server:
  assumes inv: "exchange_inv limits rs ds x" and turn: "server_turn srt n i x = Inr (x', wires)" and room: "no_overflow x'"
  shows "exchange_inv limits rs ds x'"
proof -
  obtain s where s: "order_server_run_once srt n (in_events i) (in_accepts i) (in_recvs i) (in_sends i) (in_recvs' i) (in_sends' i) (server_view x) = Inr (s, wires)"
    "x' = set_engine ((ex_engine x)\<lparr>incoming_requests := seq_incoming_requests (fifo_sequencer s), outgoing_ogw_responses := outgoing_responses s\<rparr>) (set_server s x)"
    using turn by (auto simp: server_turn_def rbind_eq_Inr_iff)
  have q: "lfq_inv (outgoing_responses (server_view x))" using inv by (simp add: exchange_inv_def queues_ok_def server_view_def)
  obtain new taken where d: "seq_incoming_requests (fifo_sequencer s) = fold lfq_push new (incoming_requests (ex_engine x))"
    "lfq_inv (outgoing_responses s)" "lfq_items (outgoing_ogw_responses (ex_engine x)) = taken @ lfq_items (outgoing_responses s)"
    using order_server_queues [OF s(1) q] by (auto simp: server_view_def)
  have "lfq_inv (incoming_requests (ex_engine x'))"
    using push_fits [of "incoming_requests (ex_engine x)" new] inv room d(1) s(2) by (simp add: exchange_inv_def queues_ok_def no_overflow_def)
  moreover obtain sent where "responses_of (spec_trace rs start_books) = (sent @ taken) @ lfq_items (outgoing_responses s)"
    using inv d(3) by (auto simp: exchange_inv_def)
  ultimately show ?thesis using inv s(2) d(2) by (auto simp: exchange_inv_def queues_ok_def feed_ok_def engine_rel_def)
qed

lemma inv_publisher:
  assumes inv: "exchange_inv limits rs ds x" and turn: "publisher_turn rcv x = Inr (x', d)" and room: "no_overflow x'"
  shows "exchange_inv limits rs (ds @ [d]) x'"
proof -
  let ?p = "(ex_publisher x)\<lparr>pub_outgoing_md_updates := outgoing_md_updates (ex_engine x)\<rparr>"
  obtain p where p: "publisher_run_once rcv ?p = Inr (p, d)"
    "x' = set_engine ((ex_engine x)\<lparr>outgoing_md_updates := pub_outgoing_md_updates p\<rparr>) (set_publisher p x)"
    using turn by (auto simp: publisher_turn_def rbind_eq_Inr_iff)
  let ?us = "lfq_items (outgoing_md_updates (ex_engine x))" and ?k = "next_inc_seq_num (ex_publisher x)"
  have d: "d = encode_all (mdp_numbered ?k ?us)" "lfq_items (pub_outgoing_md_updates p) = []"
    "lfq_items (snapshot_md_updates p) = lfq_items (snapshot_md_updates (ex_publisher x)) @ mdp_numbered ?k ?us"
    "next_inc_seq_num p = ?k + of_nat (length ?us)" "mc_next_send_valid_index (incremental_socket p) = 0"
    "lfq_inv (pub_outgoing_md_updates p)" "lfq_inv (snapshot_md_updates p)"
    using publisher_done [OF p(1)] inv room p(2) by (simp_all add: exchange_inv_def queues_ok_def no_overflow_def)
  obtain k seen where k: "k \<le> length rs" "is_feed ds (updates_of (spec_trace (take k rs) start_books))"
    "?k = 1 + of_nat (length (updates_of (spec_trace (take k rs) start_books)))"
    "updates_of (spec_trace rs start_books) = updates_of (spec_trace (take k rs) start_books) @ ?us"
    "mdp_numbered 1 (updates_of (spec_trace (take k rs) start_books)) = seen @ lfq_items (snapshot_md_updates (ex_publisher x))"
    "replayed limits seen (ex_synthesizer x)"
    using inv unfolding exchange_inv_def by (elim conjE feed_okE)
  have "feed_ok limits rs (ds @ [d]) x'"
    by (rule feed_okI [of "length rs" _ _ _ seen]) (use d k p(2) is_feed_append [OF k(2), of ?us] in \<open>simp_all add: mdp_numbered_append add.assoc\<close>)
  then show ?thesis using inv p(2) d(5-7) by (simp add: exchange_inv_def queues_ok_def engine_rel_def)
qed

lemma inv_synthesizer:
  assumes inv: "exchange_inv limits rs ds x" and turn: "synthesizer_turn now now' x = Inr (x', out)"
  shows "exchange_inv limits rs ds x'"
proof -
  let ?s = "(ex_synthesizer x)\<lparr>syn_md_updates := snapshot_md_updates (ex_publisher x)\<rparr>"
  obtain s where s: "synthesizer_run_once now now' ?s = Inr (s, out)"
    "x' = set_publisher ((ex_publisher x)\<lparr>snapshot_md_updates := syn_md_updates s\<rparr>) (set_synthesizer s x)"
    using turn by (auto simp: synthesizer_turn_def rbind_eq_Inr_iff)
  have q: "lfq_inv (syn_md_updates ?s)" using inv by (simp add: exchange_inv_def queues_ok_def)
  obtain k seen where k: "k \<le> length rs" "is_feed ds (updates_of (spec_trace (take k rs) start_books))"
    "next_inc_seq_num (ex_publisher x) = 1 + of_nat (length (updates_of (spec_trace (take k rs) start_books)))"
    "updates_of (spec_trace rs start_books) = updates_of (spec_trace (take k rs) start_books) @ lfq_items (outgoing_md_updates (ex_engine x))"
    "mdp_numbered 1 (updates_of (spec_trace (take k rs) start_books)) = seen @ lfq_items (snapshot_md_updates (ex_publisher x))"
    "replayed limits seen (ex_synthesizer x)"
    using inv unfolding exchange_inv_def by (elim conjE feed_okE)
  obtain more where m: "lfq_items (snapshot_md_updates (ex_publisher x)) = more @ lfq_items (syn_md_updates s)" "lfq_inv (syn_md_updates s)"
    "replayed limits (seen @ more) s"
    using synthesizer_replays [OF s(1) q replayed_frame(1) [OF k(6)]] by auto
  have "feed_ok limits rs ds x'"
    by (rule feed_okI [of k _ _ _ "seen @ more"]) (use k m s(2) in simp_all)
  then show ?thesis using inv s(2) m(2) by (simp add: exchange_inv_def queues_ok_def)
qed

lemma inv_engine:
  assumes inv: "exchange_inv limits rs ds x" and turn: "engine_turn x = Inr x'" and room: "no_overflow x'"
    and adm: "\<forall>r\<in>set (next_request x). admissible (ME_MAX_NUM_CLIENTS limits) (ME_MAX_ORDER_IDS limits) r (ex_engine x) (fold spec_next rs start_books)"
  shows "exchange_inv limits (rs @ next_request x) ds x'"
proof (cases "lfq_front (incoming_requests (ex_engine x))")
  case None
  then have "x' = x" using turn by (simp add: engine_turn_def me_run_once_def set_engine_def)
  then show ?thesis using inv None by (simp add: next_request_def)
next
  case (Some r)
  let ?N = "ME_MAX_NUM_CLIENTS limits" and ?M = "ME_MAX_ORDER_IDS limits" and ?E = "fold spec_next rs start_books" and ?e = "ex_engine x"
  have a: "admissible ?N ?M r ?e ?E" and rel: "engine_rel ?N ?M ?e ?E" and nx: "next_request x = [r]"
    using Some adm inv by (auto simp: next_request_def exchange_inv_def)
  obtain e where e: "processClientRequest r ?e = Inr e" "engine_rel ?N ?M e (spec_next r ?E)" "arr_size (ticker_order_book e) = arr_size (ticker_order_book ?e)"
    "outgoing_ogw_responses e = fold lfq_push (responses_of (spec_events r ?E)) (outgoing_ogw_responses ?e)"
    "outgoing_md_updates e = fold lfq_push (updates_of (spec_events r ?E)) (outgoing_md_updates ?e)" "incoming_requests e = incoming_requests ?e"
    using processClientRequest_refines [OF rel a] by (auto simp: spec_next_def spec_events_def Let_def)
  have q: "lfq_inv (incoming_requests ?e)" "lfq_items (incoming_requests ?e) \<noteq> []"
    using inv Some by (auto simp: exchange_inv_def queues_ok_def lfq_front_items)
  then obtain q where q': "updateReadIndex (incoming_requests ?e) = Inr q" "lfq_inv q" using lfq_pop by metis
  have x': "x' = set_engine (e\<lparr>incoming_requests := q\<rparr>) x" using turn Some e(1,6) q'(1) by (simp add: engine_turn_def me_run_once_def)
  have out: "lfq_inv (outgoing_ogw_responses e)" "lfq_items (outgoing_ogw_responses e) = lfq_items (outgoing_ogw_responses ?e) @ responses_of (spec_events r ?E)"
    "lfq_inv (outgoing_md_updates e)" "lfq_items (outgoing_md_updates e) = lfq_items (outgoing_md_updates ?e) @ updates_of (spec_events r ?E)"
    using push_fits [of "outgoing_ogw_responses ?e" "responses_of (spec_events r ?E)"] push_fits [of "outgoing_md_updates ?e" "updates_of (spec_events r ?E)"]
      inv room e(4,5) x' by (simp_all add: exchange_inv_def queues_ok_def no_overflow_def)
  have "traced ?N ?M [r] ?E"
    using a rel by (auto simp: admissible_def engine_rel_def can_add_def Let_def)
  moreover have "feed_ok limits (rs @ [r]) ds x'"
  proof -
    have "feed_ok limits rs ds x" using inv by (simp add: exchange_inv_def)
    then obtain k seen where k: "k \<le> length rs" "is_feed ds (updates_of (spec_trace (take k rs) start_books))"
      "next_inc_seq_num (ex_publisher x) = 1 + of_nat (length (updates_of (spec_trace (take k rs) start_books)))"
      "updates_of (spec_trace rs start_books) = updates_of (spec_trace (take k rs) start_books) @ lfq_items (outgoing_md_updates (ex_engine x))"
      "mdp_numbered 1 (updates_of (spec_trace (take k rs) start_books)) = seen @ lfq_items (snapshot_md_updates (ex_publisher x))"
      "replayed limits seen (ex_synthesizer x)" by (rule feed_okE)
    show ?thesis by (rule feed_okI [of k _ _ _ seen]) (use k out(4) x' in simp_all)
  qed
  ultimately show ?thesis using inv e(2,3) out q'(2) x' nx by (auto simp: exchange_inv_def queues_ok_def engine_rel_def)
qed

lemma exchange_run_inv:
  assumes "exchange_run env rs ds x" and "env_ok env"
  shows "exchange_inv (env_limits env) rs ds x"
  using assms(1)
proof induction
  case (begins x)
  then show ?case using inv_start assms(2) by blast
next
  case (serves rs ds x srt n i x' wires)
  then show ?case using inv_server by blast
next
  case (matches rs ds x x')
  then show ?case using inv_engine by blast
next
  case (publishes rs ds x rcv x' d)
  then show ?case using inv_publisher by blast
next
  case (synthesizes rs ds x now now' x' ds')
  then show ?case using inv_synthesizer by blast
qed

end
