(* ===== verification/Client_Run.thy ===== *)
theory Client_Run
  imports Trading_Process Exchange_Run
begin

text \<open>
  The runs of a trading client that receives the incremental stream without a gap: in every order of its threads' turns its trade engine's
  books are what the updates received so far, but for those still queued, make of empty books.
\<close>

section \<open>Runs\<close>

definition md_fits :: "trading_process \<Rightarrow> bool" where
  "md_fits p \<longleftrightarrow> lfq_size (te_incoming_md_updates (tr_engine p)) \<le> lfq_cap (te_incoming_md_updates (tr_engine p))"

text \<open>A run with the datagrams received on the incremental stream.  Without a gap the snapshot stream is not subscribed, and nothing arrives on it.\<close>

inductive client_run :: "trading_env \<Rightarrow> byte list list \<Rightarrow> trading_process \<Rightarrow> bool" for env where
  begins: "trading_main env = Inr p \<Longrightarrow> client_run env [] p"
| consumes: "client_run env ds p \<Longrightarrow> consumer_turn sub d [] p = Inr p' \<Longrightarrow> md_fits p' \<Longrightarrow> client_run env (ds @ [d]) p'"
| trades: "client_run env ds p \<Longrightarrow> trade_turn now p = Inr p' \<Longrightarrow> client_run env ds p'"
| exchanges: "client_run env ds p \<Longrightarrow> gateway_turn recvs sends p = Inr (p', out) \<Longrightarrow> client_run env ds p'"
| inits: "client_run env ds p \<Longrightarrow> client_run env ds (main_init now p)"
| sends: "client_run env ds p \<Longrightarrow> client_run env ds (main_sends r p)"

section \<open>The books of the trade engine\<close>

lemma with_manager_books: "with_manager f te = Inr te' \<Longrightarrow> te_books te' = te_books te"
  by (auto simp: with_manager_def rbind_eq_Inr_iff send_requests_same)

lemma algo_books:
  "algoOnOrderBookUpdate tid x te = Inr te' \<Longrightarrow> te_books te' = te_books te"
  "algoOnTradeUpdate u x te = Inr te' \<Longrightarrow> te_books te' = te_books te"
  by (cases "te_algo te"; auto simp: algoOnOrderBookUpdate_def algoOnTradeUpdate_def dest: with_manager_books)+

lemma te_onOrderUpdate_books: "te_onOrderUpdate r te = Inr te' \<Longrightarrow> te_books te' = te_books te"
  by (cases "te_algo te") (auto simp: te_onOrderUpdate_def algoOnOrderUpdate_def rbind_eq_Inr_iff)

lemma te_responses_books:
  "te_responses n now te = Inr te' \<Longrightarrow> te_books te' = te_books te \<and> te_incoming_md_updates te' = te_incoming_md_updates te"
proof (induction n arbitrary: te)
  case (Suc n)
  show ?case
  proof (cases "lfq_front (incoming_ogw_responses te)")
    case (Some r)
    then obtain te1 q where q: "te_onOrderUpdate r te = Inr te1" "te_responses n now (te1\<lparr>incoming_ogw_responses := q, last_event_time := now\<rparr>) = Inr te'"
      using Suc.prems by (auto simp: rbind_eq_Inr_iff)
    show ?thesis using Suc.IH [OF q(2)] te_onOrderUpdate_books [OF q(1)] te_onOrderUpdate_inputs [OF q(1)] by (simp add: same_inputs_def)
  qed (use Suc.prems in simp)
qed simp

lemma processMarketUpdate_books:
  assumes "processMarketUpdate now u te = Inr te'"
  defines "t \<equiv> unat (upd_ticker_id u)"
  shows "\<exists>mb. client_apply u (arr_get (te_books te) t) = Inr mb \<and> t < arr_size (te_books te) \<and>
     te_books te' = (te_books te)\<lparr>arr_get := (arr_get (te_books te))(t := mb)\<rparr>"
proof -
  obtain mb ev x te2 where e: "t < arr_size (te_books te)" "onMarketUpdate u (arr_get (te_books te) t) = Inr (mb, ev)"
    "(case ev of TradeUpdate u \<Rightarrow> te_onTradeUpdate u x (te\<lparr>te_books := (te_books te)\<lparr>arr_get := (arr_get (te_books te))(t := mb)\<rparr>\<rparr>)
      | OrderBookUpdate tid price side \<Rightarrow> te_onOrderBookUpdate tid x (te\<lparr>te_books := (te_books te)\<lparr>arr_get := (arr_get (te_books te))(t := mb)\<rparr>\<rparr>)) = Inr te2"
    "te' = te2\<lparr>last_event_time := now\<rparr>"
    using assms(1) unfolding t_def
    by (auto simp: processMarketUpdate_def Let_def rbind_eq_Inr_iff ASSERT_def split: if_splits)
  have "te_books te2 = (te_books te)\<lparr>arr_get := (arr_get (te_books te))(t := mb)\<rparr>"
    using e(3) by (cases ev) (auto simp: te_onTradeUpdate_def te_onOrderBookUpdate_def rbind_eq_Inr_iff dest!: algo_books)
  then show ?thesis using e(1,2,4) by (auto simp: client_apply_def)
qed

definition follows_feed :: "MEMarketUpdate list \<Rightarrow> MarketOrderBook arr \<Rightarrow> MarketOrderBook arr \<Rightarrow> bool" where
  "follows_feed us bs bs' \<longleftrightarrow> arr_size bs' = arr_size bs \<and>
     (\<forall>t<arr_size bs. rfold client_apply (of_ticker t us) (arr_get bs t) = Inr (arr_get bs' t))"

lemma follows_feed_Nil [simp]: "follows_feed [] bs bs"
  by (simp add: follows_feed_def of_ticker_def)

lemma follows_feed_trans: "follows_feed us bs bs' \<Longrightarrow> follows_feed vs bs' bs'' \<Longrightarrow> follows_feed (us @ vs) bs bs''"
  by (simp add: follows_feed_def rfold_append)

lemma follows_feed_step:
  assumes "processMarketUpdate now u te = Inr te'"
  shows "follows_feed [u] (te_books te) (te_books te')"
  using processMarketUpdate_books [OF assms] by (auto simp: follows_feed_def of_ticker_def)

lemma te_updates_books:
  assumes "te_updates n now te = Inr te'" and "lfq_inv (te_incoming_md_updates te)"
  shows "\<exists>us. lfq_items (te_incoming_md_updates te) = us @ lfq_items (te_incoming_md_updates te') \<and> lfq_inv (te_incoming_md_updates te') \<and>
     follows_feed us (te_books te) (te_books te')"
  using assms
proof (induction n arbitrary: te)
  case (Suc n)
  show ?case
  proof (cases "lfq_items (te_incoming_md_updates te)")
    case Nil
    then have "lfq_front (te_incoming_md_updates te) = None" using Suc.prems(2) by (simp add: lfq.front_None_iff)
    then show ?thesis using Suc.prems Nil by auto
  next
    case (Cons u us)
    obtain q where q: "lfq_front (te_incoming_md_updates te) = Some u" "updateReadIndex (te_incoming_md_updates te) = Inr q" "lfq_inv q" "lfq_items q = us"
      using lfq.front_pop [OF Suc.prems(2) Cons] by blast
    then obtain te1 where te1: "processMarketUpdate now u te = Inr te1" "te_updates n now (te1\<lparr>te_incoming_md_updates := q\<rparr>) = Inr te'"
      using Suc.prems(1) processMarketUpdate_inputs by (fastforce simp: rbind_eq_Inr_iff same_inputs_def)
    obtain vs where "us = vs @ lfq_items (te_incoming_md_updates te')" "lfq_inv (te_incoming_md_updates te')" "follows_feed vs (te_books te1) (te_books te')"
      using Suc.IH [OF te1(2)] q(3,4) by auto
    then show ?thesis using Cons follows_feed_trans [OF follows_feed_step [OF te1(1)]] by (intro exI [of _ "u # vs"]) simp
  qed
qed (auto intro: exI [of _ "[]"])

lemma te_run_once_books:
  assumes "te_run_once now te = Inr te'" and "lfq_inv (te_incoming_md_updates te)"
  shows "\<exists>us. lfq_items (te_incoming_md_updates te) = us @ lfq_items (te_incoming_md_updates te') \<and> lfq_inv (te_incoming_md_updates te') \<and>
     follows_feed us (te_books te) (te_books te')"
proof -
  obtain te1 where te1: "te_responses (lfq_size (incoming_ogw_responses te)) now te = Inr te1"
    "te_updates (lfq_size (te_incoming_md_updates te1)) now te1 = Inr te'"
    using assms(1) by (auto simp: te_run_once_def rbind_eq_Inr_iff)
  then show ?thesis using te_responses_books [OF te1(1)] te_updates_books [OF te1(2)] assms(2) by simp
qed

section \<open>The invariant\<close>

definition client_inv :: "trading_env \<Rightarrow> MEMarketUpdate list \<Rightarrow> trading_process \<Rightarrow> bool" where
  "client_inv env us p \<longleftrightarrow>
     (let c = tr_consumer p; te = tr_engine p; sock = incremental_mcast_socket c in
      \<not> in_recovery c \<and> mc_socket_fd sock \<noteq> mc_socket_fd (snapshot_mcast_socket c) \<and>
      mc_next_rcv_valid_index sock = 0 \<and> mc_next_send_valid_index sock = 0 \<and> length (mc_inbound_data sock) = tr_mcast_buffer env \<and>
      mc_next_send_valid_index (snapshot_mcast_socket c) = 0 \<and> next_exp_inc_seq_num c = 1 + of_nat (length us) \<and>
      lfq_inv (te_incoming_md_updates te) \<and>
      (\<exists>seen. us = seen @ lfq_items (te_incoming_md_updates te) \<and>
         follows_feed seen \<lparr>arr_size = ME_MAX_TICKERS (tr_limits env), arr_get = (\<lambda>i. MarketOrderBook_new (tr_limits env) (of_nat i))\<rparr> (te_books te)))"

lemma client_inv_frame:
  assumes "client_inv env us p" and "tr_consumer p' = tr_consumer p" and "te_books (tr_engine p') = te_books (tr_engine p)"
    and "te_incoming_md_updates (tr_engine p') = te_incoming_md_updates (tr_engine p)"
  shows "client_inv env us p'"
  using assms by (simp add: client_inv_def Let_def)

lemma trading_main_starts:
  assumes "trading_main env = Inr p"
  shows "te_books (tr_engine p) = \<lparr>arr_size = ME_MAX_TICKERS (tr_limits env), arr_get = (\<lambda>i. MarketOrderBook_new (tr_limits env) (of_nat i))\<rparr> \<and>
     te_incoming_md_updates (tr_engine p) = LFQueue_new (ME_MAX_MARKET_UPDATES (tr_limits env)) MEMarketUpdate_default \<and>
     (\<exists>q c. tr_consumer p = c \<and> MarketDataConsumer_new (tr_mcast_buffer env) (tr_subscription env) q = Inr c)"
proof -
  obtain cid algo cfg te gw c c' where p: "TradeEngine_start (tr_benchmark_mode env) (tr_threads env) (\<lambda>_. True) (-1)
       (owner_new (TradeEngine_new (tr_limits env) cid algo cfg (tr_memory env) (LFQueue_new (ME_MAX_CLIENT_UPDATES (tr_limits env)) MEClientRequest_default)
         (LFQueue_new (ME_MAX_CLIENT_UPDATES (tr_limits env)) MEClientResponse_default) (LFQueue_new (ME_MAX_MARKET_UPDATES (tr_limits env)) MEMarketUpdate_default))) = Inr te"
    "MarketDataConsumer_new (tr_mcast_buffer env) (tr_subscription env) (LFQueue_new (ME_MAX_MARKET_UPDATES (tr_limits env)) MEMarketUpdate_default) = Inr c"
    "MarketDataConsumer_start (\<lambda>_. True) (-1) (owner_new c) = Inr c'" "p = \<lparr>trade_engine = te, order_gateway = gw, market_data_consumer = c'\<rparr>"
    using assms by (auto simp: trading_main_def Let_def rbind_eq_Inr_iff)
  have "component te = TradeEngine_new (tr_limits env) cid algo cfg (tr_memory env) (LFQueue_new (ME_MAX_CLIENT_UPDATES (tr_limits env)) MEClientRequest_default)
         (LFQueue_new (ME_MAX_CLIENT_UPDATES (tr_limits env)) MEClientResponse_default) (LFQueue_new (ME_MAX_MARKET_UPDATES (tr_limits env)) MEMarketUpdate_default)"
    using p(1) by (auto simp: TradeEngine_start_def FATAL_def owner_new_def split: if_splits dest!: start_component)
  moreover have "component c' = c" using p(3) by (auto simp: MarketDataConsumer_start_def owner_new_def dest!: start_component)
  ultimately show ?thesis using p(2,4) by (auto simp: TradeEngine_new_def)
qed

lemma client_inv_start:
  assumes "trading_main env = Inr p" and "0 < ME_MAX_MARKET_UPDATES (tr_limits env)"
  shows "client_inv env [] p"
proof -
  obtain q c where c: "tr_consumer p = c" "MarketDataConsumer_new (tr_mcast_buffer env) (tr_subscription env) q = Inr c"
    using trading_main_starts [OF assms(1)] by blast
  obtain fd joined where "tr_subscription env = (fd, joined)" by (cases "tr_subscription env")
  then have "0 \<le> fd" "c = \<lparr>next_exp_inc_seq_num = 1, con_md_updates = q, incremental_mcast_socket = mcast_init fd (McastSocket_new (tr_mcast_buffer env)),
      snapshot_mcast_socket = McastSocket_new (tr_mcast_buffer env), in_recovery = False, snapshot_queued_msgs = [], incremental_queued_msgs = []\<rparr>"
    using c(2) by (auto simp: MarketDataConsumer_new_def rbind_eq_Inr_iff ASSERT_def split: if_splits)
  then show ?thesis using trading_main_starts [OF assms(1)] assms(2) c(1)
    by (simp add: client_inv_def Let_def mcast_init_def McastSocket_new_def lfq_inv_new)
qed

lemma is_feed_snoc:
  assumes "is_feed (ds @ [d]) us"
  obtains vs ws where "us = vs @ ws" and "is_feed ds vs" and "d = encode_all (mdp_numbered (1 + of_nat (length vs)) ws)"
proof -
  obtain uss where u: "concat uss = us" "ds @ [d] = datagrams 1 uss" using assms by (auto simp: is_feed_def)
  then obtain vss ws where uss: "uss = vss @ [ws]" by (cases uss rule: rev_cases) auto
  show ?thesis
    by (rule that [of "concat vss" ws]) (use u uss in \<open>auto simp: is_feed_def datagrams_append\<close>)
qed

lemma client_inv_consumer:
  assumes inv: "client_inv env us p" and turn: "consumer_turn sub (encode_all (mdp_numbered (1 + of_nat (length us)) vs)) [] p = Inr p'" and fits: "md_fits p'"
    and "length vs * sizeof_MDPMarketUpdate \<le> tr_mcast_buffer env" and "\<forall>u\<in>set vs. is_int64 (upd_price u)"
  shows "client_inv env (us @ vs) p'"
proof -
  let ?c = "(tr_consumer p)\<lparr>con_md_updates := te_incoming_md_updates (tr_engine p)\<rparr>"
  have i: "\<not> in_recovery ?c" "mc_socket_fd (incremental_mcast_socket ?c) \<noteq> mc_socket_fd (snapshot_mcast_socket ?c)"
    "can_recv (incremental_mcast_socket ?c) (length vs * sizeof_MDPMarketUpdate)" "next_exp_inc_seq_num ?c = 1 + of_nat (length us)"
    "lfq_inv (te_incoming_md_updates (tr_engine p))"
    using inv assms(4) by (auto simp: client_inv_def Let_def can_recv_def)
  obtain c where c: "consumer_recv sub False (encode_all (mdp_numbered (1 + of_nat (length us)) vs)) ?c = Inr c"
    "con_md_updates c = fold lfq_push vs (te_incoming_md_updates (tr_engine p))" "next_exp_inc_seq_num c = 1 + of_nat (length us) + of_nat (length vs)"
    "\<not> in_recovery c" "mc_next_rcv_valid_index (incremental_mcast_socket c) = 0" "mc_next_send_valid_index (incremental_mcast_socket c) = 0"
    "length (mc_inbound_data (incremental_mcast_socket c)) = length (mc_inbound_data (incremental_mcast_socket ?c))"
    "mc_socket_fd (incremental_mcast_socket c) = mc_socket_fd (incremental_mcast_socket ?c)" "snapshot_mcast_socket c = snapshot_mcast_socket ?c"
    using forward_exact [OF i(1-3) assms(5), of sub] unfolding i(4) by auto
  have "consumer_recv sub True [] c = Inr c"
    using inv c(9) by (intro consumer_recv_nothing) (simp add: con_socket_def client_inv_def Let_def)
  then have p': "p' = set_trade_engine ((tr_engine p)\<lparr>te_incoming_md_updates := con_md_updates c\<rparr>) (set_consumer c p)"
    using turn c(1) by (simp add: consumer_turn_def consumer_run_once_def)
  have "lfq_inv (con_md_updates c) \<and> lfq_items (con_md_updates c) = lfq_items (te_incoming_md_updates (tr_engine p)) @ vs"
    using push_fits [OF i(5), of vs] fits p' c(2) by (simp add: md_fits_def)
  then show ?thesis using inv c p' by (auto simp: client_inv_def Let_def add.assoc)
qed

lemma client_inv_trade:
  assumes inv: "client_inv env us p" and turn: "trade_turn now p = Inr p'"
  shows "client_inv env us p'"
proof -
  obtain te where te: "te_run_once now (tr_engine p) = Inr te" "p' = set_trade_engine te p" using turn by (auto simp: trade_turn_def rbind_eq_Inr_iff)
  have "lfq_inv (te_incoming_md_updates (tr_engine p))" using inv by (simp add: client_inv_def Let_def)
  from te_run_once_books [OF te(1) this] show ?thesis
    using inv te(2) by (auto simp: client_inv_def Let_def dest: follows_feed_trans)
qed

lemma client_run_inv:
  assumes "client_run env ds p" and "0 < ME_MAX_MARKET_UPDATES (tr_limits env)"
    and "is_feed ds us" and "\<forall>d\<in>set ds. length d \<le> tr_mcast_buffer env" and "\<forall>u\<in>set us. is_int64 (upd_price u)"
  shows "client_inv env us p"
  using assms(1,3-5)
proof (induction arbitrary: us)
  case (begins p)
  then obtain uss where u: "concat uss = us" "[] = datagrams 1 uss" by (auto simp: is_feed_def)
  then have "us = []" by (cases uss) auto
  then show ?case using client_inv_start [OF begins(1) assms(2)] by simp
next
  case (consumes ds p sub d p')
  obtain vs ws where f: "us = vs @ ws" "is_feed ds vs" "d = encode_all (mdp_numbered (1 + of_nat (length vs)) ws)"
    using is_feed_snoc [OF consumes.prems(1)] .
  have "client_inv env vs p" using consumes.IH [OF f(2)] consumes.prems(2,3) f(1) by simp
  then show ?case unfolding f(1)
    by (rule client_inv_consumer [OF _ consumes.hyps(2) [unfolded f(3)] consumes.hyps(3)]) (use consumes.prems(2,3) f in auto)
next
  case (trades ds p now p')
  then show ?case using client_inv_trade by blast
next
  case (exchanges ds p recvs sends p' out)
  then show ?case
    by (intro client_inv_frame [OF exchanges.IH]) (auto simp: gateway_turn_def rbind_eq_Inr_iff)
next
  case (inits ds p now)
  then show ?case by (intro client_inv_frame [OF inits.IH]) (simp_all add: main_init_def initLastEventTime_def)
next
  case (sends ds p r)
  then show ?case by (intro client_inv_frame [OF sends.IH]) (simp_all add: main_sends_def sendClientRequest_def)
qed

end
