(* ===== verification/System_Run.thy ===== *)
theory System_Run
  imports Client_Run
begin

text \<open>
  The exchange and a trading client together: the client has received some of the datagrams that the exchange has sent so far, in order,
  and its books are those of the exchange at an earlier moment.
\<close>

section \<open>Prices\<close>

definition prices_ok :: "abs_engine \<Rightarrow> bool" where
  "prices_ok E \<longleftrightarrow> (\<forall>t s. \<forall>x\<in>set (ab_queue (E t) s). is_int64 (ord_price x))"

lemma spec_match_prices:
  assumes "spec_match tid cid side coid moid price leaves xs = (l, ys, ev)" and "\<forall>x\<in>set xs. is_int64 (ord_price x)"
  shows "(\<forall>y\<in>set ys. is_int64 (ord_price y)) \<and> (\<forall>u\<in>set (updates_of ev). is_int64 (upd_price u))"
  using assms
proof (induction xs arbitrary: leaves l ys ev)
  case (Cons x xs)
  have "\<forall>u\<in>set (updates_of (match_events tid cid side coid moid leaves x)). is_int64 (upd_price u)"
    using Cons.prems(2) by (simp add: match_events_def Let_def)
  then show ?case using Cons by (auto simp: Let_def split: if_splits prod.splits)
qed simp

lemma spec_request_prices:
  assumes "\<forall>s. \<forall>x\<in>set (ab_queue A s). is_int64 (ord_price x)" and "is_int64 (req_price r)"
  shows "(\<forall>s. \<forall>x\<in>set (ab_queue (fst (spec_request r A)) s). is_int64 (ord_price x)) \<and>
     (\<forall>u\<in>set (updates_of (snd (spec_request r A))). is_int64 (upd_price u))"
proof -
  have "x \<in> set (ab_orders A) \<Longrightarrow> is_int64 (ord_price x)" for x using assms(1) by (auto simp: ab_orders_def)
  then show ?thesis using assms
    by (auto simp: spec_request_def spec_add_def spec_cancel_def Let_def set_price_insert
        split: if_splits prod.splits option.splits simp: find_Some_iff dest!: spec_match_prices)
qed

lemma spec_next_prices:
  assumes "prices_ok E" and "is_int64 (req_price r)"
  shows "prices_ok (spec_next r E)" and "\<forall>u\<in>set (updates_of (spec_events r E)). is_int64 (upd_price u)"
  using assms spec_request_prices [of "E (unat (req_ticker_id r))" r]
  by (auto simp: prices_ok_def spec_next_def spec_events_def Let_def)

lemma spec_trace_prices:
  "prices_ok E \<Longrightarrow> \<forall>r\<in>set rs. is_int64 (req_price r) \<Longrightarrow> \<forall>u\<in>set (updates_of (spec_trace rs E)). is_int64 (upd_price u)"
  by (induction rs arbitrary: E) (auto dest: spec_next_prices)

lemma start_prices: "prices_ok start_books"
  by (simp add: prices_ok_def empty_book_def)

section \<open>The datagrams of a run\<close>

lemma publish_updates_buffer:
  "publish_updates n p = Inr p' \<Longrightarrow> length (mc_outbound_data (incremental_socket p')) = length (mc_outbound_data (incremental_socket p))"
  by (induction n arbitrary: p) (auto simp: rbind_eq_Inr_iff split: option.splits dest!: publish_update_room)

lemma publisher_buffer:
  assumes "publisher_run_once rcv p = Inr (p', d)"
  shows "length (mc_outbound_data (incremental_socket p')) = length (mc_outbound_data (incremental_socket p)) \<and>
     length d \<le> length (mc_outbound_data (incremental_socket p))"
  using assms
  by (auto simp: publisher_run_once_def rbind_eq_Inr_iff mcast_sendAndRecv_def no_callback_def split: if_splits dest!: publish_updates_buffer)

lemma exchange_run_buffer:
  assumes "exchange_run env rs ds x"
  shows "length (mc_outbound_data (incremental_socket (ex_publisher x))) = env_mcast_buffer env \<and> (\<forall>d\<in>set ds. length d \<le> env_mcast_buffer env)"
  using assms
proof induction
  case (begins x)
  then show ?case by (auto simp: exchange_main_def Let_def rbind_eq_Inr_iff MarketDataPublisher_new_def MarketDataPublisher_start_def
        owner_new_def mcast_init_def McastSocket_new_def dest!: start_component)
next
  case (serves rs ds x srt n i x' wires)
  then show ?case by (auto simp: server_turn_def rbind_eq_Inr_iff)
next
  case (matches rs ds x x')
  then show ?case by (auto simp: engine_turn_def rbind_eq_Inr_iff)
next
  case (publishes rs ds x rcv x' d)
  then show ?case by (auto simp: publisher_turn_def rbind_eq_Inr_iff dest!: publisher_buffer)
next
  case (synthesizes rs ds x now now' x' ds')
  then show ?case by (auto simp: synthesizer_turn_def rbind_eq_Inr_iff)
qed

text \<open>The first datagrams of a run are the feed of the first requests.\<close>

lemma exchange_run_prefix:
  assumes "exchange_run env rs ds x" and "env_ok env"
  shows "\<exists>k\<le>length rs. is_feed (take n ds) (updates_of (spec_trace (take k rs) start_books))"
  using assms(1)
proof induction
  case (matches rs ds x x')
  then obtain k where "k \<le> length rs" "is_feed (take n ds) (updates_of (spec_trace (take k rs) start_books))" by blast
  then show ?case by (intro exI [of _ k]) simp
next
  case (publishes rs ds x rcv x' d)
  show ?case
  proof (cases "n \<le> length ds")
    case False
    have "exchange_run env rs (ds @ [d]) x'" using publishes.hyps by (rule exchange_run.publishes)
    from exchange_run_inv [OF this assms(2)] have "feed_ok (env_limits env) rs (ds @ [d]) x'" by (simp add: exchange_inv_def)
    then show ?thesis using False by (elim feed_okE) auto
  qed (use publishes.IH in simp)
qed (auto intro: exI [of _ 0])

section \<open>The books of a client\<close>

lemma client_books_track:
  assumes run: "exchange_run env rs ds x" "env_ok env" and client: "client_run tenv (take n ds) p"
    and queue: "lfq_items (te_incoming_md_updates (tr_engine p)) = []" and t: "t < ME_MAX_TICKERS (tr_limits tenv)"
    and sizes: "0 < ME_MAX_PRICE_LEVELS (tr_limits tenv)" "0 < ME_MAX_ORDER_IDS (tr_limits tenv)" "0 < ME_MAX_MARKET_UPDATES (tr_limits tenv)"
    and prices: "\<forall>r\<in>set rs. is_int64 (req_price r)" and buffer: "env_mcast_buffer env \<le> tr_mcast_buffer tenv"
    and fits: "feed_fits (ME_MAX_ORDER_IDS (tr_limits tenv)) (MarketOrderBook_new (tr_limits tenv) (of_nat t)) t rs start_books"
    and feed: "is_feed (take n ds) (updates_of (spec_trace (take k rs) start_books))"
  shows "mob_rel (ME_MAX_ORDER_IDS (tr_limits tenv)) (arr_get (te_books (tr_engine p)) t) (book_view (fold spec_next (take k rs) start_books t))"
proof -
  let ?K = "ME_MAX_ORDER_IDS (tr_limits tenv)" and ?mb = "MarketOrderBook_new (tr_limits tenv) (of_nat t)" and ?us = "updates_of (spec_trace (take k rs) start_books)"
  have "\<forall>d\<in>set (take n ds). length d \<le> tr_mcast_buffer tenv"
    using exchange_run_buffer [OF run(1)] buffer by (fastforce dest: in_set_takeD)
  moreover have "\<forall>u\<in>set ?us. is_int64 (upd_price u)"
    using spec_trace_prices [OF start_prices, of "take k rs"] prices by (blast dest: in_set_takeD)
  ultimately have "client_inv tenv ?us p" using client_run_inv [OF client sizes(3) feed] by blast
  then have "rfold client_apply (of_ticker t ?us) ?mb = Inr (arr_get (te_books (tr_engine p)) t)"
    using queue t by (auto simp: client_inv_def Let_def follows_feed_def)
  moreover have "mob_rel ?K ?mb (book_view empty_book)" using mob_rel_new [OF sizes(1,2)] by (simp add: book_view_def empty_book_def)
  moreover have "traced (ME_MAX_NUM_CLIENTS (env_limits env)) (ME_MAX_ORDER_IDS (env_limits env)) (take k rs) start_books"
    using exchange_run_inv [OF run] by (simp add: exchange_inv_def traced_take)
  ultimately show ?thesis using feed_replicates [OF _ _ feed_fits_take [OF fits, of k]] by fastforce
qed

end
