(* ===== verification/Snapshot_Book.thy ===== *)
theory Snapshot_Book
  imports Feed_Spec Snapshot_Synthesizer
begin

text \<open>
  What the synthesizer's table says about the books.  Every replay of the feed that the synthesizer survives gives the table
  that the updates describe, and for the updates of a sequence of requests this table has exactly one row for every resting order.
\<close>

section \<open>A replay that succeeds\<close>

lemma allocate_success:
  assumes "pool_inv P" and "allocate x P = Inr y"
  shows "\<exists>a<pool_size P. a \<noteq> next_free_index P \<and> is_free (blocks P a)"
proof (rule ccontr)
  assume "\<not> ?thesis"
  then have "allocate x P = Inl (AssertFailed ''Memory Pool out of space.'')" using allocate_full [OF assms(1)] by blast
  then show False using assms(2) by simp
qed

lemma existing_order_success:
  assumes "syn_rel T N S A" and "existing_order u (arr_get (ticker_orders S) t) S = Inr a" and "t < T"
  shows "unat (upd_order_id u) < N \<and> (\<exists>v. A t (unat (upd_order_id u)) = Some v \<and> upd_side v = upd_side u)"
  using assms syn_relD(3,4) [OF assms(1)]
  by (auto simp: existing_order_def rbind_eq_Inr_iff arr_at_def ASSERT_def slot_def split: option.splits if_splits)

lemma addToSnapshot_success:
  assumes rel: "syn_rel T N S A" and run: "addToSnapshot m S = Inr S'"
  shows "update_ok T N A (mdp_update m) \<and> syn_rel T N S' (table_update (mdp_update m) A) \<and> last_inc_seq_num S' = mdp_seq_num m"
proof -
  let ?u = "mdp_update m" and ?t = "unat (upd_ticker_id (mdp_update m))" and ?i = "unat (upd_order_id (mdp_update m))"
  note D = syn_relD [OF rel]
  have run': "addToSnapshot \<lparr>mdp_seq_num = mdp_seq_num m, mdp_update = ?u\<rparr> S = Inr S'" using run by (cases m) simp
  have t: "?t < T" and seq: "mdp_seq_num m = last_inc_seq_num S + 1"
    using run D(2) by (auto simp: addToSnapshot_def put_order_def Let_def rbind_eq_Inr_iff arr_at_def ASSERT_def
        split: if_splits MarketUpdateType.splits)
  consider (a) "upd_type ?u = ADD" | (m) "upd_type ?u = MODIFY" | (c) "upd_type ?u = CANCEL" | (o) "upd_type ?u \<notin> {ADD, MODIFY, CANCEL}" by blast
  then show ?thesis
  proof cases
    case a
    then obtain y where y: "allocate ?u (syn_order_pool S) = Inr y" "?i < N" "slot S ?t ?i = None"
      using run D(3) [OF t] by (auto simp: addToSnapshot_def Let_def rbind_eq_Inr_iff arr_at_def ASSERT_def slot_def split: if_splits)
    then have ok: "update_ok T N A ?u" using a t D(4) [OF t y(2)] by (simp add: update_ok_def)
    from addToSnapshot_add [OF rel ok a seq allocate_success [OF D(1) y(1)]] ok show ?thesis using run' by (elim exE conjE) simp
  next
    case m
    then obtain a where "existing_order ?u (arr_get (ticker_orders S) ?t) S = Inr a"
      using run D(2) t by (auto simp: addToSnapshot_def Let_def rbind_eq_Inr_iff)
    then have ok: "update_ok T N A ?u" using m t existing_order_success [OF rel _ t] by (fastforce simp: update_ok_def)
    from addToSnapshot_modify [OF rel ok m seq] ok show ?thesis using run' by (elim exE conjE) simp
  next
    case c
    then obtain a where "existing_order ?u (arr_get (ticker_orders S) ?t) S = Inr a"
      using run D(2) t by (auto simp: addToSnapshot_def Let_def rbind_eq_Inr_iff)
    then have ok: "update_ok T N A ?u" using c t existing_order_success [OF rel _ t] by (fastforce simp: update_ok_def)
    from addToSnapshot_cancel [OF rel ok c seq] ok show ?thesis using run' by (elim exE conjE) simp
  next
    case o
    then have ok: "update_ok T N A ?u" using t by (cases "upd_type ?u") (simp_all add: update_ok_def)
    from addToSnapshot_other [OF rel ok o seq] ok show ?thesis using run' by (elim exE conjE) simp
  qed
qed

lemma replay_success:
  assumes "syn_rel T N S A" and "rfold addToSnapshot ms S = Inr S'"
  shows "stream_ok T N A (map mdp_update ms) \<and> syn_rel T N S' (fold table_update (map mdp_update ms) A)"
  using assms
proof (induction ms arbitrary: S A)
  case (Cons m ms)
  then obtain S1 where S1: "addToSnapshot m S = Inr S1" "rfold addToSnapshot ms S1 = Inr S'" by (auto simp: rbind_eq_Inr_iff)
  show ?case using addToSnapshot_success [OF Cons.prems(1) S1(1)] Cons.IH [OF _ S1(2)] by simp
qed simp

section \<open>Rows of the table\<close>

text \<open>The row of an order: the \<open>ADD\<close> update that describes it as it is now.\<close>

definition row :: "TickerId \<Rightarrow> MEOrder \<Rightarrow> MEMarketUpdate" where
  "row tid x = \<lparr>upd_type = ADD, upd_order_id = ord_market_order_id x, upd_ticker_id = tid, upd_side = ord_side x,
     upd_price = ord_price x, upd_qty = ord_qty x, upd_priority = ord_priority x\<rparr>"

abbreviation moid :: "MEOrder \<Rightarrow> nat" where
  "moid x \<equiv> unat (ord_market_order_id x)"

definition lists_rows :: "TickerId \<Rightarrow> MEOrder list \<Rightarrow> (nat \<Rightarrow> MEMarketUpdate option) \<Rightarrow> bool" where
  "lists_rows tid os tab \<longleftrightarrow> distinct (map moid os) \<and> (\<forall>i v. tab i = Some v \<longleftrightarrow> (\<exists>x\<in>set os. moid x = i \<and> v = row tid x))"

lemma lists_rows_mset: "mset os = mset os' \<Longrightarrow> lists_rows tid os tab = lists_rows tid os' tab"
  using mset_eq_setD [of os os'] mset_eq_imp_distinct_iff [of "map moid os" "map moid os'"] by (simp add: lists_rows_def)

text \<open>What an update does to the rows of its ticker.\<close>

definition row_update :: "MEMarketUpdate \<Rightarrow> (nat \<Rightarrow> MEMarketUpdate option) \<Rightarrow> nat \<Rightarrow> MEMarketUpdate option" where
  "row_update u tab = table_update u (\<lambda>_. tab) (unat (upd_ticker_id u))"

lemma table_update_row: "table_update u A = A(unat (upd_ticker_id u) := row_update u (A (unat (upd_ticker_id u))))"
  by (cases "upd_type u") (auto simp: table_update_def row_update_def Let_def)

lemma fold_table_update:
  assumes "\<forall>u\<in>set us. upd_ticker_id u = tid"
  shows "fold table_update us A = A(unat tid := fold row_update us (A (unat tid)))"
  using assms by (induction us arbitrary: A) (simp_all add: table_update_row)

lemma rows_fill:
  assumes "lists_rows tid (x # os) tab"
  shows "lists_rows tid (if ord_qty x = min leaves (ord_qty x) then os else x\<lparr>ord_qty := ord_qty x - min leaves (ord_qty x)\<rparr> # os)
     (fold row_update (updates_of (match_events tid cid side coid mid leaves x)) tab)"
proof -
  have d: "distinct (map moid (x # os))" and r: "\<And>i v. tab i = Some v \<longleftrightarrow> (\<exists>y\<in>set (x # os). moid y = i \<and> v = row tid y)"
    using assms by (simp_all add: lists_rows_def)
  then have o: "\<forall>y\<in>set os. moid y \<noteq> moid x" by (auto simp: image_iff)
  have x: "tab (moid x) = Some (row tid x)" using r [of "moid x" "row tid x"] by auto
  show ?thesis
  proof (cases "ord_qty x = min leaves (ord_qty x)")
    case True
    then have "fold row_update (updates_of (match_events tid cid side coid mid leaves x)) tab = tab(moid x := None)"
      by (simp add: match_events_def Let_def row_update_def table_update_def)
    then show ?thesis using True d o r by (auto simp: lists_rows_def)
  next
    case False
    let ?y = "x\<lparr>ord_qty := ord_qty x - min leaves (ord_qty x)\<rparr>"
    have "ord_qty x - min leaves (ord_qty x) \<noteq> 0" using False by simp
    then have "fold row_update (updates_of (match_events tid cid side coid mid leaves x)) tab = tab(moid x := Some (row tid ?y))"
      using x by (simp add: match_events_def Let_def row_update_def table_update_def row_def)
    then show ?thesis using False d o r by (auto simp: lists_rows_def)
  qed
qed

lemma rows_match:
  assumes "spec_match tid cid side coid mid price leaves xs = (l, ys, ev)" and "lists_rows tid (xs @ os) tab"
  shows "lists_rows tid (ys @ os) (fold row_update (updates_of ev) tab)"
  using assms
proof (induction xs arbitrary: leaves l ys ev tab)
  case (Cons x xs)
  show ?case
  proof (cases "leaves = 0 \<or> passes side price (ord_price x)")
    case False
    let ?ev = "match_events tid cid side coid mid leaves x" and ?fill = "min leaves (ord_qty x)"
    note f = rows_fill [of tid x "xs @ os" tab leaves cid side coid mid]
    show ?thesis
    proof (cases "ord_qty x = ?fill")
      case True
      obtain l' ys' ev' where m: "spec_match tid cid side coid mid price (leaves - ?fill) xs = (l', ys', ev')" using prod_cases3 by blast
      then have "ys = ys'" "ev = ?ev @ ev'" using Cons.prems(1) False True by (auto simp: Let_def)
      then show ?thesis using Cons.IH [OF m] f Cons.prems(2) True by simp
    next
      case nf: False
      then have "ys = x\<lparr>ord_qty := ord_qty x - ?fill\<rparr> # xs" "ev = ?ev" using Cons.prems(1) False by (auto simp: Let_def)
      then show ?thesis using f Cons.prems(2) nf by simp
    qed
  qed (use Cons.prems in auto)
qed simp

lemma rows_new:
  assumes "lists_rows tid os tab" and "tab (moid x) = None"
  shows "lists_rows tid (x # os) (tab(moid x := Some (row tid x)))"
proof -
  have "\<forall>y\<in>set os. moid y \<noteq> moid x" 
  proof
    fix y assume "y \<in> set os"
    then have "tab (moid y) = Some (row tid y)" using assms(1) by (auto simp: lists_rows_def)
    then show "moid y \<noteq> moid x" using assms(2) by auto
  qed
  moreover from this have "moid x \<notin> moid ` set os" by (auto simp: image_iff)
  ultimately show ?thesis using assms(1) by (auto simp: lists_rows_def)
qed

lemma rows_drop:
  assumes "lists_rows tid os tab"
  shows "lists_rows tid (filter (\<lambda>y. moid y \<noteq> k) os) (tab(k := None))"
  using assms by (auto simp: lists_rows_def distinct_map_filter)

lemma mset_ab_orders: "side \<in> {BUY, SELL} \<Longrightarrow> mset (ab_orders A) = mset (ab_queue A (opp side)) + mset (ab_queue A side)"
  by (auto simp: ab_orders_def)

section \<open>Requests\<close>

lemma stream_ok_append: "stream_ok T N A (us @ vs) \<longleftrightarrow> stream_ok T N A us \<and> stream_ok T N (fold table_update us A) vs"
  by (induction us arbitrary: A) auto

lemma rows_spec_add:
  assumes rows: "lists_rows tid (ab_orders A) (tabs (unat tid))" and side: "side \<in> {BUY, SELL}"
    and ok: "stream_ok T N tabs (updates_of (snd (spec_add cid coid tid side price qty A)))"
  shows "lists_rows tid (ab_orders (fst (spec_add cid coid tid side price qty A)))
     (fold row_update (updates_of (snd (spec_add cid coid tid side price qty A))) (tabs (unat tid)))"
proof -
  obtain l ys ev where m: "spec_match tid cid side coid (fill_id (ab_next A)) price qty (ab_queue A (opp side)) = (l, ys, ev)"
    using prod_cases3 by blast
  let ?tab = "fold row_update (updates_of ev) (tabs (unat tid))"
  have "lists_rows tid (ab_queue A (opp side) @ ab_queue A side) (tabs (unat tid))"
    using rows lists_rows_mset [of "ab_orders A" "ab_queue A (opp side) @ ab_queue A side"] mset_ab_orders [OF side, of A] by simp
  then have r: "lists_rows tid (ys @ ab_queue A side) ?tab" using rows_match [OF m] by blast
  have os: "opp side \<noteq> side" using side by auto
  show ?thesis
  proof (cases "l = 0")
    case True
    have "mset (ab_orders (fst (spec_add cid coid tid side price qty A))) = mset (ys @ ab_queue A side)"
      using m True os mset_ab_orders [OF side] by (simp add: spec_add_def)
    moreover have "updates_of (snd (spec_add cid coid tid side price qty A)) = updates_of ev" using m True by (simp add: spec_add_def)
    ultimately show ?thesis using r by (simp only: lists_rows_mset [of "ab_orders (fst (spec_add cid coid tid side price qty A))"])
  next
    case False
    let ?x = "\<lparr>ord_side = side, ord_price = price, ord_qty = l, ord_priority = next_priority price (ab_queue A side),
      prev_order = None, next_order = None, ord_ticker_id = tid, ord_client_id = cid, ord_client_order_id = coid, ord_market_order_id = ab_next A\<rparr>"
    have us: "updates_of (snd (spec_add cid coid tid side price qty A)) = updates_of ev @ [row tid ?x]"
      using m False by (simp add: spec_add_def Let_def row_def)
    have "fold table_update (updates_of ev) tabs = tabs(unat tid := ?tab)"
      using spec_match_ticker [OF m] by (intro fold_table_update) blast
    then have "?tab (moid ?x) = None" using ok by (simp add: us stream_ok_append update_ok_def row_def Let_def)
    then have "lists_rows tid (?x # ys @ ab_queue A side) (?tab(moid ?x := Some (row tid ?x)))" using rows_new [OF r, of ?x] by simp
    moreover have "mset (ab_orders (fst (spec_add cid coid tid side price qty A))) = mset (?x # ys @ ab_queue A side)"
      using m False os mset_ab_orders [OF side] by (simp add: spec_add_def Let_def mset_price_insert)
    moreover have "fold row_update (updates_of ev @ [row tid ?x]) (tabs (unat tid)) = ?tab(moid ?x := Some (row tid ?x))"
      by (simp add: row_update_def table_update_def row_def)
    ultimately show ?thesis unfolding us by (simp only: lists_rows_mset [of "ab_orders (fst (spec_add cid coid tid side price qty A))"])
  qed
qed

lemma rows_spec_cancel:
  assumes rows: "lists_rows tid (ab_orders A) tab" and me: "me_rel N M b A"
  shows "lists_rows tid (ab_orders (fst (spec_cancel cid oid tid A))) (fold row_update (updates_of (snd (spec_cancel cid oid tid A))) tab)"
proof (cases "find (has_key cid oid) (ab_orders A)")
  case None
  then show ?thesis using rows by (simp add: spec_cancel_def)
next
  case (Some x)
  then have x: "x \<in> set (ab_orders A)" "has_key cid oid x" by (auto simp: find_Some_iff)
  have d: "distinct (map moid (ab_orders A))" using rows by (simp add: lists_rows_def)
  have "has_key cid oid y \<longleftrightarrow> moid y = moid x" if "y \<in> set (ab_orders A)" for y
    using that x d me_rel_key [OF me] by (auto simp: distinct_map dest: inj_onD)
  then have "filter (\<lambda>y. \<not> has_key cid oid y) (ab_orders A) = filter (\<lambda>y. moid y \<noteq> moid x) (ab_orders A)" by (intro filter_cong) auto
  moreover have "ab_orders (fst (spec_cancel cid oid tid A)) = filter (\<lambda>y. \<not> has_key cid oid y) (ab_orders A)"
    using Some by (simp add: spec_cancel_def ab_orders_def)
  moreover have "fold row_update (updates_of (snd (spec_cancel cid oid tid A))) tab = tab(moid x := None)"
    using Some by (simp add: spec_cancel_def row_update_def table_update_def)
  ultimately show ?thesis using rows_drop [OF rows] by simp
qed

text \<open>The table after the updates of a sequence of requests has a row for every resting order, and no other.\<close>

lemma rows_trace:
  assumes "\<forall>t. lists_rows (of_nat t) (ab_orders (E t)) (tabs t)" and "traced N M rs E" and "stream_ok T K tabs (updates_of (spec_trace rs E))"
  shows "\<forall>t. lists_rows (of_nat t) (ab_orders (fold spec_next rs E t)) (fold table_update (updates_of (spec_trace rs E)) tabs t)"
  using assms
proof (induction rs arbitrary: E tabs)
  case (Cons r rs)
  let ?tid = "req_ticker_id r" and ?us = "updates_of (spec_events r E)"
  let ?t = "unat ?tid"
  have ok: "stream_ok T K tabs ?us" "stream_ok T K (fold table_update ?us tabs) (updates_of (spec_trace rs (spec_next r E)))"
    using Cons.prems(3) by (simp_all add: stream_ok_append)
  obtain b where b: "me_rel N M b (E ?t)" "req_type r = Request_NEW \<Longrightarrow> req_side r \<in> {BUY, SELL}" "traced N M rs (spec_next r E)"
    using Cons.prems(2) by auto
  have rows: "lists_rows ?tid (ab_orders (E ?t)) (tabs ?t)" using Cons.prems(1) [rule_format, of ?t] by simp
  have "lists_rows ?tid (ab_orders (fst (spec_request r (E ?t)))) (fold row_update ?us (tabs ?t))"
  proof (cases "req_type r = Request_NEW")
    case True
    then show ?thesis using rows_spec_add [where tabs = tabs, OF rows b(2) [OF True]] ok(1) by (simp add: spec_events_def spec_request_def)
  next
    case False
    then show ?thesis using rows_spec_cancel [OF rows b(1)] by (simp add: spec_events_def spec_request_def)
  qed
  moreover have "fold table_update ?us tabs = tabs(?t := fold row_update ?us (tabs ?t))"
    by (intro fold_table_update) (auto simp: spec_events_def dest: spec_request_ticker)
  ultimately have "\<forall>t. lists_rows (of_nat t) (ab_orders (spec_next r E t)) (fold table_update ?us tabs t)"
    using Cons.prems(1) by (auto simp: spec_next_def Let_def)
  from Cons.IH [OF this b(3) ok(2)] show ?case by simp
qed simp

end
