(* ===== verification/Exchange_Props.thy ===== *)
theory Exchange_Props
  imports Exchange_Run Snapshot_Book
begin

text \<open>
  Properties of the exchange process as a whole, and a run of it: a client connects and sends an order, the engine serves it, and
  the publisher sends the update.
\<close>

section \<open>An example run\<close>

definition example_request :: MEClientRequest where
  "example_request = new_request 1 2 SELL 10 5"

definition example_env :: exchange_env where
  "example_env = \<lparr>env_limits = small_limits, env_benchmark_mode = True, env_threads = True, env_memory = (\<lambda>_ _ _. None),
     env_max_pending = 4, env_tcp_buffer = 100, env_mcast_buffer = 200, env_inc_fd = 3, env_snapshot_fd = 4,
     env_epoll_fd = 5, env_listener_fd = 6, env_epoll_ok = True\<rparr>"

text \<open>The listener has a connection waiting, and the request has arrived on it.\<close>

definition example_input :: server_input where
  "example_input = \<lparr>in_events = [\<lparr>ev_socket = 0, ev_in = True, ev_out = False, ev_err = False\<rparr>], in_accepts = [(7, True, True)],
     in_recvs = (\<lambda>s. if s = 1 then [RecvData (encode_request \<lparr>omreq_seq_num = 1, omreq_request = example_request\<rparr>) 9] else []),
     in_sends = (\<lambda>_. []), in_recvs' = (\<lambda>_. []), in_sends' = (\<lambda>_. [])\<rparr>"

lemma example_env_ok: "env_ok example_env"
  using small_cleared by (simp add: env_ok_def example_env_def) (simp add: small_limits_def)

lemma example_start:
  obtains x where "exchange_main example_env = Inr x"
    and "ex_server x = (OrderServer_new small_limits 100 (FIFOSequencer_new 4 \<lparr>recv_time = 0, rt_request = MEClientRequest_default\<rparr>
        (LFQueue_new 16 MEClientRequest_default)) (LFQueue_new 16 MEClientResponse_default))
        \<lparr>tcp_server := \<lparr>epoll_fd = 5, tcp_sockets = (\<lambda>_. TCPSocket_new 100)(0 := tcp_connect 6 (TCPSocket_new 100)), num_sockets = 1, receive_sockets = [], send_sockets = []\<rparr>\<rparr>"
    and "ex_engine x = MatchingEngine_new small_limits True (\<lambda>_ _ _. None) (LFQueue_new 16 MEClientRequest_default) (LFQueue_new 16 MEClientResponse_default)
       (LFQueue_new 16 MEMarketUpdate_default)"
    and "ex_publisher x = \<lparr>next_inc_seq_num = 1, pub_outgoing_md_updates = LFQueue_new 16 MEMarketUpdate_default,
       snapshot_md_updates = LFQueue_new 16 MDPMarketUpdate_default, incremental_socket = mcast_init 3 (McastSocket_new 200)\<rparr>"
    and "ex_synthesizer x = \<lparr>syn_md_updates = LFQueue_new 16 MDPMarketUpdate_default, snapshot_socket = mcast_init 4 (McastSocket_new 200),
       ticker_orders = arr_fill 1 (arr_fill 8 None), last_inc_seq_num = 0, last_snapshot_time = 0, syn_order_pool = MemPool_new 8 MEMarketUpdate_default\<rparr>"
  by (rule that [of "case exchange_main example_env of Inr x \<Rightarrow> x"])
    (simp_all add: exchange_main_def example_env_def Let_def small_limits_def MatchingEngine_start_def start_thread_def createAndStartThread_def
      MarketDataPublisher_new_def SnapshotSynthesizer_new_def MarketDataPublisher_start_def SnapshotSynthesizer_start_def start_detached_def
      OrderServer_start_def tcp_listen_def OrderServer_new_def TCPServer_new_def owner_new_def)

lemma example_recv:
  assumes "cid_tcp_socket s = arr_fill 4 None" and "cid_next_exp_seq_num s = arr_fill 4 1" and "pending_size (fifo_sequencer s) = 0"
    and "arr_size (pending_client_requests (fifo_sequencer s)) = 4" and "sock = TCPSocket_new 100"
  shows "\<exists>s'. tcp_sendAndRecv (recvCallback 1) [RecvData (encode_request \<lparr>omreq_seq_num = 1, omreq_request = example_request\<rparr>) 9] [] (sock\<lparr>socket_fd := 7\<rparr>) s =
     Inr (sock\<lparr>socket_fd := 7, inbound_data := put_bytes 0 (encode_request \<lparr>omreq_seq_num = 1, omreq_request = example_request\<rparr>) (replicate 100 0)\<rparr>, s', [], True) \<and>
     pending (fifo_sequencer s') = [\<lparr>recv_time = 9, rt_request = example_request\<rparr>] \<and> pending_size (fifo_sequencer s') = 1 \<and> only_client 1 1 s s'"
proof -
  let ?m = "\<lparr>omreq_seq_num = 1, omreq_request = example_request\<rparr>"
  have "client_ok 1 1 1 s" using assms(1,2) by (simp add: client_ok_def)
  then obtain s' where s': "recv_requests 1 9 (encode_request ?m) s = Inr ([], s')" "pending (fifo_sequencer s') = [\<lparr>recv_time = 9, rt_request = example_request\<rparr>]"
    "pending_size (fifo_sequencer s') = 1" "only_client 1 1 s s'"
    using recv_numbered [of 1 1 1 s "[example_request]" 9] assms(3,4)
    by (auto simp: numbered_def example_request_def new_request_def is_int64_def pending_def)
  have "take (length (encode_request ?m)) (put_bytes 0 (encode_request ?m) (replicate 100 0)) = encode_request ?m"
    using take_put_bytes [of 0 "encode_request ?m" "replicate 100 0"] by (simp add: sizeof_OMClientRequest_def)
  moreover have "put_bytes 0 [] bs = bs" for bs by (simp add: put_bytes_def)
  ultimately show ?thesis using s' assms(5)
    by (simp add: tcp_sendAndRecv_def recvCallback_def TCPSocket_new_def Let_def sizeof_OMClientRequest_def)
qed

lemma example_serves:
  assumes "exchange_main example_env = Inr x"
  obtains x' w where "server_turn (sort_key recv_time) 100 example_input x = Inr (x', w)"
    and "ex_engine x' = (ex_engine x)\<lparr>incoming_requests := lfq_push example_request (LFQueue_new 16 MEClientRequest_default)\<rparr>"
    and "ex_publisher x' = ex_publisher x" and "ex_synthesizer x' = ex_synthesizer x"
proof -
  obtain y where y: "exchange_main example_env = Inr y" "ex_server y = (OrderServer_new small_limits 100 (FIFOSequencer_new 4 \<lparr>recv_time = 0, rt_request = MEClientRequest_default\<rparr>
        (LFQueue_new 16 MEClientRequest_default)) (LFQueue_new 16 MEClientResponse_default))
        \<lparr>tcp_server := \<lparr>epoll_fd = 5, tcp_sockets = (\<lambda>_. TCPSocket_new 100)(0 := tcp_connect 6 (TCPSocket_new 100)), num_sockets = 1, receive_sockets = [], send_sockets = []\<rparr>\<rparr>"
    "ex_engine y = MatchingEngine_new small_limits True (\<lambda>_ _ _. None) (LFQueue_new 16 MEClientRequest_default) (LFQueue_new 16 MEClientResponse_default)
       (LFQueue_new 16 MEMarketUpdate_default)" by (rule example_start)
  have "y = x" using y(1) assms by simp
  note y = y [unfolded this]
  let ?s = "server_view x" and ?m = "\<lparr>omreq_seq_num = 1, omreq_request = example_request\<rparr>"
  have v: "cid_tcp_socket ?s = arr_fill 4 None" "cid_next_exp_seq_num ?s = arr_fill 4 1" "pending_size (fifo_sequencer ?s) = 0"
    "arr_size (pending_client_requests (fifo_sequencer ?s)) = 4" "seq_incoming_requests (fifo_sequencer ?s) = LFQueue_new 16 MEClientRequest_default"
    "outgoing_responses ?s = LFQueue_new 16 MEClientResponse_default" "tcp_server ?s = tcp_server (ex_server x)"
    using y(2,3) by (simp_all add: server_view_def OrderServer_new_def FIFOSequencer_new_def MatchingEngine_new_def small_limits_def)
  obtain s1 where s1: "tcp_sendAndRecv (recvCallback 1) [RecvData (encode_request ?m) 9] [] ((TCPSocket_new 100)\<lparr>socket_fd := 7\<rparr>) ?s =
     Inr ((TCPSocket_new 100)\<lparr>socket_fd := 7, inbound_data := put_bytes 0 (encode_request ?m) (replicate 100 0)\<rparr>, s1, [], True)"
     "pending (fifo_sequencer s1) = [\<lparr>recv_time = 9, rt_request = example_request\<rparr>]" "pending_size (fifo_sequencer s1) = 1" "only_client 1 1 ?s s1"
    using example_recv [OF v(1-4) refl] by blast
  let ?s2 = "s1\<lparr>fifo_sequencer := sequenceAndPublish (sort_key recv_time) (fifo_sequencer s1)\<rparr>"
  have q: "seq_incoming_requests (fifo_sequencer ?s2) = lfq_push example_request (LFQueue_new 16 MEClientRequest_default)"
    "outgoing_responses s1 = LFQueue_new 16 MEClientResponse_default"
    using s1(2,3,4) v(5,6) by (simp_all add: sequenceAndPublish_def Let_def only_client_def)
  have "\<exists>net w. order_server_run_once (sort_key recv_time) 100 (in_events example_input) (in_accepts example_input) (in_recvs example_input)
      (in_sends example_input) (in_recvs' example_input) (in_sends' example_input) ?s = Inr (?s2\<lparr>tcp_server := net\<rparr>, w)"
    using s1(1) y(2) q(2) v(7)
    by (simp add: order_server_run_once_def example_input_def tcp_poll_def poll_event_def accept_socket_def push_new_def Let_def
        tcp_server_sendAndRecv_def pump_socket_def recvFinishedCallback_def lfq_size_items) (rule exI, rule refl)
  then obtain net w where run: "server_turn (sort_key recv_time) 100 example_input x = Inr (set_engine ((ex_engine x)\<lparr>incoming_requests :=
      seq_incoming_requests (fifo_sequencer ?s2), outgoing_ogw_responses := outgoing_responses s1\<rparr>) (set_server (?s2\<lparr>tcp_server := net\<rparr>) x), w)"
    by (auto simp: server_turn_def)
  show ?thesis by (rule that [OF run]) (use q y(3) in \<open>simp_all add: MatchingEngine_new_def\<close>)
qed

lemma example_run:
  obtains x d where "exchange_run example_env [example_request] [d] x" and "lfq_items (outgoing_md_updates (ex_engine x)) = []"
    and "lfq_inv (snapshot_md_updates (ex_publisher x))"
    and "lfq_items (snapshot_md_updates (ex_publisher x)) = mdp_numbered 1 (updates_of (snd (spec_request example_request empty_book)))"
    and "ex_synthesizer x = \<lparr>syn_md_updates = LFQueue_new 16 MDPMarketUpdate_default, snapshot_socket = mcast_init 4 (McastSocket_new 200),
       ticker_orders = arr_fill 1 (arr_fill 8 None), last_inc_seq_num = 0, last_snapshot_time = 0, syn_order_pool = MemPool_new 8 MEMarketUpdate_default\<rparr>"
proof -
  obtain x where x: "exchange_main example_env = Inr x" "ex_engine x = MatchingEngine_new small_limits True (\<lambda>_ _ _. None) (LFQueue_new 16 MEClientRequest_default)
       (LFQueue_new 16 MEClientResponse_default) (LFQueue_new 16 MEMarketUpdate_default)"
    "ex_publisher x = \<lparr>next_inc_seq_num = 1, pub_outgoing_md_updates = LFQueue_new 16 MEMarketUpdate_default,
       snapshot_md_updates = LFQueue_new 16 MDPMarketUpdate_default, incremental_socket = mcast_init 3 (McastSocket_new 200)\<rparr>"
    "ex_synthesizer x = \<lparr>syn_md_updates = LFQueue_new 16 MDPMarketUpdate_default, snapshot_socket = mcast_init 4 (McastSocket_new 200),
       ticker_orders = arr_fill 1 (arr_fill 8 None), last_inc_seq_num = 0, last_snapshot_time = 0, syn_order_pool = MemPool_new 8 MEMarketUpdate_default\<rparr>"
    using example_start .
  let ?q = "lfq_push example_request (LFQueue_new 16 MEClientRequest_default)" and ?s = "spec_request example_request empty_book"
  obtain x1 w where x1: "server_turn (sort_key recv_time) 100 example_input x = Inr (x1, w)" "ex_engine x1 = (ex_engine x)\<lparr>incoming_requests := ?q\<rparr>"
    "ex_publisher x1 = ex_publisher x" "ex_synthesizer x1 = ex_synthesizer x" using example_serves [OF x(1)] .
  have q: "lfq_inv ?q" "lfq_items ?q = [example_request]" "lfq_cap ?q = 16"
    using lfq.push_all [of "LFQueue_new 16 MEClientRequest_default" "[example_request]"] by (simp_all add: lfq_inv_new)
  have r1: "exchange_run example_env [] [] x1"
    by (rule exchange_run.serves [OF exchange_run.begins [OF x(1)] x1(1)])
      (use q x1(2,3) x(2,3) in \<open>simp add: no_overflow_def lfq_size_items MatchingEngine_new_def\<close>)
  have nx: "next_request x1 = [example_request]" using x1(2) q by (simp add: next_request_def lfq_front_items)
  have e: "engine_rel 4 8 (ex_engine x1) start_books" "lfq_inv (outgoing_ogw_responses (ex_engine x1))" "lfq_inv (outgoing_md_updates (ex_engine x1))"
    using exchange_run_inv [OF r1 example_env_ok] by (simp_all add: exchange_inv_def queues_ok_def example_env_def small_sizes)
  have adm: "admissible 4 8 example_request (ex_engine x1) start_books"
    using small_can_add [of SELL 1 2 10] x1(2) x(2) by (simp add: admissible_def example_request_def new_request_def MatchingEngine_new_def small_book_def small_sizes)
  have ev: "length (responses_of (snd ?s)) = 1" "length (updates_of (snd ?s)) = 1"
    using small_engine_messages by (simp_all add: example_request_def)
  have t: "unat (req_ticker_id example_request) = 0" by (simp add: example_request_def new_request_def)
  obtain e where e': "me_run_once (ex_engine x1) = Inr e" "lfq_items (incoming_requests e) = []" "length (lfq_items (outgoing_ogw_responses e)) = 1"
    "lfq_items (outgoing_md_updates e) = updates_of (snd ?s)" "lfq_inv (outgoing_md_updates e)"
    using engine_pass [OF e(1) adm, of "[]" 0 "fst ?s" "snd ?s"] q x1(2) x(2) e(2,3) ev t by (auto simp: MatchingEngine_new_def)
  have cap: "lfq_cap (outgoing_ogw_responses e) = 16" "lfq_cap (outgoing_md_updates e) = 16"
    using e'(1) x1(2) x(2) processClientRequest_refines [OF e(1) adm] q
    by (auto simp: me_run_once_def lfq_front_items rbind_eq_Inr_iff MatchingEngine_new_def)
  let ?x2 = "set_engine e x1"
  have r2: "exchange_run example_env [example_request] [] ?x2"
    using exchange_run.matches [OF r1, of ?x2] nx adm e' ev cap x1(3) x(3)
    by (simp add: engine_turn_def no_overflow_def lfq_size_items example_env_def small_sizes)
  let ?p = "(ex_publisher x1)\<lparr>pub_outgoing_md_updates := outgoing_md_updates e\<rparr>"
  obtain p d where p: "publisher_run_once [] ?p = Inr (p, d)" "lfq_items (pub_outgoing_md_updates p) = []" "lfq_inv (pub_outgoing_md_updates p)"
    "lfq_inv (snapshot_md_updates p)" "lfq_items (snapshot_md_updates p) = mdp_numbered 1 (updates_of (snd ?s))"
    using publisher_pass [of ?p] e'(4,5) ev x1(3) x(3) by (auto simp: lfq_inv_new mcast_init_def McastSocket_new_def sizeof_MDPMarketUpdate_def)
  let ?x3 = "set_engine (e\<lparr>outgoing_md_updates := pub_outgoing_md_updates p\<rparr>) (set_publisher p ?x2)"
  have turn: "publisher_turn [] ?x2 = Inr (?x3, d)" using p(1) by (simp add: publisher_turn_def)
  have "no_overflow ?x3"
    using e'(2,3) cap(1) p(2-4) by (simp add: no_overflow_def lfq_size_items) (simp add: lfq_inv_def lfq_cap_def lfq_items_def)
  then have "exchange_run example_env [example_request] [d] ?x3" using exchange_run.publishes [OF r2 turn] by simp
  then show ?thesis by (rule that) (use p(2,4,5) x1(4) x(4) in simp_all)
qed

text \<open>The synthesizer replays the update.\<close>

lemma example_snapshot:
  obtains x d where "exchange_run example_env [example_request] [d] x" and "lfq_items (outgoing_md_updates (ex_engine x)) = []"
    and "lfq_items (snapshot_md_updates (ex_publisher x)) = []"
proof -
  obtain x d where x: "exchange_run example_env [example_request] [d] x" "lfq_items (outgoing_md_updates (ex_engine x)) = []"
    "lfq_inv (snapshot_md_updates (ex_publisher x))"
    "lfq_items (snapshot_md_updates (ex_publisher x)) = mdp_numbered 1 (updates_of (snd (spec_request example_request empty_book)))"
    "ex_synthesizer x = \<lparr>syn_md_updates = LFQueue_new 16 MDPMarketUpdate_default, snapshot_socket = mcast_init 4 (McastSocket_new 200),
       ticker_orders = arr_fill 1 (arr_fill 8 None), last_inc_seq_num = 0, last_snapshot_time = 0, syn_order_pool = MemPool_new 8 MEMarketUpdate_default\<rparr>"
    using example_run .
  let ?u = "\<lparr>upd_type = ADD, upd_order_id = 1, upd_ticker_id = 0, upd_side = SELL, upd_price = 10, upd_qty = 5, upd_priority = 1\<rparr>"
  let ?S = "(ex_synthesizer x)\<lparr>syn_md_updates := snapshot_md_updates (ex_publisher x)\<rparr>"
  have items: "lfq_items (syn_md_updates ?S) = [\<lparr>mdp_seq_num = 1, mdp_update = ?u\<rparr>]"
    using x(4) small_engine_messages(2) by (simp add: example_request_def)
  have rel: "syn_rel 1 8 ?S (\<lambda>_ _. None)" unfolding x(5) by (simp add: syn_rel_def Snapshot_Synthesizer.slot_def pool_inv_new)
  have ok: "update_ok 1 8 (\<lambda>_ _. None) ?u" by (simp add: update_ok_def)
  obtain S1 where S1: "addToSnapshot \<lparr>mdp_seq_num = 1, mdp_update = ?u\<rparr> ?S = Inr S1"
    using addToSnapshot_refines [OF rel ok, of 1] x(5) by auto
  have keep: "syn_md_updates S1 = snapshot_md_updates (ex_publisher x)" using addToSnapshot_keeps(1) [OF S1] by simp
  have t: "last_snapshot_time S1 = 0" using addToSnapshot_keeps(2) [OF S1] x(5) by simp
  obtain q where q: "lfq_front (syn_md_updates ?S) = Some \<lparr>mdp_seq_num = 1, mdp_update = ?u\<rparr>" "updateReadIndex (syn_md_updates ?S) = Inr q" "lfq_items q = []"
    using lfq.front_pop [OF _ items] x(3) by auto
  have "lfq_size (syn_md_updates ?S) = Suc 0" using items by (simp add: lfq_size_items)
  then have "synthesizer_run_once 0 0 ?S = Inr (S1\<lparr>syn_md_updates := q\<rparr>, [])"
    using S1 q keep t by (simp add: synthesizer_run_once_def)
  then have "synthesizer_turn 0 0 x = Inr (set_publisher ((ex_publisher x)\<lparr>snapshot_md_updates := q\<rparr>) (set_synthesizer (S1\<lparr>syn_md_updates := q\<rparr>) x), [])"
    by (simp add: synthesizer_turn_def)
  from exchange_run.synthesizes [OF x(1) this] show ?thesis by (rule that) (use x(2) q(3) in simp_all)
qed

section \<open>Properties\<close>

lemma replayed_rel:
  assumes "replayed limits ms S" and "0 < ME_MAX_ORDER_IDS limits"
  shows "stream_ok (ME_MAX_TICKERS limits) (ME_MAX_ORDER_IDS limits) (\<lambda>_ _. None) (map mdp_update ms) \<and>
     syn_rel (ME_MAX_TICKERS limits) (ME_MAX_ORDER_IDS limits) S (fold table_update (map mdp_update ms) (\<lambda>_ _. None))"
proof -
  obtain n fd q S0 q' sock t where S0: "SnapshotSynthesizer_new limits n fd q = Inr S0" "rfold addToSnapshot ms S0 = Inr (retold q' sock t S)"
    using assms(1) by (auto simp: replayed_def same_table_def)
  have "syn_rel (ME_MAX_TICKERS limits) (ME_MAX_ORDER_IDS limits) S0 (\<lambda>_ _. None)"
    using S0(1) assms(2) by (auto simp: SnapshotSynthesizer_new_def rbind_eq_Inr_iff syn_rel_def Snapshot_Synthesizer.slot_def pool_inv_new)
  from replay_success [OF this S0(2)] show ?thesis by (simp add: syn_rel_def Snapshot_Synthesizer.slot_def)
qed



text \<open>
  Clients that follow the feed see the exchange.  In every run, whenever the queue to the publisher is empty, a client that starts with an empty book for a
  ticker and applies the updates of the ticker that were published on the incremental stream, in order, does so without an error, and its
  book then shows the resting orders of the matching engine's book of the ticker, with the same best bid and offer, provided
  its book had room for them.
\<close>

theorem exchange_feeds_clients:
  assumes "exchange_run env rs ds x" and "env_ok env" and "t < ME_MAX_TICKERS (env_limits env)"
    and "lfq_items (outgoing_md_updates (ex_engine x)) = []"
    and "0 < ME_MAX_PRICE_LEVELS climits" and "0 < ME_MAX_ORDER_IDS climits"
    and "feed_fits (ME_MAX_ORDER_IDS climits) (MarketOrderBook_new climits (of_nat t)) t rs start_books"
  shows "\<exists>us mb A. concat ds = encode_all (mdp_numbered 1 us) \<and>
     rfold client_apply (of_ticker t us) (MarketOrderBook_new climits (of_nat t)) = Inr mb \<and>
     me_rel (ME_MAX_NUM_CLIENTS (env_limits env)) (ME_MAX_ORDER_IDS (env_limits env)) (arr_get (ticker_order_book (ex_engine x)) t) A \<and>
     mob_rel (ME_MAX_ORDER_IDS climits) mb (book_view A)"
proof -
  let ?us = "updates_of (spec_trace rs start_books)" and ?A = "fold spec_next rs start_books t"
  note inv = exchange_run_inv [OF assms(1,2), unfolded exchange_inv_def]
  then have "concat ds = encode_all (mdp_numbered 1 ?us)" using assms(4) by (auto elim!: feed_okE dest: is_feed_bytes)
  moreover have "me_rel (ME_MAX_NUM_CLIENTS (env_limits env)) (ME_MAX_ORDER_IDS (env_limits env)) (arr_get (ticker_order_book (ex_engine x)) t) ?A"
    using inv assms(3) by (simp add: engine_rel_def)
  moreover have "mob_rel (ME_MAX_ORDER_IDS climits) (MarketOrderBook_new climits (of_nat t)) (book_view empty_book)"
    using mob_rel_new [OF assms(5,6)] by (simp add: book_view_def empty_book_def)
  then obtain mb where "rfold client_apply (of_ticker t ?us) (MarketOrderBook_new climits (of_nat t)) = Inr mb" "mob_rel (ME_MAX_ORDER_IDS climits) mb (book_view ?A)"
    using feed_replicates [OF _ _ assms(7)] inv by blast
  ultimately show ?thesis by blast
qed

theorem exchange_feeds_clients_witness:
  "\<exists>x d us mb A. exchange_run example_env [example_request] [d] x \<and> d = encode_all (mdp_numbered 1 us) \<and>
     rfold client_apply (of_ticker 0 us) (MarketOrderBook_new small_limits 0) = Inr mb \<and>
     me_rel 4 8 (arr_get (ticker_order_book (ex_engine x)) 0) A \<and> mob_rel 8 mb (book_view A)"
proof -
  obtain x d where x: "exchange_run example_env [example_request] [d] x" "lfq_items (outgoing_md_updates (ex_engine x)) = []" by (rule example_run)
  have "client_room 8 (MarketOrderBook_new small_limits 0) empty_book 10"
    by (simp add: client_room_def empty_book_def ab_orders_def MarketOrderBook_new_def small_limits_def)
  then have "feed_fits 8 (MarketOrderBook_new small_limits 0) 0 [example_request] start_books" by (simp add: example_request_def new_request_def)
  moreover have "env_limits example_env = small_limits" "0 < ME_MAX_PRICE_LEVELS small_limits" by (simp_all add: example_env_def small_limits_def)
  ultimately have "\<exists>us mb A. d = encode_all (mdp_numbered 1 us) \<and> rfold client_apply (of_ticker 0 us) (MarketOrderBook_new small_limits 0) = Inr mb \<and>
     me_rel 4 8 (arr_get (ticker_order_book (ex_engine x)) 0) A \<and> mob_rel 8 mb (book_view A)"
    using exchange_feeds_clients [OF x(1) example_env_ok _ x(2), of 0 small_limits] by (simp add: small_sizes)
  then show ?thesis using x(1) by blast
qed



end
