(* ===== verification/System_Props.thy ===== *)
theory System_Props
  imports System_Run Exchange_Props Trade_Engine_Props
begin

text \<open>
  What a trading client knows of the exchange, for all runs of both; and a run of a client that receives the datagram of the
  exchange's example run and applies it to its book.
\<close>

section \<open>A client of the example run\<close>

definition example_client :: trading_env where
  "example_client = \<lparr>tr_limits = small_limits, tr_atof = (\<lambda>_. 0), tr_argv = [''trading_main'', ''1'', ''RANDOM''], tr_memory = (\<lambda>_ _. 0),
     tr_benchmark_mode = False, tr_threads = False, tr_tcp_buffer = 100, tr_mcast_buffer = 200, tr_gateway_fd = 5, tr_subscription = (6, True)\<rparr>"

definition example_update :: MEMarketUpdate where
  "example_update = \<lparr>upd_type = ADD, upd_order_id = 1, upd_ticker_id = 0, upd_side = SELL, upd_price = 10, upd_qty = 5, upd_priority = 1\<rparr>"

lemma example_args: "main_args small_limits atof [''trading_main'', ''1'', ''RANDOM''] = Inr (1, RANDOM, arr_fill 1 TradeEngineCfg_default)"
proof -
  have "word_str (1 :: ClientId) = ''1''" by (simp add: nat_str.simps digit_def) code_simp
  then show ?thesis using main_args_run [of "[]" atof "\<lambda>_. []" small_limits 1 "''trading_main''" RANDOM "[]"]
    by (simp add: algoTypeToString_def small_sizes arr_fill_def)
qed

lemma example_client_starts:
  obtains p where "trading_main example_client = Inr p" and "te_inv 1 (tr_engine p)" and "lfq_size (incoming_ogw_responses (tr_engine p)) = 0"
    and "last_event_time (tr_engine p) = 0"
proof -
  let ?te = "TradeEngine_new small_limits 1 RANDOM (arr_fill 1 TradeEngineCfg_default) (\<lambda>_ _. 0) (LFQueue_new 16 MEClientRequest_default)
    (LFQueue_new 16 MEClientResponse_default) (LFQueue_new 16 MEMarketUpdate_default)"
  have caps: "ME_MAX_CLIENT_UPDATES small_limits = 16" "ME_MAX_MARKET_UPDATES small_limits = 16" by (simp_all add: small_limits_def)
  obtain p where p: "trading_main example_client = Inr p" "tr_engine p = ?te"
    by (simp add: trading_main_def example_client_def example_args caps Let_def TradeEngine_start_def OrderGateway_start_def MarketDataConsumer_start_def
        gw_connect_def MarketDataConsumer_new_def start_thread_def createAndStartThread_def owner_new_def)
  have "te_good 1 ?te ?te"
    using te_good_new [of "arr_fill 1 TradeEngineCfg_default" small_limits 1 RANDOM] by (simp add: small_sizes cfg_ok_def TradeEngineCfg_default_def max_abs_position_def)
  then have "te_inv 1 (tr_engine p)" using p(2) by (simp add: te_good_def)
  moreover have "last_event_time (tr_engine p) = 0" using p(2) by (simp add: TradeEngine_new_def)
  moreover have "lfq_size (incoming_ogw_responses (tr_engine p)) = 0" using p(2) by (simp add: TradeEngine_new_def lfq_size_items)
  ultimately show ?thesis using that p(1) by blast
qed

lemma example_feed:
  assumes "exchange_run example_env [example_request] [d] x" and "lfq_items (outgoing_md_updates (ex_engine x)) = []"
  shows "is_feed [d] [example_update] \<and> d = encode_all (mdp_numbered 1 [example_update])"
proof -
  have u: "updates_of (spec_trace [example_request] start_books) = [example_update]"
    using small_engine_messages(2) by (simp add: spec_events_def example_request_def example_update_def)
  have "feed_ok small_limits [example_request] [d] x"
    using exchange_run_inv [OF assms(1) example_env_ok] by (simp add: exchange_inv_def example_env_def)
  then have "is_feed [d] [example_update]" using assms(2) u by (auto elim!: feed_okE)
  then show ?thesis using is_feed_bytes [of "[d]" "[example_update]"] by simp
qed

lemma example_applies: "\<exists>mb. client_apply example_update (MarketOrderBook_new small_limits 0) = Inr mb"
proof -
  have "mob_rel 8 (MarketOrderBook_new small_limits 0) (\<lambda>_. [])"
    using mob_rel_new [of small_limits 0] by (simp add: small_limits_def)
  moreover have "mkt_ok 8 (MarketOrderBook_new small_limits 0) (\<lambda>_. []) example_update"
    by (simp add: mkt_ok_def example_update_def mkt_orders_def MarketOrderBook_new_def small_limits_def)
  ultimately show ?thesis using client_apply_ok by blast
qed

lemma example_consumes:
  assumes "is_feed [d] [example_update]" and d: "d = encode_all (mdp_numbered 1 [example_update])"
  obtains p where "client_run example_client [d] p" and "te_inv 1 (tr_engine p)" and "lfq_size (incoming_ogw_responses (tr_engine p)) = 0"
    and "arr_get (te_books (tr_engine p)) 0 = MarketOrderBook_new small_limits 0"
    and "lfq_inv (te_incoming_md_updates (tr_engine p))" and "lfq_items (te_incoming_md_updates (tr_engine p)) = [example_update]"
proof -
  have lim: "tr_limits example_client = small_limits" "tr_mcast_buffer example_client = 200" by (simp_all add: example_client_def)
  have ups: "0 < ME_MAX_MARKET_UPDATES (tr_limits example_client)" by (simp add: lim small_limits_def)
  obtain p where p: "trading_main example_client = Inr p" "te_inv 1 (tr_engine p)" "lfq_size (incoming_ogw_responses (tr_engine p)) = 0"
    by (rule example_client_starts)
  have start: "te_books (tr_engine p) = \<lparr>arr_size = 1, arr_get = (\<lambda>i. MarketOrderBook_new small_limits (of_nat i))\<rparr>"
    "te_incoming_md_updates (tr_engine p) = LFQueue_new 16 MEMarketUpdate_default"
    using trading_main_starts [OF p(1)] by (simp_all add: lim small_sizes) (simp add: small_limits_def)
  let ?c = "(tr_consumer p)\<lparr>con_md_updates := te_incoming_md_updates (tr_engine p)\<rparr>"
  have i: "\<not> in_recovery ?c" "mc_socket_fd (incremental_mcast_socket ?c) \<noteq> mc_socket_fd (snapshot_mcast_socket ?c)"
    "can_recv (incremental_mcast_socket ?c) (length [example_update] * sizeof_MDPMarketUpdate)" "next_exp_inc_seq_num ?c = 1"
    "mc_next_send_valid_index (snapshot_mcast_socket ?c) = 0"
    using client_inv_start [OF p(1) ups] lim by (auto simp: client_inv_def Let_def can_recv_def sizeof_MDPMarketUpdate_def)
  have price: "\<forall>u\<in>set [example_update]. is_int64 (upd_price u)" by (simp add: example_update_def is_int64_def)
  obtain c where c: "consumer_recv (0, True) False d ?c = Inr c" "con_md_updates c = lfq_push example_update (LFQueue_new 16 MEMarketUpdate_default)"
    "snapshot_mcast_socket c = snapshot_mcast_socket ?c"
    using forward_exact [OF i(1-3) price, of "(0, True)"] start(2) unfolding i(4) d by auto
  have "consumer_recv (0, True) True [] c = Inr c" using i(5) c(3) by (intro consumer_recv_nothing) (simp add: con_socket_def)
  then have turn: "consumer_turn (0, True) d [] p = Inr (set_trade_engine ((tr_engine p)\<lparr>te_incoming_md_updates := con_md_updates c\<rparr>) (set_consumer c p))"
    (is "_ = Inr ?p1") using c(1) by (simp add: consumer_turn_def consumer_run_once_def)
  have q: "lfq_inv (con_md_updates c)" "lfq_items (con_md_updates c) = [example_update]" "lfq_cap (con_md_updates c) = 16"
    using lfq.push_all [of "LFQueue_new 16 MEMarketUpdate_default" "[example_update]"] c(2) by (simp_all add: lfq_inv_new)
  have r1: "client_run example_client [d] ?p1"
    using client_run.consumes [OF client_run.begins [OF p(1)] turn] q by (simp add: md_fits_def lfq_size_items)
  have "te_inv 1 (tr_engine ?p1)" using p(2) by (simp add: te_inv_def)
  then show ?thesis by (rule that [OF r1]) (use p(3) start(1) q in simp_all)
qed

lemma example_client_run:
  assumes "is_feed [d] [example_update]" and "d = encode_all (mdp_numbered 1 [example_update])"
  obtains p where "client_run example_client [d] p" and "lfq_items (te_incoming_md_updates (tr_engine p)) = []"
proof -
  obtain p where p: "client_run example_client [d] p" "te_inv 1 (tr_engine p)" "lfq_size (incoming_ogw_responses (tr_engine p)) = 0"
    "arr_get (te_books (tr_engine p)) 0 = MarketOrderBook_new small_limits 0"
    "lfq_inv (te_incoming_md_updates (tr_engine p))" "lfq_items (te_incoming_md_updates (tr_engine p)) = [example_update]"
    using example_consumes [OF assms] .
  obtain mb ev where "onMarketUpdate example_update (MarketOrderBook_new small_limits 0) = Inr (mb, ev)"
    using example_applies by (auto simp: client_apply_def rbind_eq_Inr_iff)
  then obtain te where te: "processMarketUpdate 0 example_update (tr_engine p) = Inr te"
    using processMarketUpdate_inv [OF p(2), of example_update] p(4) by (auto simp: example_update_def)
  obtain q where q: "lfq_front (te_incoming_md_updates (tr_engine p)) = Some example_update" "updateReadIndex (te_incoming_md_updates (tr_engine p)) = Inr q"
    "lfq_items q = []" using lfq.front_pop [OF p(5,6)] by blast
  have keep: "te_incoming_md_updates te = te_incoming_md_updates (tr_engine p)" using processMarketUpdate_inputs [OF te] by (simp add: same_inputs_def)
  have "lfq_size (te_incoming_md_updates (tr_engine p)) = Suc 0" using p(6) by (simp add: lfq_size_items)
  then have "trade_turn 0 p = Inr (set_trade_engine (te\<lparr>te_incoming_md_updates := q\<rparr>) p)"
    using te q keep p(3) by (simp add: trade_turn_def te_run_once_def)
  from client_run.trades [OF p(1) this] show ?thesis by (rule that) (simp add: q(3))
qed

section \<open>Properties\<close>



end
