(* ===== verification/Shutdown.thy ===== *)
theory Shutdown
  imports System_Props
begin

text \<open>
  How the processes end.  The main function of a trading client (\<open>trading/trading_main.cpp\<close>) stops the trade engine, the market data consumer and the order gateway, one after the other,
  and then deletes them; the signal handler of the exchange (\<open>exchange/exchange_main.cpp\<close>) deletes its components, whose destructors call \<open>stop()\<close>.  The threads go on
  meanwhile: every step of a thread is a read of its flag or a turn on the shared queues.
\<close>

section \<open>Steps of a thread and of a call of stop\<close>

text \<open>A read of the flag, with which the thread enters an iteration or leaves the loop.\<close>

inductive reads_flag :: "'c owner \<Rightarrow> 'c owner \<Rightarrow> bool" where
  goes_on: "t < length (workers x) \<Longrightarrow> workers x ! t = Checking \<Longrightarrow> run_flag x \<Longrightarrow> reads_flag x (x\<lparr>workers := (workers x)[t := Working]\<rparr>)"
| returns: "t < length (workers x) \<Longrightarrow> workers x ! t = Checking \<Longrightarrow> \<not> run_flag x \<Longrightarrow> reads_flag x (x\<lparr>workers := (workers x)[t := Returned]\<rparr>)"

definition in_iteration :: "nat \<Rightarrow> 'c owner \<Rightarrow> bool" where
  "in_iteration t x \<longleftrightarrow> t < length (workers x) \<and> workers x ! t = Working"

definition end_iteration :: "nat \<Rightarrow> 'c owner \<Rightarrow> 'c owner" where
  "end_iteration t x = x\<lparr>workers := (workers x)[t := Checking]\<rparr>"

inductive stop_proceeds :: "('c \<Rightarrow> bool) \<Rightarrow> 'c owner \<Rightarrow> 'c owner \<Rightarrow> bool" for drained where
  sees_empty: "owner_state x = Draining \<Longrightarrow> drained (component x) \<Longrightarrow> stop_proceeds drained x (after_drain x)"
| joins: "owner_state x = Joining \<Longrightarrow> thread_ptr x = Some t \<Longrightarrow> workers x ! t = Returned \<Longrightarrow> stop_proceeds drained x (after_join x)"

text \<open>What a step of the threads leaves as it is for the owner.\<close>

definition thread_moves :: "'c owner \<Rightarrow> 'c owner \<Rightarrow> bool" where
  "thread_moves x y \<longleftrightarrow> owner_state y = owner_state x \<and> thread_ptr y = thread_ptr x \<and> (one_thread x \<longrightarrow> one_thread y)"

lemma thread_moves_refl [simp]: "thread_moves x x"
  by (simp add: thread_moves_def)

lemma thread_moves_component [simp]: "thread_moves x (x\<lparr>component := c\<rparr>)"
  by (simp add: thread_moves_def one_thread_def)

lemma thread_moves_flag: "reads_flag x y \<Longrightarrow> thread_moves x y"
  by (induction rule: reads_flag.induct) (auto simp: thread_moves_def one_thread_def nth_list_update)

lemma thread_moves_iteration: "in_iteration t x \<Longrightarrow> thread_moves x (end_iteration t (x\<lparr>component := c\<rparr>))"
  by (auto simp: thread_moves_def in_iteration_def end_iteration_def one_thread_def nth_list_update)

text \<open>A call of \<open>stop()\<close> that has returned leaves no thread; while the call lasts, the owner waits.\<close>

definition stopped :: "'c owner \<Rightarrow> bool" where
  "stopped x \<longleftrightarrow> owner_state x = Idle \<and> thread_ptr x = None"

definition in_stop :: "'c owner \<Rightarrow> bool" where
  "in_stop x \<longleftrightarrow> (owner_state x = Idle \<longrightarrow> thread_ptr x = None)"

lemma stopped_moves: "thread_moves x y \<Longrightarrow> stopped y = stopped x" "thread_moves x y \<Longrightarrow> in_stop y = in_stop x"
  by (simp_all add: thread_moves_def stopped_def in_stop_def)

lemma started_new: "started (owner_new c) y \<Longrightarrow> one_thread y \<and> owner_state y = Idle"
  by (auto simp: started_def one_thread_def owner_new_def)

lemma stop_enters:
  assumes "one_thread x" and "owner_state x = Idle"
  shows "one_thread (stop_joins x) \<and> in_stop (stop_joins x)" and "one_thread (stop_drains x) \<and> in_stop (stop_drains x)"
  using assms by (auto simp: one_thread_def in_stop_def stop_joins_def stop_drains_def)

lemma stop_goes_on:
  assumes "stop_proceeds drained x y" and "one_thread x"
  shows "one_thread y \<and> in_stop y"
  using assms by induction (auto simp: one_thread_def in_stop_def after_drain_def after_join_def)

lemma in_stop_Idle: "in_stop x \<Longrightarrow> owner_state x = Idle \<Longrightarrow> stopped x"
  by (simp add: in_stop_def stopped_def)

lemma stopped_returned: "one_thread x \<Longrightarrow> stopped x \<Longrightarrow> w \<in> set (workers x) \<Longrightarrow> w = Returned"
  using one_thread_returned [of x w] by (simp add: stopped_def)

lemma stopped_quiet:
  assumes "one_thread x" and "stopped x"
  shows "\<not> reads_flag x y" and "\<not> in_iteration t x"
  using stopped_returned [OF assms] by (auto simp: in_iteration_def elim!: reads_flag.cases dest!: nth_mem) (metis worker.distinct)+

lemma stopped_again: "stopped x \<Longrightarrow> stopped (stop_joins x) \<and> stopped (stop_drains x)"
  by (simp add: stopped_def stop_joins_def stop_drains_def)

section \<open>The main function of a client\<close>

text \<open>Before the calls of \<open>stop()\<close>, inside each of them, and after the last.\<close>

datatype main_state = Main_Waiting | Main_Engine | Main_Consumer | Main_Gateway | Main_Stopped

inductive main_step :: "main_state \<times> trading_process \<Rightarrow> main_state \<times> trading_process \<Rightarrow> bool" where
  engine_flag: "reads_flag (trade_engine p) te \<Longrightarrow> main_step (m, p) (m, p\<lparr>trade_engine := te\<rparr>)"
| engine_turn: "in_iteration t (trade_engine p) \<Longrightarrow> trade_turn now p = Inr p' \<Longrightarrow>
    main_step (m, p) (m, p'\<lparr>trade_engine := end_iteration t (trade_engine p')\<rparr>)"
| consumer_flag: "reads_flag (market_data_consumer p) c \<Longrightarrow> main_step (m, p) (m, p\<lparr>market_data_consumer := c\<rparr>)"
| consumer_turn: "in_iteration t (market_data_consumer p) \<Longrightarrow> consumer_turn sub inc snap p = Inr p' \<Longrightarrow>
    main_step (m, p) (m, p'\<lparr>market_data_consumer := end_iteration t (market_data_consumer p')\<rparr>)"
| gateway_flag: "reads_flag (order_gateway p) gw \<Longrightarrow> main_step (m, p) (m, p\<lparr>order_gateway := gw\<rparr>)"
| gateway_turn: "in_iteration t (order_gateway p) \<Longrightarrow> gateway_turn recvs sends p = Inr (p', out) \<Longrightarrow>
    main_step (m, p) (m, p'\<lparr>order_gateway := end_iteration t (order_gateway p')\<rparr>)"
| inits: "main_step (Main_Waiting, p) (Main_Waiting, main_init now p)"
| sends: "main_step (Main_Waiting, p) (Main_Waiting, main_sends r p)"
| silent: "\<not> main_waits now p \<Longrightarrow> main_step (Main_Waiting, p) (Main_Engine, p\<lparr>trade_engine := TradeEngine_stop (trade_engine p)\<rparr>)"
| engine_proceeds: "stop_proceeds te_drained (trade_engine p) te \<Longrightarrow> main_step (Main_Engine, p) (Main_Engine, p\<lparr>trade_engine := te\<rparr>)"
| engine_stopped: "owner_state (trade_engine p) = Idle \<Longrightarrow>
    main_step (Main_Engine, p) (Main_Consumer, p\<lparr>market_data_consumer := MarketDataConsumer_stop (market_data_consumer p)\<rparr>)"
| consumer_proceeds: "stop_proceeds (\<lambda>_. True) (market_data_consumer p) c \<Longrightarrow> main_step (Main_Consumer, p) (Main_Consumer, p\<lparr>market_data_consumer := c\<rparr>)"
| consumer_stopped: "owner_state (market_data_consumer p) = Idle \<Longrightarrow>
    main_step (Main_Consumer, p) (Main_Gateway, p\<lparr>order_gateway := OrderGateway_stop (order_gateway p)\<rparr>)"
| gateway_proceeds: "stop_proceeds (\<lambda>_. True) (order_gateway p) gw \<Longrightarrow> main_step (Main_Gateway, p) (Main_Gateway, p\<lparr>order_gateway := gw\<rparr>)"
| gateway_stopped: "owner_state (order_gateway p) = Idle \<Longrightarrow> main_step (Main_Gateway, p) (Main_Stopped, p)"

inductive main_reach :: "trading_env \<Rightarrow> main_state \<times> trading_process \<Rightarrow> bool" for env where
  begins: "trading_main env = Inr p \<Longrightarrow> main_reach env (Main_Waiting, p)"
| steps: "main_reach env s \<Longrightarrow> main_step s s' \<Longrightarrow> main_reach env s'"

subsection \<open>The invariant\<close>

definition one_thread_each :: "trading_process \<Rightarrow> bool" where
  "one_thread_each p \<longleftrightarrow> one_thread (trade_engine p) \<and> one_thread (market_data_consumer p) \<and> one_thread (order_gateway p)"

fun main_inv :: "main_state \<times> trading_process \<Rightarrow> bool" where
  "main_inv (m, p) \<longleftrightarrow> one_thread_each p \<and>
     (case m of
        Main_Waiting \<Rightarrow> owner_state (trade_engine p) = Idle \<and> owner_state (market_data_consumer p) = Idle \<and> owner_state (order_gateway p) = Idle
      | Main_Engine \<Rightarrow> in_stop (trade_engine p) \<and> owner_state (market_data_consumer p) = Idle \<and> owner_state (order_gateway p) = Idle
      | Main_Consumer \<Rightarrow> stopped (trade_engine p) \<and> in_stop (market_data_consumer p) \<and> owner_state (order_gateway p) = Idle
      | Main_Gateway \<Rightarrow> stopped (trade_engine p) \<and> stopped (market_data_consumer p) \<and> in_stop (order_gateway p)
      | Main_Stopped \<Rightarrow> stopped (trade_engine p) \<and> stopped (market_data_consumer p) \<and> stopped (order_gateway p))"

definition all_move :: "trading_process \<Rightarrow> trading_process \<Rightarrow> bool" where
  "all_move p p' \<longleftrightarrow> thread_moves (trade_engine p) (trade_engine p') \<and> thread_moves (market_data_consumer p) (market_data_consumer p') \<and>
     thread_moves (order_gateway p) (order_gateway p')"

lemma main_inv_moves:
  assumes "main_inv (m, p)" and "all_move p p'"
  shows "main_inv (m, p')"
  using assms unfolding all_move_def
  by (cases m) (auto simp: one_thread_each_def stopped_def in_stop_def thread_moves_def)

lemma main_start_inv:
  assumes "trading_main env = Inr p"
  shows "main_inv (Main_Waiting, p)"
proof -
  obtain te gw c te0 gw0 c0 where p: "p = \<lparr>trade_engine = te, order_gateway = gw, market_data_consumer = c\<rparr>"
    "TradeEngine_start (tr_benchmark_mode env) (tr_threads env) (\<lambda>_. True) (-1) (owner_new te0) = Inr te"
    "OrderGateway_start (tr_gateway_fd env) (\<lambda>_. True) (-1) (owner_new gw0) = Inr gw" "MarketDataConsumer_start (\<lambda>_. True) (-1) (owner_new c0) = Inr c"
    using assms by (auto simp: trading_main_def Let_def rbind_eq_Inr_iff)
  show ?thesis
    using started_new [OF trade.start_starts [OF p(2)]] started_new [OF gateway.start_starts [OF p(3)]] started_new [OF consumer.start_starts [OF p(4)]] p(1)
    by (simp add: one_thread_each_def)
qed

lemma main_step_inv: "main_step s s' \<Longrightarrow> main_inv s \<Longrightarrow> main_inv s'"
proof (induction rule: main_step.induct)
  case (engine_turn t p now p' m)
  then show ?case by (elim main_inv_moves)
      (auto simp: all_move_def trade_turn_def rbind_eq_Inr_iff set_trade_engine_def thread_moves_iteration)
next
  case (consumer_turn t p sub inc snap p' m)
  then show ?case by (elim main_inv_moves)
      (auto simp: all_move_def consumer_turn_def rbind_eq_Inr_iff set_trade_engine_def set_consumer_def thread_moves_iteration)
next
  case (gateway_turn t p recvs sends p' out m)
  then show ?case by (elim main_inv_moves)
      (auto simp: all_move_def gateway_turn_def rbind_eq_Inr_iff set_trade_engine_def set_gateway_def thread_moves_iteration)
next
  case (inits p now)
  then show ?case by (elim main_inv_moves) (simp add: all_move_def main_init_def set_trade_engine_def)
next
  case (sends p r)
  then show ?case by (elim main_inv_moves) (simp add: all_move_def main_sends_def set_trade_engine_def)
next
  case (engine_flag p te m)
  then show ?case by (elim main_inv_moves) (simp add: all_move_def thread_moves_flag)
next
  case (consumer_flag p c m)
  then show ?case by (elim main_inv_moves) (simp add: all_move_def thread_moves_flag)
next
  case (gateway_flag p gw m)
  then show ?case by (elim main_inv_moves) (simp add: all_move_def thread_moves_flag)
qed (auto simp: one_thread_each_def TradeEngine_stop_def MarketDataConsumer_stop_def OrderGateway_stop_def stop_enters dest: stop_goes_on in_stop_Idle)

lemma main_reach_inv: "main_reach env s \<Longrightarrow> main_inv s"
  by (induction rule: main_reach.induct) (auto dest: main_start_inv main_step_inv simp del: main_inv.simps)

section \<open>The signal handler of the exchange\<close>

text \<open>
  Before the signal, inside the destructors of the matching engine, the publisher and the order server, and after them.  The destructor of the publisher does not wait for
  the two threads it stops.
\<close>

datatype handler_state = Handler_None | Handler_Engine | Handler_Publisher | Handler_Server | Handler_Done

definition map_publisher :: "(MarketDataPublisher owner \<Rightarrow> MarketDataPublisher owner) \<Rightarrow> exchange_process \<Rightarrow> exchange_process" where
  "map_publisher f x = x\<lparr>market_data_publisher := (f (fst (market_data_publisher x)), snd (market_data_publisher x))\<rparr>"

definition map_synthesizer :: "(SnapshotSynthesizer owner \<Rightarrow> SnapshotSynthesizer owner) \<Rightarrow> exchange_process \<Rightarrow> exchange_process" where
  "map_synthesizer f x = x\<lparr>market_data_publisher := (fst (market_data_publisher x), f (snd (market_data_publisher x)))\<rparr>"

inductive handler_step :: "handler_state \<times> exchange_process \<Rightarrow> handler_state \<times> exchange_process \<Rightarrow> bool" where
  matcher_flag: "reads_flag (matching_engine x) e \<Longrightarrow> handler_step (h, x) (h, x\<lparr>matching_engine := e\<rparr>)"
| matcher_turn: "in_iteration t (matching_engine x) \<Longrightarrow> engine_turn x = Inr x' \<Longrightarrow>
    handler_step (h, x) (h, x'\<lparr>matching_engine := end_iteration t (matching_engine x')\<rparr>)"
| publisher_flag: "reads_flag (fst (market_data_publisher x)) p \<Longrightarrow> handler_step (h, x) (h, map_publisher (\<lambda>_. p) x)"
| publisher_turn: "in_iteration t (fst (market_data_publisher x)) \<Longrightarrow> publisher_turn rcv x = Inr (x', d) \<Longrightarrow>
    handler_step (h, x) (h, map_publisher (end_iteration t) x')"
| synthesizer_flag: "reads_flag (snd (market_data_publisher x)) s \<Longrightarrow> handler_step (h, x) (h, map_synthesizer (\<lambda>_. s) x)"
| synthesizer_turn: "in_iteration t (snd (market_data_publisher x)) \<Longrightarrow> synthesizer_turn now now' x = Inr (x', ds) \<Longrightarrow>
    handler_step (h, x) (h, map_synthesizer (end_iteration t) x')"
| server_flag: "reads_flag (order_server x) s \<Longrightarrow> handler_step (h, x) (h, x\<lparr>order_server := s\<rparr>)"
| server_turn: "in_iteration t (order_server x) \<Longrightarrow> server_turn srt n i x = Inr (x', wires) \<Longrightarrow>
    handler_step (h, x) (h, x'\<lparr>order_server := end_iteration t (order_server x')\<rparr>)"
| signalled: "handler_step (Handler_None, x) (Handler_Engine, x\<lparr>matching_engine := MatchingEngine_stop (matching_engine x)\<rparr>)"
| matcher_proceeds: "stop_proceeds (\<lambda>_. True) (matching_engine x) e \<Longrightarrow> handler_step (Handler_Engine, x) (Handler_Engine, x\<lparr>matching_engine := e\<rparr>)"
| matcher_deleted: "owner_state (matching_engine x) = Idle \<Longrightarrow>
    handler_step (Handler_Engine, x) (Handler_Publisher, x\<lparr>market_data_publisher := MarketDataPublisher_stop (market_data_publisher x)\<rparr>)"
| publisher_deleted: "handler_step (Handler_Publisher, x) (Handler_Server, x\<lparr>order_server := OrderServer_stop (order_server x)\<rparr>)"
| server_proceeds: "stop_proceeds (\<lambda>_. True) (order_server x) s \<Longrightarrow> handler_step (Handler_Server, x) (Handler_Server, x\<lparr>order_server := s\<rparr>)"
| server_deleted: "owner_state (order_server x) = Idle \<Longrightarrow> handler_step (Handler_Server, x) (Handler_Done, x)"

inductive handler_reach :: "exchange_env \<Rightarrow> handler_state \<times> exchange_process \<Rightarrow> bool" for env where
  begins: "exchange_main env = Inr x \<Longrightarrow> handler_reach env (Handler_None, x)"
| steps: "handler_reach env s \<Longrightarrow> handler_step s s' \<Longrightarrow> handler_reach env s'"

fun handler_inv :: "handler_state \<times> exchange_process \<Rightarrow> bool" where
  "handler_inv (h, x) \<longleftrightarrow> one_thread (matching_engine x) \<and> one_thread (order_server x) \<and>
     (case h of
        Handler_None \<Rightarrow> owner_state (matching_engine x) = Idle \<and> owner_state (order_server x) = Idle
      | Handler_Engine \<Rightarrow> in_stop (matching_engine x) \<and> owner_state (order_server x) = Idle
      | Handler_Publisher \<Rightarrow> stopped (matching_engine x) \<and> owner_state (order_server x) = Idle
      | Handler_Server \<Rightarrow> stopped (matching_engine x) \<and> in_stop (order_server x)
      | Handler_Done \<Rightarrow> stopped (matching_engine x) \<and> stopped (order_server x))"

lemma handler_inv_moves:
  assumes "handler_inv (h, x)" and "thread_moves (matching_engine x) (matching_engine x')" and "thread_moves (order_server x) (order_server x')"
  shows "handler_inv (h, x')"
  using assms by (cases h) (auto simp: stopped_def in_stop_def thread_moves_def)

lemma handler_start_inv:
  assumes "exchange_main env = Inr x"
  shows "handler_inv (Handler_None, x)"
proof -
  obtain e s e0 s0 where x: "matching_engine x = e" "order_server x = s"
    "MatchingEngine_start (env_benchmark_mode env) (env_threads env) (\<lambda>_. True) (-1) (owner_new e0) = Inr e"
    "OrderServer_start (env_epoll_fd env) (env_listener_fd env) (env_epoll_ok env) (\<lambda>_. True) (-1) (owner_new s0) = Inr s"
    using assms by (auto simp: exchange_main_def Let_def rbind_eq_Inr_iff)
  show ?thesis
    using started_new [OF matching.start_starts [OF x(3)]] started_new [OF server.start_starts [OF x(4)]] x(1,2) by simp
qed

lemma handler_step_inv: "handler_step s s' \<Longrightarrow> handler_inv s \<Longrightarrow> handler_inv s'"
proof (induction rule: handler_step.induct)
  case (matcher_turn t x x' h)
  then show ?case by (elim handler_inv_moves) (auto simp: engine_turn_def rbind_eq_Inr_iff set_engine_def thread_moves_iteration)
next
  case (publisher_turn t x rcv x' d h)
  then show ?case by (elim handler_inv_moves) (auto simp: publisher_turn_def rbind_eq_Inr_iff set_engine_def set_publisher_def map_publisher_def)
next
  case (synthesizer_turn t x now now' x' ds h)
  then show ?case by (elim handler_inv_moves) (auto simp: synthesizer_turn_def rbind_eq_Inr_iff set_publisher_def set_synthesizer_def map_synthesizer_def)
next
  case (server_turn t x srt n i x' wires h)
  then show ?case by (elim handler_inv_moves) (auto simp: server_turn_def rbind_eq_Inr_iff set_engine_def set_server_def thread_moves_iteration)
next
  case (matcher_flag x e h)
  then show ?case by (elim handler_inv_moves) (simp_all add: thread_moves_flag)
next
  case (publisher_flag x p h)
  then show ?case by (elim handler_inv_moves) (simp_all add: map_publisher_def)
next
  case (synthesizer_flag x s h)
  then show ?case by (elim handler_inv_moves) (simp_all add: map_synthesizer_def)
next
  case (server_flag x s h)
  then show ?case by (elim handler_inv_moves) (simp_all add: thread_moves_flag)
qed (auto simp: MatchingEngine_stop_def OrderServer_stop_def stop_enters dest: stop_goes_on in_stop_Idle)

lemma handler_reach_inv: "handler_reach env s \<Longrightarrow> handler_inv s"
  by (induction rule: handler_reach.induct) (auto dest: handler_start_inv handler_step_inv simp del: handler_inv.simps)

section \<open>Examples\<close>

lemma started_phase:
  assumes "started (owner_new c0) y"
  shows "y = phase (component y) True Checking Idle"
  using assms by (cases y) (simp add: started_def owner_new_def phase_def)

lemma phase_stops:
  "stop_joins (phase c True Checking Idle) = phase c False Checking Joining" "stop_drains (phase c True Checking Idle) = phase c True Checking Draining"
  "after_drain (phase c True Checking Draining) = phase c False Checking Joining" "owner_state (after_join (phase c r w s)) = Idle"
  by (simp_all add: stop_joins_def stop_drains_def after_drain_def after_join_def phase_def)

lemma phase_flag: "reads_flag (phase c False Checking s) (phase c False Returned s)" "reads_flag (phase c True Checking s) (phase c True Working s)"
  using reads_flag.returns [of 0 "phase c False Checking s"] reads_flag.goes_on [of 0 "phase c True Checking s"] by (simp_all add: phase_def)

lemma phase_proceeds:
  "drained c \<Longrightarrow> stop_proceeds drained (phase c True Checking Draining) (phase c False Checking Joining)"
  "stop_proceeds drained (phase c False Returned Joining) (after_join (phase c False Returned Joining))"
  using stop_proceeds.sees_empty [of "phase c True Checking Draining" drained] stop_proceeds.joins [of "phase c False Returned Joining" 0 drained]
  by (simp_all add: phase_stops)

text \<open>A client that is silent and has nothing in its queues stops.\<close>

lemma idle_client_stops:
  assumes "main_reach env (Main_Waiting, \<lparr>trade_engine = phase te True Checking Idle, order_gateway = phase gw True Checking Idle, market_data_consumer = phase c True Checking Idle\<rparr>)"
    and "te_drained te" and "60 \<le> silentSeconds now te"
  shows "main_reach env (Main_Stopped, \<lparr>trade_engine = after_join (phase te False Returned Joining), order_gateway = after_join (phase gw False Returned Joining),
     market_data_consumer = after_join (phase c False Returned Joining)\<rparr>)"
proof -
  let ?p = "\<lambda>a b c. \<lparr>trade_engine = a, order_gateway = b, market_data_consumer = c\<rparr>"
  let ?I = "phase gw True Checking Idle" and ?J = "phase c True Checking Idle"
  let ?T = "after_join (phase te False Returned Joining)" and ?C = "after_join (phase c False Returned Joining)"
  note step = main_reach.steps
  have "main_reach env (Main_Engine, ?p (phase te True Checking Draining) ?I ?J)"
    using step [OF assms(1) main_step.silent [of now]] assms(3) by (simp add: main_waits_def TradeEngine_stop_def phase_stops)
  from step [OF this main_step.engine_proceeds [of _ "phase te False Checking Joining"]]
  have "main_reach env (Main_Engine, ?p (phase te False Checking Joining) ?I ?J)" using assms(2) by (simp add: phase_proceeds)
  from step [OF this main_step.engine_flag [of _ "phase te False Returned Joining"]]
  have "main_reach env (Main_Engine, ?p (phase te False Returned Joining) ?I ?J)" by (simp add: phase_flag)
  from step [OF this main_step.engine_proceeds [of _ ?T]] have "main_reach env (Main_Engine, ?p ?T ?I ?J)" by (simp add: phase_proceeds)
  from step [OF this main_step.engine_stopped] have "main_reach env (Main_Consumer, ?p ?T ?I (phase c False Checking Joining))"
    by (simp add: MarketDataConsumer_stop_def phase_stops)
  from step [OF this main_step.consumer_flag [of _ "phase c False Returned Joining"]]
  have "main_reach env (Main_Consumer, ?p ?T ?I (phase c False Returned Joining))" by (simp add: phase_flag)
  from step [OF this main_step.consumer_proceeds [of _ ?C]] have "main_reach env (Main_Consumer, ?p ?T ?I ?C)" by (simp add: phase_proceeds)
  from step [OF this main_step.consumer_stopped] have "main_reach env (Main_Gateway, ?p ?T (phase gw False Checking Joining) ?C)"
    by (simp add: OrderGateway_stop_def phase_stops)
  from step [OF this main_step.gateway_flag [of _ "phase gw False Returned Joining"]]
  have "main_reach env (Main_Gateway, ?p ?T (phase gw False Returned Joining) ?C)" by (simp add: phase_flag)
  from step [OF this main_step.gateway_proceeds [of _ "after_join (phase gw False Returned Joining)"]]
  have "main_reach env (Main_Gateway, ?p ?T (after_join (phase gw False Returned Joining)) ?C)" by (simp add: phase_proceeds)
  from step [OF this main_step.gateway_stopped] show ?thesis by (simp add: phase_stops)
qed

lemma trading_main_phases:
  assumes "trading_main env = Inr p"
  shows "p = \<lparr>trade_engine = phase (tr_engine p) True Checking Idle, order_gateway = phase (tr_gateway p) True Checking Idle,
     market_data_consumer = phase (tr_consumer p) True Checking Idle\<rparr>"
proof -
  obtain te gw c te0 gw0 c0 where p: "p = \<lparr>trade_engine = te, order_gateway = gw, market_data_consumer = c\<rparr>"
    "TradeEngine_start (tr_benchmark_mode env) (tr_threads env) (\<lambda>_. True) (-1) (owner_new te0) = Inr te"
    "OrderGateway_start (tr_gateway_fd env) (\<lambda>_. True) (-1) (owner_new gw0) = Inr gw" "MarketDataConsumer_start (\<lambda>_. True) (-1) (owner_new c0) = Inr c"
    using assms by (auto simp: trading_main_def Let_def rbind_eq_Inr_iff)
  show ?thesis
    using started_phase [OF trade.start_starts [OF p(2)]] started_phase [OF gateway.start_starts [OF p(3)]] started_phase [OF consumer.start_starts [OF p(4)]] p(1)
    by simp
qed

lemma exchange_main_phases:
  assumes "exchange_main env = Inr x"
  shows "matching_engine x = phase (ex_engine x) True Checking Idle \<and> workers (fst (market_data_publisher x)) = [Checking] \<and> run_flag (fst (market_data_publisher x))"
proof -
  obtain e e0 p where x: "matching_engine x = e" "MatchingEngine_start (env_benchmark_mode env) (env_threads env) (\<lambda>_. True) (-1) (owner_new e0) = Inr e"
    "start_detached (owner_new p) = Inr (fst (market_data_publisher x))"
    using assms by (auto simp: exchange_main_def Let_def rbind_eq_Inr_iff MarketDataPublisher_start_def)
  have "fst (market_data_publisher x) = (owner_new p)\<lparr>run_flag := True, workers := [Checking]\<rparr>"
    using x(3) by (simp add: start_detached_def createAndStartThread_def owner_new_def)
  then show ?thesis using started_phase [OF matching.start_starts [OF x(2)]] x(1) by simp
qed

text \<open>
  The exchange deletes its matching engine, and then its publisher while the publisher's thread is in an iteration.
\<close>

lemma exchange_stops_engine:
  assumes "exchange_main env = Inr x"
  shows "\<exists>y. handler_reach env (Handler_Publisher, y) \<and> workers (fst (market_data_publisher y)) = [Working]"
proof -
  let ?P = "fst (market_data_publisher x)" and ?e = "ex_engine x"
  note x = exchange_main_phases [OF assms] and step = handler_reach.steps
  let ?x = "map_publisher (\<lambda>_. ?P\<lparr>workers := [Working]\<rparr>) x"
  have e: "matching_engine ?x = phase ?e True Checking Idle" using x by (simp add: map_publisher_def)
  have "reads_flag ?P (?P\<lparr>workers := [Working]\<rparr>)" using reads_flag.goes_on [of 0 ?P] x by simp
  then have "handler_reach env (Handler_None, ?x)" by (intro step [OF handler_reach.begins [OF assms]] handler_step.publisher_flag)
  from step [OF this handler_step.signalled] have "handler_reach env (Handler_Engine, ?x\<lparr>matching_engine := phase ?e False Checking Joining\<rparr>)"
    by (simp add: e MatchingEngine_stop_def phase_stops)
  from step [OF this handler_step.matcher_flag [of _ "phase ?e False Returned Joining"]]
  have "handler_reach env (Handler_Engine, ?x\<lparr>matching_engine := phase ?e False Returned Joining\<rparr>)" by (simp add: phase_flag)
  from step [OF this handler_step.matcher_proceeds [of _ "after_join (phase ?e False Returned Joining)"]]
  have "handler_reach env (Handler_Engine, ?x\<lparr>matching_engine := after_join (phase ?e False Returned Joining)\<rparr>)" by (simp add: phase_proceeds)
  from step [OF this handler_step.matcher_deleted] show ?thesis
    by (auto simp: phase_stops map_publisher_def MarketDataPublisher_stop_def stop_detached_def intro!: exI)
qed

section \<open>Properties\<close>



text \<open>
  C26: The signal handler of the exchange deletes the matching engine when its thread has left its loop, and has waited for the thread of the
  order server when it is done.  The publisher, however, is deleted without waiting: there are runs in which its thread is in the middle of an iteration then.
\<close>

theorem exchange_shutdown:
  assumes "handler_reach env (h, x)"
  shows "(h \<in> {Handler_Publisher, Handler_Server, Handler_Done} \<longrightarrow> set (workers (matching_engine x)) \<subseteq> {Returned}) \<and>
     (h = Handler_Done \<longrightarrow> set (workers (order_server x)) \<subseteq> {Returned})"
proof -
  have i: "one_thread (matching_engine x)" "one_thread (order_server x)" "h \<in> {Handler_Publisher, Handler_Server, Handler_Done} \<Longrightarrow> stopped (matching_engine x)"
    "h = Handler_Done \<Longrightarrow> stopped (order_server x)"
    using handler_reach_inv [OF assms] by auto
  show ?thesis using stopped_returned [OF i(1)] stopped_returned [OF i(2)] i(3,4) by blast
qed

theorem exchange_shutdown_witness:
  "\<exists>x. handler_reach example_env (Handler_Publisher, x) \<and> set (workers (matching_engine x)) \<subseteq> {Returned} \<and> workers (fst (market_data_publisher x)) = [Working]"
proof -
  obtain x where "exchange_main example_env = Inr x" by (rule example_start)
  then obtain y where "handler_reach example_env (Handler_Publisher, y)" "workers (fst (market_data_publisher y)) = [Working]" using exchange_stops_engine by blast
  then show ?thesis using exchange_shutdown by blast
qed

theorem publisher_deleted_while_running:
  assumes "exchange_main env = Inr x"
  shows "\<exists>y. handler_reach env (Handler_Server, y) \<and> workers (fst (market_data_publisher y)) = [Working]"
proof -
  obtain y where y: "handler_reach env (Handler_Publisher, y)" "workers (fst (market_data_publisher y)) = [Working]" using exchange_stops_engine [OF assms] by blast
  show ?thesis using handler_reach.steps [OF y(1) handler_step.publisher_deleted] y(2) by (auto intro!: exI)
qed

end
