(* ===== verification/Spec2Isabelle.thy ===== *)
theory Spec2Isabelle
  imports Engine_Props Unordered_Map_Book Market_Data_Consumer Snapshot_Synthesizer Replication Trade_Engine_Props Order_Gateway
    Book_Print Lifecycle Trading_Main Socket_Setup Reporting RTT_Probe Tick_To_Trade Observers Shutdown
begin

text \<open>
  Verification of a low-latency exchange and its trading client, a C++ program (\<open>exchange/\<close>, \<open>trading/\<close> and \<open>common/\<close>).

  \<^bold>\<open>The program\<close>.  An exchange process and any number of client processes.  In a client, a trade engine keeps a copy of the
  exchange's order books, computes features from them and runs one trading algorithm, whose orders pass an order manager and a
  risk check.  Requests go over a lock-free queue to the order gateway, over TCP to the order server of the exchange, through
  a sequencer and another queue to the matching engine, which keeps one limit order book for each instrument.  Responses take the
  way back; market updates go over a third queue to the market data publisher, which numbers them and multicasts them, and to the
  snapshot synthesizer, which multicasts the whole state from time to time.  The market data consumer of a client forwards the
  numbered updates to its trade engine and recovers from a gap with a snapshot and the increments after it.

  \<^bold>\<open>How it is modelled\<close>.  Classes are records, enumerations and message kinds datatypes, machine integers words of their
  width (prices, which the code never brings near the ends of 64 bits except as a marker, are integers; floating point values of the
  strategies are real numbers with a not-a-number value where the code uses it).  Every operation is a function on
  explicit states with the result type \<open>'a res\<close>: \<open>Inl\<close> is the way the process ends (a failed \<open>ASSERT\<close>, \<open>FATAL\<close>, an uncaught exception, a null
  dereference, an index outside an array, an endless loop), \<open>Inr\<close> the new state.  Pointers are block numbers of a memory
  pool.  The operating system is an argument: what a read, a write, an \<open>accept\<close>, a clock or the counter returns is a parameter of the
  operation that asks for it; \<open>std::sort\<close> is a parameter with its contract \<open>std_sort\<close>.  Threads are step relations in
  which iterations of the run loops interleave with \<open>start()\<close> and \<open>stop()\<close>, and the two sides of a queue interleave at the granularity of
  its atomic operations.

  \<^bold>\<open>The theories\<close>.

  \<^item> \<open>LLT_Prelude\<close>: errors and results, arrays with bounds, the collections \<open>res_simps\<close>, \<open>view_simps\<close> and \<open>queue_simps\<close>.
    \<open>Order_Types\<close>: \<open>common/types.h\<close> and the message structures.  \<open>Wire\<close>: their byte layout, with round trips.
  \<^item> \<open>LF_Queue\<close> (\<open>common/lf_queue.h\<close>): the ring, its contract as the locale \<open>fifo_buffer\<close>, and the interleaving of producer and consumer.
    \<open>Mem_Pool\<close> (\<open>common/mem_pool.h\<close>, \<open>opt_mem_pool.h\<close>): both pools, with the locale \<open>allocator\<close>.
  \<^item> \<open>Circular_List\<close>, \<open>Price_Levels\<close>, \<open>Price_Levels_Rep\<close>, \<open>Price_Levels_Insert\<close>, \<open>Price_Levels_Remove\<close>, \<open>Book_Rep\<close>: the linked price levels
    that the order books of exchange and client share, up to the locale \<open>price_time_queues\<close> in which linking and unlinking an
    order are insertion into and removal from a sorted list.
  \<^item> \<open>ME_Order_Book\<close> (\<open>exchange/matcher/me_order_book.*\<close>), \<open>ME_Book_Inv\<close>, \<open>ME_Book_Spec\<close> (price-time priority on lists), \<open>ME_Book_Refine\<close> (the
    code refines it) and \<open>ME_Book_Props\<close>; \<open>Unordered_Map_Book\<close> (\<open>unordered_map_me_order_book.*\<close>): the variant over hash maps and
    when it answers like the array book; \<open>Book_Print\<close>: \<open>toString()\<close> of all books with its validity check.
  \<^item> \<open>Matching_Engine\<close>, \<open>Engine_Props\<close> (\<open>exchange/matcher/matching_engine.*\<close>): dispatch, reachable states.
  \<^item> \<open>Sockets\<close> (\<open>common/tcp_socket.*\<close>, \<open>mcast_socket.*\<close>, \<open>tcp_server.*\<close>), \<open>Socket_Setup\<close> (\<open>common/socket_utils.h\<close>): buffers, streams, framing;
    the system calls of \<open>createSocket()\<close>.
  \<^item> \<open>FIFO_Sequencer\<close>, \<open>Order_Server\<close> (\<open>exchange/order_server/\<close>), \<open>Order_Gateway\<close> and its benchmark probe \<open>RTT_Probe\<close> (\<open>trading/order_gw/\<close>): sequence
    numbers in both directions.
  \<^item> \<open>Market_Data_Publisher\<close>, \<open>Snapshot_Synthesizer\<close> (\<open>exchange/market_data/\<close>), \<open>Market_Data_Consumer\<close> (\<open>trading/market_data/\<close>): the two streams and recovery.
  \<^item> \<open>Market_Order_Book\<close>, \<open>Market_Book_Refine\<close> (\<open>trading/strategy/market_order_book.*\<close>), \<open>Replication\<close>: the client's book, and that it follows the exchange's.
  \<^item> \<open>Position_Keeper\<close>, \<open>Order_Manager\<close>, \<open>Strategies\<close>, \<open>Trade_Engine\<close>, \<open>Trade_Engine_Props\<close> (\<open>trading/strategy/\<close>): positions and
    profit, risk, orders, algorithms, and the engine with its position limit; \<open>Tick_To_Trade\<close>: its measurement in benchmark builds; \<open>Observers\<close>:
    the observers of consumer, engine, gateway and socket in benchmark builds, which change nothing (\<open>observers_transparent\<close>).  \<open>Trading_Main\<close> (\<open>trading/trading_main.cpp\<close>): command line and random algorithm.
  \<^item> \<open>Printing\<close>, \<open>Logger\<close> (\<open>common/logging.h\<close>, \<open>opt_logging.h\<close>, with the locale \<open>log_sink\<close>), \<open>Latency_Recorder\<close> (\<open>tsc_clock.h\<close>, \<open>latency_recorder.h\<close>),
    \<open>Reporting\<close> (\<open>perf_utils.h\<close>, \<open>time_utils.h\<close> and the reports of positions).
  \<^item> \<open>Threads\<close> (\<open>common/thread_utils.h\<close>, locales \<open>joining_owner\<close> and \<open>draining_owner\<close>) and \<open>Lifecycle\<close>: \<open>start()\<close> and \<open>stop()\<close> of every component.

  \<^item> \<open>Exchange_Main\<close> (\<open>exchange/exchange_main.cpp\<close>): the exchange process, its threads as turns on the shared queues.  \<open>Server_Queues\<close>: what a turn of the
    order server can do to them; \<open>Feed_Spec\<close>, \<open>Snapshot_Book\<close>: the messages and books that follow from a sequence of requests, for a client that
    applies the feed and for the synthesizer; \<open>Exchange_Run\<close>: the runs of the process and their invariant; \<open>Exchange_Props\<close>: the properties of all runs.
  \<^item> \<open>Trading_Process\<close> (\<open>trading/trading_main.cpp\<close>): the process of a trading client, its threads as turns on the shared queues; \<open>Client_Run\<close>: its runs on the incremental stream
    and their invariant; \<open>System_Run\<close>, \<open>System_Props\<close>: the exchange and a client together.  \<open>Shutdown\<close>: the end of \<open>trading_main.cpp\<close>
    and the signal handler of \<open>exchange_main.cpp\<close>, interleaved with the threads.

  \<^bold>\<open>What is shown\<close>.  The order book with its pools, circular lists and tables does what the list specification says, for adds and
  cancels, so that priority, conservation of quantity and uncrossedness carry over; its books stay well formed.  Queue and
  sockets deliver what was put into them, in order, in every interleaving and however the bytes are cut.  Every run of the exchange process, for every
  input from the network and every order of its threads' turns, follows the specification (\<open>exchange_follows_spec\<close>), and what it
  publishes shows its books, to clients that follow the increments (\<open>exchange_feeds_clients\<close>) and in the synthesizer's table
  (\<open>exchange_snapshot_shows_books\<close>).  In every run of exchange and client processes, a client's books are those that the exchange had at some
  earlier moment, and the current ones when it has received everything (\<open>client_sees_exchange\<close>).  The theorems of this theory compose the parts of both processes: a client's request is served and its responses come back to it (\<open>order_round_trip\<close>, and for batches
  \<open>requests_reach_sequencer\<close> and \<open>responses_reach_client\<close>); a client's book follows the exchange's through
  engine, publisher and consumer (\<open>client_book_follows_exchange\<close>); a consumer with a gap catches up from a snapshot
  (\<open>recovery_from_snapshot\<close>).  A trade engine never leaves its position limit, never gets stuck, and its profit is the mark to
  market of its fills.  Stopping a component ends and leaves nothing behind in its queues; a closed logger has written everything.  A client deletes its components only when all their threads
  have ended (\<open>client_shutdown_safe\<close>); the exchange does so for the matching engine and the order server (\<open>exchange_shutdown\<close>), and not for the publisher (\<open>publisher_deleted_while_running\<close>).

  \<^bold>\<open>Bounds\<close>.  Sizes are fields of \<open>Limits\<close>; \<open>default_limits\<close> has those of \<open>types.h\<close>, the examples use small ones.  Loops over a queue are bounded by the
  elements in it when the pass begins, which is what the code reads when no producer runs in between; the matching loop by the blocks of the order
  pool, each iteration but the last freeing one (\<open>match_loop_refines\<close>); the walks over levels and orders by the sizes of their pools
  (\<open>validity_check_passes\<close>).  Out of fuel is the error \<open>Diverges\<close>, so that every theorem with an \<open>Inr\<close> result shows that the fuel was enough.  The
  hypotheses of the theorems name what the code relies on and does not check: room in queues, pools and buffers, order identifiers
  inside the tables, and no two resting prices with the same level index.  What happens otherwise is stated too
  (\<open>lfq_push_full\<close>, \<open>allocate_last_block\<close>, \<open>colliding_prices_miss_match\<close>, \<open>cancel_out_of_range\<close>, \<open>clear_corrupts_book\<close>, \<open>unordered_map_cancel_rejected\<close>
  and others).

  \<^bold>\<open>Not modelled\<close>.  A signal that arrives while the exchange is still constructing its components, or on another thread than the main thread; a turn of a
  thread of a process is a whole iteration of its loop (the queues are shown to deliver in order at the granularity of their atomic operations, and
  the threads share nothing else); runs of a client with a gap are
  covered by the theorems about the consumer only (its books do not recover: \<open>clear_corrupts_book\<close>); the examples and
  benchmarks only drive the components; log lines of the components other than the ones named above; weak memory
  effects beyond the acquire and release order of the queue indices; rounding of floating point numbers.
\<close>

section \<open>Requests from the client to the exchange\<close>

text \<open>
  C12: Requests of a trade engine reach the sequencer of the exchange in order.  A pass of the gateway over its
  queue hands them to its socket behind what is still buffered; however the bytes are cut into reads
  on the way, the order server that expects the gateway's next number accepts all of them, in order and
  nothing else, and then expects the next number of the gateway after the pass.
\<close>

theorem requests_reach_sequencer:
  assumes "gw_ok gw" and "0 \<le> socket_fd (gw_tcp_socket gw)"
    and "sends_fit sends (length (pending_out (gw_tcp_socket gw)))" and "SendFailed \<notin> set sends"
    and "length (pending_out (gw_tcp_socket gw)) + sizeof_OMClientRequest * length (lfq_items (gw_outgoing_requests gw))
       \<le> length (outbound_data (gw_tcp_socket gw))"
    and "\<forall>r\<in>set (lfq_items (gw_outgoing_requests gw)). req_client_id r = gw_client_id gw \<and> is_int64 (req_price r)"
    and "client_ok s (unat (gw_client_id gw)) (next_outgoing_seq_num gw) srv"
    and "pending_size (fifo_sequencer srv) + length (lfq_items (gw_outgoing_requests gw)) \<le> arr_size (pending_client_requests (fifo_sequencer srv))"
  shows "\<exists>gw' out bytes srv'. gateway_run_once [] sends gw = Inr (gw', out) \<and>
     out @ pending_out (gw_tcp_socket gw') = pending_out (gw_tcp_socket gw) @ bytes \<and>
     lfq_items (gw_outgoing_requests gw') = [] \<and>
     (\<forall>reads. concat reads = bytes \<longrightarrow>
        frames_reads sizeof_OMClientRequest (\<lambda>m. handle_request s t (decode_request m)) reads srv = Inr ([], srv')) \<and>
     pending (fifo_sequencer srv') = pending (fifo_sequencer srv) @ map (\<lambda>r. \<lparr>recv_time = t, rt_request = r\<rparr>) (lfq_items (gw_outgoing_requests gw)) \<and>
     client_ok s (unat (gw_client_id gw)) (next_outgoing_seq_num gw') srv'"
proof -
  let ?rs = "lfq_items (gw_outgoing_requests gw)" and ?k = "next_outgoing_seq_num gw"
  obtain gw' out where gw': "gateway_run_once [] sends gw = Inr (gw', out)" "lfq_items (gw_outgoing_requests gw') = []"
    "next_outgoing_seq_num gw' = ?k + of_nat (length ?rs)"
    "out @ pending_out (gw_tcp_socket gw') = pending_out (gw_tcp_socket gw) @ request_bytes ?k ?rs"
    using gateway_pass [OF assms(1-5)] by blast
  obtain srv' where srv': "recv_requests s t (request_bytes ?k ?rs) srv = Inr ([], srv')"
    "client_ok s (unat (gw_client_id gw)) (?k + of_nat (length ?rs)) srv'"
    "pending (fifo_sequencer srv') = pending (fifo_sequencer srv) @ map (\<lambda>r. \<lparr>recv_time = t, rt_request = r\<rparr>) ?rs"
    using recv_numbered [OF assms(7) _ assms(8), of t] assms(6) by (auto simp: request_bytes_def)
  have "frames_reads sizeof_OMClientRequest (\<lambda>m. handle_request s t (decode_request m)) reads srv = Inr ([], srv')"
    if "concat reads = request_bytes ?k ?rs" for reads
    using srv'(1) that by (simp add: frames_reads_concat sizeof_OMClientRequest_def recv_requests_def)
  then show ?thesis
    using gw' srv'(2,3) by (intro exI [of _ gw'] exI [of _ out] exI [of _ "request_bytes ?k ?rs"] exI [of _ srv']) simp
qed

theorem requests_reach_sequencer_witness:
  "\<exists>gw' out bytes srv'. gateway_run_once [] [] a_gateway = Inr (gw', out) \<and> out @ pending_out (gw_tcp_socket gw') = bytes \<and>
     (\<forall>reads. concat reads = bytes \<longrightarrow>
        frames_reads sizeof_OMClientRequest (\<lambda>m. handle_request 1 9 (decode_request m)) reads small_server = Inr ([], srv')) \<and>
     pending (fifo_sequencer srv') = map (\<lambda>r. \<lparr>recv_time = 9, rt_request = r\<rparr>) [a_client_request 1, a_client_request 2]"
proof -
  have "fifo_sequencer small_server = a_sequencer" by (simp add: small_server_def OrderServer_new_def)
  moreover have "is_int64 10" "gw_client_id a_gateway = 1" "pending a_sequencer = []"
    by (simp_all add: is_int64_def a_gateway_def OrderGateway_new_def a_sequencer_facts)
  ultimately show ?thesis
    using requests_reach_sequencer [of a_gateway "[]" 1 small_server 9] small_server_client a_gateway_facts a_sequencer_facts
    by (auto simp: sizeof_OMClientRequest_def a_client_request_def)
qed

section \<open>Responses from the exchange to the client\<close>

lemma socket_bytes_client:
  assumes "can_send srv rs" and "arr_get (cid_tcp_socket srv) c = Some s"
    and "\<forall>d<arr_size (cid_tcp_socket srv). arr_get (cid_tcp_socket srv) d = Some s \<longrightarrow> d = c"
  shows "socket_bytes srv s rs = concat (map encode_response
     (numbered_responses (arr_get (cid_next_outgoing_seq_num srv) c) (filter (\<lambda>r. unat (rsp_client_id r) = c) rs)))"
proof -
  have "to_socket srv s r \<longleftrightarrow> unat (rsp_client_id r) = c" if "r \<in> set rs" for r
    using assms that by (auto simp: to_socket_def can_send_def)
  then have "filter (\<lambda>m. to_socket srv s (omrsp_response m)) (stamp f rs) =
      filter (\<lambda>m. unat (rsp_client_id (omrsp_response m)) = c) (stamp f rs)" for f
    by (intro filter_cong refl) (auto dest: stamp_clients)
  then show ?thesis by (simp add: socket_bytes_def stamp_client)
qed

lemma responses_run:
  assumes "lfq_inv (outgoing_responses srv)" and "lfq_items (outgoing_responses srv) = rs" and "can_send srv rs"
    and "c = unat (gw_client_id gw)" and "arr_get (cid_tcp_socket srv) c = Some s"
    and "\<forall>d<arr_size (cid_tcp_socket srv). arr_get (cid_tcp_socket srv) d = Some s \<longrightarrow> d = c"
    and "next_exp_seq_num gw = arr_get (cid_next_outgoing_seq_num srv) c" and "lfq_inv (gw_incoming_responses gw)"
    and "length (lfq_items (gw_incoming_responses gw)) + length rs \<le> lfq_cap (gw_incoming_responses gw)" and "\<forall>r\<in>set rs. is_int64 (rsp_price r)"
  shows "\<exists>srv' bytes gw'. send_responses (length rs) srv = Inr srv' \<and> lfq_items (outgoing_responses srv') = [] \<and>
     pending_out (tcp_sockets (tcp_server srv') s) = pending_out (tcp_sockets (tcp_server srv) s) @ bytes \<and>
     (\<forall>reads. concat reads = bytes \<longrightarrow>
        frames_reads sizeof_OMClientResponse (\<lambda>m gw. Inr (handle_response (decode_response m) gw)) reads gw = Inr ([], gw')) \<and>
     lfq_items (gw_incoming_responses gw') = lfq_items (gw_incoming_responses gw) @ filter (\<lambda>r. rsp_client_id r = gw_client_id gw) rs \<and>
     next_exp_seq_num gw' = arr_get (cid_next_outgoing_seq_num srv') c"
proof -
  let ?mine = "filter (\<lambda>r. unat (rsp_client_id r) = c) rs"
  have mine: "?mine = filter (\<lambda>r. rsp_client_id r = gw_client_id gw) rs" using assms(4) by (simp add: word_unat_eq_iff)
  obtain srv' where srv': "send_responses (length rs) srv = Inr srv'" "lfq_items (outgoing_responses srv') = []"
    "pending_out (tcp_sockets (tcp_server srv') s) = pending_out (tcp_sockets (tcp_server srv) s) @ socket_bytes srv s rs"
    "arr_get (cid_next_outgoing_seq_num srv') c = arr_get (cid_next_outgoing_seq_num srv) c + of_nat (length ?mine)"
    using send_responses_run [OF assms(1-3)] by blast
  have b: "socket_bytes srv s rs = concat (map encode_response (numbered_responses (next_exp_seq_num gw) ?mine))"
    using socket_bytes_client [OF assms(3,5,6)] assms(7) by simp
  have m: "\<forall>r\<in>set ?mine. rsp_client_id r = gw_client_id gw \<and> is_int64 (rsp_price r)" using assms(10) unfolding mine by auto
  have room: "lfq_size (gw_incoming_responses gw) + length ?mine \<le> lfq_cap (gw_incoming_responses gw)"
    using assms(9) length_filter_le [of "\<lambda>r. unat (rsp_client_id r) = c" rs] unfolding lfq_size_items by linarith
  obtain gw' where gw': "frames_reads sizeof_OMClientResponse (\<lambda>m gw. Inr (handle_response (decode_response m) gw)) [socket_bytes srv s rs] gw = Inr ([], gw')"
    "lfq_items (gw_incoming_responses gw') = lfq_items (gw_incoming_responses gw) @ ?mine"
    "next_exp_seq_num gw' = next_exp_seq_num gw + of_nat (length ?mine)"
    using forward_responses_run [of "[socket_bytes srv s rs]" gw ?mine, OF _ m assms(8) room] b by auto
  have "frames_reads sizeof_OMClientResponse (\<lambda>m gw. Inr (handle_response (decode_response m) gw)) reads gw = Inr ([], gw')"
    if "concat reads = socket_bytes srv s rs" for reads
    using gw'(1) that by (simp add: frames_reads_concat sizeof_OMClientResponse_def)
  then show ?thesis using srv' gw'(2,3) assms(7) unfolding mine by (intro exI [of _ srv'] exI [of _ "socket_bytes srv s rs"] exI [of _ gw']) simp
qed

text \<open>
  C13: The responses of the matching engine reach the trade engines of their clients.  A pass of the order server over its queue of responses to
  any number of clients appends to the buffer of a client's connection the responses to this client, in order, and no others;
  however these bytes are cut into reads, the client's gateway, if it expects the server's next number, forwards all of
  them to its trade engine and then expects the server's next number again.
\<close>

theorem responses_reach_client:
  assumes "lfq_inv (outgoing_responses srv)" and "lfq_items (outgoing_responses srv) = rs" and "can_send srv rs"
    and "c = unat (gw_client_id gw)" and "arr_get (cid_tcp_socket srv) c = Some s"
    and "\<forall>d<arr_size (cid_tcp_socket srv). arr_get (cid_tcp_socket srv) d = Some s \<longrightarrow> d = c"
    and "next_exp_seq_num gw = arr_get (cid_next_outgoing_seq_num srv) c" and "lfq_inv (gw_incoming_responses gw)"
    and "length (lfq_items (gw_incoming_responses gw)) + length rs \<le> lfq_cap (gw_incoming_responses gw)" and "\<forall>r\<in>set rs. is_int64 (rsp_price r)"
  shows "\<exists>srv' bytes gw'. send_responses (length rs) srv = Inr srv' \<and> lfq_items (outgoing_responses srv') = [] \<and>
     pending_out (tcp_sockets (tcp_server srv') s) = pending_out (tcp_sockets (tcp_server srv) s) @ bytes \<and>
     (\<forall>reads. concat reads = bytes \<longrightarrow>
        frames_reads sizeof_OMClientResponse (\<lambda>m gw. Inr (handle_response (decode_response m) gw)) reads gw = Inr ([], gw')) \<and>
     lfq_items (gw_incoming_responses gw') = lfq_items (gw_incoming_responses gw) @ filter (\<lambda>r. rsp_client_id r = gw_client_id gw) rs \<and>
     next_exp_seq_num gw' = arr_get (cid_next_outgoing_seq_num srv') c"
  using responses_run [OF assms] .

text \<open>A response to the client and one to another.\<close>

theorem responses_reach_client_witness:
  "\<exists>srv' bytes gw'. send_responses 2 (two_client_server\<lparr>outgoing_responses := fold lfq_push [ack\<lparr>rsp_client_id := 0\<rparr>, ack] (LFQueue_new 4 ack)\<rparr>) = Inr srv' \<and>
     pending_out (tcp_sockets (tcp_server srv') 1) = bytes \<and>
     frames_reads sizeof_OMClientResponse (\<lambda>m gw. Inr (handle_response (decode_response m) gw)) [take 5 bytes, drop 5 bytes] a_gateway = Inr ([], gw') \<and>
     lfq_items (gw_incoming_responses gw') = [ack]"
proof -
  let ?rs = "[ack\<lparr>rsp_client_id := 0\<rparr>, ack]"
  let ?srv = "two_client_server\<lparr>outgoing_responses := fold lfq_push ?rs (LFQueue_new 4 ack)\<rparr>"
  have q: "lfq_inv (LFQueue_new 4 ack)" by (simp add: lfq_inv_new)
  have o: "lfq_inv (outgoing_responses ?srv)" "lfq_items (outgoing_responses ?srv) = ?rs" using lfq.push_all [OF q, of ?rs] by simp_all
  have a: "rsp_client_id ack = 1" "is_int64 (rsp_price ack)" by (simp_all add: ack_def is_int64_def)
  have "can_send two_client_server ?rs"
    by (rule two_client_server_sends) (simp_all add: a to_socket_def two_client_server_facts sizeof_OMClientResponse_def)
  then have send: "can_send ?srv ?rs" by simp
  obtain srv' bytes gw' where r: "send_responses 2 ?srv = Inr srv'" "pending_out (tcp_sockets (tcp_server srv') 1) = bytes"
    "\<forall>reads. concat reads = bytes \<longrightarrow>
        frames_reads sizeof_OMClientResponse (\<lambda>m gw. Inr (handle_response (decode_response m) gw)) reads a_gateway = Inr ([], gw')"
    "lfq_items (gw_incoming_responses gw') = [ack]"
    using responses_reach_client [OF o send, of 1 a_gateway 1] q a_gateway_inbound two_client_server_facts fresh_socket a
    by (auto simp: numeral_2_eq_2 simp del: send_responses.simps)
  then show ?thesis by (intro exI [of _ srv'] exI [of _ bytes] exI [of _ gw']) simp
qed

section \<open>Orders from the client to the exchange and back\<close>

text \<open>
  C5: Every order is answered.  The gateway of a client sends the request its trade engine has queued; the order server reads it, in whatever
  pieces, and publishes it; the matching engine, which shares its queues with the order server, serves it; the order server sends
  the responses and the gateway reads them, in whatever pieces.  No step fails, the books are those of the specification, and the trade
  engine of the client finds in its queue exactly the responses to it that the specification prescribes, in order.
\<close>

theorem order_round_trip:
  assumes gateway: "gw_ok gw" "0 \<le> socket_fd (gw_tcp_socket gw)" "sends_fit sends 0" "SendFailed \<notin> set sends"
    "pending_out (gw_tcp_socket gw) = []" "sizeof_OMClientRequest \<le> length (outbound_data (gw_tcp_socket gw))"
    "lfq_items (gw_outgoing_requests gw) = [r]" "req_client_id r = gw_client_id gw" "is_int64 (req_price r)"
    and server: "c = unat (gw_client_id gw)" "client_ok s c (next_outgoing_seq_num gw) srv" "arr_get (cid_tcp_socket srv) c = Some s"
    "\<forall>d<arr_size (cid_tcp_socket srv). arr_get (cid_tcp_socket srv) d = Some s \<longrightarrow> d = c"
    "pending_size (fifo_sequencer srv) = 0" "1 \<le> arr_size (pending_client_requests (fifo_sequencer srv))" "std_sort srt"
    and engine: "incoming_requests e = seq_incoming_requests (fifo_sequencer srv)" "outgoing_ogw_responses e = outgoing_responses srv"
    "lfq_inv (incoming_requests e)" "lfq_items (incoming_requests e) = []" "1 \<le> lfq_cap (incoming_requests e)"
    "lfq_inv (outgoing_ogw_responses e)" "lfq_items (outgoing_ogw_responses e) = []" "lfq_inv (outgoing_md_updates e)"
    "engine_rel N M e E" "admissible N M r e E" "t = unat (req_ticker_id r)" "(A', ev) = spec_request r (E t)"
    "length (responses_of ev) \<le> lfq_cap (outgoing_ogw_responses e)"
    "length (lfq_items (outgoing_md_updates e)) + length (updates_of ev) \<le> lfq_cap (outgoing_md_updates e)"
    and answer: "can_send srv (responses_of ev)" "next_exp_seq_num gw = arr_get (cid_next_outgoing_seq_num srv) c"
    "lfq_inv (gw_incoming_responses gw)"
    "length (lfq_items (gw_incoming_responses gw)) + length (responses_of ev) \<le> lfq_cap (gw_incoming_responses gw)"
    "\<forall>x\<in>set (responses_of ev). is_int64 (rsp_price x)"
  shows "\<exists>gw1 out bytes srv1 srv2 e' srv3 bytes' gw2.
     gateway_run_once [] sends gw = Inr (gw1, out) \<and> out @ pending_out (gw_tcp_socket gw1) = bytes \<and>
     (\<forall>reads. concat reads = bytes \<longrightarrow>
        frames_reads sizeof_OMClientRequest (\<lambda>m. handle_request s now (decode_request m)) reads srv = Inr ([], srv1)) \<and>
     recvFinishedCallback srt srv1 = Inr srv2 \<and>
     me_run_once (e\<lparr>incoming_requests := seq_incoming_requests (fifo_sequencer srv2)\<rparr>) = Inr e' \<and> engine_rel N M e' (E(t := A')) \<and>
     send_responses (length (responses_of ev)) (srv2\<lparr>outgoing_responses := outgoing_ogw_responses e'\<rparr>) = Inr srv3 \<and>
     pending_out (tcp_sockets (tcp_server srv3) s) = pending_out (tcp_sockets (tcp_server srv) s) @ bytes' \<and>
     (\<forall>reads. concat reads = bytes' \<longrightarrow>
        frames_reads sizeof_OMClientResponse (\<lambda>m gw. Inr (handle_response (decode_response m) gw)) reads gw1 = Inr ([], gw2)) \<and>
     lfq_items (gw_incoming_responses gw2) =
       lfq_items (gw_incoming_responses gw) @ filter (\<lambda>x. rsp_client_id x = gw_client_id gw) (responses_of ev)"
proof -
  let ?k = "next_outgoing_seq_num gw" and ?bytes = "request_bytes (next_outgoing_seq_num gw) [r]"
  obtain gw1 out where gw1: "gateway_run_once [] sends gw = Inr (gw1, out)" "same_inbound gw gw1" "out @ pending_out (gw_tcp_socket gw1) = ?bytes"
    using gateway_pass [OF gateway(1,2) _ gateway(4)] gateway(3,5-7) by auto
  obtain srv1 where srv1: "recv_requests s now ?bytes srv = Inr ([], srv1)" "only_client s c srv srv1"
    "pending (fifo_sequencer srv1) = [\<lparr>recv_time = now, rt_request = r\<rparr>]"
    using recv_numbered [OF server(2), of "[r]" now] gateway(8,9) server(1,5,6) by (auto simp: request_bytes_def pending_def)
  have reads: "frames_reads sizeof_OMClientRequest (\<lambda>m. handle_request s now (decode_request m)) reads srv = Inr ([], srv1)"
    if "concat reads = ?bytes" for reads
    using srv1(1) that by (simp add: frames_reads_concat sizeof_OMClientRequest_def recv_requests_def)
  define srv2 where "srv2 = srv1\<lparr>fifo_sequencer := sequenceAndPublish srt (fifo_sequencer srv1)\<rparr>"
  let ?e = "e\<lparr>incoming_requests := seq_incoming_requests (fifo_sequencer srv2)\<rparr>"
  have "seq_incoming_requests (fifo_sequencer srv2) = lfq_push r (incoming_requests e)"
    using publish_single [OF server(7) srv1(3)] srv1(2) engine(1) by (simp add: srv2_def only_client_def)
  then have q: "lfq_inv (incoming_requests ?e)" "lfq_items (incoming_requests ?e) = r # []"
    using lfq.push_all [OF engine(3), of "[r]"] engine(4,5) by simp_all
  have rel: "engine_rel N M ?e E" "admissible N M r ?e E" using engine(9,10) by (simp_all add: engine_rel_def admissible_def)
  obtain e' where e': "me_run_once ?e = Inr e'" "engine_rel N M e' (E(t := A'))"
    "lfq_items (outgoing_ogw_responses e') = responses_of ev" "lfq_inv (outgoing_ogw_responses e')"
    using engine_pass [OF rel q engine(11,12)] engine(6-8,13,14) by auto
  let ?srv = "srv2\<lparr>outgoing_responses := outgoing_ogw_responses e'\<rparr>"
  have same: "tcp_server ?srv = tcp_server srv" "cid_next_outgoing_seq_num ?srv = cid_next_outgoing_seq_num srv"
    "arr_size (cid_tcp_socket ?srv) = arr_size (cid_tcp_socket srv)" "arr_get (cid_tcp_socket ?srv) d = arr_get (cid_tcp_socket srv) d" for d
    using srv1(2) server(3) by (cases "d = c"; simp add: srv2_def only_client_def)+
  have "to_socket ?srv = to_socket srv" unfolding to_socket_def fun_eq_iff same by simp
  then have send: "can_send ?srv (responses_of ev)" using answer(1) unfolding can_send_def same by simp
  have cl: "gw_client_id gw1 = gw_client_id gw" "gw_incoming_responses gw1 = gw_incoming_responses gw" "next_exp_seq_num gw1 = next_exp_seq_num gw"
    using gw1(2) by (simp_all add: same_inbound_def)
  obtain srv3 bytes' gw2 where a: "send_responses (length (responses_of ev)) ?srv = Inr srv3"
    "pending_out (tcp_sockets (tcp_server srv3) s) = pending_out (tcp_sockets (tcp_server srv) s) @ bytes'"
    "\<forall>reads. concat reads = bytes' \<longrightarrow>
        frames_reads sizeof_OMClientResponse (\<lambda>m gw. Inr (handle_response (decode_response m) gw)) reads gw1 = Inr ([], gw2)"
    "lfq_items (gw_incoming_responses gw2) =
       lfq_items (gw_incoming_responses gw) @ filter (\<lambda>x. rsp_client_id x = gw_client_id gw) (responses_of ev)"
    using responses_run [OF _ _ send, of c gw1 s] e'(3,4) server(1,3,4) answer(2-5) unfolding same cl by auto
  have "recvFinishedCallback srt srv1 = Inr srv2" by (simp add: recvFinishedCallback_def srv2_def)
  then show ?thesis using gw1(1,3) reads e'(1,2) a by blast
qed

text \<open>The first client offers five at ten to an exchange with an empty book, and is told so.\<close>

theorem order_round_trip_witness:
  "\<exists>gw1 out bytes srv1 srv2 e' srv3 bytes' gw2.
     gateway_run_once [] [] (a_gateway\<lparr>gw_outgoing_requests := lfq_push (new_request 1 2 SELL 10 5) (LFQueue_new 4 (a_client_request 0))\<rparr>) = Inr (gw1, out) \<and>
     out @ pending_out (gw_tcp_socket gw1) = bytes \<and>
     frames_reads sizeof_OMClientRequest (\<lambda>m. handle_request 1 9 (decode_request m)) [take 3 bytes, drop 3 bytes] two_client_server = Inr ([], srv1) \<and>
     recvFinishedCallback (sort_key recv_time) srv1 = Inr srv2 \<and>
     me_run_once (small_engine\<lparr>outgoing_ogw_responses := LFQueue_new 4 ack, incoming_requests := seq_incoming_requests (fifo_sequencer srv2)\<rparr>) = Inr e' \<and>
     send_responses 1 (srv2\<lparr>outgoing_responses := outgoing_ogw_responses e'\<rparr>) = Inr srv3 \<and>
     pending_out (tcp_sockets (tcp_server srv3) 1) = bytes' \<and>
     frames_reads sizeof_OMClientResponse (\<lambda>m gw. Inr (handle_response (decode_response m) gw)) [bytes'] gw1 = Inr ([], gw2) \<and>
     map rsp_type (lfq_items (gw_incoming_responses gw2)) = [ACCEPTED]"
proof -
  let ?r = "new_request 1 2 SELL 10 5" and ?q = "LFQueue_new 4 (a_client_request 0)"
  let ?gw = "a_gateway\<lparr>gw_outgoing_requests := lfq_push ?r ?q\<rparr>"
  let ?e = "small_engine\<lparr>outgoing_ogw_responses := LFQueue_new 4 ack, incoming_requests := seq_incoming_requests a_sequencer\<rparr>"
  let ?ev = "snd (spec_request ?r empty_book)"
  have rsp: "responses_of ?ev = [\<lparr>rsp_type = ACCEPTED, rsp_client_id = 1, rsp_ticker_id = 0, rsp_client_order_id = 2, rsp_market_order_id = 1,
      rsp_side = SELL, rsp_price = 10, rsp_exec_qty = 0, rsp_leaves_qty = 5\<rparr>]"
    by (simp add: spec_request_def new_request_def spec_add_def empty_book_def next_priority_def)
  have inv: "lfq_inv (LFQueue_new 4 ack)" "lfq_inv ?q" "lfq_inv (LFQueue_new 4 (a_request 0))" by (simp_all add: lfq_inv_new)
  have gq: "lfq_inv (lfq_push ?r ?q)" "lfq_items (lfq_push ?r ?q) = [?r]" using lfq.push_all [OF inv(2), of "[?r]"] by simp_all
  have gw: "gw_ok ?gw" "0 \<le> socket_fd (gw_tcp_socket ?gw)" "sends_fit [] 0" "SendFailed \<notin> set []" "pending_out (gw_tcp_socket ?gw) = []"
    "sizeof_OMClientRequest \<le> length (outbound_data (gw_tcp_socket ?gw))" "lfq_items (gw_outgoing_requests ?gw) = [?r]"
    "req_client_id ?r = gw_client_id ?gw" "is_int64 (req_price ?r)"
    using a_gateway_facts a_gateway_inbound gq by (simp_all add: gw_ok_def sizeof_OMClientRequest_def new_request_def is_int64_def)
  have sv: "(1 :: nat) = unat (gw_client_id ?gw)" "client_ok 1 1 (next_outgoing_seq_num ?gw) two_client_server"
    "arr_get (cid_tcp_socket two_client_server) 1 = Some 1"
    "\<forall>d<arr_size (cid_tcp_socket two_client_server). arr_get (cid_tcp_socket two_client_server) d = Some 1 \<longrightarrow> d = 1"
    "pending_size (fifo_sequencer two_client_server) = 0" "1 \<le> arr_size (pending_client_requests (fifo_sequencer two_client_server))"
    "std_sort (sort_key recv_time)"
    using two_client_server_facts(1) by (simp_all add: two_client_server_facts(3-) a_gateway_facts a_gateway_inbound a_sequencer_facts std_sort_key)
  have en: "incoming_requests ?e = seq_incoming_requests (fifo_sequencer two_client_server)"
    "outgoing_ogw_responses ?e = outgoing_responses two_client_server"
    "lfq_inv (incoming_requests ?e)" "lfq_items (incoming_requests ?e) = []" "1 \<le> lfq_cap (incoming_requests ?e)"
    "lfq_inv (outgoing_ogw_responses ?e)" "lfq_items (outgoing_ogw_responses ?e) = []" "lfq_inv (outgoing_md_updates ?e)"
    "engine_rel 4 8 ?e (\<lambda>_. empty_book)" "admissible 4 8 ?r ?e (\<lambda>_. empty_book)" "0 = unat (req_ticker_id ?r)"
    "(fst (spec_request ?r empty_book), ?ev) = spec_request ?r empty_book" "length (responses_of ?ev) \<le> lfq_cap (outgoing_ogw_responses ?e)"
    "length (lfq_items (outgoing_md_updates ?e)) + length (updates_of ?ev) \<le> lfq_cap (outgoing_md_updates ?e)"
    using small_engine_rel small_admissible inv
    by (simp_all add: two_client_server_facts(3-) a_sequencer_facts small_engine_queues small_engine_messages engine_rel_def admissible_def
        ) (simp add: new_request_def)
  have an: "can_send two_client_server (responses_of ?ev)" "next_exp_seq_num ?gw = arr_get (cid_next_outgoing_seq_num two_client_server) 1"
    "lfq_inv (gw_incoming_responses ?gw)"
    "length (lfq_items (gw_incoming_responses ?gw)) + length (responses_of ?ev) \<le> lfq_cap (gw_incoming_responses ?gw)"
    "\<forall>x\<in>set (responses_of ?ev). is_int64 (rsp_price x)"
    using inv by (simp_all add: two_client_server_sends rsp sizeof_OMClientResponse_def two_client_server_facts(3) a_gateway_inbound is_int64_def)
  obtain gw1 out bytes srv1 srv2 e' srv3 bytes' gw2 where
    "gateway_run_once [] [] ?gw = Inr (gw1, out)" "out @ pending_out (gw_tcp_socket gw1) = bytes"
    "\<forall>reads. concat reads = bytes \<longrightarrow>
        frames_reads sizeof_OMClientRequest (\<lambda>m. handle_request 1 9 (decode_request m)) reads two_client_server = Inr ([], srv1)"
    "recvFinishedCallback (sort_key recv_time) srv1 = Inr srv2"
    "me_run_once (?e\<lparr>incoming_requests := seq_incoming_requests (fifo_sequencer srv2)\<rparr>) = Inr e'"
    "send_responses (length (responses_of ?ev)) (srv2\<lparr>outgoing_responses := outgoing_ogw_responses e'\<rparr>) = Inr srv3"
    "pending_out (tcp_sockets (tcp_server srv3) 1) = pending_out (tcp_sockets (tcp_server two_client_server) 1) @ bytes'"
    "\<forall>reads. concat reads = bytes' \<longrightarrow>
        frames_reads sizeof_OMClientResponse (\<lambda>m gw. Inr (handle_response (decode_response m) gw)) reads gw1 = Inr ([], gw2)"
    "lfq_items (gw_incoming_responses gw2) = lfq_items (gw_incoming_responses ?gw) @ filter (\<lambda>x. rsp_client_id x = gw_client_id ?gw) (responses_of ?ev)"
    using order_round_trip [OF gw sv en an, of 9] by (elim exE conjE) (rule that)
  then show ?thesis
    by (intro exI [of _ gw1] exI [of _ out] exI [of _ bytes] exI [of _ srv1] exI [of _ srv2] exI [of _ e']
        exI [of _ srv3] exI [of _ bytes'] exI [of _ gw2])
      (simp add: rsp two_client_server_facts(2) fresh_socket a_gateway_inbound small_engine_messages del: send_responses.simps)
qed

section \<open>Market data from the exchange to the client\<close>

text \<open>
  the client's book follows the exchange.  The matching engine serves the request at the head of its
  queue, the publisher sends the updates it finds in the engine's queue, the consumer of a client
  receives the datagram, and the client's order book processes what the consumer has queued for it.  If
  the client's book showed the exchange's book of the instrument before, no step fails and it shows the
  exchange's book after the request: the same orders, in the same priority, with the same quantities,
  and the same best bid and offer.  Consumer and publisher stay in step, so that the next request can follow.
\<close>

theorem client_book_follows_exchange:
  assumes engine: "engine_rel N M e E" "admissible N M r e E"
    "lfq_inv (incoming_requests e)" "lfq_items (incoming_requests e) = r # rs" "t = unat (req_ticker_id r)" "(A', ev) = spec_request r (E t)"
    "lfq_inv (outgoing_ogw_responses e)" "lfq_inv (outgoing_md_updates e)"
    "length (lfq_items (outgoing_ogw_responses e)) + length (responses_of ev) \<le> lfq_cap (outgoing_ogw_responses e)"
    "length (lfq_items (outgoing_md_updates e)) + length (updates_of ev) \<le> lfq_cap (outgoing_md_updates e)"
    "lfq_items (outgoing_md_updates e) = []"
    and publisher: "lfq_inv (snapshot_md_updates p)" "mc_next_send_valid_index (incremental_socket p) = 0"
    "length (lfq_items (snapshot_md_updates p)) + length (updates_of ev) \<le> lfq_cap (snapshot_md_updates p)"
    "length (updates_of ev) * sizeof_MDPMarketUpdate < length (mc_outbound_data (incremental_socket p))"
    and consumer: "\<not> in_recovery c" "mc_socket_fd (incremental_mcast_socket c) \<noteq> mc_socket_fd (snapshot_mcast_socket c)"
    "can_recv (incremental_mcast_socket c) (length (updates_of ev) * sizeof_MDPMarketUpdate)"
    "\<forall>u\<in>set (updates_of ev). is_int64 (upd_price u)" "lfq_inv (con_md_updates c)"
    "length (lfq_items (con_md_updates c)) + length (updates_of ev) \<le> lfq_cap (con_md_updates c)"
    "lfq_items (con_md_updates c) = []" "next_exp_inc_seq_num c = next_inc_seq_num p"
    and client: "mob_rel K mb (book_view (E t))" "req_type r = Request_NEW \<Longrightarrow> client_room K mb (E t) (req_price r)"
  shows "\<exists>e' p' datagram c' mb'. me_run_once e = Inr e' \<and>
     publisher_run_once [] (p\<lparr>pub_outgoing_md_updates := outgoing_md_updates e'\<rparr>) = Inr (p', datagram) \<and>
     consumer_recv sub False datagram c = Inr c' \<and> rfold client_apply (lfq_items (con_md_updates c')) mb = Inr mb' \<and>
     engine_rel N M e' (E(t := A')) \<and> mob_rel K mb' (book_view A') \<and>
     lfq_items (pub_outgoing_md_updates p') = [] \<and> \<not> in_recovery c' \<and> next_exp_inc_seq_num c' = next_inc_seq_num p'"
proof -
  obtain e' where e': "me_run_once e = Inr e'" "engine_rel N M e' (E(t := A'))" "lfq_inv (outgoing_md_updates e')"
    "lfq_items (outgoing_md_updates e') = updates_of ev"
    using engine_pass [OF engine(1-10)] engine(11) by auto
  let ?p = "p\<lparr>pub_outgoing_md_updates := outgoing_md_updates e'\<rparr>"
  obtain p' where p': "publisher_run_once [] ?p = Inr (p', encode_all (mdp_numbered (next_inc_seq_num p) (updates_of ev)))"
    "lfq_items (pub_outgoing_md_updates p') = []" "next_inc_seq_num p' = next_inc_seq_num p + of_nat (length (updates_of ev))"
    using publisher_pass [of ?p "updates_of ev"] e'(3,4) publisher by auto
  obtain c' where c': "consumer_recv sub False (encode_all (mdp_numbered (next_inc_seq_num p) (updates_of ev))) c = Inr c'"
    "lfq_items (con_md_updates c') = updates_of ev" "next_exp_inc_seq_num c' = next_inc_seq_num p'" "\<not> in_recovery c'"
    using forward_run [OF consumer(1-6), of sub] consumer(7,8) p'(3) by auto
  have "t < arr_size (ticker_order_book e)" "req_type r = Request_NEW \<Longrightarrow> req_side r \<in> {BUY, SELL}"
    using engine(2,5) by (auto simp: admissible_def can_add_def Let_def)
  moreover have "A' = fst (spec_request r (E t))" "ev = snd (spec_request r (E t))" using engine(6) by (auto simp: prod_eq_iff)
  ultimately obtain mb' where "rfold client_apply (updates_of ev) mb = Inr mb'" "mob_rel K mb' (book_view A')"
    using replica_request [of N M "arr_get (ticker_order_book e) t" "E t" K mb r] engine(1) client by (auto simp: engine_rel_def)
  then show ?thesis using e' p' c' by auto
qed

theorem client_book_follows_exchange_witness:
  "\<exists>e' p' datagram c' mb'. me_run_once small_engine = Inr e' \<and>
     publisher_run_once [] (a_publisher\<lparr>pub_outgoing_md_updates := outgoing_md_updates e'\<rparr>) = Inr (p', datagram) \<and>
     consumer_recv (4, True) False datagram a_consumer = Inr c' \<and>
     rfold client_apply (lfq_items (con_md_updates c')) (MarketOrderBook_new small_limits 0) = Inr mb' \<and>
     mob_rel 8 mb' (book_view offer_book)"
proof -
  let ?r = "new_request 1 2 SELL 10 5" and ?mb = "MarketOrderBook_new small_limits 0"
  have s: "(offer_book, snd (spec_request ?r empty_book)) = spec_request ?r empty_book"
    by (simp add: spec_request_def new_request_def offer_book_def)
  have mb: "mob_rel 8 ?mb (book_view empty_book)" "client_room 8 ?mb empty_book (req_price ?r)"
    using mob_rel_new [of small_limits 0]
    by (simp_all add: small_limits_def book_view_def client_room_def empty_book_def ab_orders_def MarketOrderBook_new_def)
  have q: "lfq_inv (LFQueue_new 4 MDPMarketUpdate_default)" "lfq_inv (LFQueue_new 8 MEMarketUpdate_default)"
    by (simp_all add: lfq_inv_new)
  show ?thesis
    using client_book_follows_exchange [OF small_engine_rel small_admissible small_engine_queues(1,2) refl s small_engine_queues(3,4),
        of a_publisher a_consumer 8 ?mb "(4, True)"] mb q
    by (auto simp: small_engine_messages small_engine_queues a_publisher_def a_consumer_def can_recv_def mcast_init_def
        McastSocket_new_def sizeof_MDPMarketUpdate_def is_int64_def)
qed

text \<open>
  The incremental feed arrives complete.  When the consumer expects the number the publisher uses next,
  a pass of the publisher and the receipt of its datagram put exactly the published updates, in
  order, into the queue of the trade engine; the consumer again expects the publisher's next number and the snapshot
  synthesizer has the same updates with their numbers in its queue.
\<close>

theorem feed_in_sync:
  assumes "lfq_inv (pub_outgoing_md_updates p)" and "lfq_inv (snapshot_md_updates p)"
    and "us = lfq_items (pub_outgoing_md_updates p)"
    and "length (lfq_items (snapshot_md_updates p)) + length us \<le> lfq_cap (snapshot_md_updates p)"
    and "mc_next_send_valid_index (incremental_socket p) = 0"
    and "length us * sizeof_MDPMarketUpdate < length (mc_outbound_data (incremental_socket p))"
    and "\<not> in_recovery c" and "next_exp_inc_seq_num c = next_inc_seq_num p"
    and "mc_socket_fd (incremental_mcast_socket c) \<noteq> mc_socket_fd (snapshot_mcast_socket c)"
    and "can_recv (incremental_mcast_socket c) (length us * sizeof_MDPMarketUpdate)" and "\<forall>u\<in>set us. is_int64 (upd_price u)"
    and "lfq_inv (con_md_updates c)" and "length (lfq_items (con_md_updates c)) + length us \<le> lfq_cap (con_md_updates c)"
  shows "\<exists>p' datagram c'. publisher_run_once [] p = Inr (p', datagram) \<and> consumer_recv sub False datagram c = Inr c' \<and>
     lfq_items (pub_outgoing_md_updates p') = [] \<and> lfq_items (con_md_updates c') = lfq_items (con_md_updates c) @ us \<and>
     lfq_items (snapshot_md_updates p') = lfq_items (snapshot_md_updates p) @ mdp_numbered (next_inc_seq_num p) us \<and>
     next_exp_inc_seq_num c' = next_inc_seq_num p' \<and> \<not> in_recovery c'"
  using publisher_pass [OF assms(1-6)] forward_run [OF assms(7,9-13), of sub] assms(8) by auto

text \<open>
  C11: Recovery ends with the state of the exchange.  A consumer in recovery that holds the increments after
  the synthesizer's last one and receives the datagrams of one snapshot cycle forwards the live orders of
  the synthesizer's table, instrument by instrument, then those increments, and leaves recovery
  expecting the number after the last of them.
\<close>

theorem recovery_from_snapshot:
  assumes "syn_rel T N S A" and "mc_next_send_valid_index (snapshot_socket S) = 0"
    and "(T + 2) * sizeof_MDPMarketUpdate < length (mc_outbound_data (snapshot_socket S))"
    and "n = last_inc_seq_num S" and "in_recovery c" and "snapshot_queued_msgs c = []"
    and "can_recv (snapshot_mcast_socket c) (length (mc_outbound_data (snapshot_socket S)))"
    and "incremental_queued_msgs c = old @ qpairs (mdp_numbered (n + 1) us)" and "\<forall>x\<in>set old. fst x \<le> n"
    and "\<forall>u\<in>set (cycle_body T N A @ us). \<not> is_marker u \<and> is_int64 (upd_price u)" and "unat n + 1 < 2 ^ 64"
    and "length (cycle_body T N A) + 1 < 2 ^ 64" and "lfq_inv (con_md_updates c)"
    and "length (lfq_items (con_md_updates c)) + length (cycle_body T N A) + length us \<le> lfq_cap (con_md_updates c)"
  shows "\<exists>S' datagrams c'. publishSnapshot S = Inr (S', datagrams) \<and> rfold (consumer_recv sub True) datagrams c = Inr c' \<and>
     lfq_items (con_md_updates c') = lfq_items (con_md_updates c) @ cycle_body T N A @ us \<and>
     next_exp_inc_seq_num c' = n + 1 + of_nat (length us) \<and> \<not> in_recovery c'"
proof -
  obtain S' mss where s: "publishSnapshot S = Inr (S', map encode_all mss)" "concat mss = mdp_numbered 0 (cycle_messages T N n A)"
    "\<forall>ms\<in>set mss. length ms * sizeof_MDPMarketUpdate \<le> length (mc_outbound_data (snapshot_socket S))"
    using cycle_run [OF assms(1-3)] assms(4) by auto
  have "\<forall>ms\<in>set mss. can_recv (snapshot_mcast_socket c) (length ms * sizeof_MDPMarketUpdate)"
    using s(3) can_recv_mono [OF assms(7)] by blast
  from recover_run [OF assms(5,6) s(2) [unfolded cycle_messages_def] this assms(8-14)]
  obtain c' where "rfold (\<lambda>ms. consumer_recv sub True (encode_all ms)) mss c = Inr c'"
    "lfq_items (con_md_updates c') = lfq_items (con_md_updates c) @ cycle_body T N A @ us"
    "next_exp_inc_seq_num c' = n + 1 + of_nat (length us)" "\<not> in_recovery c'" by blast
  then show ?thesis using s(1) by (auto simp: rfold_map)
qed

theorem feed_in_sync_witness:
  "\<exists>p' datagram c'. publisher_run_once [] a_publisher = Inr (p', datagram) \<and> consumer_recv (4, True) False datagram a_consumer = Inr c' \<and>
     lfq_items (con_md_updates c') = [an_update ADD 1 10 5] \<and> next_exp_inc_seq_num c' = next_inc_seq_num p'"
proof -
  let ?q = "LFQueue_new 4 MEMarketUpdate_default"
  have q: "lfq_inv ?q" "lfq_inv (LFQueue_new 4 MDPMarketUpdate_default)" "lfq_inv (LFQueue_new 8 MEMarketUpdate_default)"
    by (simp_all add: lfq_inv_new)
  have p: "lfq_inv (fold lfq_push [an_update ADD 1 10 5] ?q)" "lfq_items (fold lfq_push [an_update ADD 1 10 5] ?q) = [an_update ADD 1 10 5]"
    using lfq.push_all [OF q(1), of "[an_update ADD 1 10 5]"] by simp_all
  show ?thesis
    using feed_in_sync [of a_publisher "[an_update ADD 1 10 5]" a_consumer "(4, True)"] p q
    by (auto simp: a_publisher_def a_consumer_def can_recv_def mcast_init_def McastSocket_new_def sizeof_MDPMarketUpdate_def)
qed

theorem recovery_from_snapshot_witness:
  "\<exists>S' datagrams c'. publishSnapshot a_synthesizer = Inr (S', datagrams) \<and>
     rfold (consumer_recv (4, True) True) datagrams
       (a_consumer\<lparr>in_recovery := True, snapshot_mcast_socket := McastSocket_new 200,
          incremental_queued_msgs := [(1, an_update ADD 1 10 5)]\<rparr>) = Inr c' \<and>
     lfq_items (con_md_updates c') = [clear_update 0, an_update ADD 1 10 5] \<and> \<not> in_recovery c'"
proof -
  have b: "cycle_body 1 8 (\<lambda>_ _. None) = [clear_update 0]" by (simp add: cycle_body_def table_orders_def List.map_filter_def)
  have k: "\<not> is_marker (clear_update 0)" "is_int64 (upd_price (clear_update 0))" "\<not> is_marker (an_update ADD 1 10 5)"
    by (simp_all add: is_marker_def clear_update_def an_update_def MEMarketUpdate_default_def is_int64_def Price_INVALID_def)
  have s: "mc_next_send_valid_index (snapshot_socket a_synthesizer) = 0" "length (mc_outbound_data (snapshot_socket a_synthesizer)) = 200"
    by (simp_all add: a_synthesizer_def mcast_init_def McastSocket_new_def)
  show ?thesis
    using recovery_from_snapshot [OF a_synthesizer_rel, of 0
      "a_consumer\<lparr>in_recovery := True, snapshot_mcast_socket := McastSocket_new 200, incremental_queued_msgs := [(1, an_update ADD 1 10 5)]\<rparr>"
      "[]" "[an_update ADD 1 10 5]" "(4, True)"] k s a_synthesizer_sel
    by (auto simp: b [simplified] a_consumer_def can_recv_def McastSocket_new_def sizeof_MDPMarketUpdate_def lfq_inv_new)
qed

end
